(* ===== verification/Prelude.thy ===== *)
theory Prelude
  imports Main "HOL-Library.Word"
begin

text \<open>
  Shared vocabulary of the sbnix development: the machine integer types of
  \<^verbatim>\<open>include/sys/defs.h\<close>, the error values that stand for undefined behaviour of the C
  code, the bind of the resulting error monad, checked array accesses, and the
  generic lemmas on lists, words and options the component theories use.
\<close>

unbundle bit_operations_syntax

section \<open>Integer types\<close>

text \<open>
  The typedefs of \<^verbatim>\<open>include/sys/defs.h\<close>.  A signed type is the same word type read
  with \<^const>\<open>sint\<close>; pointers are 64-bit words and \<^verbatim>\<open>NULL\<close> is \<open>0\<close>.
\<close>

type_synonym u8 = "8 word"
type_synonym u16 = "16 word"
type_synonym u32 = "32 word"
type_synonym u64 = "64 word"
type_synonym ptr = "64 word"

named_theorems sb_defs \<open>definitions of kernel operations, unfolded together\<close>
named_theorems sb_frame \<open>frame facts: what an operation leaves unchanged\<close>

section \<open>Undefined behaviour as an error value\<close>

text \<open>
  Where the C code would index an array out of range, dereference a null pointer
  or overflow a signed integer, the model returns the error instead of a value;
  \<open>No_return\<close> stands for a call that does not come back to its caller, \<open>Unspecified\<close> for the use of a
  value that the code does not determine.
\<close>

datatype ub = Out_of_bounds | Null_deref | Signed_overflow | No_return | Unspecified

type_synonym 'a res = "ub + 'a"

definition bindr :: "'a res \<Rightarrow> ('a \<Rightarrow> 'b res) \<Rightarrow> 'b res" where
  "bindr m f = (case m of Inl e \<Rightarrow> Inl e | Inr x \<Rightarrow> f x)"

lemma bindr_simps [simp]:
  "bindr (Inl e) f = Inl e"
  "bindr (Inr x) f = f x"
  by (simp_all add: bindr_def)

lemma bindr_eq_Inr:
  "bindr m f = Inr y \<longleftrightarrow> (\<exists>x. m = Inr x \<and> f x = Inr y)"
  by (cases m) simp_all

lemma bindr_assoc: "bindr (bindr m f) g = bindr m (\<lambda>x. bindr (f x) g)"
  by (cases m) simp_all

definition of_option :: "'a option \<Rightarrow> 'a res" where
  "of_option m = (case m of None \<Rightarrow> Inl No_return | Some x \<Rightarrow> Inr x)"

lemma of_option_simps [simp]: "of_option None = Inl No_return" "of_option (Some x) = Inr x"
  by (simp_all add: of_option_def)

section \<open>Counted loops with an early exit\<close>

text \<open>\<open>n\<close> rounds from index \<open>i\<close> on; a body that answers \<open>Inl\<close> ends the loop.\<close>

fun for_loop :: "nat \<Rightarrow> nat \<Rightarrow> (nat \<Rightarrow> 's \<Rightarrow> 'e + 's) \<Rightarrow> 's \<Rightarrow> 'e + 's" where
  "for_loop 0 i f s = Inr s"
| "for_loop (Suc n) i f s = (case f i s of Inl e \<Rightarrow> Inl e | Inr s' \<Rightarrow> for_loop n (i + 1) f s')"

text \<open>An invariant that the body keeps and extends holds after the loop, which does not exit early.\<close>

lemma for_loop_inv:
  assumes "P i s" "\<And>k t. i \<le> k \<Longrightarrow> k < i + n \<Longrightarrow> P k t \<Longrightarrow> \<exists>u. f k t = Inr u \<and> P (Suc k) u"
  shows "\<exists>t. for_loop n i f s = Inr t \<and> P (i + n) t"
  using assms
proof (induction n arbitrary: i s)
  case (Suc n)
  obtain u where u: "f i s = Inr u" "P (Suc i) u" using Suc.prems(2) [of i s] Suc.prems(1) by auto
  have "\<exists>t. for_loop n (Suc i) f u = Inr t \<and> P (Suc i + n) t"
    using u(2) Suc.prems(2) by (intro Suc.IH) simp_all
  with u(1) show ?case by simp
qed auto

section \<open>Checked array accesses\<close>

definition rd :: "'a list \<Rightarrow> nat \<Rightarrow> 'a res" where
  "rd xs i = (if i < length xs then Inr (xs ! i) else Inl Out_of_bounds)"

definition wr :: "'a list \<Rightarrow> nat \<Rightarrow> 'a \<Rightarrow> 'a list res" where
  "wr xs i v = (if i < length xs then Inr (xs[i := v]) else Inl Out_of_bounds)"

lemma rd_in [simp]: "i < length xs \<Longrightarrow> rd xs i = Inr (xs ! i)"
  by (simp add: rd_def)

lemma rd_out [simp]: "length xs \<le> i \<Longrightarrow> rd xs i = Inl Out_of_bounds"
  by (simp add: rd_def)

lemma wr_in [simp]: "i < length xs \<Longrightarrow> wr xs i v = Inr (xs[i := v])"
  by (simp add: wr_def)

lemma wr_out [simp]: "length xs \<le> i \<Longrightarrow> wr xs i v = Inl Out_of_bounds"
  by (simp add: wr_def)

lemma rd_eq_Inr: "rd xs i = Inr v \<longleftrightarrow> i < length xs \<and> v = xs ! i"
  by (auto simp: rd_def)

lemma wr_eq_Inr: "wr xs i v = Inr ys \<longleftrightarrow> i < length xs \<and> ys = xs[i := v]"
  by (auto simp: wr_def)

section \<open>Words and naturals\<close>

lemma unat_of_nat_u64 [simp]: "n < 2 ^ 64 \<Longrightarrow> unat (of_nat n :: u64) = n"
  by (simp add: unat_of_nat take_bit_eq_mod)

lemma unat_times_u64: "k * unat a < 2 ^ 64 \<Longrightarrow> unat (of_nat k * (a :: u64)) = k * unat a"
  using unat_of_nat_u64 [of "k * unat a"] by simp

lemma sint_small_u32: "unat (x :: u32) < 2 ^ 31 \<Longrightarrow> sint x = int (unat x)"
proof -
  assume "unat x < 2 ^ 31"
  then have "int (unat x) < int (2 ^ 31)" by (simp only: of_nat_less_iff)
  then have "int (unat x) < 2 ^ 31" by (simp only: of_nat_power of_nat_numeral)
  then have "uint x < 2 ^ 31" by (simp only: of_nat_unat)
  then have "signed_take_bit 31 (uint x) = uint x"
    using uint_ge_0 [of x] by (intro signed_take_bit_int_eq_self) linarith+
  then show ?thesis by (simp add: sint_uint)
qed

lemma ucast_u16_u32_inject: "(ucast (a :: u16) :: u32) = ucast b \<longleftrightarrow> a = b"
  by transfer simp

lemma mod_shift_inject:
  assumes "(a + i) mod m = (a + j) mod m" "i < m" "j < (m :: nat)"
  shows "i = j"
proof -
  have "i' = j'" if "(a + i') mod m = (a + j') mod m" "i' \<le> j'" "j' < m" for i' j'
  proof -
    have "m dvd j' - i'" using that mod_eq_dvd_iff_nat [of "a + i'" "a + j'" m] by (simp add: eq_commute)
    moreover have "j' - i' < m" using that by simp
    ultimately have "j' - i' = 0" using nat_dvd_not_less by blast
    with that(2) show ?thesis by simp
  qed
  from this [of i j] this [of j i] assms show ?thesis by (cases "i \<le> j") auto
qed

lemma ceil_div:
  assumes "0 < m"
  shows "(x + (m - 1)) div m = x div m + (if x mod m > 0 then 1 else 0 :: nat)"
proof -
  obtain k where k: "m = Suc k" using assms gr0_implies_Suc by blast
  define q r where "q = x div m" and "r = x mod m"
  have x: "x = m * q + r" "r < m" using assms by (simp_all add: q_def r_def)
  then have "(x + (m - 1)) div m = ((r + k) + m * q) div m" using k by (simp add: add_ac)
  also have "\<dots> = q + (r + k) div m" using assms by (subst div_mult_self2) simp_all
  also have "(r + k) div m = (if r > 0 then 1 else 0)" using x(2) k by (auto intro!: div_nat_eqI)
  finally show ?thesis by (simp add: q_def r_def)
qed

end
