(* ===== verification/Queue_Intf.thy ===== *)
theory Queue_Intf
  imports Prelude
begin

text \<open>
  The contract the scheduler relies on when it uses linked queues: an abstraction
  \<open>rep h q xs\<close> from a heap and a queue head to the nodes of the queue, the laws of
  insertion at either end and of unlinking, and the frame laws for a second queue that
  shares no node.  Moving a node inside a queue, moving it between queues and the
  round-robin rotation are derived once, from the laws.
\<close>

definition apart :: "ptr \<Rightarrow> ptr list \<Rightarrow> ptr \<Rightarrow> ptr list \<Rightarrow> bool" where
  "apart q xs p ys \<longleftrightarrow> set (q # xs) \<inter> set (p # ys) = {}"

lemma apart_sym: "apart q xs p ys \<Longrightarrow> apart p ys q xs"
  by (auto simp: apart_def)

lemma apart_mono:
  "apart q xs p ys \<Longrightarrow> set xs' \<subseteq> set xs \<Longrightarrow> set ys' \<subseteq> set ys \<Longrightarrow> apart q xs' p ys'"
  by (auto simp: apart_def)

locale linked_queues =
  fixes rep :: "'h \<Rightarrow> ptr \<Rightarrow> ptr list \<Rightarrow> bool"
    and first :: "ptr \<Rightarrow> 'h \<Rightarrow> ptr"
    and final :: "ptr \<Rightarrow> 'h \<Rightarrow> ptr"
    and add :: "ptr \<Rightarrow> ptr \<Rightarrow> 'h \<Rightarrow> 'h"
    and add_tail :: "ptr \<Rightarrow> ptr \<Rightarrow> 'h \<Rightarrow> 'h"
    and unlink :: "ptr \<Rightarrow> 'h \<Rightarrow> 'h"
  assumes rep_distinct: "rep h q xs \<Longrightarrow> distinct (q # xs)"
    and rep_first: "rep h q xs \<Longrightarrow> first q h = (case xs of [] \<Rightarrow> q | x # _ \<Rightarrow> x)"
    and rep_final: "rep h q xs \<Longrightarrow> final q h = (if xs = [] then q else last xs)"
    and rep_add: "rep h q xs \<Longrightarrow> n \<notin> set (q # xs) \<Longrightarrow> rep (add n q h) q (n # xs)"
    and rep_add_tail:
      "rep h q xs \<Longrightarrow> n \<notin> set (q # xs) \<Longrightarrow> rep (add_tail n q h) q (xs @ [n])"
    and rep_unlink: "rep h q (xs @ n # ys) \<Longrightarrow> rep (unlink n h) q (xs @ ys)"
    and add_frame:
      "rep h q xs \<Longrightarrow> rep h p ys \<Longrightarrow> apart q xs p ys \<Longrightarrow> n \<notin> set (p # ys) \<Longrightarrow>
       rep (add n q h) p ys"
    and add_tail_frame:
      "rep h q xs \<Longrightarrow> rep h p ys \<Longrightarrow> apart q xs p ys \<Longrightarrow> n \<notin> set (p # ys) \<Longrightarrow>
       rep (add_tail n q h) p ys"
    and unlink_frame:
      "rep h q (xs @ n # zs) \<Longrightarrow> rep h p ys \<Longrightarrow> apart q (xs @ n # zs) p ys \<Longrightarrow>
       rep (unlink n h) p ys"
begin

lemma move_within:
  assumes "rep h q (xs @ n # ys)"
  shows "rep (add n q (unlink n h)) q (n # xs @ ys)"
  using rep_distinct [OF assms] by (auto intro!: rep_add rep_unlink assms)

lemma move_tail_within:
  assumes "rep h q (xs @ n # ys)"
  shows "rep (add_tail n q (unlink n h)) q (xs @ ys @ [n])"
  using rep_distinct [OF assms] rep_add_tail [OF rep_unlink [OF assms], of n] by auto

lemma move_between:
  assumes q: "rep h q (xs @ n # zs)" and p: "rep h p ys" and ap: "apart q (xs @ n # zs) p ys"
  shows "rep (add n p (unlink n h)) q (xs @ zs)"
    and "rep (add n p (unlink n h)) p (n # ys)"
    and "apart q (xs @ zs) p (n # ys)"
proof -
  note d = rep_distinct [OF q]
  have q': "rep (unlink n h) q (xs @ zs)" using q by (rule rep_unlink)
  have p': "rep (unlink n h) p ys" using q p ap by (rule unlink_frame)
  have ap': "apart p ys q (xs @ zs)" using ap by (auto simp: apart_def)
  have n: "n \<notin> set (p # ys)" "n \<notin> set (q # xs @ zs)" using ap d by (auto simp: apart_def)
  show "rep (add n p (unlink n h)) q (xs @ zs)" using p' q' ap' n(2) by (rule add_frame)
  show "rep (add n p (unlink n h)) p (n # ys)" using p' n(1) by (rule rep_add)
  show "apart q (xs @ zs) p (n # ys)" using ap' n(2) by (auto simp: apart_def)
qed

lemma move_within_frame:
  assumes q: "rep h q (xs @ n # zs)" and p: "rep h p ys" and ap: "apart q (xs @ n # zs) p ys"
  shows "rep (add n q (unlink n h)) p ys" and "rep (add_tail n q (unlink n h)) p ys"
proof -
  have q': "rep (unlink n h) q (xs @ zs)" using q by (rule rep_unlink)
  have p': "rep (unlink n h) p ys" using q p ap by (rule unlink_frame)
  have ap': "apart q (xs @ zs) p ys" using ap by (auto simp: apart_def)
  have n: "n \<notin> set (p # ys)" using ap by (auto simp: apart_def)
  show "rep (add n q (unlink n h)) p ys" using q' p' ap' n by (rule add_frame)
  show "rep (add_tail n q (unlink n h)) p ys" using q' p' ap' n by (rule add_tail_frame)
qed

text \<open>Moving the first node to the tail rotates the queue by one.\<close>

lemma rotate_step:
  assumes "rep h q xs" "xs \<noteq> []"
  shows "rep (add_tail (first q h) q (unlink (first q h) h)) q (rotate1 xs)"
proof -
  obtain y ys where xs: "xs = y # ys" using assms(2) by (cases xs) auto
  with assms(1) rep_first [OF assms(1)] move_tail_within [of h q "[]" y ys]
  show ?thesis by simp
qed

lemma rotate_steps:
  assumes "rep h q xs" "xs \<noteq> []"
  shows "rep (((\<lambda>h. add_tail (first q h) q (unlink (first q h) h)) ^^ k) h) q (rotate k xs)"
proof (induction k)
  case 0
  show ?case using assms by simp
next
  case (Suc k)
  have "rotate k xs \<noteq> []" using assms(2) by simp
  from rotate_step [OF Suc.IH this] show ?case by simp
qed

text \<open>Round robin: after \<open>Suc i\<close> rotations the node at position \<open>i\<close> is the last one.\<close>

lemma rotate_reaches:
  assumes "rep h q xs" "i < length xs"
  shows "final q (((\<lambda>h. add_tail (first q h) q (unlink (first q h) h)) ^^ Suc i) h) = xs ! i"
proof -
  from assms have ne: "xs \<noteq> []" by auto
  have rot: "rotate (Suc i) xs = drop (Suc i mod length xs) xs @ take (Suc i mod length xs) xs"
    by (simp add: rotate_drop_take)
  have "last (rotate (Suc i) xs) = xs ! i"
  proof (cases "Suc i < length xs")
    case True
    then show ?thesis unfolding rot by (simp add: take_Suc_conv_app_nth)
  next
    case False
    with assms(2) have "length xs = Suc i" by simp
    then show ?thesis unfolding rot using ne by (simp add: last_conv_nth)
  qed
  with rep_final [OF rotate_steps [OF assms(1) ne, of "Suc i"]] ne show ?thesis by simp
qed

end

end
