(* ===== verification/DList.thy ===== *)
theory DList
  imports Queue_Intf
begin

text \<open>
  The intrusive doubly linked lists of \<^verbatim>\<open>include/sys/list.h\<close>.  A \<^verbatim>\<open>struct list_head\<close>
  is identified with its address; the two fields are two maps from addresses to
  addresses, so that every pointer assignment of the C code is one map update, in the
  order of the code.  The predicate \<open>dlist h q xs\<close> says that the node at \<open>q\<close>
  heads a circular list holding the nodes \<open>xs\<close> in order; each operation is proved
  to act on \<open>xs\<close> as the comment above it in the source promises.
\<close>

section \<open>The pointer operations\<close>

record lheap =
  nxt :: "ptr \<Rightarrow> ptr"
  prv :: "ptr \<Rightarrow> ptr"

definition set_nxt :: "ptr \<Rightarrow> ptr \<Rightarrow> lheap \<Rightarrow> lheap" where
  "set_nxt p v h = h\<lparr>nxt := (nxt h)(p := v)\<rparr>"

definition set_prv :: "ptr \<Rightarrow> ptr \<Rightarrow> lheap \<Rightarrow> lheap" where
  "set_prv p v h = h\<lparr>prv := (prv h)(p := v)\<rparr>"

definition INIT_LIST_HEAD :: "ptr \<Rightarrow> lheap \<Rightarrow> lheap" where
  "INIT_LIST_HEAD l h = set_prv l l (set_nxt l l h)"

text \<open>\<^verbatim>\<open>__list_add\<close>: four assignments, in this order.\<close>

definition list_add_raw :: "ptr \<Rightarrow> ptr \<Rightarrow> ptr \<Rightarrow> lheap \<Rightarrow> lheap" where
  "list_add_raw new pr nx h =
     (let h1 = set_prv nx new h;
          h2 = set_nxt new nx h1;
          h3 = set_prv new pr h2
      in set_nxt pr new h3)"

definition list_add :: "ptr \<Rightarrow> ptr \<Rightarrow> lheap \<Rightarrow> lheap" where
  "list_add new q h = list_add_raw new q (nxt h q) h"

definition list_add_tail :: "ptr \<Rightarrow> ptr \<Rightarrow> lheap \<Rightarrow> lheap" where
  "list_add_tail new q h = list_add_raw new (prv h q) q h"

text \<open>\<^verbatim>\<open>__list_del\<close> and \<^verbatim>\<open>__list_del_entry\<close>.\<close>

definition list_del_raw :: "ptr \<Rightarrow> ptr \<Rightarrow> lheap \<Rightarrow> lheap" where
  "list_del_raw pr nx h = set_nxt pr nx (set_prv nx pr h)"

definition list_del_entry_raw :: "ptr \<Rightarrow> lheap \<Rightarrow> lheap" where
  "list_del_entry_raw e h = list_del_raw (prv h e) (nxt h e) h"

definition list_del :: "ptr \<Rightarrow> lheap \<Rightarrow> lheap" where
  "list_del e h = set_prv e 0 (set_nxt e 0 (list_del_raw (prv h e) (nxt h e) h))"

definition list_del_init :: "ptr \<Rightarrow> lheap \<Rightarrow> lheap" where
  "list_del_init e h = INIT_LIST_HEAD e (list_del_entry_raw e h)"

definition list_move :: "ptr \<Rightarrow> ptr \<Rightarrow> lheap \<Rightarrow> lheap" where
  "list_move l q h = list_add l q (list_del_entry_raw l h)"

definition list_move_tail :: "ptr \<Rightarrow> ptr \<Rightarrow> lheap \<Rightarrow> lheap" where
  "list_move_tail l q h = list_add_tail l q (list_del_entry_raw l h)"

definition list_empty :: "ptr \<Rightarrow> lheap \<Rightarrow> bool" where
  "list_empty q h \<longleftrightarrow> nxt h q = q"

definition list_is_singular :: "ptr \<Rightarrow> lheap \<Rightarrow> bool" where
  "list_is_singular q h \<longleftrightarrow> \<not> list_empty q h \<and> nxt h q = prv h q"

section \<open>Segments and circular lists\<close>

fun seg :: "lheap \<Rightarrow> ptr \<Rightarrow> ptr list \<Rightarrow> ptr \<Rightarrow> bool" where
  "seg h a [] b \<longleftrightarrow> nxt h a = b \<and> prv h b = a"
| "seg h a (x # xs) b \<longleftrightarrow> nxt h a = x \<and> prv h x = a \<and> seg h x xs b"

definition dlist :: "lheap \<Rightarrow> ptr \<Rightarrow> ptr list \<Rightarrow> bool" where
  "dlist h q xs \<longleftrightarrow> distinct (q # xs) \<and> seg h q xs q"

lemma set_nxt_sel [simp]:
  "nxt (set_nxt p v h) = (nxt h)(p := v)" "prv (set_nxt p v h) = prv h"
  by (simp_all add: set_nxt_def)

lemma set_prv_sel [simp]:
  "prv (set_prv p v h) = (prv h)(p := v)" "nxt (set_prv p v h) = nxt h"
  by (simp_all add: set_prv_def)

lemma seg_append:
  "seg h a (xs @ y # ys) b \<longleftrightarrow> seg h a xs y \<and> seg h y ys b"
  by (induction xs arbitrary: a) auto

lemma seg_first: "seg h a xs b \<Longrightarrow> nxt h a = (case xs of [] \<Rightarrow> b | x # _ \<Rightarrow> x)"
  by (cases xs) auto

lemma seg_last: "seg h a xs b \<Longrightarrow> prv h b = (if xs = [] then a else last xs)"
  by (induction xs arbitrary: a) auto

text \<open>A segment only depends on the fields of the nodes it touches.\<close>

lemma seg_cong:
  assumes "\<And>p. p \<in> set (a # xs) \<Longrightarrow> nxt h' p = nxt h p"
    and "\<And>p. p \<in> set (xs @ [b]) \<Longrightarrow> prv h' p = prv h p"
  shows "seg h' a xs b \<longleftrightarrow> seg h a xs b"
  using assms by (induction xs arbitrary: a) auto

lemma seg_set_nxt [simp]:
  "p \<notin> set (a # xs) \<Longrightarrow> seg (set_nxt p v h) a xs b \<longleftrightarrow> seg h a xs b"
  by (rule seg_cong) auto

lemma seg_set_prv [simp]:
  "p \<notin> set (xs @ [b]) \<Longrightarrow> seg (set_prv p v h) a xs b \<longleftrightarrow> seg h a xs b"
  by (rule seg_cong) auto

lemma dlist_cong:
  assumes "\<And>p. p \<in> set (q # xs) \<Longrightarrow> nxt h' p = nxt h p \<and> prv h' p = prv h p"
  shows "dlist h' q xs \<longleftrightarrow> dlist h q xs"
  unfolding dlist_def using assms by (subst seg_cong [of q xs h' h q]) auto

lemma dlist_distinct: "dlist h q xs \<Longrightarrow> distinct xs \<and> q \<notin> set xs"
  by (simp add: dlist_def)

lemma dlist_unique:
  assumes "dlist h q xs" "dlist h q ys"
  shows "xs = ys"
proof -
  have gen: "xs = ys" if "seg h a xs b" "seg h a ys b" "b \<notin> set xs" "b \<notin> set ys" for a b xs ys
    using that
  proof (induction xs arbitrary: a ys)
    case Nil
    then show ?case by (cases ys) auto
  next
    case (Cons x xs)
    then show ?case by (cases ys) auto
  qed
  from assms show ?thesis by (auto simp: dlist_def intro: gen)
qed


section \<open>Every operation refines its list counterpart\<close>

lemmas list_op_defs =
  INIT_LIST_HEAD_def list_add_raw_def list_add_def list_add_tail_def list_del_raw_def
  list_del_entry_raw_def list_del_def list_del_init_def list_move_def list_move_tail_def Let_def

lemma dlist_first: "dlist h q xs \<Longrightarrow> nxt h q = (case xs of [] \<Rightarrow> q | x # _ \<Rightarrow> x)"
  by (auto simp: dlist_def dest: seg_first split: list.splits)

lemma dlist_last: "dlist h q xs \<Longrightarrow> prv h q = (if xs = [] then q else last xs)"
  by (auto simp: dlist_def dest: seg_last)

lemma dlist_init: "dlist (INIT_LIST_HEAD q h) q []"
  by (simp add: dlist_def INIT_LIST_HEAD_def)

text \<open>Insertion between two neighbours, for \<^verbatim>\<open>list_add\<close> and \<^verbatim>\<open>list_add_tail\<close> alike.\<close>

lemma seg_insert:
  assumes "seg h a (xs @ ys) b" "distinct xs" "distinct ys" "set xs \<inter> set ys = {}"
    and "a \<notin> set xs \<union> set ys" "b \<notin> set xs \<union> set ys" "n \<notin> {a, b} \<union> set xs \<union> set ys"
    and "pr = (if xs = [] then a else last xs)" "nx = (case ys of [] \<Rightarrow> b | y # _ \<Rightarrow> y)"
  shows "seg (list_add_raw n pr nx h) a (xs @ n # ys) b"
proof -
  let ?h = "list_add_raw n pr nx h"
  have "pr \<in> set (a # xs)" "nx \<in> set (b # ys)"
    using assms(8,9) by (auto split: list.splits)
  then have off: "pr \<notin> set ys" "nx \<notin> set xs" "pr \<noteq> n" "nx \<noteq> n"
    using assms by auto
  have left: "seg ?h a xs n" if "seg h a xs c" for c
    using that assms(2,5,6,7,8) off
    by (cases xs rule: rev_cases) (auto simp: list_add_raw_def Let_def seg_append)
  have right: "seg ?h n ys b" if "seg h c ys b" for c
    using that assms(3,5,6,7,9) off
    by (cases ys) (auto simp: list_add_raw_def Let_def)
  have "\<exists>c. seg h a xs c" "\<exists>c. seg h c ys b"
    using assms(1) by (cases ys; cases xs rule: rev_cases; auto simp: seg_append)+
  then show ?thesis by (auto simp: seg_append left right)
qed

lemma dlist_list_add:
  assumes "dlist h q xs" "n \<notin> set (q # xs)"
  shows "dlist (list_add n q h) q (n # xs)"
proof -
  have "seg (list_add_raw n q (nxt h q) h) q ([] @ n # xs) q"
    using assms by (intro seg_insert) (auto simp: dlist_def dest: seg_first)
  with assms show ?thesis by (auto simp: dlist_def list_add_def)
qed

lemma dlist_list_add_tail:
  assumes "dlist h q xs" "n \<notin> set (q # xs)"
  shows "dlist (list_add_tail n q h) q (xs @ [n])"
proof -
  have "seg (list_add_raw n (prv h q) q h) q (xs @ n # []) q"
    using assms by (intro seg_insert) (auto simp: dlist_def dest: seg_last)
  with assms show ?thesis by (auto simp: dlist_def list_add_tail_def)
qed

lemma dlist_neighbours:
  assumes "dlist h q (xs @ n # ys)"
  shows "prv h n = (if xs = [] then q else last xs)"
    and "nxt h n = (case ys of [] \<Rightarrow> q | y # _ \<Rightarrow> y)"
  using assms seg_last [of h q xs n] seg_first [of h n ys q]
  by (auto simp: dlist_def seg_append)

lemma dlist_del_entry:
  assumes "dlist h q (xs @ n # ys)"
  shows "dlist (list_del_entry_raw n h) q (xs @ ys)"
proof -
  note nb = dlist_neighbours [OF assms]
  let ?h = "list_del_entry_raw n h"
  from assms have d: "distinct (q # xs @ n # ys)" and s: "seg h q xs n" "seg h n ys q"
    by (auto simp: dlist_def seg_append)
  show ?thesis
  proof (cases ys)
    case Nil
    with d s nb have "seg ?h q xs q"
      by (cases xs rule: rev_cases)
         (auto simp: list_del_entry_raw_def list_del_raw_def seg_append)
    with d Nil show ?thesis by (simp add: dlist_def)
  next
    case (Cons y zs)
    with d s nb have "seg ?h q xs y" "seg ?h y zs q"
      by (cases xs rule: rev_cases;
          auto simp: list_del_entry_raw_def list_del_raw_def seg_append)+
    with d Cons show ?thesis by (auto simp: dlist_def seg_append)
  qed
qed

lemma dlist_list_del:
  assumes "dlist h q (xs @ n # ys)"
  shows "dlist (list_del n h) q (xs @ ys)"
    and "nxt (list_del n h) n = 0" and "prv (list_del n h) n = 0"
proof -
  from assms have "n \<notin> set (q # xs @ ys)" by (auto simp: dlist_def)
  with dlist_del_entry [OF assms] show "dlist (list_del n h) q (xs @ ys)"
    unfolding list_del_def list_del_entry_raw_def [symmetric]
    by (subst dlist_cong [of q "xs @ ys" _ "list_del_entry_raw n h"]) auto
qed (simp_all add: list_del_def)

lemma dlist_list_del_init:
  assumes "dlist h q (xs @ n # ys)"
  shows "dlist (list_del_init n h) q (xs @ ys) \<and> dlist (list_del_init n h) n []"
proof -
  from assms have "n \<notin> set (q # xs @ ys)" by (auto simp: dlist_def)
  with dlist_del_entry [OF assms] have "dlist (list_del_init n h) q (xs @ ys)"
    unfolding list_del_init_def
    by (subst dlist_cong [of q "xs @ ys" _ "list_del_entry_raw n h"])
       (auto simp: INIT_LIST_HEAD_def)
  then show ?thesis by (simp add: list_del_init_def dlist_init)
qed

section \<open>Frame: lists that share no node are untouched\<close>

lemma case_list_in_set: "(case ys of [] \<Rightarrow> q | y # _ \<Rightarrow> y) \<in> set (q # ys)"
  by (cases ys) auto

lemma list_add_frame:
  assumes "dlist h q xs" "dlist h p ys" "apart q xs p ys" "n \<notin> set (p # ys)"
  shows "dlist (list_add n q h) p ys"
proof -
  have "nxt h q \<in> set (q # xs)"
    using dlist_first [OF assms(1)] case_list_in_set [of q xs] by simp
  with assms have "dlist (list_add n q h) p ys = dlist h p ys"
    by (intro dlist_cong) (auto simp: list_add_def list_add_raw_def Let_def apart_def)
  with assms(2) show ?thesis by simp
qed

lemma list_add_tail_frame:
  assumes "dlist h q xs" "dlist h p ys" "apart q xs p ys" "n \<notin> set (p # ys)"
  shows "dlist (list_add_tail n q h) p ys"
proof -
  have "prv h q \<in> set (q # xs)"
    using dlist_last [OF assms(1)] by auto
  with assms have "dlist (list_add_tail n q h) p ys = dlist h p ys"
    by (intro dlist_cong) (auto simp: list_add_tail_def list_add_raw_def Let_def apart_def)
  with assms(2) show ?thesis by simp
qed

lemma del_entry_frame:
  assumes "dlist h q (xs @ n # zs)" "dlist h p ys" "apart q (xs @ n # zs) p ys"
  shows "dlist (list_del_entry_raw n h) p ys"
proof -
  have "prv h n \<in> set (q # xs)" "nxt h n \<in> set (q # zs)"
    using dlist_neighbours [OF assms(1)] case_list_in_set [of q zs] by auto
  with assms have "dlist (list_del_entry_raw n h) p ys = dlist h p ys"
    by (intro dlist_cong) (auto simp: list_del_entry_raw_def list_del_raw_def apart_def)
  with assms(2) show ?thesis by simp
qed

lemma list_del_frame:
  assumes "dlist h q (xs @ n # zs)" "dlist h p ys" "apart q (xs @ n # zs) p ys"
  shows "dlist (list_del n h) p ys"
proof -
  from assms(3) have "n \<notin> set (p # ys)" by (auto simp: apart_def)
  with del_entry_frame [OF assms] show ?thesis
    unfolding list_del_def list_del_entry_raw_def [symmetric]
    by (subst dlist_cong [of p ys _ "list_del_entry_raw n h"]) auto
qed

section \<open>The lists meet the queue contract\<close>

interpretation lq: linked_queues dlist "\<lambda>q h. nxt h q" "\<lambda>q h. prv h q"
  list_add list_add_tail list_del_entry_raw
proof unfold_locales
  show "distinct (q # xs)" if "dlist h q xs" for h q xs
    using that by (simp add: dlist_def)
qed (rule dlist_first dlist_last dlist_list_add dlist_list_add_tail dlist_del_entry
       list_add_frame list_add_tail_frame del_entry_frame; assumption)+

lemma dlist_empty_iff: "dlist h q xs \<Longrightarrow> list_empty q h \<longleftrightarrow> xs = []"
  using dlist_first [of h q xs] by (cases xs) (auto simp: list_empty_def dlist_def)

lemma dlist_singular_iff:
  assumes "dlist h q xs"
  shows "list_is_singular q h \<longleftrightarrow> length xs = 1"
proof (cases xs)
  case Nil
  with dlist_empty_iff [OF assms] show ?thesis by (simp add: list_is_singular_def)
next
  case (Cons y ys)
  with dlist_first [OF assms] dlist_last [OF assms] dlist_empty_iff [OF assms] assms
  show ?thesis by (cases ys) (auto simp: list_is_singular_def dlist_def)
qed

end
