(* ===== verification/Task.thy ===== *)
theory Task
  imports DList
begin

text \<open>
  The process control block of \<^verbatim>\<open>include/sys/sched.h\<close> and the processor state it is
  switched against.  A task is identified with the address of its \<^verbatim>\<open>task_struct\<close>;
  the embedded \<^verbatim>\<open>struct list_head tasks\<close> lives in the list heap, at the member's
  offset from that address.
\<close>

section \<open>Constants\<close>

abbreviation (input) NR_TASKS :: u64 where "NR_TASKS \<equiv> 128"
abbreviation (input) SIGKILL :: u32 where "SIGKILL \<equiv> 9"
abbreviation (input) TRAP_SIZE :: nat where "TRAP_SIZE \<equiv> 5"
abbreviation (input) TSS_OFFSET :: nat where "TSS_OFFSET \<equiv> 1"
abbreviation (input) DIR_LEN :: nat where "DIR_LEN \<equiv> 48"
abbreviation (input) BINARY_LEN :: nat where "BINARY_LEN \<equiv> 24"
abbreviation (input) USER_STACK_SIZE :: u64 where "USER_STACK_SIZE \<equiv> 512"
abbreviation (input) KERNEL_STACK_SIZE :: nat where "KERNEL_STACK_SIZE \<equiv> 512"
abbreviation (input) NUM_REGISTERS_SAVED :: nat where "NUM_REGISTERS_SAVED \<equiv> 15"

text \<open>\<^verbatim>\<open>STACK_OFFSET\<close> is the macro of \<^verbatim>\<open>sched.h\<close> with the values above: \<open>491\<close>.\<close>

definition STACK_OFFSET :: nat where
  "STACK_OFFSET = KERNEL_STACK_SIZE - NUM_REGISTERS_SAVED - TRAP_SIZE - TSS_OFFSET"

lemma STACK_OFFSET_eq [simp]: "STACK_OFFSET = 491"
  by (simp add: STACK_OFFSET_def)

section \<open>Files, heap and task structure\<close>

text \<open>\<^verbatim>\<open>struct File\<close> of \<^verbatim>\<open>include/stdlib.h\<close>; \<^verbatim>\<open>path\<close> is an array of 32 bytes.\<close>

record File =
  f_path :: "u8 list"
  f_offset :: u64
  f_offset_read :: u64
  f_file_size :: u64
  f_flags :: u32
  f_seek :: u64

record heap_mem =
  bump_ptr :: u64
  rem_size :: u64
  end_addr :: u64

text \<open>
  \<^verbatim>\<open>struct task_struct\<close>.  The kernel stack is read and written by slot number; the slot
  \<open>i\<close> is the quadword at \<^verbatim>\<open>&kstack[i]\<close>.
\<close>

record task_struct =
  t_state :: u16
  t_pid :: u16
  t_ppid :: u16
  t_dir_path :: "u8 list"
  t_bin_name :: "u8 list"
  t_is_sleep :: bool
  t_sleep_time :: u64
  t_stack :: ptr
  t_kstack :: "nat \<Rightarrow> u64"
  t_kernel_rsp :: ptr
  t_cr3_address :: u64
  t_pml4e_addr :: u64
  t_entry_pt :: u64
  t_fd :: "File list"
  t_dup_arr :: "u64 list"
  t_fd_cnt :: u32
  t_heap_vma :: ptr
  t_heap :: heap_mem
  t_mm :: ptr

text \<open>
  Offsets of \<^verbatim>\<open>kstack\<close> and \<^verbatim>\<open>tasks\<close> in the structure under the x86-64 ABI layout
  (three 16-bit fields, the 48 and 24 byte arrays, a 4-byte bool enum, a 64-bit counter and
  a pointer before \<^verbatim>\<open>kstack\<close>; 25 \<^verbatim>\<open>struct File\<close> of 72 bytes after the stack).
\<close>

abbreviation (input) kstack_off :: u64 where "kstack_off \<equiv> 104"
abbreviation (input) tasks_off :: u64 where "tasks_off \<equiv> 6280"

text \<open>\<^verbatim>\<open>&task->tasks\<close> and \<^verbatim>\<open>list_entry(n, struct task_struct, tasks)\<close>.\<close>

definition node :: "ptr \<Rightarrow> ptr" where
  "node t = t + tasks_off"

definition list_entry :: "ptr \<Rightarrow> ptr" where
  "list_entry n = n - tasks_off"

text \<open>\<^verbatim>\<open>&task->kstack[i]\<close>, and back from such an address to the slot.\<close>

definition kstack_addr :: "ptr \<Rightarrow> nat \<Rightarrow> ptr" where
  "kstack_addr t i = t + kstack_off + 8 * of_nat i"

definition kstack_slot :: "ptr \<Rightarrow> ptr \<Rightarrow> nat" where
  "kstack_slot t a = unat ((a - (t + kstack_off)) div 8)"

lemma list_entry_node [simp]: "list_entry (node t) = t"
  and node_list_entry [simp]: "node (list_entry n) = n"
  by (simp_all add: node_def list_entry_def)

lemma node_inject [simp]: "node s = node t \<longleftrightarrow> s = t"
  by (simp add: node_def)

lemma inj_node [simp]: "inj_on node A"
  by (simp add: inj_on_def)

lemma node_in_map [simp]: "node t \<in> node ` A \<longleftrightarrow> t \<in> A"
  by (auto simp: image_iff)

lemma node_eq_iff: "node t = n \<longleftrightarrow> t = list_entry n"
  by (auto simp: node_def list_entry_def)

lemma kstack_slot_addr:
  assumes "i \<le> KERNEL_STACK_SIZE"
  shows "kstack_slot t (kstack_addr t i) = i"
proof -
  have "unat (8 * (of_nat i :: u64)) = 8 * i"
    using assms unat_times_u64 [of 8 "of_nat i"] by simp
  then have "unat (8 * (of_nat i :: u64) div 8) = i"
    by (simp add: unat_div)
  then show ?thesis by (simp add: kstack_slot_def kstack_addr_def)
qed

section \<open>Processor state\<close>

datatype reg = RAX | RBX | RCX | RDX | RSI | RDI | RBP
  | R8 | R9 | R10 | R11 | R12 | R13 | R14 | R15

record cpu =
  regs :: "reg \<Rightarrow> u64"
  c_rip :: u64
  c_cs :: u64
  c_rflags :: u64
  c_rsp :: u64
  c_ss :: u64
  c_cr3 :: u64
  c_tss_rsp0 :: u64

end
