(* ===== verification/Sched.thy ===== *)
theory Sched
  imports Task
begin

text \<open>
  \<^verbatim>\<open>sys/sched.c\<close>: the run queue and the wait queue, process termination, sleeping and
  waiting, the round-robin scheduler and the context switch.  The loops over the
  circular queues follow pointers and need not end; they are partial functions into
  \<open>option\<close>, and \<open>None\<close> is a loop that never returns.
\<close>

section \<open>State\<close>

text \<open>
  \<open>runQueue\<close> and \<open>waitQueue\<close> are the addresses of the two \<^verbatim>\<open>LIST_HEAD\<close> globals.
  \<open>tasks\<close> maps the address of a \<^verbatim>\<open>task_struct\<close> to its contents; at any other address
  it is whatever the memory there decodes to.
\<close>

record sched =
  nodes :: lheap
  tasks :: "ptr \<Rightarrow> task_struct"
  runQueue :: ptr
  waitQueue :: ptr
  num_task :: u64
  currentTask :: ptr
  nextTask :: ptr
  cpu :: cpu

text \<open>
  A call of the scheduler either returns to its caller or leaves for another task with
  \<^verbatim>\<open>iretq\<close> and never returns.
\<close>

datatype 'a outcome = Ret 'a | Switch

definition upd_task :: "ptr \<Rightarrow> (task_struct \<Rightarrow> task_struct) \<Rightarrow> sched \<Rightarrow> sched" where
  "upd_task t f s = s\<lparr>tasks := (tasks s)(t := f (tasks s t))\<rparr>"

definition upd_lists :: "(lheap \<Rightarrow> lheap) \<Rightarrow> sched \<Rightarrow> sched" where
  "upd_lists f s = s\<lparr>nodes := f (nodes s)\<rparr>"

section \<open>Queue access\<close>

definition list_first_entry :: "sched \<Rightarrow> ptr \<Rightarrow> ptr" where
  "list_first_entry s q = list_entry (nxt (nodes s) q)"

definition list_next_entry :: "sched \<Rightarrow> ptr \<Rightarrow> ptr" where
  "list_next_entry s pos = list_entry (nxt (nodes s) (node pos))"

definition getNextTask :: "sched \<Rightarrow> ptr" where
  "getNextTask s = list_entry (nxt (nodes s) (runQueue s))"

definition getCurrentTask :: "sched \<Rightarrow> ptr" where
  "getCurrentTask s = list_entry (prv (nodes s) (runQueue s))"

definition addTasktoQueueHead :: "ptr \<Rightarrow> sched \<Rightarrow> int \<times> sched" where
  "addTasktoQueueHead task s =
     (if num_task s + 1 > NR_TASKS then (-1, s)
      else (0, (upd_lists (list_add (node task) (runQueue s)) s)
                 \<lparr>num_task := num_task s + 1\<rparr>))"

definition addTasktoQueue :: "ptr \<Rightarrow> sched \<Rightarrow> int \<times> sched" where
  "addTasktoQueue task s =
     (if num_task s + 1 > NR_TASKS then (-1, s)
      else (0, (upd_lists (list_add_tail (node task) (runQueue s)) s)
                 \<lparr>num_task := num_task s + 1\<rparr>))"

definition sys_getpid :: "sched \<Rightarrow> u64" where
  "sys_getpid s = ucast (t_pid (tasks s (getCurrentTask s)))"

definition sys_getppid :: "sched \<Rightarrow> u64" where
  "sys_getppid s = ucast (t_ppid (tasks s (getCurrentTask s)))"

text \<open>
  \<^verbatim>\<open>list_for_each_entry\<close> without a mutation in its body visits the entries from
  \<open>pos\<close> up to the head \<open>q\<close>.
\<close>

partial_function (option) entries_from :: "sched \<Rightarrow> ptr \<Rightarrow> ptr \<Rightarrow> ptr list option" where
  "entries_from s q pos =
     (if node pos = q then Some []
      else Option.bind (entries_from s q (list_next_entry s pos)) (\<lambda>es. Some (pos # es)))"

text \<open>\<^verbatim>\<open>printSchedulerQueue\<close> prints one pid per line; \<^verbatim>\<open>sys_ps\<close> one numbered row per task.\<close>

definition printSchedulerQueue :: "sched \<Rightarrow> u16 list option" where
  "printSchedulerQueue s =
     map_option (map (\<lambda>p. t_pid (tasks s p)))
       (entries_from s (runQueue s) (list_first_entry s (runQueue s)))"

datatype ps_status = RUNNING | WAITING

fun ps_rows :: "sched \<Rightarrow> nat \<Rightarrow> ps_status \<Rightarrow> ptr list \<Rightarrow> (nat \<times> u16 \<times> u16 \<times> u8 list \<times> ps_status) list" where
  "ps_rows s cnt st [] = []"
| "ps_rows s cnt st (p # ps) =
     (cnt, t_ppid (tasks s p), t_pid (tasks s p), t_bin_name (tasks s p), st)
       # ps_rows s (cnt + 1) st ps"

definition sys_ps :: "sched \<Rightarrow> (nat \<times> u16 \<times> u16 \<times> u8 list \<times> ps_status) list option" where
  "sys_ps s =
     (case entries_from s (runQueue s) (list_first_entry s (runQueue s)) of
        None \<Rightarrow> None
      | Some rs \<Rightarrow>
        (case entries_from s (waitQueue s) (list_first_entry s (waitQueue s)) of
           None \<Rightarrow> None
         | Some ws \<Rightarrow> Some (ps_rows s 1 RUNNING rs @ ps_rows s (1 + length rs) WAITING ws)))"

section \<open>Context switch and round robin\<close>

text \<open>The pops of \<^verbatim>\<open>sys_yield\<close>, in order, and the five quadwords \<^verbatim>\<open>iretq\<close> takes.\<close>

definition pop_order :: "reg list" where
  "pop_order = [R15, R14, R13, R12, R11, R10, R9, R8, RBP, RDI, RSI, RDX, RCX, RBX, RAX]"

fun pop_regs :: "(nat \<Rightarrow> u64) \<Rightarrow> nat \<Rightarrow> reg list \<Rightarrow> (reg \<Rightarrow> u64) \<Rightarrow> (reg \<Rightarrow> u64)" where
  "pop_regs st i [] rf = rf"
| "pop_regs st i (r # rs) rf = pop_regs st (i + 1) rs (rf(r := st i))"

definition resume_frame :: "(nat \<Rightarrow> u64) \<Rightarrow> nat \<Rightarrow> cpu \<Rightarrow> cpu" where
  "resume_frame st i c =
     c\<lparr>regs := pop_regs st i pop_order (regs c),
       c_rip := st (i + 15), c_cs := st (i + 16), c_rflags := st (i + 17),
       c_rsp := st (i + 18), c_ss := st (i + 19)\<rparr>"

definition sys_yield :: "sched \<Rightarrow> sched" where
  "sys_yield s =
     (let t = nextTask s; tk = tasks s t;
          c = (cpu s)\<lparr>c_cr3 := t_cr3_address tk,
                      c_tss_rsp0 := kstack_addr t (KERNEL_STACK_SIZE - 1)\<rparr>
      in s\<lparr>cpu := resume_frame (t_kstack tk) (kstack_slot t (t_kernel_rsp tk)) c\<rparr>)"

definition schedule :: "sched \<Rightarrow> unit outcome \<times> sched" where
  "schedule s =
     (if list_empty (runQueue s) (nodes s) then (Ret (), s)
      else
        let s1 = s\<lparr>nextTask := getNextTask s\<rparr>;
            s2 = s1\<lparr>currentTask := getCurrentTask s1\<rparr>;
            s3 = upd_lists (list_move_tail (node (nextTask s2)) (runQueue s2)) s2
        in (Switch, sys_yield s3))"

text \<open>A kernel function that ends in \<^verbatim>\<open>schedule(); return v;\<close>.\<close>

definition schedule_ret :: "int \<Rightarrow> sched \<Rightarrow> int outcome \<times> sched" where
  "schedule_ret v s = (case schedule s of (Ret _, s') \<Rightarrow> (Ret v, s') | (Switch, s') \<Rightarrow> (Switch, s'))"

section \<open>Blocking, waking and terminating\<close>

text \<open>The search loops over a queue stop at the first entry with the wanted pid.\<close>

partial_function (option) find_pid :: "sched \<Rightarrow> ptr \<Rightarrow> u32 \<Rightarrow> ptr \<Rightarrow> ptr option option" where
  "find_pid s q pid pos =
     (if node pos = q then Some None
      else if ucast (t_pid (tasks s pos)) = pid then Some (Some pos)
      else find_pid s q pid (list_next_entry s pos))"

definition awakepid :: "u32 \<Rightarrow> sched \<Rightarrow> sched option" where
  "awakepid pid s =
     (if list_empty (waitQueue s) (nodes s) then Some s
      else case find_pid s (waitQueue s) pid (list_first_entry s (waitQueue s)) of
             None \<Rightarrow> None
           | Some None \<Rightarrow> Some s
           | Some (Some p) \<Rightarrow> Some (upd_lists (list_move (node p) (runQueue s)) s))"

definition sys_exit :: "sched \<Rightarrow> (int outcome \<times> sched) option" where
  "sys_exit s =
     (let process = getCurrentTask s
      in case awakepid (ucast (t_ppid (tasks s process))) s of
           None \<Rightarrow> None
         | Some s1 \<Rightarrow>
             let s2 = upd_lists (list_del (node process)) s1;
                 s3 = s2\<lparr>num_task := num_task s2 - 1\<rparr>
             in Some (schedule_ret (-1) s3))"

definition sys_sleep :: "u64 \<Rightarrow> sched \<Rightarrow> int outcome \<times> sched" where
  "sys_sleep seconds s =
     (let proc = getCurrentTask s;
          s1 = upd_task proc (\<lambda>t. t\<lparr>t_is_sleep := True, t_sleep_time := seconds\<rparr>) s;
          s2 = upd_lists (list_move (node proc) (waitQueue s1)) s1
      in schedule_ret 0 s2)"

text \<open>One pass of the loop body of \<^verbatim>\<open>awake\<close>; the loop continues from the entry's new successor.\<close>

definition awake_body :: "ptr \<Rightarrow> sched \<Rightarrow> sched" where
  "awake_body p s =
     (if t_is_sleep (tasks s p) then
        let s1 = upd_task p (\<lambda>t. t\<lparr>t_sleep_time := t_sleep_time t - 1\<rparr>) s
        in if sint (t_sleep_time (tasks s1 p)) \<le> 0 then
             upd_lists (list_move (node p) (runQueue s1))
               (upd_task p (\<lambda>t. t\<lparr>t_is_sleep := False\<rparr>) s1)
           else s1
      else s)"

partial_function (option) awake_loop :: "sched \<Rightarrow> ptr \<Rightarrow> sched option" where
  "awake_loop s pos =
     (if node pos = waitQueue s then Some s
      else awake_loop (awake_body pos s) (list_next_entry (awake_body pos s) pos))"

definition awake :: "sched \<Rightarrow> sched option" where
  "awake s =
     (if list_empty (waitQueue s) (nodes s) then Some s
      else if list_is_singular (waitQueue s) (nodes s) then Some s
      else awake_loop s (list_first_entry s (waitQueue s)))"

definition sys_waitpid :: "u32 \<Rightarrow> sched \<Rightarrow> (int outcome \<times> sched) option" where
  "sys_waitpid pid s =
     (let currentProc = getCurrentTask s;
          block = schedule_ret (uint pid) (upd_lists (list_move (node currentProc) (waitQueue s)) s)
      in case find_pid s (runQueue s) pid (list_first_entry s (runQueue s)) of
           None \<Rightarrow> None
         | Some (Some _) \<Rightarrow> Some block
         | Some None \<Rightarrow>
           (case find_pid s (waitQueue s) pid (list_first_entry s (waitQueue s)) of
              None \<Rightarrow> None
            | Some (Some _) \<Rightarrow> Some block
            | Some None \<Rightarrow> Some (Ret (-1), s)))"

definition kill_task :: "ptr \<Rightarrow> sched \<Rightarrow> (int outcome \<times> sched) option" where
  "kill_task p s =
     (case awakepid (ucast (t_ppid (tasks s p))) s of
        None \<Rightarrow> None
      | Some s1 \<Rightarrow>
          let s2 = upd_lists (list_del (node p)) s1
          in Some (Ret 0, s2\<lparr>num_task := num_task s2 - 1\<rparr>))"

definition sys_kill :: "u32 \<Rightarrow> u32 \<Rightarrow> sched \<Rightarrow> (int outcome \<times> sched) option" where
  "sys_kill pid sig s =
     (if sig = SIGKILL then
        if scast pid = sys_getpid s then
          (case sys_exit s of
             None \<Rightarrow> None
           | Some (Ret _, s') \<Rightarrow> Some (Ret (-1), s')
           | Some (Switch, s') \<Rightarrow> Some (Switch, s'))
        else
          (case find_pid s (runQueue s) pid (list_first_entry s (runQueue s)) of
             None \<Rightarrow> None
           | Some (Some p) \<Rightarrow> kill_task p s
           | Some None \<Rightarrow>
             (case find_pid s (waitQueue s) pid (list_first_entry s (waitQueue s)) of
                None \<Rightarrow> None
              | Some (Some p) \<Rightarrow> kill_task p s
              | Some None \<Rightarrow> Some (Ret (-1), s)))
      else Some (Ret (-1), s))"


section \<open>Queue contents\<close>

text \<open>
  \<open>queues s rs ws\<close>: the run queue holds exactly the tasks \<open>rs\<close>, the wait queue exactly
  \<open>ws\<close>, in order, and no task is in both or twice.  \<open>sched_ok\<close> adds the bookkeeping of
  \<^verbatim>\<open>num_task\<close>.
\<close>

definition queues :: "sched \<Rightarrow> ptr list \<Rightarrow> ptr list \<Rightarrow> bool" where
  "queues s rs ws \<longleftrightarrow>
     dlist (nodes s) (runQueue s) (map node rs) \<and>
     dlist (nodes s) (waitQueue s) (map node ws) \<and>
     apart (runQueue s) (map node rs) (waitQueue s) (map node ws)"

definition sched_ok :: "sched \<Rightarrow> ptr list \<Rightarrow> ptr list \<Rightarrow> bool" where
  "sched_ok s rs ws \<longleftrightarrow>
     queues s rs ws \<and> unat (num_task s) = length rs + length ws \<and> length rs + length ws \<le> 128"

lemma queues_distinct: "queues s rs ws \<Longrightarrow> distinct (rs @ ws)"
  by (auto simp: queues_def dlist_def apart_def distinct_map)

lemma queues_cong:
  "nodes s' = nodes s \<Longrightarrow> runQueue s' = runQueue s \<Longrightarrow> waitQueue s' = waitQueue s \<Longrightarrow>
   queues s' rs ws \<longleftrightarrow> queues s rs ws"
  by (simp add: queues_def)

lemma queues_heads:
  assumes "queues s rs ws" "t \<in> set rs \<union> set ws"
  shows "node t \<noteq> runQueue s" "node t \<noteq> waitQueue s"
proof -
  have "node t \<in> set (map node rs) \<union> set (map node ws)" using assms(2) by auto
  moreover have "runQueue s \<notin> set (map node rs) \<union> set (map node ws)"
    and "waitQueue s \<notin> set (map node rs) \<union> set (map node ws)"
    using assms(1) by (auto simp: queues_def apart_def dlist_def)
  ultimately show "node t \<noteq> runQueue s" "node t \<noteq> waitQueue s" by metis+
qed

lemma queues_heads_differ: "queues s rs ws \<Longrightarrow> runQueue s \<noteq> waitQueue s"
  by (auto simp: queues_def apart_def)

lemma current_last: "queues s rs ws \<Longrightarrow> rs \<noteq> [] \<Longrightarrow> getCurrentTask s = last rs"
  using dlist_last [of "nodes s" "runQueue s" "map node rs"]
  by (simp add: queues_def getCurrentTask_def last_map)

lemma next_first: "queues s rs ws \<Longrightarrow> rs \<noteq> [] \<Longrightarrow> getNextTask s = hd rs"
  using dlist_first [of "nodes s" "runQueue s" "map node rs"]
  by (cases rs) (simp_all add: queues_def getNextTask_def)

lemma runQueue_empty_iff: "queues s rs ws \<Longrightarrow> list_empty (runQueue s) (nodes s) \<longleftrightarrow> rs = []"
  using dlist_empty_iff [of "nodes s" "runQueue s" "map node rs"] by (simp add: queues_def)

lemma waitQueue_empty_iff: "queues s rs ws \<Longrightarrow> list_empty (waitQueue s) (nodes s) \<longleftrightarrow> ws = []"
  using dlist_empty_iff [of "nodes s" "waitQueue s" "map node ws"] by (simp add: queues_def)

lemma waitQueue_singular_iff:
  "queues s rs ws \<Longrightarrow> list_is_singular (waitQueue s) (nodes s) \<longleftrightarrow> length ws = 1"
  using dlist_singular_iff [of "nodes s" "waitQueue s" "map node ws"] by (simp add: queues_def)

section \<open>Traversals of a well-formed queue\<close>

lemma entries_from_seg:
  assumes "seg (nodes s) n (map node ts) q" "q \<notin> set (map node ts)"
  shows "entries_from s q (list_entry (nxt (nodes s) n)) = Some ts"
  using assms
  by (induction ts arbitrary: n) (auto simp: entries_from.simps list_next_entry_def)

lemma find_pid_seg:
  assumes "seg (nodes s) n (map node ts) q" "q \<notin> set (map node ts)"
  shows "find_pid s q pid (list_entry (nxt (nodes s) n)) =
           Some (find (\<lambda>t. ucast (t_pid (tasks s t)) = pid) ts)"
  using assms
  by (induction ts arbitrary: n) (auto simp: find_pid.simps list_next_entry_def)

lemma entries_run:
  "queues s rs ws \<Longrightarrow> entries_from s (runQueue s) (list_first_entry s (runQueue s)) = Some rs"
  and entries_wait:
  "queues s rs ws \<Longrightarrow> entries_from s (waitQueue s) (list_first_entry s (waitQueue s)) = Some ws"
  by (auto simp: queues_def dlist_def list_first_entry_def intro!: entries_from_seg)

abbreviation has_pid :: "sched \<Rightarrow> u32 \<Rightarrow> ptr \<Rightarrow> bool" where
  "has_pid s pid t \<equiv> ucast (t_pid (tasks s t)) = pid"

lemma find_run:
  "queues s rs ws \<Longrightarrow>
   find_pid s (runQueue s) pid (list_first_entry s (runQueue s)) = Some (find (has_pid s pid) rs)"
  and find_wait:
  "queues s rs ws \<Longrightarrow>
   find_pid s (waitQueue s) pid (list_first_entry s (waitQueue s)) = Some (find (has_pid s pid) ws)"
  by (auto simp: queues_def dlist_def list_first_entry_def intro!: find_pid_seg)

section \<open>Queue updates on the abstract nodes\<close>

lemma upd_lists_sel [simp]:
  "nodes (upd_lists f s) = f (nodes s)" "tasks (upd_lists f s) = tasks s"
  "runQueue (upd_lists f s) = runQueue s" "waitQueue (upd_lists f s) = waitQueue s"
  "num_task (upd_lists f s) = num_task s" "currentTask (upd_lists f s) = currentTask s"
  "nextTask (upd_lists f s) = nextTask s" "cpu (upd_lists f s) = cpu s"
  by (simp_all add: upd_lists_def)

lemma upd_task_sel [simp]:
  "nodes (upd_task t f s) = nodes s" "tasks (upd_task t f s) = (tasks s)(t := f (tasks s t))"
  "runQueue (upd_task t f s) = runQueue s" "waitQueue (upd_task t f s) = waitQueue s"
  "num_task (upd_task t f s) = num_task s" "currentTask (upd_task t f s) = currentTask s"
  "nextTask (upd_task t f s) = nextTask s" "cpu (upd_task t f s) = cpu s"
  by (simp_all add: upd_task_def)

lemma queues_upd_task [simp]: "queues (upd_task t f s) rs ws \<longleftrightarrow> queues s rs ws"
  by (simp add: queues_def)

text \<open>A node that is neither a queue head nor queued.\<close>

definition fresh_task :: "sched \<Rightarrow> ptr list \<Rightarrow> ptr list \<Rightarrow> ptr \<Rightarrow> bool" where
  "fresh_task s rs ws t \<longleftrightarrow>
     t \<notin> set rs \<union> set ws \<and> node t \<noteq> runQueue s \<and> node t \<noteq> waitQueue s"

lemma q_add_head:
  assumes "queues s rs ws" "fresh_task s rs ws t"
  shows "queues (upd_lists (list_add (node t) (runQueue s)) s) (t # rs) ws"
  using assms dlist_list_add [of "nodes s" "runQueue s" "map node rs" "node t"]
    list_add_frame [of "nodes s" "runQueue s" "map node rs" "waitQueue s" "map node ws" "node t"]
  by (auto simp: queues_def fresh_task_def apart_def)

lemma q_add_tail:
  assumes "queues s rs ws" "fresh_task s rs ws t"
  shows "queues (upd_lists (list_add_tail (node t) (runQueue s)) s) (rs @ [t]) ws"
  using assms dlist_list_add_tail [of "nodes s" "runQueue s" "map node rs" "node t"]
    list_add_tail_frame [of "nodes s" "runQueue s" "map node rs" "waitQueue s" "map node ws" "node t"]
  by (auto simp: queues_def fresh_task_def apart_def)

lemma q_move_wait:
  assumes "queues s (xs @ t # ys) ws"
  shows "queues (upd_lists (list_move (node t) (waitQueue s)) s) (xs @ ys) (t # ws)"
  using assms lq.move_between [of "nodes s" "runQueue s" "map node xs" "node t" "map node ys"
      "waitQueue s" "map node ws"]
  by (simp add: queues_def list_move_def)

lemma q_move_run:
  assumes "queues s rs (xs @ t # ys)"
  shows "queues (upd_lists (list_move (node t) (runQueue s)) s) (t # rs) (xs @ ys)"
  using assms lq.move_between [of "nodes s" "waitQueue s" "map node xs" "node t" "map node ys"
      "runQueue s" "map node rs"]
  by (auto simp: queues_def list_move_def dest: apart_sym)

lemma q_move_run_within:
  assumes "queues s (xs @ t # ys) ws"
  shows "queues (upd_lists (list_move (node t) (runQueue s)) s) (t # xs @ ys) ws"
  using assms lq.move_within [of "nodes s" "runQueue s" "map node xs" "node t" "map node ys"]
    lq.move_within_frame [of "nodes s" "runQueue s" "map node xs" "node t" "map node ys"
      "waitQueue s" "map node ws"]
  by (auto simp: queues_def list_move_def apart_def)

lemma q_move_tail_run:
  assumes "queues s (xs @ t # ys) ws"
  shows "queues (upd_lists (list_move_tail (node t) (runQueue s)) s) (xs @ ys @ [t]) ws"
  using assms lq.move_tail_within [of "nodes s" "runQueue s" "map node xs" "node t" "map node ys"]
    lq.move_within_frame [of "nodes s" "runQueue s" "map node xs" "node t" "map node ys"
      "waitQueue s" "map node ws"]
  by (auto simp: queues_def list_move_tail_def apart_def)

lemma q_del_run:
  assumes "queues s (xs @ t # ys) ws"
  shows "queues (upd_lists (list_del (node t)) s) (xs @ ys) ws"
  using assms dlist_list_del(1) [of "nodes s" "runQueue s" "map node xs" "node t" "map node ys"]
    list_del_frame [of "nodes s" "runQueue s" "map node xs" "node t" "map node ys"
      "waitQueue s" "map node ws"]
  by (auto simp: queues_def apart_def)

lemma q_del_wait:
  assumes "queues s rs (xs @ t # ys)"
  shows "queues (upd_lists (list_del (node t)) s) rs (xs @ ys)"
  using assms dlist_list_del(1) [of "nodes s" "waitQueue s" "map node xs" "node t" "map node ys"]
    list_del_frame [of "nodes s" "waitQueue s" "map node xs" "node t" "map node ys"
      "runQueue s" "map node rs"]
  by (auto simp: queues_def apart_def Int_commute)

end
