(* ===== verification/Sched_Spec.thy ===== *)
theory Sched_Spec
  imports Sched
begin

text \<open>
  What the scheduler promises, on two plain lists of tasks: the run queue (its last
  element is the task on the processor) and the wait queue.  Each system call of
  \<^verbatim>\<open>sys/sched.c\<close> is proved to refine its list version, keeping the queues
  well formed and \<^verbatim>\<open>num_task\<close> exact.
\<close>

section \<open>The abstract scheduler\<close>

type_synonym aqueues = "ptr list \<times> ptr list"

definition a_rotate :: "aqueues \<Rightarrow> aqueues" where
  "a_rotate = (\<lambda>(rs, ws). (rotate1 rs, ws))"

definition a_wake :: "(ptr \<Rightarrow> bool) \<Rightarrow> aqueues \<Rightarrow> aqueues" where
  "a_wake P = (\<lambda>(rs, ws). case find P ws of None \<Rightarrow> (rs, ws) | Some p \<Rightarrow> (p # rs, remove1 p ws))"

definition a_remove :: "ptr \<Rightarrow> aqueues \<Rightarrow> aqueues" where
  "a_remove t = (\<lambda>(rs, ws). (remove1 t rs, remove1 t ws))"

definition a_block :: "aqueues \<Rightarrow> aqueues" where
  "a_block = (\<lambda>(rs, ws). a_rotate (butlast rs, last rs # ws))"

definition parent_of :: "sched \<Rightarrow> ptr \<Rightarrow> ptr \<Rightarrow> bool" where
  "parent_of s t p \<longleftrightarrow> t_pid (tasks s p) = t_ppid (tasks s t)"

definition a_exit :: "sched \<Rightarrow> aqueues \<Rightarrow> aqueues" where
  "a_exit s = (\<lambda>(rs, ws).
     a_rotate (a_remove (last rs) (a_wake (parent_of s (last rs)) (rs, ws))))"

definition a_kill :: "sched \<Rightarrow> ptr \<Rightarrow> aqueues \<Rightarrow> aqueues" where
  "a_kill s t = (\<lambda>q. a_remove t (a_wake (parent_of s t) q))"

text \<open>The value a blocking call delivers: \<open>v\<close> only when nobody is left to run.\<close>

definition sched_result :: "int \<Rightarrow> ptr list \<Rightarrow> int outcome" where
  "sched_result v rs = (if rs = [] then Ret v else Switch)"

lemma parent_of_pid: "ucast (t_pid (tasks s p)) = (ucast (t_ppid (tasks s t)) :: u32) \<longleftrightarrow> parent_of s t p"
  unfolding parent_of_def
  by (metis (mono_tags, lifting) ucast_u16_u32_inject)

section \<open>Bookkeeping facts\<close>

lemma find_SomeD: "find P xs = Some x \<Longrightarrow> x \<in> set xs \<and> P x"
  by (auto simp: find_Some_iff)

lemma split_butlast: "rs \<noteq> [] \<Longrightarrow> rs = butlast rs @ last rs # []"
  by simp

lemma remove1_last: "distinct rs \<Longrightarrow> rs \<noteq> [] \<Longrightarrow> remove1 (last rs) rs = butlast rs"
  by (cases rs rule: rev_cases) (auto simp: remove1_append)

lemma dec_num_task: "unat (n :: u64) = Suc k \<Longrightarrow> unat (n - 1) = k"
  by unat_arith


section \<open>The context switch leaves the queues alone\<close>

lemma sys_yield_sel [simp]:
  "nodes (sys_yield s) = nodes s" "tasks (sys_yield s) = tasks s"
  "runQueue (sys_yield s) = runQueue s" "waitQueue (sys_yield s) = waitQueue s"
  "num_task (sys_yield s) = num_task s" "currentTask (sys_yield s) = currentTask s"
  "nextTask (sys_yield s) = nextTask s"
  "c_cr3 (cpu (sys_yield s)) = t_cr3_address (tasks s (nextTask s))"
  "c_tss_rsp0 (cpu (sys_yield s)) = kstack_addr (nextTask s) 511"
  by (simp_all add: sys_yield_def Let_def resume_frame_def)

lemma queues_sys_yield [simp]: "queues (sys_yield s) rs ws \<longleftrightarrow> queues s rs ws"
  by (simp add: queues_def)

lemma queues_num_task [simp]: "queues (s\<lparr>num_task := n\<rparr>) rs ws \<longleftrightarrow> queues s rs ws"
  and queues_nextTask [simp]: "queues (s\<lparr>nextTask := t\<rparr>) rs ws \<longleftrightarrow> queues s rs ws"
  and queues_currentTask [simp]: "queues (s\<lparr>currentTask := t\<rparr>) rs ws \<longleftrightarrow> queues s rs ws"
  by (simp_all add: queues_def)

lemma schedule_idle: "queues s [] ws \<Longrightarrow> schedule s = (Ret (), s)"
  by (simp add: schedule_def runQueue_empty_iff)

lemma schedule_sel:
  "tasks (snd (schedule s)) = tasks s" "runQueue (snd (schedule s)) = runQueue s"
  "waitQueue (snd (schedule s)) = waitQueue s" "num_task (snd (schedule s)) = num_task s"
  by (simp_all add: schedule_def Let_def)

lemma schedule_switch:
  assumes "queues s rs ws" "rs \<noteq> []"
  shows "fst (schedule s) = Switch" and "queues (snd (schedule s)) (rotate1 rs) ws"
    and "nextTask (snd (schedule s)) = hd rs" and "currentTask (snd (schedule s)) = last rs"
proof -
  obtain t ts where rs: "rs = t # ts" using assms(2) by (cases rs) auto
  have ne: "\<not> list_empty (runQueue s) (nodes s)" using assms by (simp add: runQueue_empty_iff)
  have nt: "getNextTask s = t" using next_first [OF assms] rs by simp
  show "fst (schedule s) = Switch" using ne by (simp add: schedule_def Let_def)
  show "queues (snd (schedule s)) (rotate1 rs) ws"
    using ne nt rs assms(1)
      q_move_tail_run [of "s\<lparr>nextTask := t, currentTask := getCurrentTask (s\<lparr>nextTask := t\<rparr>)\<rparr>" "[]" t ts ws]
    by (simp add: schedule_def Let_def)
  show "nextTask (snd (schedule s)) = hd rs" using ne nt rs by (simp add: schedule_def Let_def)
  show "currentTask (snd (schedule s)) = last rs"
    using ne nt rs current_last [OF assms] by (simp add: schedule_def Let_def getCurrentTask_def)
qed

lemma schedule_ret_spec:
  assumes "sched_ok s rs ws"
  shows "\<exists>s'. schedule_ret v s = (sched_result v rs, s') \<and> sched_ok s' (rotate1 rs) ws \<and> tasks s' = tasks s"
proof (cases "rs = []")
  case True
  with assms show ?thesis
    by (auto simp: schedule_ret_def sched_result_def schedule_idle sched_ok_def)
next
  case False
  from assms have q: "queues s rs ws" by (simp add: sched_ok_def)
  have "schedule_ret v s = (Switch, snd (schedule s))"
    using schedule_switch(1) [OF q False] by (cases "schedule s") (simp add: schedule_ret_def)
  with assms False schedule_switch(2) [OF q False] show ?thesis
    by (auto simp: sched_result_def sched_ok_def schedule_sel)
qed

section \<open>Waking\<close>

lemma awakepid_spec:
  assumes "queues s rs ws"
  shows "\<exists>s'. awakepid (ucast (t_ppid (tasks s t))) s = Some s' \<and>
           queues s' (fst (a_wake (parent_of s t) (rs, ws))) (snd (a_wake (parent_of s t) (rs, ws))) \<and>
           tasks s' = tasks s \<and> num_task s' = num_task s"
proof (cases "find (parent_of s t) ws")
  case None
  with assms show ?thesis
    by (auto simp: awakepid_def find_wait parent_of_pid a_wake_def)
next
  case (Some p)
  then have "p \<in> set ws" by (auto dest: find_SomeD)
  then obtain xs ys where ws: "ws = xs @ p # ys" "p \<notin> set xs" by (meson split_list_first)
  have "remove1 p ws = xs @ ys" using ws by (simp add: remove1_append)
  moreover have "\<not> list_empty (waitQueue s) (nodes s)"
    using assms ws by (simp add: waitQueue_empty_iff)
  ultimately show ?thesis
    using assms Some ws q_move_run [of s rs xs p ys]
    by (auto simp: awakepid_def find_wait parent_of_pid a_wake_def)
qed

lemma a_wake_length:
  "length (fst (a_wake P (rs, ws))) + length (snd (a_wake P (rs, ws))) = length rs + length ws"
proof (cases "find P ws")
  case (Some p)
  then have "p \<in> set ws" by (auto dest: find_SomeD)
  with length_pos_if_in_set [OF this] have "length ws = Suc (length (remove1 p ws))"
    by (simp add: length_remove1)
  with Some show ?thesis by (simp add: a_wake_def)
qed (simp add: a_wake_def)

lemma a_wake_set:
  "distinct ws \<Longrightarrow> set (fst (a_wake P (rs, ws))) \<union> set (snd (a_wake P (rs, ws))) = set rs \<union> set ws"
  by (auto simp: a_wake_def split: option.splits dest: find_SomeD)

lemma a_wake_run_mono: "set rs \<subseteq> set (fst (a_wake P (rs, ws)))"
  by (auto simp: a_wake_def split: option.splits)

section \<open>Removing a task\<close>

lemma remove_task_spec:
  assumes "sched_ok s rs ws" "t \<in> set rs \<union> set ws"
  shows "sched_ok ((upd_lists (list_del (node t)) s)\<lparr>num_task := num_task s - 1\<rparr>)
           (fst (a_remove t (rs, ws))) (snd (a_remove t (rs, ws)))"
proof -
  from assms have q: "queues s rs ws" and n: "unat (num_task s) = length rs + length ws"
    and le: "length rs + length ws \<le> 128" by (auto simp: sched_ok_def)
  from queues_distinct [OF q] have d: "distinct (rs @ ws)" .
  consider xs ys where "rs = xs @ t # ys" | xs ys where "ws = xs @ t # ys"
    using assms(2) by (auto dest: split_list)
  then show ?thesis
  proof cases
    case 1
    with d have r: "remove1 t rs = xs @ ys" "remove1 t ws = ws"
      by (auto simp: remove1_append remove1_idem)
    have "unat (num_task s) = Suc (length (xs @ ys) + length ws)" using n 1 by simp
    from dec_num_task [OF this] q 1 r le q_del_run [of s xs t ys ws] show ?thesis
      by (simp add: sched_ok_def a_remove_def)
  next
    case 2
    with d have r: "remove1 t ws = xs @ ys" "remove1 t rs = rs"
      by (auto simp: remove1_append remove1_idem)
    have "unat (num_task s) = Suc (length rs + length (xs @ ys))" using n 2 by simp
    from dec_num_task [OF this] q 2 r le q_del_wait [of s rs xs t ys] show ?thesis
      by (simp add: sched_ok_def a_remove_def)
  qed
qed

end
