(* ===== verification/Sched_Props.thy ===== *)
theory Sched_Props
  imports Sched_Spec
begin

text \<open>
  The properties of the scheduler: each system call refines its list version, every
  sequence of scheduler calls keeps the queues well formed, round robin reaches every
  runnable task, and what \<^verbatim>\<open>awake\<close> really does to sleeping tasks.
\<close>

section \<open>Adding a task\<close>

lemma inc_num_task:
  "unat (n :: u64) = k \<Longrightarrow> k < 128 \<Longrightarrow> unat (n + 1) = Suc k \<and> \<not> n + 1 > NR_TASKS"
  by (simp add: word_less_nat_alt unat_word_ariths)

lemma full_num_task: "unat (n :: u64) = 128 \<Longrightarrow> n + 1 > NR_TASKS"
  by (simp add: word_less_nat_alt unat_word_ariths)

lemma addTask_ok:
  assumes "sched_ok s rs ws" "fresh_task s rs ws t"
  shows "if length rs + length ws < 128
         then fst (addTasktoQueue t s) = 0 \<and> sched_ok (snd (addTasktoQueue t s)) (rs @ [t]) ws \<and>
              fst (addTasktoQueueHead t s) = 0 \<and> sched_ok (snd (addTasktoQueueHead t s)) (t # rs) ws
         else addTasktoQueue t s = (-1, s) \<and> addTasktoQueueHead t s = (-1, s)"
proof -
  from assms(1) have q: "queues s rs ws" and n: "unat (num_task s) = length rs + length ws"
    and le: "length rs + length ws \<le> 128" by (auto simp: sched_ok_def)
  show ?thesis
  proof (cases "length rs + length ws < 128")
    case True
    with inc_num_task [OF n] q_add_tail [OF q assms(2)] q_add_head [OF q assms(2)]
    show ?thesis by (auto simp: addTasktoQueue_def addTasktoQueueHead_def sched_ok_def)
  next
    case False
    with le n have "num_task s + 1 > NR_TASKS" by (intro full_num_task) simp
    with False show ?thesis by (simp add: addTasktoQueue_def addTasktoQueueHead_def)
  qed
qed

section \<open>Terminating and blocking\<close>

lemma exit_wake_remove:
  assumes "sched_ok s rs ws" "t \<in> set rs \<union> set ws"
  shows "\<exists>s1. awakepid (ucast (t_ppid (tasks s t))) s = Some s1 \<and>
           sched_ok ((upd_lists (list_del (node t)) s1)\<lparr>num_task := num_task s1 - 1\<rparr>)
             (fst (a_kill s t (rs, ws))) (snd (a_kill s t (rs, ws))) \<and> tasks s1 = tasks s"
proof -
  let ?w = "a_wake (parent_of s t) (rs, ws)"
  from assms(1) have q: "queues s rs ws" by (simp add: sched_ok_def)
  from awakepid_spec [OF q, of t] obtain s1 where s1:
    "awakepid (ucast (t_ppid (tasks s t))) s = Some s1" "queues s1 (fst ?w) (snd ?w)"
    "tasks s1 = tasks s" "num_task s1 = num_task s" by blast
  have "sched_ok s1 (fst ?w) (snd ?w)"
    using s1 assms(1) a_wake_length [of "parent_of s t" rs ws] by (simp add: sched_ok_def)
  moreover have "t \<in> set (fst ?w) \<union> set (snd ?w)"
    using assms(2) queues_distinct [OF q] a_wake_set [of ws "parent_of s t" rs] by simp
  ultimately show ?thesis
    using s1 remove_task_spec [of s1 "fst ?w" "snd ?w" t] by (auto simp: a_kill_def)
qed

lemma sys_exit_ok:
  assumes "sched_ok s rs ws" "rs \<noteq> []"
  shows "\<exists>s'. sys_exit s = Some (sched_result (-1) (fst (a_exit s (rs, ws))), s') \<and>
           sched_ok s' (fst (a_exit s (rs, ws))) (snd (a_exit s (rs, ws))) \<and> tasks s' = tasks s"
proof -
  let ?k = "a_kill s (last rs) (rs, ws)"
  have cur: "getCurrentTask s = last rs"
    using assms by (auto simp: sched_ok_def intro: current_last)
  obtain s1 where s1: "awakepid (ucast (t_ppid (tasks s (last rs)))) s = Some s1"
    "sched_ok ((upd_lists (list_del (node (last rs))) s1)\<lparr>num_task := num_task s1 - 1\<rparr>) (fst ?k) (snd ?k)"
    "tasks s1 = tasks s"
    using exit_wake_remove [OF assms(1), of "last rs"] assms(2) by auto
  have "a_exit s (rs, ws) = (rotate1 (fst ?k), snd ?k)"
    by (simp add: a_exit_def a_kill_def a_rotate_def case_prod_beta)
  with schedule_ret_spec [OF s1(2), of "-1"] s1 cur show ?thesis
    by (auto simp: sys_exit_def Let_def sched_result_def)
qed

lemma block_ok:
  assumes "sched_ok s rs ws" "rs \<noteq> []"
  shows "\<exists>s'. schedule_ret v (upd_lists (list_move (node (last rs)) (waitQueue s)) s) =
                (sched_result v (fst (a_block (rs, ws))), s') \<and>
           sched_ok s' (fst (a_block (rs, ws))) (snd (a_block (rs, ws))) \<and> tasks s' = tasks s"
proof -
  have len: "length (butlast rs) + length (last rs # ws) = length rs + length ws"
    using assms(2) by (cases rs rule: rev_cases) auto
  have "queues s (butlast rs @ last rs # []) ws" using assms by (simp add: sched_ok_def)
  from q_move_wait [OF this] assms(1)
  have "sched_ok (upd_lists (list_move (node (last rs)) (waitQueue s)) s) (butlast rs) (last rs # ws)"
    unfolding sched_ok_def len by simp
  from schedule_ret_spec [OF this, of v] show ?thesis
    by (auto simp: a_block_def a_rotate_def sched_result_def)
qed

lemma sys_sleep_ok:
  assumes "sched_ok s rs ws" "rs \<noteq> []"
  shows "\<exists>s'. sys_sleep n s = (sched_result 0 (fst (a_block (rs, ws))), s') \<and>
           sched_ok s' (fst (a_block (rs, ws))) (snd (a_block (rs, ws))) \<and>
           tasks s' = (tasks s)(last rs := (tasks s (last rs))\<lparr>t_is_sleep := True, t_sleep_time := n\<rparr>)"
proof -
  let ?s = "upd_task (last rs) (\<lambda>t. t\<lparr>t_is_sleep := True, t_sleep_time := n\<rparr>) s"
  have cur: "getCurrentTask s = last rs"
    using assms by (auto simp: sched_ok_def intro: current_last)
  from assms have "sched_ok ?s rs ws" by (simp add: sched_ok_def)
  from block_ok [OF this assms(2), of 0] show ?thesis
    by (simp add: sys_sleep_def Let_def cur)
qed

lemma sys_waitpid_ok:
  assumes "sched_ok s rs ws" "rs \<noteq> []"
  shows "if \<exists>t \<in> set rs \<union> set ws. has_pid s pid t
         then \<exists>s'. sys_waitpid pid s = Some (sched_result (uint pid) (fst (a_block (rs, ws))), s') \<and>
                sched_ok s' (fst (a_block (rs, ws))) (snd (a_block (rs, ws))) \<and> tasks s' = tasks s
         else sys_waitpid pid s = Some (Ret (-1), s)"
proof -
  from assms have q: "queues s rs ws" by (simp add: sched_ok_def)
  note f = find_run [OF q, of pid] find_wait [OF q, of pid] current_last [OF q assms(2)]
  show ?thesis
  proof (cases "\<exists>t \<in> set rs \<union> set ws. has_pid s pid t")
    case True
    then have "find (has_pid s pid) rs \<noteq> None \<or> find (has_pid s pid) ws \<noteq> None"
      by (auto simp: find_None_iff)
    with block_ok [OF assms, of "uint pid"] f True show ?thesis
      by (auto simp: sys_waitpid_def Let_def split: option.splits)
  next
    case False
    then have "find (has_pid s pid) rs = None" "find (has_pid s pid) ws = None"
      by (auto simp: find_None_iff)
    with f False show ?thesis by (simp add: sys_waitpid_def Let_def)
  qed
qed

lemma kill_task_ok:
  assumes "sched_ok s rs ws" "t \<in> set rs \<union> set ws"
  shows "\<exists>s'. kill_task t s = Some (Ret 0, s') \<and>
           sched_ok s' (fst (a_kill s t (rs, ws))) (snd (a_kill s t (rs, ws))) \<and> tasks s' = tasks s"
  using exit_wake_remove [OF assms] by (auto simp: kill_task_def Let_def)

lemma sys_kill_ok:
  assumes "sched_ok s rs ws" "rs \<noteq> []"
  shows "\<exists>o1 s' rs' ws'. sys_kill pid sig s = Some (o1, s') \<and> sched_ok s' rs' ws' \<and> tasks s' = tasks s"
proof -
  from assms have q: "queues s rs ws" by (simp add: sched_ok_def)
  note f = find_run [OF q, of pid] find_wait [OF q, of pid]
  show ?thesis
  proof (cases "sig = SIGKILL \<and> scast pid \<noteq> sys_getpid s")
    case True
    have r: "\<exists>s'. kill_task t s = Some (Ret 0, s') \<and> (\<exists>rs' ws'. sched_ok s' rs' ws') \<and> tasks s' = tasks s"
      if "find (has_pid s pid) rs = Some t \<or> find (has_pid s pid) ws = Some t" for t
    proof -
      from that have "t \<in> set rs \<union> set ws" by (auto dest: find_SomeD)
      from kill_task_ok [OF assms(1) this] show ?thesis by blast
    qed
    show ?thesis
    proof (cases "find (has_pid s pid) rs")
      case (Some t)
      with r [of t] f True show ?thesis by (auto simp: sys_kill_def)
    next
      case None
      then show ?thesis
      proof (cases "find (has_pid s pid) ws")
        case (Some t)
        with None r [of t] f True show ?thesis by (auto simp: sys_kill_def)
      next
        case None': None
        with None f True assms show ?thesis by (auto simp: sys_kill_def)
      qed
    qed
  next
    case False
    show ?thesis
    proof (cases "sig = SIGKILL")
      case True
      with sys_exit_ok [OF assms] False show ?thesis
        by (auto simp: sys_kill_def sched_result_def split: outcome.splits) blast+
    next
      case False
      with assms show ?thesis by (auto simp: sys_kill_def)
    qed
  qed
qed

section \<open>Waking sleepers: \<^verbatim>\<open>awake\<close>\<close>

text \<open>
  The loop of \<^verbatim>\<open>awake\<close> continues from the successor of an entry it may just have
  moved to the run queue.  From there it runs round the run queue, whose head it takes
  for one more entry, and never meets the head of the wait queue again.
\<close>

lemma ring_next:
  assumes "queues s rs ws" "node pos \<in> set (runQueue s # map node rs)"
  shows "node (list_next_entry s pos) \<in> set (runQueue s # map node rs)"
proof (cases "node pos = runQueue s")
  case True
  have "nxt (nodes s) (runQueue s) \<in> set (runQueue s # map node rs)"
    using assms(1) dlist_first [of "nodes s" "runQueue s" "map node rs"]
      case_list_in_set [of "runQueue s" "map node rs"] by (simp add: queues_def)
  with True show ?thesis by (simp add: list_next_entry_def)
next
  case False
  with assms(2) have "pos \<in> set rs" by auto
  then obtain xs ys where rs: "rs = xs @ pos # ys" by (auto dest: split_list)
  with assms(1) dlist_neighbours(2) [of "nodes s" "runQueue s" "map node xs" "node pos" "map node ys"]
    case_list_in_set [of "runQueue s" "map node ys"]
  show ?thesis by (auto simp: queues_def list_next_entry_def)
qed

definition head_awake :: "sched \<Rightarrow> bool" where
  "head_awake s \<longleftrightarrow> \<not> t_is_sleep (tasks s (list_entry (runQueue s)))"

lemma awake_body_ring:
  assumes "queues s rs ws" "node pos \<in> set (runQueue s # map node rs)" "head_awake s"
  shows "\<exists>rs'. queues (awake_body pos s) rs' ws \<and> set rs' = set rs \<and>
           runQueue (awake_body pos s) = runQueue s \<and> waitQueue (awake_body pos s) = waitQueue s \<and>
           head_awake (awake_body pos s)"
proof (cases "node pos = runQueue s")
  case True
  then have "pos = list_entry (runQueue s)" by (simp add: node_eq_iff)
  with assms show ?thesis by (auto simp: awake_body_def head_awake_def)
next
  case False
  with assms(2) have "pos \<in> set rs" by auto
  then obtain xs ys where rs: "rs = xs @ pos # ys" by (auto dest: split_list)
  have ne: "pos \<noteq> list_entry (runQueue s)" using False by auto
  have mv: "queues (upd_lists (list_move (node pos) (runQueue s)) (upd_task pos g (upd_task pos f s))) (pos # xs @ ys) ws" for f g
    using assms(1) rs q_move_run_within [of "upd_task pos g (upd_task pos f s)" xs pos ys ws] by simp
  show ?thesis
  proof (cases "t_is_sleep (tasks s pos) \<and> sint (t_sleep_time (tasks s pos) - 1) \<le> 0")
    case True
    with mv ne rs assms(3) show ?thesis
      by (intro exI [of _ "pos # xs @ ys"]) (auto simp: awake_body_def head_awake_def Let_def)
  next
    case False
    with ne assms show ?thesis
      by (intro exI [of _ rs]) (auto simp: awake_body_def head_awake_def Let_def)
  qed
qed

lemma awake_loop_ring:
  assumes "awake_loop s pos = Some s'"
  shows "\<not> (queues s rs ws \<and> node pos \<in> set (runQueue s # map node rs) \<and> head_awake s)"
proof -
  have "\<forall>rs ws. \<not> (queues s rs ws \<and> node pos \<in> set (runQueue s # map node rs) \<and> head_awake s)"
  proof (rule awake_loop.raw_induct [where P = "\<lambda>s pos _. \<forall>rs ws. \<not> (queues s rs ws \<and>
      node pos \<in> set (runQueue s # map node rs) \<and> head_awake s)", OF _ assms])
    fix f s pos y
    assume IH: "\<And>s pos y. f s pos = Some y \<Longrightarrow>
        \<forall>rs ws. \<not> (queues s rs ws \<and> node pos \<in> set (runQueue s # map node rs) \<and> head_awake s)"
      and ret: "(if node pos = waitQueue s then Some s
        else f (awake_body pos s) (list_next_entry (awake_body pos s) pos)) = Some y"
    show "\<forall>rs ws. \<not> (queues s rs ws \<and> node pos \<in> set (runQueue s # map node rs) \<and> head_awake s)"
    proof (intro allI notI, elim conjE)
      fix rs ws
      assume q: "queues s rs ws" and ring: "node pos \<in> set (runQueue s # map node rs)"
        and h: "head_awake s"
      have "node pos \<noteq> waitQueue s"
        using ring queues_heads(2) [OF q, of pos] queues_heads_differ [OF q] by auto
      with ret have f: "f (awake_body pos s) (list_next_entry (awake_body pos s) pos) = Some y"
        by simp
      obtain rs' where rs': "queues (awake_body pos s) rs' ws" "set rs' = set rs"
          "runQueue (awake_body pos s) = runQueue s" "head_awake (awake_body pos s)"
        using awake_body_ring [OF q ring h] by auto
      then have "node pos \<in> set (runQueue (awake_body pos s) # map node rs')" using ring by simp
      from ring_next [OF rs'(1) this] rs' IH [OF f] show False by blast
    qed
  qed
  then show ?thesis by blast
qed

text \<open>A pass over the wait queue that returns has woken nobody.\<close>

definition wakes :: "sched \<Rightarrow> ptr \<Rightarrow> bool" where
  "wakes s t \<longleftrightarrow> t_is_sleep (tasks s t) \<and> sint (t_sleep_time (tasks s t) - 1) \<le> 0"

definition tick_task :: "task_struct \<Rightarrow> task_struct" where
  "tick_task t = (if t_is_sleep t then t\<lparr>t_sleep_time := t_sleep_time t - 1\<rparr> else t)"

lemma awake_body_quiet: "\<not> wakes s t \<Longrightarrow> awake_body t s = upd_task t tick_task s"
  by (auto simp: awake_body_def wakes_def Let_def tick_task_def upd_task_def)

lemma awake_body_wakes:
  assumes "queues s rs (xs @ t # ys)" "wakes s t"
  shows "queues (awake_body t s) (t # rs) (xs @ ys)"
    and "list_next_entry (awake_body t s) t = list_entry (nxt (nodes (awake_body t s)) (node t))"
proof -
  have "queues (upd_lists (list_move (node t) (runQueue s)) (upd_task t g (upd_task t f s))) (t # rs) (xs @ ys)" for f g
    using assms(1) q_move_run [of "upd_task t g (upd_task t f s)" rs xs t ys] by simp
  with assms(2) show "queues (awake_body t s) (t # rs) (xs @ ys)"
    by (simp add: awake_body_def wakes_def Let_def)
qed (simp add: list_next_entry_def)

lemma awake_loop_woken:
  assumes "queues s rs (xs @ t # ys)" "wakes s t" "head_awake s"
  shows "awake_loop s t = None"
proof (rule ccontr)
  let ?s = "awake_body t s"
  assume "awake_loop s t \<noteq> None"
  then obtain s' where "awake_loop s t = Some s'" by auto
  moreover have "node t \<noteq> waitQueue s" using queues_heads(2) [OF assms(1), of t] by simp
  ultimately have ret: "awake_loop ?s (list_next_entry ?s t) = Some s'"
    by (simp add: awake_loop.simps [of s])
  have "t \<noteq> list_entry (runQueue s)" using queues_heads(1) [OF assms(1), of t] by auto
  with assms(2,3) have "head_awake ?s"
    by (simp add: awake_body_def wakes_def Let_def head_awake_def)
  moreover note q = awake_body_wakes(1) [OF assms(1,2)]
  ultimately show False
    using awake_loop_ring [OF ret, of "t # rs" "xs @ ys"] ring_next [OF q, of t] by simp
qed


definition entry_at :: "ptr \<Rightarrow> ptr list \<Rightarrow> ptr" where
  "entry_at q ts = (case ts of [] \<Rightarrow> list_entry q | t # _ \<Rightarrow> t)"

lemma entry_at_next:
  assumes "queues s rs (xs @ t # ys)"
  shows "list_next_entry s t = entry_at (waitQueue s) ys"
  using assms dlist_neighbours(2) [of "nodes s" "waitQueue s" "map node xs" "node t" "map node ys"]
  by (auto simp: queues_def list_next_entry_def entry_at_def split: list.splits)

lemma entry_at_first: "queues s rs ws \<Longrightarrow> list_first_entry s (waitQueue s) = entry_at (waitQueue s) ws"
  using dlist_first [of "nodes s" "waitQueue s" "map node ws"]
  by (auto simp: queues_def list_first_entry_def entry_at_def split: list.splits)

lemma wakes_upd_other: "t \<noteq> u \<Longrightarrow> wakes (upd_task t f s) u \<longleftrightarrow> wakes s u"
  by (simp add: wakes_def)

lemma awake_loop_spec:
  assumes "queues s rs (xs @ ys)" "head_awake s"
  shows "awake_loop s (entry_at (waitQueue s) ys) =
           (if \<exists>t \<in> set ys. wakes s t then None else Some (fold (\<lambda>t. upd_task t tick_task) ys s))"
  using assms
proof (induction ys arbitrary: s xs)
  case Nil
  then show ?case by (simp add: entry_at_def awake_loop.simps)
next
  case (Cons t ys)
  show ?case
  proof (cases "wakes s t")
    case True
    with awake_loop_woken [OF Cons.prems(1) True Cons.prems(2)] show ?thesis
      by (simp add: entry_at_def)
  next
    case False
    let ?s = "upd_task t tick_task s"
    have ne: "node t \<noteq> waitQueue s" "t \<noteq> list_entry (runQueue s)"
      using queues_heads [OF Cons.prems(1), of t] by auto
    have q: "queues ?s rs ((xs @ [t]) @ ys)" using Cons.prems(1) by simp
    have h: "head_awake ?s" using Cons.prems(2) ne(2) by (simp add: head_awake_def)
    have "t \<notin> set ys" using queues_distinct [OF Cons.prems(1)] by auto
    then have w: "(\<exists>u \<in> set ys. wakes ?s u) \<longleftrightarrow> (\<exists>u \<in> set ys. wakes s u)"
      using wakes_upd_other by metis
    have "awake_loop s t = awake_loop ?s (entry_at (waitQueue ?s) ys)"
      using ne(1) entry_at_next [of ?s rs xs t ys] Cons.prems(1)
      by (simp add: awake_loop.simps [of s] awake_body_quiet [OF False])
    with Cons.IH [OF q h] w False show ?thesis by (simp add: entry_at_def)
  qed
qed

lemma awake_spec:
  assumes "queues s rs ws" "head_awake s"
  shows "awake s = (if length ws \<le> 1 then Some s
           else if \<exists>t \<in> set ws. wakes s t then None
           else Some (fold (\<lambda>t. upd_task t tick_task) ws s))"
  using awake_loop_spec [of s rs "[]" ws] assms
  by (auto simp: awake_def waitQueue_empty_iff waitQueue_singular_iff entry_at_first le_Suc_eq)

lemma queues_ticks [simp]: "queues (fold (\<lambda>t. upd_task t f) ts s) rs ws \<longleftrightarrow> queues s rs ws"
  by (induction ts arbitrary: s) auto

lemma ticks_sel [simp]:
  "num_task (fold (\<lambda>t. upd_task t f) ts s) = num_task s"
  "runQueue (fold (\<lambda>t. upd_task t f) ts s) = runQueue s"
  "waitQueue (fold (\<lambda>t. upd_task t f) ts s) = waitQueue s"
  by (induction ts arbitrary: s) auto

lemma ticks_task:
  "u \<notin> set ts \<Longrightarrow> tasks (fold (\<lambda>t. upd_task t f) ts s) u = tasks s u"
  by (induction ts arbitrary: s) auto


section \<open>Round robin\<close>

lemma schedule_nodes:
  assumes "queues s rs ws" "rs \<noteq> []"
  shows "nodes (snd (schedule s)) =
           list_add_tail (nxt (nodes s) (runQueue s)) (runQueue s)
             (list_del_entry_raw (nxt (nodes s) (runQueue s)) (nodes s))"
  using assms
  by (simp add: schedule_def Let_def runQueue_empty_iff getNextTask_def list_move_tail_def)

lemma schedule_iter:
  assumes "queues s rs ws" "rs \<noteq> []"
  shows "queues (((\<lambda>s. snd (schedule s)) ^^ k) s) (rotate k rs) ws \<and>
         runQueue (((\<lambda>s. snd (schedule s)) ^^ k) s) = runQueue s \<and>
         nodes (((\<lambda>s. snd (schedule s)) ^^ k) s) =
           ((\<lambda>h. list_add_tail (nxt h (runQueue s)) (runQueue s)
                   (list_del_entry_raw (nxt h (runQueue s)) h)) ^^ k) (nodes s)"
proof (induction k)
  case 0
  show ?case using assms by simp
next
  case (Suc k)
  let ?t = "((\<lambda>s. snd (schedule s)) ^^ k) s"
  from Suc.IH have q: "queues ?t (rotate k rs) ws" and ne: "rotate k rs \<noteq> []"
    using assms(2) by auto
  from schedule_switch(2) [OF q ne] schedule_nodes [OF q ne] Suc.IH show ?case
    by (simp add: schedule_sel)
qed

lemma schedule_reaches:
  assumes "queues s rs ws" "i < length rs"
  shows "getCurrentTask (((\<lambda>s. snd (schedule s)) ^^ Suc i) s) = rs ! i"
proof -
  from assms(2) have ne: "rs \<noteq> []" by auto
  from assms(1) have "dlist (nodes s) (runQueue s) (map node rs)" by (simp add: queues_def)
  from lq.rotate_reaches [OF this, of i] assms(2) schedule_iter [OF assms(1) ne, of "Suc i"]
  show ?thesis by (simp add: getCurrentTask_def del: funpow.simps)
qed

section \<open>Sequences of scheduler calls\<close>

text \<open>The static initialisation of \<^verbatim>\<open>sched.c\<close>: two empty lists and no task.\<close>

definition sched_init :: "ptr \<Rightarrow> ptr \<Rightarrow> (ptr \<Rightarrow> task_struct) \<Rightarrow> lheap \<Rightarrow> cpu \<Rightarrow> sched" where
  "sched_init rq wq ts h c =
     \<lparr>nodes = INIT_LIST_HEAD wq (INIT_LIST_HEAD rq h), tasks = ts, runQueue = rq, waitQueue = wq,
      num_task = 0, currentTask = 0, nextTask = 0, cpu = c\<rparr>"

text \<open>
  One call into the scheduler.  The calls made on behalf of the current process need one;
  \<^verbatim>\<open>add\<close> takes a task that is in no queue, as the callers do with a new
  \<^verbatim>\<open>task_struct\<close>; \<^verbatim>\<open>pcb\<close> is any write to a \<^verbatim>\<open>task_struct\<close> by the rest of the kernel.
\<close>

definition unqueued :: "sched \<Rightarrow> ptr \<Rightarrow> bool" where
  "unqueued s t \<longleftrightarrow>
     node t \<noteq> runQueue s \<and> node t \<noteq> waitQueue s \<and>
     (case entries_from s (runQueue s) (list_first_entry s (runQueue s)) of
        None \<Rightarrow> False | Some rs \<Rightarrow> t \<notin> set rs) \<and>
     (case entries_from s (waitQueue s) (list_first_entry s (waitQueue s)) of
        None \<Rightarrow> False | Some ws \<Rightarrow> t \<notin> set ws)"

inductive sched_step :: "sched \<Rightarrow> sched \<Rightarrow> bool" where
  add: "unqueued s t \<Longrightarrow> sched_step s (snd (addTasktoQueue t s))"
| add_head: "unqueued s t \<Longrightarrow> sched_step s (snd (addTasktoQueueHead t s))"
| tick: "sched_step s (snd (schedule s))"
| exit: "\<not> list_empty (runQueue s) (nodes s) \<Longrightarrow> sys_exit s = Some (r, s') \<Longrightarrow> sched_step s s'"
| sleep: "\<not> list_empty (runQueue s) (nodes s) \<Longrightarrow> sched_step s (snd (sys_sleep n s))"
| wait: "\<not> list_empty (runQueue s) (nodes s) \<Longrightarrow> sys_waitpid pid s = Some (r, s') \<Longrightarrow> sched_step s s'"
| kill: "\<not> list_empty (runQueue s) (nodes s) \<Longrightarrow> sys_kill pid sig s = Some (r, s') \<Longrightarrow> sched_step s s'"
| wake: "awake s = Some s' \<Longrightarrow> sched_step s s'"
| pcb: "t \<noteq> list_entry (runQueue s) \<Longrightarrow> sched_step s (upd_task t f s)"

inductive sched_reach :: "sched \<Rightarrow> sched \<Rightarrow> bool" where
  start: "sched_reach s s"
| step: "sched_reach s s' \<Longrightarrow> sched_step s' s'' \<Longrightarrow> sched_reach s s''"

definition sched_inv :: "sched \<Rightarrow> bool" where
  "sched_inv s \<longleftrightarrow> (\<exists>rs ws. sched_ok s rs ws) \<and> head_awake s"

lemma sched_init_ok: "rq \<noteq> wq \<Longrightarrow> sched_ok (sched_init rq wq ts h c) [] []"
  by (auto simp: sched_init_def sched_ok_def queues_def dlist_def apart_def INIT_LIST_HEAD_def)

lemma unqueued_fresh: "queues s rs ws \<Longrightarrow> unqueued s t \<longleftrightarrow> fresh_task s rs ws t"
  by (auto simp: unqueued_def fresh_task_def entries_run entries_wait)

subsection \<open>The queue heads are fixed\<close>

lemma runQueue_fixed:
  "runQueue (snd (addTasktoQueue t s)) = runQueue s"
  "runQueue (snd (addTasktoQueueHead t s)) = runQueue s"
  "runQueue (snd (schedule_ret v s)) = runQueue s"
  "runQueue (snd (sys_sleep n s)) = runQueue s"
  "awakepid p s = Some s' \<Longrightarrow> runQueue s' = runQueue s"
proof -
  show rs: "runQueue (snd (schedule_ret v s)) = runQueue s" for v s
    using schedule_sel(2) [of s] by (auto simp: schedule_ret_def split: prod.splits outcome.splits)
  show "runQueue (snd (sys_sleep n s)) = runQueue s"
    by (simp add: sys_sleep_def Let_def rs)
qed (auto simp: addTasktoQueue_def addTasktoQueueHead_def awakepid_def split: if_splits option.splits)

lemma runQueue_fixed_calls:
  "sys_exit s = Some (r, s') \<Longrightarrow> runQueue s' = runQueue s"
  "sys_waitpid pid s = Some (r, s') \<Longrightarrow> runQueue s' = runQueue s"
  "kill_task t s = Some (r, s') \<Longrightarrow> runQueue s' = runQueue s"
  "sys_kill pid sig s = Some (r, s') \<Longrightarrow> runQueue s' = runQueue s"
proof -
  show ex: "runQueue s' = runQueue s" if "sys_exit s = Some (r, s')" for r s s'
  proof -
    from that obtain s1 where "awakepid (ucast (t_ppid (tasks s (getCurrentTask s)))) s = Some s1"
      and s': "s' = snd (schedule_ret (-1) ((upd_lists (list_del (node (getCurrentTask s))) s1)\<lparr>num_task := num_task s1 - 1\<rparr>))"
      by (auto simp: sys_exit_def Let_def split: option.splits)
    then show ?thesis by (simp add: runQueue_fixed)
  qed
  show "runQueue s' = runQueue s" if "sys_waitpid pid s = Some (r, s')"
    using that runQueue_fixed(3) [of "uint pid" "upd_lists (list_move (node (getCurrentTask s)) (waitQueue s)) s"]
    by (auto simp: sys_waitpid_def Let_def split: option.splits)
  show k: "runQueue s' = runQueue s" if "kill_task t s = Some (r, s')" for t r s s'
    using that runQueue_fixed(5) by (auto simp: kill_task_def Let_def split: option.splits)
  show "runQueue s' = runQueue s" if "sys_kill pid sig s = Some (r, s')"
    using that ex k by (auto simp: sys_kill_def split: if_splits option.splits outcome.splits)
qed

lemma sched_ok_schedule: "sched_ok s rs ws \<Longrightarrow> sched_ok (snd (schedule s)) (rotate1 rs) ws"
  by (cases "rs = []") (auto simp: sched_ok_def schedule_idle schedule_switch schedule_sel)

lemma sched_invI:
  "sched_ok s' rs ws \<Longrightarrow> head_awake s \<Longrightarrow> runQueue s' = runQueue s \<Longrightarrow> tasks s' = tasks s \<Longrightarrow>
   sched_inv s'"
  by (auto simp: sched_inv_def head_awake_def)

lemma sched_step_inv:
  assumes "sched_step s s'" "sched_inv s"
  shows "sched_inv s'"
  using assms
proof (induction rule: sched_step.induct)
  case (add s t)
  then obtain rs ws where ok: "sched_ok s rs ws" and h: "head_awake s" by (auto simp: sched_inv_def)
  with add have "fresh_task s rs ws t" by (auto simp: sched_ok_def unqueued_fresh)
  from addTask_ok [OF ok this] ok h show ?case
    by (auto simp: sched_inv_def head_awake_def runQueue_fixed addTasktoQueue_def split: if_splits)
next
  case (add_head s t)
  then obtain rs ws where ok: "sched_ok s rs ws" and h: "head_awake s" by (auto simp: sched_inv_def)
  with add_head have "fresh_task s rs ws t" by (auto simp: sched_ok_def unqueued_fresh)
  from addTask_ok [OF ok this] ok h show ?case
    by (auto simp: sched_inv_def head_awake_def runQueue_fixed addTasktoQueueHead_def split: if_splits)
next
  case (tick s)
  then show ?case
    by (auto simp: sched_inv_def head_awake_def schedule_sel dest: sched_ok_schedule)
next
  case (exit s r s')
  then obtain rs ws where ok: "sched_ok s rs ws" and h: "head_awake s" by (auto simp: sched_inv_def)
  with exit have "rs \<noteq> []" by (auto simp: sched_ok_def runQueue_empty_iff)
  from sys_exit_ok [OF ok this] exit.hyps(2) runQueue_fixed_calls(1) [OF exit.hyps(2)] h
  show ?case by (auto intro: sched_invI)
next
  case (sleep s n)
  then obtain rs ws where ok: "sched_ok s rs ws" and h: "head_awake s" by (auto simp: sched_inv_def)
  with sleep have ne: "rs \<noteq> []" by (auto simp: sched_ok_def runQueue_empty_iff)
  have "list_entry (runQueue s) \<noteq> last rs"
    using queues_heads(1) [of s rs ws "last rs"] ok ne by (auto simp: sched_ok_def node_eq_iff)
  with sys_sleep_ok [OF ok ne, of n] h runQueue_fixed(4) [of n s] show ?case
    by (fastforce simp: sched_inv_def head_awake_def)
next
  case (wait s pid r s')
  then obtain rs ws where ok: "sched_ok s rs ws" and h: "head_awake s" by (auto simp: sched_inv_def)
  with wait have "rs \<noteq> []" by (auto simp: sched_ok_def runQueue_empty_iff)
  from sys_waitpid_ok [OF ok this, of pid] wait.hyps(2) ok
  have "tasks s' = tasks s \<and> (\<exists>rs' ws'. sched_ok s' rs' ws')"
    by (cases "\<exists>t \<in> set rs \<union> set ws. has_pid s pid t") auto
  with runQueue_fixed_calls(2) [OF wait.hyps(2)] h show ?case by (auto intro: sched_invI)
next
  case (kill s pid sig r s')
  then obtain rs ws where ok: "sched_ok s rs ws" and h: "head_awake s" by (auto simp: sched_inv_def)
  with kill have "rs \<noteq> []" by (auto simp: sched_ok_def runQueue_empty_iff)
  from sys_kill_ok [OF ok this, of pid sig] kill.hyps(2) runQueue_fixed_calls(4) [OF kill.hyps(2)] h
  show ?case by (auto intro: sched_invI)
next
  case (wake s s')
  then obtain rs ws where ok: "sched_ok s rs ws" and h: "head_awake s" by (auto simp: sched_inv_def)
  from ok have q: "queues s rs ws" by (simp add: sched_ok_def)
  have "list_entry (runQueue s) \<notin> set ws"
    using queues_heads(1) [OF q, of "list_entry (runQueue s)"] by auto
  with awake_spec [OF q h] wake.hyps ok h show ?case
    by (auto simp: sched_inv_def head_awake_def sched_ok_def ticks_task split: if_splits)
next
  case (pcb t s f)
  then show ?case by (auto simp: sched_inv_def head_awake_def sched_ok_def)
qed

lemma sched_reach_inv: "sched_reach s s' \<Longrightarrow> sched_inv s \<Longrightarrow> sched_inv s'"
  by (induction rule: sched_reach.induct) (auto intro: sched_step_inv)

section \<open>A boot state\<close>

text \<open>
  The state \<^verbatim>\<open>start()\<close> reaches in \<^verbatim>\<open>main.c\<close>: the idle task and the shell are in the run
  queue, at concrete addresses.
\<close>

definition blank_File :: File where
  "blank_File = \<lparr>f_path = replicate 32 0, f_offset = 0, f_offset_read = 0, f_file_size = 0,
     f_flags = 0, f_seek = 0\<rparr>"

definition blank_task :: task_struct where
  "blank_task = \<lparr>t_state = 0, t_pid = 0, t_ppid = 0, t_dir_path = replicate 48 0,
     t_bin_name = replicate 24 0, t_is_sleep = False, t_sleep_time = 0, t_stack = 0,
     t_kstack = (\<lambda>_. 0), t_kernel_rsp = 0, t_cr3_address = 0, t_pml4e_addr = 0, t_entry_pt = 0,
     t_fd = replicate 25 blank_File, t_dup_arr = replicate 25 0, t_fd_cnt = 0, t_heap_vma = 0,
     t_heap = \<lparr>bump_ptr = 0, rem_size = 0, end_addr = 0\<rparr>, t_mm = 0\<rparr>"

definition blank_cpu :: cpu where
  "blank_cpu = \<lparr>regs = (\<lambda>_. 0), c_rip = 0, c_cs = 0, c_rflags = 0, c_rsp = 0, c_ss = 0,
     c_cr3 = 0, c_tss_rsp0 = 0\<rparr>"

definition boot0 :: sched where
  "boot0 = sched_init 0x1000 0x2000
     ((\<lambda>_. blank_task)(0x100000 := blank_task\<lparr>t_pid := 1\<rparr>, 0x200000 := blank_task\<lparr>t_pid := 2, t_ppid := 1\<rparr>))
     \<lparr>nxt = (\<lambda>_. 0), prv = (\<lambda>_. 0)\<rparr> blank_cpu"

definition boot2 :: sched where
  "boot2 = snd (addTasktoQueue 0x200000 (snd (addTasktoQueue 0x100000 boot0)))"

lemma boot0_ok: "sched_ok boot0 [] []"
  by (simp add: boot0_def sched_init_ok)

lemma addTask_sel [simp]:
  "tasks (snd (addTasktoQueue t s)) = tasks s" "tasks (snd (addTasktoQueueHead t s)) = tasks s"
  "runQueue (snd (addTasktoQueue t s)) = runQueue s" "waitQueue (snd (addTasktoQueue t s)) = waitQueue s"
  by (simp_all add: addTasktoQueue_def addTasktoQueueHead_def)

lemma boot0_sel [simp]:
  "tasks boot0 = (\<lambda>_. blank_task)(0x100000 := blank_task\<lparr>t_pid := 1\<rparr>, 0x200000 := blank_task\<lparr>t_pid := 2, t_ppid := 1\<rparr>)"
  "runQueue boot0 = 0x1000" "waitQueue boot0 = 0x2000"
  by (simp_all add: boot0_def sched_init_def)

lemma boot2_sel [simp]:
  "tasks boot2 = tasks boot0" "runQueue boot2 = 0x1000" "waitQueue boot2 = 0x2000"
  by (simp_all add: boot2_def)

lemma boot2_ok: "sched_ok boot2 [0x100000, 0x200000] []"
proof -
  have "fresh_task boot0 [] [] 0x100000"
    by (simp add: fresh_task_def node_def)
  with addTask_ok [OF boot0_ok, of "0x100000"]
  have 1: "sched_ok (snd (addTasktoQueue 0x100000 boot0)) [0x100000] []" by simp
  have "fresh_task (snd (addTasktoQueue 0x100000 boot0)) [0x100000] [] 0x200000"
    by (simp add: fresh_task_def node_def)
  with addTask_ok [OF 1, of "0x200000"] show ?thesis by (simp add: boot2_def)
qed

end
