(* ===== verification/Sched_Claims.thy ===== *)
theory Sched_Claims
  imports Sched_Props
begin

text \<open>
  The scheduler's properties, each over the definitions of \<^verbatim>\<open>Sched\<close>, with a witness at the
  boot state where a hypothesis needs one.
\<close>

lemma sys_getpid_has_pid: "scast pid = sys_getpid s \<longleftrightarrow> has_pid s pid (getCurrentTask s)"
proof -
  have 1: "(scast (ucast (a :: u16) :: u32) :: u64) = ucast a" for a
    by (rule bit_word_eqI) (auto simp: bit_simps min_def dest: bit_imp_le_length)
  have 2: "scast (scast (a :: u32) :: u64) = a" for a
    by (rule scast_up_scast_id) (simp add: is_up)
  have "scast pid = (scast (ucast (a :: u16) :: u32) :: u64) \<longleftrightarrow> ucast a = pid" for a
    using 2 by metis
  then show ?thesis by (simp add: sys_getpid_def 1)
qed

lemma a_kill_current:
  assumes "sched_ok s rs ws" "find (has_pid s pid) (rs @ ws) = Some t" "\<not> has_pid s pid (last rs)" "rs \<noteq> []"
  shows "\<exists>s'. sys_kill pid SIGKILL s = Some (Ret 0, s') \<and>
           sched_ok s' (fst (a_kill s t (rs, ws))) (snd (a_kill s t (rs, ws))) \<and> tasks s' = tasks s"
proof -
  from assms have q: "queues s rs ws" by (simp add: sched_ok_def)
  have t: "t \<in> set rs \<union> set ws" using find_SomeD [OF assms(2)] by auto
  have f: "case find (has_pid s pid) rs of None \<Rightarrow> find (has_pid s pid) ws = Some t | Some u \<Rightarrow> u = t"
    using assms(2) by (induction rs) (auto split: if_splits)
  have "scast pid \<noteq> sys_getpid s"
    using assms(3) current_last [OF q assms(4)] by (simp add: sys_getpid_has_pid)
  with f kill_task_ok [OF assms(1) t] find_run [OF q, of pid] find_wait [OF q, of pid]
  show ?thesis by (auto simp: sys_kill_def split: option.splits)
qed

section \<open>Properties\<close>

text \<open>
  C4. From the static initialisation of \<^verbatim>\<open>sched.c\<close>, every sequence of scheduler calls keeps
  the two queues well formed: both circular lists can be traversed, no task is in a
  queue twice or in both, and \<^verbatim>\<open>num_task\<close> is the number of queued tasks and never
  exceeds \<^verbatim>\<open>NR_TASKS\<close>.
\<close>

theorem sched_queues_invariant:
  assumes "rq \<noteq> wq" and "\<not> t_is_sleep (ts (list_entry rq))"
    and "sched_reach (sched_init rq wq ts h c) s"
  shows "\<exists>rs ws. entries_from s (runQueue s) (list_first_entry s (runQueue s)) = Some rs \<and>
           entries_from s (waitQueue s) (list_first_entry s (waitQueue s)) = Some ws \<and>
           queues s rs ws \<and> distinct (rs @ ws) \<and>
           unat (num_task s) = length (rs @ ws) \<and> length (rs @ ws) \<le> 128"
proof -
  have "head_awake (sched_init rq wq ts h c)"
    using assms(2) by (simp add: head_awake_def sched_init_def)
  with sched_init_ok [OF assms(1)] have "sched_inv (sched_init rq wq ts h c)"
    unfolding sched_inv_def by blast
  from sched_reach_inv [OF assms(3) this] obtain rs ws where "sched_ok s rs ws"
    by (auto simp: sched_inv_def)
  then show ?thesis
    using queues_distinct [of s rs ws]
    by (intro exI [of _ rs] exI [of _ ws]) (auto simp: sched_ok_def entries_run entries_wait)
qed

lemma schedule_cpu:
  assumes "queues s rs ws" "rs \<noteq> []"
  shows "cpu (snd (schedule s)) =
           resume_frame (t_kstack (tasks s (hd rs))) (kstack_slot (hd rs) (t_kernel_rsp (tasks s (hd rs))))
             ((cpu s)\<lparr>c_cr3 := t_cr3_address (tasks s (hd rs)), c_tss_rsp0 := kstack_addr (hd rs) (KERNEL_STACK_SIZE - 1)\<rparr>)"
  using runQueue_empty_iff [OF assms(1)] assms(2) next_first [OF assms]
  by (simp add: schedule_def sys_yield_def Let_def)

lemma resume_frame_slots:
  "map (regs (resume_frame st i c)) [R15, R14, R13, R12, R11, R10, R9, R8, RBP, RDI, RSI, RDX, RCX, RBX, RAX] = map st [i..<i + 15]"
  "c_rip (resume_frame st i c) = st (i + 15)" "c_cs (resume_frame st i c) = st (i + 16)" "c_rflags (resume_frame st i c) = st (i + 17)"
  "c_rsp (resume_frame st i c) = st (i + 18)" "c_ss (resume_frame st i c) = st (i + 19)"
  "c_cr3 (resume_frame st i c) = c_cr3 c" "c_tss_rsp0 (resume_frame st i c) = c_tss_rsp0 c"
proof -
  have "[i..<i + 15] = map (\<lambda>k. k + i) [0..<15]" using map_add_upt [of i 15] by (metis add.commute)
  also have "[0..<15] = [0, 1, 2, 3, 4, 5, 6, 7, 8, 9, 10, 11, 12, 13, 14 :: nat]" by (simp add: upt_conv_Cons)
  finally show "map (regs (resume_frame st i c)) [R15, R14, R13, R12, R11, R10, R9, R8, RBP, RDI, RSI, RDX, RCX, RBX, RAX] = map st [i..<i + 15]"
    by (simp add: resume_frame_def pop_order_def) (simp add: numeral_eq_Suc)
qed (simp_all add: resume_frame_def)

text \<open>
  C5. A call of \<^verbatim>\<open>schedule\<close> with a runnable task always leaves for the first task of the run
  queue, also when it is the only one, loads that task's page table and kernel stack top, and moves it to the tail, where
  \<^verbatim>\<open>getCurrentTask\<close> finds it; nothing else in the queues changes.  The processor goes on with the frame
  that the task's saved stack pointer names: fifteen registers from \<^verbatim>\<open>r15\<close> up to \<^verbatim>\<open>rax\<close>, then instruction pointer, code segment,
  flags, stack pointer and stack segment.
\<close>

theorem schedule_runs_next:
  assumes "sched_ok s rs ws" "rs \<noteq> []"
    and "f = t_kstack (tasks s (hd rs))" "i = kstack_slot (hd rs) (t_kernel_rsp (tasks s (hd rs)))" "c = cpu (snd (schedule s))"
  shows "fst (schedule s) = Switch \<and> sched_ok (snd (schedule s)) (tl rs @ [hd rs]) ws \<and>
         getCurrentTask (snd (schedule s)) = hd rs \<and> currentTask (snd (schedule s)) = last rs \<and>
         c_cr3 c = t_cr3_address (tasks s (hd rs)) \<and> c_tss_rsp0 c = kstack_addr (hd rs) (KERNEL_STACK_SIZE - 1) \<and>
         map (regs c) [R15, R14, R13, R12, R11, R10, R9, R8, RBP, RDI, RSI, RDX, RCX, RBX, RAX] = map f [i..<i + 15] \<and>
         c_rip c = f (i + 15) \<and> c_cs c = f (i + 16) \<and> c_rflags c = f (i + 17) \<and> c_rsp c = f (i + 18) \<and> c_ss c = f (i + 19)"
proof -
  from assms(1) have q: "queues s rs ws" by (simp add: sched_ok_def)
  note sw = schedule_switch [OF q assms(2)]
  have rot: "rotate1 rs = tl rs @ [hd rs]" using assms(2) by (cases rs) auto
  have "getCurrentTask (snd (schedule s)) = hd rs"
    using current_last [OF sw(2)] assms(2) by (simp add: rot)
  then show ?thesis
    using sw sched_ok_schedule [OF assms(1)] assms(3,4) schedule_cpu [OF q assms(2)]
    unfolding assms(5) by (simp add: rot resume_frame_slots del: list.map upt_rec_numeral)
qed

text \<open>
  C6. Round robin is fair: if nobody blocks, the task at position \<open>i\<close> of the run queue is on
  the processor after exactly \<open>i + 1\<close> calls of \<^verbatim>\<open>schedule\<close>, and after as many calls as there
  are tasks the queue is back in its old order.
\<close>

theorem schedule_fair:
  assumes "sched_ok s rs ws" "i < length rs"
  shows "getCurrentTask (((\<lambda>s. snd (schedule s)) ^^ Suc i) s) = rs ! i \<and>
         queues (((\<lambda>s. snd (schedule s)) ^^ length rs) s) rs ws"
proof -
  from assms have q: "queues s rs ws" and ne: "rs \<noteq> []" by (auto simp: sched_ok_def)
  from schedule_reaches [OF q assms(2)] schedule_iter [OF q ne, of "length rs"]
  show ?thesis by simp
qed

text \<open>
  C7. \<^verbatim>\<open>sys_exit\<close> always completes: it moves the first waiting task whose pid is the parent's to
  the head of the run queue, removes the current task, decrements \<^verbatim>\<open>num_task\<close> and runs the
  next task; it comes back with \<open>-1\<close> only when the run queue is then empty.
\<close>

theorem sys_exit_refines:
  assumes "sched_ok s rs ws" "rs \<noteq> []"
  shows "\<exists>s'. sys_exit s = Some (sched_result (-1) (fst (a_exit s (rs, ws))), s') \<and>
           sched_ok s' (fst (a_exit s (rs, ws))) (snd (a_exit s (rs, ws))) \<and> tasks s' = tasks s"
  using assms by (rule sys_exit_ok)

text \<open>
  C9. \<^verbatim>\<open>sys_sleep\<close> moves the current task to the head of the wait queue with its sleep flag and
  counter set, and runs the next task.
\<close>

theorem sys_sleep_refines:
  assumes "sched_ok s rs ws" "rs \<noteq> []"
  shows "\<exists>s'. sys_sleep n s = (sched_result 0 (fst (a_block (rs, ws))), s') \<and>
           sched_ok s' (fst (a_block (rs, ws))) (snd (a_block (rs, ws))) \<and>
           tasks s' = (tasks s)(last rs := (tasks s (last rs))\<lparr>t_is_sleep := True, t_sleep_time := n\<rparr>)"
  using assms by (rule sys_sleep_ok)

text \<open>
  C8. \<^verbatim>\<open>sys_waitpid\<close> blocks the caller exactly when some queued task has the pid; otherwise it
  returns \<open>-1\<close> at once and changes nothing.
\<close>

theorem sys_waitpid_refines:
  assumes "sched_ok s rs ws" "rs \<noteq> []"
  shows "if \<exists>t \<in> set rs \<union> set ws. has_pid s pid t
         then \<exists>s'. sys_waitpid pid s = Some (sched_result (uint pid) (fst (a_block (rs, ws))), s') \<and>
                sched_ok s' (fst (a_block (rs, ws))) (snd (a_block (rs, ws))) \<and> tasks s' = tasks s
         else sys_waitpid pid s = Some (Ret (-1), s)"
  using assms by (rule sys_waitpid_ok)

text \<open>
  C10. \<^verbatim>\<open>sys_kill\<close>, on every branch.  With \<^verbatim>\<open>SIGKILL\<close> and the caller's own pid it is \<^verbatim>\<open>sys_exit\<close>; with the pid of another queued task
  it wakes that task's parent, removes the task, the first one with the pid, from whichever queue holds it, and returns \<open>0\<close> without a
  switch; with a pid that no queued task has, and with any other signal, it returns \<open>-1\<close> and changes nothing.
\<close>

theorem sys_kill_refines:
  assumes "sched_ok s rs ws" "rs \<noteq> []"
  shows "if sig \<noteq> SIGKILL then sys_kill pid sig s = Some (Ret (-1), s)
         else if has_pid s pid (last rs) then
           \<exists>s'. sys_kill pid sig s = Some (sched_result (-1) (fst (a_exit s (rs, ws))), s') \<and>
             sched_ok s' (fst (a_exit s (rs, ws))) (snd (a_exit s (rs, ws))) \<and> tasks s' = tasks s
         else case find (has_pid s pid) (rs @ ws) of
           None \<Rightarrow> sys_kill pid sig s = Some (Ret (-1), s)
         | Some t \<Rightarrow> \<exists>s'. sys_kill pid sig s = Some (Ret 0, s') \<and>
             sched_ok s' (fst (a_kill s t (rs, ws))) (snd (a_kill s t (rs, ws))) \<and> tasks s' = tasks s"
proof -
  have q: "queues s rs ws" using assms(1) by (simp add: sched_ok_def)
  have own: "\<exists>s'. sys_kill pid SIGKILL s = Some (sched_result (-1) (fst (a_exit s (rs, ws))), s') \<and>
      sched_ok s' (fst (a_exit s (rs, ws))) (snd (a_exit s (rs, ws))) \<and> tasks s' = tasks s" if "has_pid s pid (last rs)"
  proof -
    have "scast pid = sys_getpid s" using that current_last [OF q assms(2)] sys_getpid_has_pid by simp
    with sys_exit_ok [OF assms] show ?thesis by (auto simp: sys_kill_def sched_result_def)
  qed
  have none: "sys_kill pid SIGKILL s = Some (Ret (-1), s)" if "\<not> has_pid s pid (last rs)" "find (has_pid s pid) (rs @ ws) = None"
  proof -
    have "scast pid \<noteq> sys_getpid s" using that(1) current_last [OF q assms(2)] sys_getpid_has_pid by simp
    moreover have "find (has_pid s pid) rs = None" "find (has_pid s pid) ws = None" using that(2) by (auto simp: find_None_iff)
    ultimately show ?thesis by (simp add: sys_kill_def find_run [OF q] find_wait [OF q])
  qed
  show ?thesis
    using own none a_kill_current [OF assms(1) _ _ assms(2)] by (auto simp: sys_kill_def split: option.split)
qed

text \<open>
  C11. What the timer's \<^verbatim>\<open>awake\<close> does with sleeping tasks: with at most one waiting task it does
  nothing; with more, it counts every sleeper down, but as soon as one of them has to be
  woken the loop strays into the run queue and never returns.  So no call of \<^verbatim>\<open>awake\<close>
  that returns has moved a task to the run queue.
\<close>

theorem awake_wakes_nobody:
  assumes "sched_ok s rs ws" "\<not> t_is_sleep (tasks s (list_entry (runQueue s)))"
  shows "awake s = (if length ws \<le> 1 then Some s
           else if \<exists>t \<in> set ws. t_is_sleep (tasks s t) \<and> sint (t_sleep_time (tasks s t) - 1) \<le> 0
           then None
           else Some (fold (\<lambda>t. upd_task t tick_task) ws s)) \<and>
         (\<forall>s'. awake s = Some s' \<longrightarrow> queues s' rs ws)"
  using awake_spec [of s rs ws] assms
  by (auto simp: sched_ok_def head_awake_def wakes_def)

text \<open>
  \<^verbatim>\<open>addTasktoQueue\<close> and \<^verbatim>\<open>addTasktoQueueHead\<close> accept a new task exactly while fewer than
  \<^verbatim>\<open>NR_TASKS\<close> tasks are queued, and put it at the tail or at the head of the run queue;
  otherwise they return \<open>-1\<close> and change nothing.
\<close>

theorem addTask_capacity:
  assumes "sched_ok s rs ws" "fresh_task s rs ws t"
  shows "if length rs + length ws < 128
         then fst (addTasktoQueue t s) = 0 \<and> sched_ok (snd (addTasktoQueue t s)) (rs @ [t]) ws \<and>
              fst (addTasktoQueueHead t s) = 0 \<and> sched_ok (snd (addTasktoQueueHead t s)) (t # rs) ws
         else addTasktoQueue t s = (-1, s) \<and> addTasktoQueueHead t s = (-1, s)"
  using assms by (rule addTask_ok)

lemma ps_rows_map:
  "map snd (ps_rows s k st ts) =
     map (\<lambda>t. (t_ppid (tasks s t), t_pid (tasks s t), t_bin_name (tasks s t), st)) ts"
  by (induction ts arbitrary: k) auto

lemma ps_rows_numbers: "map fst (ps_rows s k st ts) = [k..<k + length ts]"
  by (induction ts arbitrary: k) (simp_all add: upt_conv_Cons del: upt_Suc)

text \<open>
  \<^verbatim>\<open>sys_ps\<close> terminates and prints one row per queued task, running tasks first, numbered
  consecutively from 1.
\<close>

theorem sys_ps_rows:
  assumes "sched_ok s rs ws"
  shows "\<exists>rows. sys_ps s = Some rows \<and> map fst rows = [1..<1 + length rs + length ws] \<and>
           map snd rows =
             map (\<lambda>t. (t_ppid (tasks s t), t_pid (tasks s t), t_bin_name (tasks s t), RUNNING)) rs @
             map (\<lambda>t. (t_ppid (tasks s t), t_pid (tasks s t), t_bin_name (tasks s t), WAITING)) ws"
proof -
  from assms have q: "queues s rs ws" by (simp add: sched_ok_def)
  let ?rows = "ps_rows s 1 RUNNING rs @ ps_rows s (1 + length rs) WAITING ws"
  have "sys_ps s = Some ?rows"
    by (simp add: sys_ps_def entries_run [OF q] entries_wait [OF q])
  moreover have "map fst ?rows = [1..<1 + length rs + length ws]"
    using upt_add_eq_append [of 1 "1 + length rs" "length ws"]
    by (simp add: ps_rows_numbers del: upt_Suc)
  ultimately show ?thesis by (simp add: ps_rows_map del: upt_Suc)
qed

section \<open>Witnesses\<close>

text \<open>The boot state with the idle task and the shell; then the shell asleep.\<close>

lemma boot2_head: "\<not> t_is_sleep (tasks boot2 (list_entry (runQueue boot2)))"
  by (simp add: list_entry_def blank_task_def)

lemma boot2_reach: "sched_reach boot0 boot2"
proof -
  have f1: "unqueued boot0 0x100000"
    using boot0_ok unqueued_fresh [of boot0 "[]" "[]" "0x100000"]
    by (simp add: sched_ok_def fresh_task_def node_def)
  have "fresh_task boot0 [] [] 0x100000" by (simp add: fresh_task_def node_def)
  with addTask_ok [OF boot0_ok, of "0x100000"]
  have ok1: "sched_ok (snd (addTasktoQueue 0x100000 boot0)) [0x100000] []" by simp
  then have "unqueued (snd (addTasktoQueue 0x100000 boot0)) 0x200000"
    using unqueued_fresh [of "snd (addTasktoQueue 0x100000 boot0)" "[0x100000]" "[]" "0x200000"]
    by (simp add: sched_ok_def fresh_task_def node_def)
  with f1 show ?thesis
    unfolding boot2_def by (meson sched_reach.intros sched_step.add)
qed

theorem sched_queues_invariant_witness:
  "(0x1000 :: ptr) \<noteq> 0x2000 \<and> sched_reach boot0 boot2 \<and>
   (\<exists>rs ws. entries_from boot2 (runQueue boot2) (list_first_entry boot2 (runQueue boot2)) = Some rs \<and>
      entries_from boot2 (waitQueue boot2) (list_first_entry boot2 (waitQueue boot2)) = Some ws \<and>
      queues boot2 rs ws \<and> distinct (rs @ ws) \<and>
      unat (num_task boot2) = length (rs @ ws) \<and> length (rs @ ws) \<le> 128)"
proof -
  have ne: "(0x1000 :: ptr) \<noteq> 0x2000" by simp
  have "\<not> t_is_sleep (((\<lambda>_. blank_task)(0x100000 := blank_task\<lparr>t_pid := 1\<rparr>,
          0x200000 := blank_task\<lparr>t_pid := 2, t_ppid := 1\<rparr>)) (list_entry 0x1000))"
    by (simp add: list_entry_def blank_task_def)
  from sched_queues_invariant [OF ne this boot2_reach [unfolded boot0_def]]
  show ?thesis using ne boot2_reach by simp
qed

theorem schedule_runs_next_witness:
  "fst (schedule boot2) = Switch \<and> getCurrentTask (snd (schedule boot2)) = 0x100000"
  using schedule_runs_next [OF boot2_ok _ refl refl refl] by simp

theorem schedule_fair_witness:
  "getCurrentTask (((\<lambda>s. snd (schedule s)) ^^ Suc 1) boot2) = 0x200000"
  using schedule_fair [OF boot2_ok, of 1] by simp

theorem sys_exit_refines_witness:
  "\<exists>s'. sys_exit boot2 = Some (Switch, s') \<and> sched_ok s' [0x100000] []"
  using sys_exit_refines [OF boot2_ok]
  by (simp add: a_exit_def a_rotate_def a_remove_def a_wake_def sched_result_def) blast

theorem sys_sleep_refines_witness:
  "\<exists>s'. sys_sleep 5 boot2 = (Switch, s') \<and> sched_ok s' [0x100000] [0x200000]"
  using sys_sleep_refines [OF boot2_ok, of 5]
  by (simp add: a_block_def a_rotate_def sched_result_def) blast

theorem sys_waitpid_refines_witness:
  "(\<exists>s'. sys_waitpid 1 boot2 = Some (Switch, s') \<and> sched_ok s' [0x100000] [0x200000]) \<and>
   sys_waitpid 7 boot2 = Some (Ret (-1), boot2)"
  using sys_waitpid_refines [OF boot2_ok, of 1] sys_waitpid_refines [OF boot2_ok, of 7]
  by (simp add: a_block_def a_rotate_def sched_result_def blank_task_def) blast

theorem sys_kill_refines_witness:
  "(\<exists>s'. sys_kill 1 SIGKILL boot2 = Some (Ret 0, s') \<and> sched_ok s' [0x200000] []) \<and>
   (\<exists>s'. sys_kill 2 SIGKILL boot2 = Some (Switch, s') \<and> sched_ok s' [0x100000] []) \<and>
   sys_kill 7 SIGKILL boot2 = Some (Ret (-1), boot2)"
proof (intro conjI)
  show "\<exists>s'. sys_kill 1 SIGKILL boot2 = Some (Ret 0, s') \<and> sched_ok s' [0x200000] []"
    using sys_kill_refines [OF boot2_ok, of SIGKILL 1] by (simp add: a_kill_def a_remove_def a_wake_def blank_task_def) blast
  show "\<exists>s'. sys_kill 2 SIGKILL boot2 = Some (Switch, s') \<and> sched_ok s' [0x100000] []"
    using sys_kill_refines [OF boot2_ok, of SIGKILL 2]
    by (simp add: a_exit_def a_rotate_def a_remove_def a_wake_def sched_result_def blank_task_def) blast
  show "sys_kill 7 SIGKILL boot2 = Some (Ret (-1), boot2)"
    using sys_kill_refines [OF boot2_ok, of SIGKILL 7] by (simp add: blank_task_def)
qed

text \<open>Three tasks, two of which go to sleep for one tick each: the next \<^verbatim>\<open>awake\<close> hangs.\<close>

definition asleep2 :: sched where
  "asleep2 = snd (sys_sleep 1 (snd (sys_sleep 1 (snd (addTasktoQueue 0x300000 boot2)))))"

lemma asleep2_ok:
  "sched_ok asleep2 [0x200000] [0x100000, 0x300000]" "runQueue asleep2 = 0x1000"
  "t_is_sleep (tasks asleep2 0x100000)" "t_sleep_time (tasks asleep2 0x100000) = 1"
  "\<not> t_is_sleep (tasks asleep2 (list_entry 0x1000))"
proof -
  let ?s = "snd (addTasktoQueue 0x300000 boot2)"
  have "fresh_task boot2 [0x100000, 0x200000] [] 0x300000" by (simp add: fresh_task_def node_def)
  from addTask_ok [OF boot2_ok this] have 0: "sched_ok ?s [0x100000, 0x200000, 0x300000] []" by simp
  from sys_sleep_ok [OF 0, of 1] have 1: "sched_ok (snd (sys_sleep 1 ?s)) [0x200000, 0x100000] [0x300000]"
    and t1: "tasks (snd (sys_sleep 1 ?s)) = (tasks ?s)(0x300000 := (tasks ?s 0x300000)\<lparr>t_is_sleep := True, t_sleep_time := 1\<rparr>)"
    by (auto simp: a_block_def a_rotate_def)
  from sys_sleep_ok [OF 1, of 1] have 2: "sched_ok asleep2 [0x200000] [0x100000, 0x300000]"
    and t2: "tasks asleep2 = (tasks (snd (sys_sleep 1 ?s)))(0x100000 :=
        (tasks (snd (sys_sleep 1 ?s)) 0x100000)\<lparr>t_is_sleep := True, t_sleep_time := 1\<rparr>)"
    by (auto simp: a_block_def a_rotate_def asleep2_def)
  show "sched_ok asleep2 [0x200000] [0x100000, 0x300000]" by (rule 2)
  show "runQueue asleep2 = 0x1000" by (simp add: asleep2_def runQueue_fixed)
  show "t_is_sleep (tasks asleep2 0x100000)" "t_sleep_time (tasks asleep2 0x100000) = 1"
    by (simp_all add: t2)
  show "\<not> t_is_sleep (tasks asleep2 (list_entry 0x1000))"
    by (simp add: t1 t2 list_entry_def blank_task_def)
qed

theorem awake_wakes_nobody_witness:
  "sched_ok asleep2 [0x200000] [0x100000, 0x300000] \<and> awake asleep2 = None"
  using awake_wakes_nobody [OF asleep2_ok(1)] asleep2_ok by simp

theorem addTask_capacity_witness:
  "fst (addTasktoQueue 0x300000 boot2) = 0 \<and>
   sched_ok (snd (addTasktoQueue 0x300000 boot2)) [0x100000, 0x200000, 0x300000] []"
proof -
  have "fresh_task boot2 [0x100000, 0x200000] [] 0x300000"
    by (simp add: fresh_task_def node_def)
  from addTask_capacity [OF boot2_ok this] show ?thesis by simp
qed

theorem sys_ps_rows_witness:
  "\<exists>rows. sys_ps boot2 = Some rows \<and> map fst rows = [1, 2]"
  using sys_ps_rows [OF boot2_ok] by (auto simp: upt_conv_Cons)

end
