(* ===== verification/CString.thy ===== *)
theory CString
  imports Prelude
begin

text \<open>
  The C string and conversion routines of \<^verbatim>\<open>sys/string.c\<close> and \<^verbatim>\<open>libc/string.c\<close>.  The
  two files have the same text except for \<^verbatim>\<open>strrev\<close>, whose kernel copy starts from
  \<^verbatim>\<open>high = len\<close> and whose user copy from \<^verbatim>\<open>high = len-1\<close>; \<^verbatim>\<open>itoa\<close> and \<^verbatim>\<open>xtoa\<close>
  are modelled once with the \<^verbatim>\<open>strrev\<close> they call as an argument.  A buffer is the list of the
  bytes from the pointer to the end of the array it points into.  \<^verbatim>\<open>int\<close> arithmetic is
  checked, \<^verbatim>\<open>char\<close> is signed.
\<close>

section \<open>Checked \<^verbatim>\<open>int\<close> arithmetic and characters\<close>

definition ck :: "int \<Rightarrow> int res" where
  "ck x = (if - (2 ^ 31) \<le> x \<and> x < 2 ^ 31 then Inr x else Inl Signed_overflow)"

lemma ck_in [simp]: "- (2 ^ 31) \<le> x \<Longrightarrow> x < 2 ^ 31 \<Longrightarrow> ck x = Inr x"
  by (simp add: ck_def)

abbreviation schar :: "u8 \<Rightarrow> int" where "schar \<equiv> sint"

definition to_char :: "int \<Rightarrow> u8" where
  "to_char n = word_of_int n"

section \<open>Length, copying, comparison\<close>

fun strlen :: "u8 list \<Rightarrow> nat res" where
  "strlen [] = Inl Out_of_bounds"
| "strlen (c # cs) = (if c = 0 then Inr 0 else bindr (strlen cs) (\<lambda>n. Inr (Suc n)))"

text \<open>The copy loop of \<^verbatim>\<open>strcpy\<close>, \<^verbatim>\<open>strcat\<close>, \<^verbatim>\<open>strncpy\<close> and \<^verbatim>\<open>memcpy\<close>: \<open>n\<close> times \<^verbatim>\<open>d[i++] = s[j++]\<close>.\<close>

fun copy_loop :: "nat \<Rightarrow> nat \<Rightarrow> u8 list \<Rightarrow> nat \<Rightarrow> u8 list \<Rightarrow> u8 list res" where
  "copy_loop 0 i d j s = Inr d"
| "copy_loop (Suc n) i d j s =
     bindr (rd s j) (\<lambda>c. bindr (wr d i c) (\<lambda>d'. copy_loop n (i + 1) d' (j + 1) s))"

definition strcpy :: "u8 list \<Rightarrow> u8 list \<Rightarrow> u8 list res" where
  "strcpy str1 str2 =
     bindr (strlen str2) (\<lambda>len. bindr (copy_loop len 0 str1 0 str2) (\<lambda>d. wr d len 0))"

definition strcat :: "u8 list \<Rightarrow> u8 list \<Rightarrow> u8 list res" where
  "strcat str1 str2 =
     bindr (strlen str1) (\<lambda>len1. bindr (strlen str2) (\<lambda>len2.
       bindr (copy_loop len2 len1 str1 0 str2) (\<lambda>d. wr d (len1 + len2) 0)))"

definition strncpy :: "u8 list \<Rightarrow> u8 list \<Rightarrow> int \<Rightarrow> u8 list res" where
  "strncpy str1 str2 cplen =
     bindr (strlen str2) (\<lambda>l.
       let len = nat (if cplen < int l then cplen else int l)
       in bindr (copy_loop len 0 str1 0 str2) (\<lambda>d. wr d len 0))"

definition memcpy :: "u8 list \<Rightarrow> u8 list \<Rightarrow> u32 \<Rightarrow> u8 list res" where
  "memcpy dest src n = copy_loop (unat n) 0 dest 0 src"

fun memset_loop :: "nat \<Rightarrow> nat \<Rightarrow> u8 \<Rightarrow> u8 list \<Rightarrow> u8 list res" where
  "memset_loop 0 i v d = Inr d"
| "memset_loop (Suc n) i v d = bindr (wr d i v) (memset_loop n (i + 1) v)"

definition memset :: "u8 list \<Rightarrow> int \<Rightarrow> u64 \<Rightarrow> u8 list res" where
  "memset str val sz = memset_loop (unat sz) 0 (to_char val) str"

text \<open>The comparison loop of \<^verbatim>\<open>strcmp\<close> and \<^verbatim>\<open>strncmp\<close>; it does not look for a terminator.\<close>

fun cmp_loop :: "nat \<Rightarrow> nat \<Rightarrow> u8 list \<Rightarrow> u8 list \<Rightarrow> int res" where
  "cmp_loop 0 i a b = Inr 0"
| "cmp_loop (Suc n) i a b =
     bindr (rd a i) (\<lambda>x. bindr (rd b i) (\<lambda>y.
       if schar x > schar y then Inr 1
       else if schar y > schar x then Inr (-1)
       else cmp_loop n (i + 1) a b))"

definition strcmp :: "u8 list \<Rightarrow> u8 list \<Rightarrow> int res" where
  "strcmp str1 str2 =
     bindr (strlen str1) (\<lambda>len1. bindr (strlen str2) (\<lambda>len2.
       if len1 > len2 then Inr 1 else if len2 > len1 then Inr (-1)
       else cmp_loop len1 0 str1 str2))"

definition strncmp :: "u8 list \<Rightarrow> u8 list \<Rightarrow> int \<Rightarrow> int res" where
  "strncmp str1 str2 cplen = cmp_loop (nat cplen) 0 str1 str2"

section \<open>Reversal\<close>

function strrev_loop :: "int \<Rightarrow> int \<Rightarrow> u8 list \<Rightarrow> u8 list res" where
  "strrev_loop low high buff =
     (if high > low then
        bindr (rd buff (nat low)) (\<lambda>ch. bindr (rd buff (nat high)) (\<lambda>c.
          bindr (wr buff (nat low) c) (\<lambda>b1. bindr (wr b1 (nat high) ch)
            (strrev_loop (low + 1) (high - 1)))))
      else Inr buff)"
  by pat_completeness auto
termination
  by (relation "measure (\<lambda>(low, high, b). nat (high - low))") auto

declare strrev_loop.simps [simp del]

text \<open>The kernel's copy and the user library's copy.\<close>

definition strrev :: "u8 list \<Rightarrow> u8 list res" where
  "strrev buff = bindr (strlen buff) (\<lambda>len. strrev_loop 0 (int len) buff)"

definition strrev_user :: "u8 list \<Rightarrow> u8 list res" where
  "strrev_user buff = bindr (strlen buff) (\<lambda>len. strrev_loop 0 (int len - 1) buff)"

section \<open>Numbers to strings\<close>

text \<open>The digit loops; the number is positive, so the sign of \<^verbatim>\<open>%\<close> plays no part.\<close>

function itoa_loop :: "nat \<Rightarrow> nat \<Rightarrow> u8 list \<Rightarrow> (nat \<times> u8 list) res" where
  "itoa_loop num i buff =
     (if num > 0 then
        bindr (wr buff i (to_char (int (num mod 10) + 48))) (itoa_loop (num div 10) (i + 1))
      else Inr (i, buff))"
  by pat_completeness auto
termination
  by (relation "measure (\<lambda>(num, i, b). num)") auto

function xtoa_loop :: "nat \<Rightarrow> nat \<Rightarrow> u8 list \<Rightarrow> (nat \<times> u8 list) res" where
  "xtoa_loop num i buff =
     (if num > 0 then
        bindr (wr buff i (if num mod 16 > 9 then to_char (int (num mod 16) - 10 + 97)
                          else to_char (int (num mod 16) + 48)))
          (xtoa_loop (num div 16) (i + 1))
      else Inr (i, buff))"
  by pat_completeness auto
termination
  by (relation "measure (\<lambda>(num, i, b). num)") auto

declare itoa_loop.simps [simp del] xtoa_loop.simps [simp del]

definition itoa_with :: "(u8 list \<Rightarrow> u8 list res) \<Rightarrow> int \<Rightarrow> u8 list \<Rightarrow> u8 list res" where
  "itoa_with rev_fn num buff =
     (if num = 0 then bindr (wr buff 0 48) (\<lambda>b. wr b 1 0)
      else
        bindr (if num < 0 then ck (- num) else Inr num) (\<lambda>m.
          bindr (itoa_loop (nat m) 0 buff) (\<lambda>(i, b).
            bindr (if num < 0 then bindr (wr b i 45) (\<lambda>b'. Inr (i + 1, b')) else Inr (i, b)) (\<lambda>(i', b').
              bindr (wr b' i' 0) rev_fn))))"

definition itoa :: "int \<Rightarrow> u8 list \<Rightarrow> u8 list res" where
  "itoa = itoa_with strrev"

definition itoa_user :: "int \<Rightarrow> u8 list \<Rightarrow> u8 list res" where
  "itoa_user = itoa_with strrev_user"

definition xtoa_with :: "(u8 list \<Rightarrow> u8 list res) \<Rightarrow> int \<Rightarrow> u8 list \<Rightarrow> u8 list res" where
  "xtoa_with rev_fn num buff =
     (if num = 0 then bindr (wr buff 0 48) (\<lambda>b. wr b 1 0)
      else bindr (xtoa_loop (nat num) 0 buff) (\<lambda>(i, b). bindr (wr b i 0) rev_fn))"

definition xtoa :: "int \<Rightarrow> u8 list \<Rightarrow> u8 list res" where
  "xtoa = xtoa_with strrev"

definition xtoa_user :: "int \<Rightarrow> u8 list \<Rightarrow> u8 list res" where
  "xtoa_user = xtoa_with strrev_user"

section \<open>Strings to numbers\<close>

fun atoi_loop :: "u8 list \<Rightarrow> int \<Rightarrow> int res" where
  "atoi_loop [] num = Inl Out_of_bounds"
| "atoi_loop (c # cs) num =
     (if c \<noteq> 0 \<and> c \<noteq> 10 then
        bindr (ck (num * 10)) (\<lambda>m. bindr (ck (m + (schar c - 48))) (atoi_loop cs))
      else Inr num)"

definition atoi :: "u8 list \<Rightarrow> int res" where
  "atoi buff =
     bindr (rd buff 0) (\<lambda>c.
       if c = 45 then bindr (atoi_loop (tl buff) 0) (\<lambda>num. ck (num * -1))
       else bindr (atoi_loop buff 0) (\<lambda>num. ck (num * 1)))"

fun atox_loop :: "u8 list \<Rightarrow> int \<Rightarrow> int res" where
  "atox_loop [] num = Inl Out_of_bounds"
| "atox_loop (c # cs) num =
     (if c \<noteq> 0 \<and> c \<noteq> 10 then
        bindr (ck (num * 16)) (\<lambda>m.
          bindr (ck (m + (if schar c \<ge> 48 \<and> schar c < 57 then schar c - 48 else schar c - 97 + 10)))
            (atox_loop cs))
      else Inr num)"

definition atox :: "u8 list \<Rightarrow> int res" where
  "atox buff = atox_loop buff 0"

fun atoo_loop :: "u8 list \<Rightarrow> int \<Rightarrow> int res" where
  "atoo_loop [] num = Inl Out_of_bounds"
| "atoo_loop (c # cs) num =
     (if c \<noteq> 0 \<and> c \<noteq> 10 then
        if schar c \<ge> 48 \<and> schar c < 57 then
          bindr (ck (num * 8)) (\<lambda>m. bindr (ck (m + (schar c - 48))) (atoo_loop cs))
        else atoo_loop cs num
      else Inr num)"

definition atoo :: "u8 list \<Rightarrow> int res" where
  "atoo buff = atoo_loop buff 0"

text \<open>\<^verbatim>\<open>otoi\<close> splits a number into decimal digits and reads them back in base 8.\<close>

function otoi_split :: "nat \<Rightarrow> nat \<Rightarrow> int list \<Rightarrow> (nat \<times> int list) res" where
  "otoi_split num i arr =
     (if num > 0 then bindr (wr arr i (int (num mod 10))) (otoi_split (num div 10) (i + 1))
      else Inr (i, arr))"
  by pat_completeness auto
termination
  by (relation "measure (\<lambda>(num, i, b). num)") auto

declare otoi_split.simps [simp del]

fun otoi_join :: "nat \<Rightarrow> int \<Rightarrow> int list \<Rightarrow> int res" where
  "otoi_join i digit arr =
     bindr (rd arr i) (\<lambda>d. bindr (ck (digit * 8)) (\<lambda>m. bindr (ck (m + d)) (\<lambda>digit'.
       case i of 0 \<Rightarrow> Inr digit' | Suc i' \<Rightarrow> otoi_join i' digit' arr)))"

declare otoi_join.simps [simp del]

definition otoi :: "int \<Rightarrow> int res" where
  "otoi num = bindr (otoi_split (nat num) 0 (replicate 20 0)) (\<lambda>(i, arr). otoi_join i 0 arr)"

end
