(* ===== verification/CString_Props.thy ===== *)
theory CString_Props
  imports CString
begin

text \<open>
  Functional behaviour of the string routines in terms of the string a buffer holds, and the
  decimal and hexadecimal digits the conversions write.
\<close>

section \<open>The string in a buffer\<close>

definition cstr :: "u8 list \<Rightarrow> u8 list" where
  "cstr b = takeWhile (\<lambda>c. c \<noteq> 0) b"

definition terminated :: "u8 list \<Rightarrow> bool" where
  "terminated b \<longleftrightarrow> 0 \<in> set b"

lemma cstr_simps [simp]:
  "cstr [] = []" "cstr (c # cs) = (if c = 0 then [] else c # cstr cs)"
  by (simp_all add: cstr_def)

lemma terminated_simps [simp]:
  "\<not> terminated []" "terminated (c # cs) \<longleftrightarrow> c = 0 \<or> terminated cs"
  by (auto simp: terminated_def)

lemma cstr_nonzero [simp]: "0 \<notin> set (cstr b)"
  by (auto simp: cstr_def dest: set_takeWhileD)

lemma cstr_append [simp]: "0 \<notin> set xs \<Longrightarrow> cstr (xs @ 0 # r) = xs"
  by (induction xs) auto

lemma terminated_append [simp]: "terminated (xs @ 0 # r)"
  by (simp add: terminated_def)

lemma terminated_split: "terminated b \<Longrightarrow> b = cstr b @ 0 # drop (Suc (length (cstr b))) b"
  by (induction b) (auto split: if_splits)

lemma terminated_length: "terminated b \<Longrightarrow> length (cstr b) < length b"
  by (induction b) (auto split: if_splits)

lemma cstr_take: "terminated b \<Longrightarrow> take (length (cstr b)) b = cstr b"
  using terminated_split [of b] by (metis append_eq_conv_conj)

lemma strlen_spec: "strlen b = (if terminated b then Inr (length (cstr b)) else Inl Out_of_bounds)"
  by (induction b) auto

section \<open>Copying\<close>

lemma copy_loop_ok:
  "i + n \<le> length d \<Longrightarrow> j + n \<le> length s \<Longrightarrow>
   copy_loop n i d j s = Inr (take i d @ take n (drop j s) @ drop (i + n) d)"
proof (induction n arbitrary: i d j)
  case (Suc n)
  then have "copy_loop (Suc n) i d j s = copy_loop n (i + 1) (d[i := s ! j]) (j + 1) s" by simp
  also have "\<dots> = Inr (take (i + 1) (d[i := s ! j]) @ take n (drop (j + 1) s) @ drop (i + 1 + n) (d[i := s ! j]))"
    using Suc.prems by (intro Suc.IH) simp_all
  also have "take (i + 1) (d[i := s ! j]) = take i d @ [s ! j]"
    using Suc.prems by (simp add: take_Suc_conv_app_nth)
  also have "drop (i + 1 + n) (d[i := s ! j]) = drop (i + Suc n) d" by simp
  finally show ?case
    using Suc.prems by (simp add: Cons_nth_drop_Suc [symmetric])
qed simp

lemma copy_loop_overrun:
  "length d < i + n \<Longrightarrow> i \<le> length d \<Longrightarrow> copy_loop n i d j s = Inl Out_of_bounds"
proof (induction n arbitrary: i d j)
  case (Suc n)
  show ?case
  proof (cases "j < length s \<and> i < length d")
    case True
    with Suc show ?thesis by simp
  next
    case False
    then show ?thesis by (cases "j < length s") auto
  qed
qed simp

lemma strcpy_spec:
  assumes "terminated s"
  shows "strcpy d s = (if length (cstr s) < length d
           then Inr (cstr s @ 0 # drop (Suc (length (cstr s))) d) else Inl Out_of_bounds)"
proof (cases "length (cstr s) < length d")
  case True
  have "copy_loop (length (cstr s)) 0 d 0 s = Inr (cstr s @ drop (length (cstr s)) d)"
    using True terminated_length [OF assms] cstr_take [OF assms] by (simp add: copy_loop_ok)
  then show ?thesis
    using assms True by (simp add: strcpy_def strlen_spec list_update_append Cons_nth_drop_Suc [symmetric])
next
  case False
  show ?thesis
  proof (cases "length d = length (cstr s)")
    case True
    then show ?thesis
      using assms terminated_length [OF assms] by (simp add: strcpy_def strlen_spec copy_loop_ok)
  next
    case neq: False
    with False have "copy_loop (length (cstr s)) 0 d 0 s = Inl Out_of_bounds"
      by (intro copy_loop_overrun) simp_all
    with False assms show ?thesis by (simp add: strcpy_def strlen_spec)
  qed
qed

lemma strcat_spec:
  assumes "terminated d" "terminated s" "length (cstr d) + length (cstr s) < length d"
  shows "strcat d s = Inr (cstr d @ cstr s @ 0 # drop (Suc (length (cstr d) + length (cstr s))) d)"
proof -
  let ?m = "length (cstr d)" and ?n = "length (cstr s)"
  have "copy_loop ?n ?m d 0 s = Inr (cstr d @ cstr s @ drop (?m + ?n) d)"
    using assms terminated_length [OF assms(2)] cstr_take [OF assms(1)] cstr_take [OF assms(2)]
    by (simp add: copy_loop_ok)
  then show ?thesis
    using assms by (simp add: strcat_def strlen_spec list_update_append Cons_nth_drop_Suc [symmetric])
qed

lemma strncpy_spec:
  assumes "terminated s" "n = min (nat k) (length (cstr s))" "n < length d"
  shows "strncpy d s k = Inr (take n (cstr s) @ 0 # drop (Suc n) d)"
proof -
  have n: "nat (if k < int (length (cstr s)) then k else int (length (cstr s))) = n"
    using assms(2) by auto
  have le: "n \<le> length (cstr s)" using assms(2) by simp
  have "copy_loop n 0 d 0 s = Inr (take n s @ drop n d)"
    using assms(3) le terminated_length [OF assms(1)] by (simp add: copy_loop_ok)
  moreover have "take n s = take n (cstr s)"
    using le cstr_take [OF assms(1)] by (metis min.absorb1 take_take)
  moreover have "wr (take n (cstr s) @ drop n d) n 0 = Inr (take n (cstr s) @ 0 # drop (Suc n) d)"
    using assms(3) le by (simp add: list_update_append Cons_nth_drop_Suc [symmetric])
  ultimately show ?thesis
    using assms(1) n by (simp add: strncpy_def strlen_spec Let_def del: if_split)
qed

lemma memset_loop_ok:
  "i + n \<le> length d \<Longrightarrow> memset_loop n i v d = Inr (take i d @ replicate n v @ drop (i + n) d)"
proof (induction n arbitrary: i d)
  case (Suc n)
  then have "memset_loop (Suc n) i v d = Inr (take (i + 1) (d[i := v]) @ replicate n v @ drop (i + 1 + n) (d[i := v]))"
    by simp
  also have "take (i + 1) (d[i := v]) = take i d @ [v]"
    using Suc.prems by (simp add: take_Suc_conv_app_nth)
  finally show ?case by simp
qed simp

section \<open>Comparing\<close>

text \<open>The order of \<^verbatim>\<open>strcmp\<close>: by length first, then by the signed values of the characters.\<close>

fun chars_cmp :: "u8 list \<Rightarrow> u8 list \<Rightarrow> int" where
  "chars_cmp (x # xs) (y # ys) =
     (if schar x > schar y then 1 else if schar y > schar x then -1 else chars_cmp xs ys)"
| "chars_cmp _ _ = 0"

lemma cmp_loop_ok:
  "i + n \<le> length a \<Longrightarrow> i + n \<le> length b \<Longrightarrow>
   cmp_loop n i a b = Inr (chars_cmp (take n (drop i a)) (take n (drop i b)))"
proof (induction n arbitrary: i)
  case (Suc n)
  have "take (Suc n) (drop i xs) = xs ! i # take n (drop (i + 1) xs)" if "i < length xs" for xs :: "u8 list"
    using that by (simp add: Cons_nth_drop_Suc [symmetric])
  with Suc show ?case by simp
qed simp

lemma strcmp_spec:
  assumes "terminated a" "terminated b"
  shows "strcmp a b = Inr (if length (cstr a) > length (cstr b) then 1
           else if length (cstr b) > length (cstr a) then -1 else chars_cmp (cstr a) (cstr b))"
  using assms terminated_length [of a] terminated_length [of b] cstr_take [of a] cstr_take [of b]
  by (auto simp: strcmp_def strlen_spec cmp_loop_ok)

lemma schar_inject: "schar x = schar y \<longleftrightarrow> x = y"
  by (rule word_eq_iff_signed [symmetric])

lemma chars_cmp_0: "length xs = length ys \<Longrightarrow> chars_cmp xs ys = 0 \<longleftrightarrow> xs = ys"
  by (induction xs ys rule: chars_cmp.induct) (auto simp: schar_inject not_less intro: antisym)

lemma chars_cmp_antisym: "chars_cmp ys xs = - chars_cmp xs ys"
  by (induction xs ys rule: chars_cmp.induct) auto

lemma chars_cmp_trans:
  "length xs = length ys \<Longrightarrow> length ys = length zs \<Longrightarrow> chars_cmp xs ys \<le> 0 \<Longrightarrow> chars_cmp ys zs \<le> 0 \<Longrightarrow>
   chars_cmp xs zs \<le> 0"
proof (induction xs ys arbitrary: zs rule: chars_cmp.induct)
  case (1 x xs y ys)
  then obtain z zs' where z: "zs = z # zs'" by (cases zs) auto
  with 1 have le: "schar x \<le> schar y" "schar y \<le> schar z" by (auto split: if_splits)
  show ?case
  proof (cases "schar x = schar y \<and> schar y = schar z")
    case True
    then have "chars_cmp xs zs' \<le> 0" using 1 z by simp
    then show ?thesis using True z by simp
  next
    case False
    then have "schar x < schar z" using le by linarith
    then show ?thesis using z by simp
  qed
qed auto

section \<open>Reversing\<close>

lemma strrev_loop_rev:
  assumes "int (length mid) = high - low + 1" "int (length pre) = low"
  shows "strrev_loop low high (pre @ mid @ post) = Inr (pre @ rev mid @ post)"
  using assms
proof (induction "length mid" arbitrary: mid low high pre post rule: less_induct)
  case less
  show ?case
  proof (cases "high > low")
    case False
    then have "length mid \<le> 1" using less.prems by linarith
    then have "rev mid = mid" by (cases mid) auto
    then show ?thesis using False by (subst strrev_loop.simps) simp
  next
    case True
    then have "2 \<le> length mid" using less.prems by linarith
    then obtain x m y where mid: "mid = x # m @ [y]"
      by (metis One_nat_def Suc_1 append_butlast_last_id length_Cons list.size(3) neq_Nil_conv not_less_eq_eq rev_exhaust zero_le)
    let ?b = "pre @ mid @ post"
    have n: "nat low = length pre" "nat high = length pre + Suc (length m)"
      using less.prems mid by auto
    have "strrev_loop low high ?b = strrev_loop (low + 1) (high - 1) ((pre @ [y]) @ m @ x # post)"
      using True by (subst strrev_loop.simps) (simp add: n mid nth_append list_update_append)
    also have "\<dots> = Inr ((pre @ [y]) @ rev m @ x # post)"
      using less.prems mid by (intro less.hyps) simp_all
    finally show ?thesis by (simp add: mid)
  qed
qed

text \<open>The user library reverses the string; the kernel moves its terminator to the front.\<close>

lemma strrev_user_spec:
  "0 \<notin> set xs \<Longrightarrow> strrev_user (xs @ 0 # r) = Inr (rev xs @ 0 # r)"
  using strrev_loop_rev [of xs "int (length xs) - 1" 0 "[]" "0 # r"]
  by (simp add: strrev_user_def strlen_spec)

lemma strrev_spec:
  "0 \<notin> set xs \<Longrightarrow> strrev (xs @ 0 # r) = Inr (0 # rev xs @ r)"
  using strrev_loop_rev [of "xs @ [0]" "int (length xs)" 0 "[]" r]
  by (simp add: strrev_def strlen_spec)

section \<open>Digits\<close>

text \<open>The digits of a number, least significant first, as the loops write them.\<close>

fun digits :: "nat \<Rightarrow> nat \<Rightarrow> nat list" where
  "digits b n = (if n = 0 \<or> b < 2 then [] else n mod b # digits b (n div b))"

declare digits.simps [simp del]

lemma digits_0 [simp]: "digits b 0 = []"
  by (simp add: digits.simps)

lemma digits_pos: "0 < n \<Longrightarrow> 2 \<le> b \<Longrightarrow> digits b n = n mod b # digits b (n div b)"
  by (simp add: digits.simps)

fun undigits :: "nat \<Rightarrow> nat list \<Rightarrow> nat" where
  "undigits b [] = 0"
| "undigits b (d # ds) = d + b * undigits b ds"

lemma undigits_digits: "2 \<le> b \<Longrightarrow> undigits b (digits b n) = n"
proof (induction n rule: less_induct)
  case (less n)
  then show ?case
    by (cases "n = 0") (simp_all add: digits_pos)
qed

lemma digits_less: "2 \<le> b \<Longrightarrow> d \<in> set (digits b n) \<Longrightarrow> d < b"
proof (induction n rule: less_induct)
  case (less n)
  then show ?case
    by (cases "n = 0") (auto simp: digits_pos intro: less.IH [of "n div b"])
qed

lemma digits_length: "2 \<le> b \<Longrightarrow> n < b ^ k \<Longrightarrow> length (digits b n) \<le> k"
proof (induction k arbitrary: n)
  case (Suc k)
  then have "n div b < b ^ k" by (simp add: less_mult_imp_div_less mult.commute)
  with Suc show ?case by (cases "n = 0") (simp_all add: digits_pos)
qed simp

lemma digits_nonempty: "2 \<le> b \<Longrightarrow> 0 < n \<Longrightarrow> digits b n \<noteq> []"
  by (simp add: digits_pos)

text \<open>Their characters.\<close>

definition dchar :: "nat \<Rightarrow> u8" where
  "dchar d = (if d > 9 then to_char (int d - 10 + 97) else to_char (int d + 48))"

lemma schar_to_char: "0 \<le> n \<Longrightarrow> n < 128 \<Longrightarrow> schar (to_char n) = n"
  by (simp add: to_char_def int_word_sint)

lemma schar_dchar: "d < 16 \<Longrightarrow> schar (dchar d) = (if d > 9 then int d + 87 else int d + 48)"
  by (simp add: dchar_def schar_to_char)

lemma schar_sep: "schar c \<noteq> 0 \<Longrightarrow> schar c \<noteq> 10 \<Longrightarrow> c \<noteq> 0 \<and> c \<noteq> 10"
  by auto

lemma dchar_sep: "d < 16 \<Longrightarrow> dchar d \<noteq> 0 \<and> dchar d \<noteq> 10 \<and> dchar d \<noteq> 45"
  using schar_dchar [of d] by (auto split: if_splits)

lemma itoa_loop_ok:
  assumes "i + length (digits 10 n) \<le> length b"
  shows "itoa_loop n i b = Inr (i + length (digits 10 n),
           take i b @ map dchar (digits 10 n) @ drop (i + length (digits 10 n)) b)"
  using assms
proof (induction n arbitrary: i b rule: less_induct)
  case (less n)
  show ?case
  proof (cases "n = 0")
    case True
    then show ?thesis by (subst itoa_loop.simps) simp
  next
    case False
    let ?c = "to_char (int (n mod 10) + 48)"
    have c: "?c = dchar (n mod 10)"
    proof -
      have "n mod 10 < 10" by simp
      then have "\<not> n mod 10 > 9" by linarith
      then show ?thesis unfolding dchar_def by (simp only: if_False)
    qed
    have d: "digits 10 n = n mod 10 # digits 10 (n div 10)" using False by (simp add: digits_pos)
    have i: "i < length b" using less.prems d by simp
    have "itoa_loop n i b = itoa_loop (n div 10) (i + 1) (b[i := ?c])"
      using False i by (subst itoa_loop.simps) simp
    also have "\<dots> = Inr (i + 1 + length (digits 10 (n div 10)),
        take (i + 1) (b[i := ?c]) @ map dchar (digits 10 (n div 10)) @ drop (i + 1 + length (digits 10 (n div 10))) (b[i := ?c]))"
      using False less.prems d by (intro less.IH) simp_all
    also have "take (i + 1) (b[i := ?c]) = take i b @ [?c]" using i by (simp add: take_Suc_conv_app_nth)
    finally show ?thesis using d c by simp
  qed
qed

lemma xtoa_loop_ok:
  assumes "i + length (digits 16 n) \<le> length b"
  shows "xtoa_loop n i b = Inr (i + length (digits 16 n),
           take i b @ map dchar (digits 16 n) @ drop (i + length (digits 16 n)) b)"
  using assms
proof (induction n arbitrary: i b rule: less_induct)
  case (less n)
  show ?case
  proof (cases "n = 0")
    case True
    then show ?thesis by (subst xtoa_loop.simps) simp
  next
    case False
    let ?c = "dchar (n mod 16)"
    have d: "digits 16 n = n mod 16 # digits 16 (n div 16)" using False by (simp add: digits_pos)
    have i: "i < length b" using less.prems d by simp
    have "xtoa_loop n i b = xtoa_loop (n div 16) (i + 1) (b[i := ?c])"
      using False i by (subst xtoa_loop.simps) (simp add: dchar_def)
    also have "\<dots> = Inr (i + 1 + length (digits 16 (n div 16)),
        take (i + 1) (b[i := ?c]) @ map dchar (digits 16 (n div 16)) @ drop (i + 1 + length (digits 16 (n div 16))) (b[i := ?c]))"
      using False less.prems d by (intro less.IH) simp_all
    also have "take (i + 1) (b[i := ?c]) = take i b @ [?c]" using i by (simp add: take_Suc_conv_app_nth)
    finally show ?thesis using d by simp
  qed
qed

section \<open>Reading digits back\<close>

definition horner :: "int \<Rightarrow> int \<Rightarrow> nat list \<Rightarrow> int" where
  "horner b acc ds = foldl (\<lambda>a d. a * b + int d) acc ds"

lemma horner_simps [simp]:
  "horner b acc [] = acc" "horner b acc (d # ds) = horner b (acc * b + int d) ds"
  "horner b acc (xs @ [d]) = horner b acc xs * b + int d"
  by (simp_all add: horner_def)

lemma horner_rev: "horner (int b) 0 (rev ds) = int (undigits b ds)"
  by (induction ds) simp_all

lemma horner_mono: "1 \<le> b \<Longrightarrow> 0 \<le> acc \<Longrightarrow> acc \<le> horner b acc ds"
proof (induction ds arbitrary: acc)
  case (Cons d ds)
  have "acc \<le> acc * b + int d" using Cons.prems mult_left_mono [of 1 b acc] by simp
  also have "\<dots> \<le> horner b (acc * b + int d) ds" using Cons.prems by (intro Cons.IH) simp_all
  finally show ?case by simp
qed simp

lemma horner_step:
  assumes "1 \<le> b" "0 \<le> acc" "horner b acc (d # ds) < 2 ^ 31"
  shows "0 \<le> acc * b" "acc * b < 2 ^ 31" "0 \<le> acc * b + int d" "acc * b + int d < 2 ^ 31"
  using assms horner_mono [of b "acc * b + int d" ds] mult_nonneg_nonneg [of acc b] by auto

lemma atoi_loop_digits:
  "(\<And>d. d \<in> set ds \<Longrightarrow> d < 10) \<Longrightarrow> 0 \<le> acc \<Longrightarrow> horner 10 acc ds < 2 ^ 31 \<Longrightarrow>
   atoi_loop (map dchar ds @ 0 # r) acc = Inr (horner 10 acc ds)"
proof (induction ds arbitrary: acc)
  case (Cons d ds)
  have d: "d < 10" using Cons.prems(1) by simp
  note st = horner_step [of 10 acc d ds, OF _ Cons.prems(2,3)]
  have "schar (dchar d) - 48 = int d" "dchar d \<noteq> 0" "dchar d \<noteq> 10"
    using schar_dchar [of d] dchar_sep [of d] d by simp_all
  then show ?case using Cons st by simp
qed simp

lemma atox_loop_digits:
  "(\<And>d. d \<in> set ds \<Longrightarrow> d < 16 \<and> d \<noteq> 9) \<Longrightarrow> 0 \<le> acc \<Longrightarrow> horner 16 acc ds < 2 ^ 31 \<Longrightarrow>
   atox_loop (map dchar ds @ 0 # r) acc = Inr (horner 16 acc ds)"
proof (induction ds arbitrary: acc)
  case (Cons d ds)
  have d: "d < 16" "d \<noteq> 9" using Cons.prems(1) by simp_all
  note st = horner_step [of 16 acc d ds, OF _ Cons.prems(2,3)]
  have "(if schar (dchar d) \<ge> 48 \<and> schar (dchar d) < 57 then schar (dchar d) - 48 else schar (dchar d) - 97 + 10) = int d"
    "dchar d \<noteq> 0" "dchar d \<noteq> 10"
    using schar_dchar [of d] dchar_sep [of d] d by auto
  then show ?case using Cons st by simp
qed simp

lemma zero_notin_dchars: "(\<And>d. d \<in> set ds \<Longrightarrow> d < 16) \<Longrightarrow> 0 \<notin> set (map dchar ds)"
  using dchar_sep by fastforce

text \<open>What the conversions leave in the buffer before the reversal.\<close>

definition itoa_text :: "int \<Rightarrow> u8 list" where
  "itoa_text n = map dchar (digits 10 (nat \<bar>n\<bar>)) @ (if n < 0 then [45] else [])"

lemma itoa_text_nonzero: "0 \<notin> set (itoa_text n)"
  using zero_notin_dchars [of "digits 10 (nat \<bar>n\<bar>)"] digits_less [of 10 _ "nat \<bar>n\<bar>"]
  by (fastforce simp: itoa_text_def)

lemma itoa_text_length: "- (2 ^ 31) < n \<Longrightarrow> n < 2 ^ 31 \<Longrightarrow> length (itoa_text n) \<le> 11"
proof -
  assume "- (2 ^ 31) < n" "n < 2 ^ 31"
  then have "nat \<bar>n\<bar> < 10 ^ 10" by simp
  then show ?thesis using digits_length [of 10 "nat \<bar>n\<bar>" 10] by (auto simp: itoa_text_def abs_if)
qed

lemma itoa_with_eq:
  assumes "n \<noteq> 0" "- (2 ^ 31) < n" "n < 2 ^ 31" "length (itoa_text n) < length b"
  shows "itoa_with f n b = f (itoa_text n @ 0 # drop (Suc (length (itoa_text n))) b)"
proof -
  let ?ds = "digits 10 (nat \<bar>n\<bar>)"
  have len: "length ?ds < length b" using assms(4) by (simp add: itoa_text_def)
  have loop: "itoa_loop (nat \<bar>n\<bar>) 0 b = Inr (length ?ds, map dchar ?ds @ drop (length ?ds) b)"
    using itoa_loop_ok [of 0 "nat \<bar>n\<bar>" b] len by simp
  have upd: "(map dchar ?ds @ drop k b)[length ?ds := c] = map dchar ?ds @ c # drop (Suc k) b" if "k < length b" for c k
    using that by (simp add: list_update_append Cons_nth_drop_Suc [symmetric])
  show ?thesis
  proof (cases "n < 0")
    case True
    have l2: "Suc (length ?ds) < length b" using assms(4) True by (simp add: itoa_text_def)
    have "(map dchar ?ds @ 45 # drop (Suc (length ?ds)) b)[Suc (length ?ds) := 0] =
        map dchar ?ds @ 45 # 0 # drop (Suc (Suc (length ?ds))) b"
      using l2 by (simp add: list_update_append Cons_nth_drop_Suc [symmetric])
    then show ?thesis
      using True assms(2,3) loop len l2 upd [OF len] by (simp add: itoa_with_def itoa_text_def)
  next
    case False
    then show ?thesis
      using assms(1,3) loop len upd [OF len] by (simp add: itoa_with_def itoa_text_def)
  qed
qed

lemma xtoa_with_eq:
  assumes "0 < n" "length (digits 16 (nat n)) < length b"
  shows "xtoa_with f n b =
           f (map dchar (digits 16 (nat n)) @ 0 # drop (Suc (length (digits 16 (nat n)))) b)"
proof -
  let ?ds = "digits 16 (nat n)"
  have "xtoa_loop (nat n) 0 b = Inr (length ?ds, map dchar ?ds @ drop (length ?ds) b)"
    using xtoa_loop_ok [of 0 "nat n" b] assms(2) by simp
  moreover have "(map dchar ?ds @ drop (length ?ds) b)[length ?ds := 0] = map dchar ?ds @ 0 # drop (Suc (length ?ds)) b"
    using assms(2) by (simp add: list_update_append Cons_nth_drop_Suc [symmetric])
  ultimately show ?thesis using assms by (simp add: xtoa_with_def)
qed

end
