(* ===== verification/CString_Claims.thy ===== *)
theory CString_Claims
  imports CString_Props
begin

text \<open>The properties of the string routines.\<close>

section \<open>Properties\<close>

text \<open>
  \<^verbatim>\<open>strcpy\<close> followed by \<^verbatim>\<open>strcat\<close>: copying gives a buffer of the same size that holds the
  source's string and compares equal to it; appending gives the concatenation; each fails, with
  an access out of bounds, exactly when the result and its terminator do not fit.
\<close>

theorem strcpy_strcat_correct:
  assumes "terminated s" "terminated t" "length (cstr s) + length (cstr t) < length d"
  shows "\<exists>d1 d2. strcpy d s = Inr d1 \<and> cstr d1 = cstr s \<and> strcmp d1 s = Inr 0 \<and> length d1 = length d \<and>
           strcat d1 t = Inr d2 \<and> cstr d2 = cstr s @ cstr t \<and> terminated d2 \<and> length d2 = length d \<and>
           (\<forall>d'. length d' \<le> length (cstr s) \<longrightarrow> strcpy d' s = Inl Out_of_bounds)"
proof -
  let ?d1 = "cstr s @ 0 # drop (Suc (length (cstr s))) d"
  have 1: "strcpy d s = Inr ?d1" using assms(3) by (simp add: strcpy_spec [OF assms(1)])
  have c: "cstr ?d1 = cstr s" "terminated ?d1" "length ?d1 = length d" using assms(3) by simp_all
  have "strcmp ?d1 s = Inr 0" using strcmp_spec [OF c(2) assms(1)] c(1) chars_cmp_0 by simp
  moreover obtain d2 where "strcat ?d1 t = Inr d2" "d2 = cstr s @ cstr t @ 0 # drop (Suc (length (cstr s) + length (cstr t))) ?d1"
    using strcat_spec [OF c(2) assms(2)] c(1,3) assms(3) by auto
  moreover from this(2) have "cstr d2 = cstr s @ cstr t" "terminated d2" "length d2 = length d"
    using c(3) assms(3) cstr_append [of "cstr s @ cstr t"] terminated_append [of "cstr s @ cstr t"]
    by (auto simp del: drop_append)
  moreover have "strcpy d' s = Inl Out_of_bounds" if "length d' \<le> length (cstr s)" for d'
    using that by (simp add: strcpy_spec [OF assms(1)])
  ultimately show ?thesis using 1 c by blast
qed

theorem strcpy_strcat_correct_witness:
  "\<exists>d1 d2. strcpy [9, 9, 9, 9, 9] [47, 98, 0] = Inr d1 \<and> strcat d1 [99, 0, 1] = Inr d2 \<and> cstr d2 = [47, 98, 99]"
  using strcpy_strcat_correct [of "[47, 98, 0]" "[99, 0, 1]" "[9, 9, 9, 9, 9]"] by auto

text \<open>
  C22. \<^verbatim>\<open>strcmp\<close> is a total order on strings: zero exactly for equal strings, antisymmetric and
  transitive.  It orders by length first, so it is not the lexicographic order.
\<close>

theorem strcmp_order:
  assumes "terminated a" "terminated b" "terminated c"
  shows "(strcmp a b = Inr 0 \<longleftrightarrow> cstr a = cstr b) \<and>
         (\<exists>x. strcmp a b = Inr x \<and> strcmp b a = Inr (- x) \<and>
            (\<forall>y. strcmp b c = Inr y \<and> x \<le> 0 \<and> y \<le> 0 \<longrightarrow> (\<exists>z \<le> 0. strcmp a c = Inr z))) \<and>
         (length (cstr a) < length (cstr b) \<longrightarrow> strcmp a b = Inr (-1))"
proof (intro conjI impI)
  show "strcmp a b = Inr 0 \<longleftrightarrow> cstr a = cstr b"
    using chars_cmp_0 [of "cstr a" "cstr b"] by (auto simp: strcmp_spec [OF assms(1,2)] split: if_splits)
  show "\<exists>x. strcmp a b = Inr x \<and> strcmp b a = Inr (- x) \<and>
      (\<forall>y. strcmp b c = Inr y \<and> x \<le> 0 \<and> y \<le> 0 \<longrightarrow> (\<exists>z \<le> 0. strcmp a c = Inr z))"
    using chars_cmp_antisym [of "cstr b" "cstr a"] chars_cmp_trans [of "cstr a" "cstr b" "cstr c"]
    by (auto simp: strcmp_spec assms split: if_splits)
  show "length (cstr a) < length (cstr b) \<Longrightarrow> strcmp a b = Inr (-1)"
    by (simp add: strcmp_spec [OF assms(1,2)])
qed

theorem strcmp_order_witness:
  "strcmp [122, 0] [97, 97, 0] = Inr (-1) \<and> (strcmp [122, 0] [122, 0] = Inr 0)"
  using strcmp_order [of "[122, 0]" "[97, 97, 0]" "[0]"] strcmp_order [of "[122, 0]" "[122, 0]" "[0]"] by simp

text \<open>
  C21. Number round trip in the user library: \<^verbatim>\<open>itoa\<close> writes a decimal numeral that
  \<^verbatim>\<open>atoi\<close> reads back, for every \<^verbatim>\<open>int\<close> but the smallest, in any buffer of at least 12 bytes.
\<close>

theorem itoa_atoi_roundtrip:
  assumes "- (2 ^ 31) < n" "n < 2 ^ 31" "12 \<le> length b"
  shows "\<exists>b'. itoa_user n b = Inr b' \<and> length b' = length b \<and> atoi b' = Inr n"
proof (cases "n = 0")
  case True
  let ?b = "48 # 0 # drop 2 b"
  have "itoa_user n b = Inr ?b"
    using True assms(3) by (cases b; cases "tl b") (auto simp: itoa_user_def itoa_with_def)
  moreover have "atoi ?b = Inr n" using True by (simp add: atoi_def)
  ultimately show ?thesis using assms(3) by auto
next
  case False
  let ?ds = "digits 10 (nat \<bar>n\<bar>)" and ?r = "drop (Suc (length (itoa_text n))) b"
  have len: "length (itoa_text n) < length b"
    using itoa_text_length [of n] assms by simp
  let ?b = "rev (itoa_text n) @ 0 # ?r"
  have "itoa_user n b = Inr ?b"
    using itoa_with_eq [OF False assms(1,2) len] strrev_user_spec [OF itoa_text_nonzero]
    by (simp add: itoa_user_def)
  moreover have "horner 10 0 (rev ?ds) = \<bar>n\<bar>"
    using horner_rev [of 10 ?ds] undigits_digits [of 10 "nat \<bar>n\<bar>"] by simp
  moreover from this have loop: "atoi_loop (map dchar (rev ?ds) @ 0 # ?r) 0 = Inr \<bar>n\<bar>"
    using atoi_loop_digits [of "rev ?ds" 0 ?r] digits_less [of 10 _ "nat \<bar>n\<bar>"] assms by simp
  have "atoi ?b = Inr n"
  proof (cases "n < 0")
    case True
    then show ?thesis using loop assms(1) by (simp add: atoi_def itoa_text_def rev_map)
  next
    case pos: False
    obtain d ds where ds: "rev ?ds = d # ds"
      using digits_nonempty [of 10 "nat \<bar>n\<bar>"] False by (cases "rev ?ds") auto
    have "d \<in> set (rev ?ds)" by (simp only: ds list.set_intros)
    then have "d < 10" using digits_less [of 10 d "nat \<bar>n\<bar>"] by simp
    then have "dchar d \<noteq> 45" using dchar_sep [of d] by simp
    moreover have "?b = dchar d # map dchar ds @ 0 # ?r" using ds pos by (simp add: itoa_text_def rev_map)
    ultimately show ?thesis using loop assms(2) pos ds by (simp add: atoi_def)
  qed
  ultimately show ?thesis using len by auto
qed

theorem itoa_atoi_roundtrip_witness:
  "\<exists>b'. itoa_user (-120) (replicate 12 7) = Inr b' \<and> atoi b' = Inr (-120)"
  using itoa_atoi_roundtrip [of "-120" "replicate 12 7"] by auto

text \<open>
  The kernel's \<^verbatim>\<open>itoa\<close>: for every nonzero number the result is the empty string, because the
  kernel's \<^verbatim>\<open>strrev\<close> swaps the terminator to the front; \<^verbatim>\<open>strrev\<close> itself turns every nonempty
  string into the empty one.
\<close>

theorem itoa_kernel_empty:
  assumes "n \<noteq> 0" "- (2 ^ 31) < n" "n < 2 ^ 31" "12 \<le> length b"
  shows "\<exists>b'. itoa n b = Inr b' \<and> cstr b' = [] \<and> atoi b' = Inr 0"
proof -
  have len: "length (itoa_text n) < length b" using itoa_text_length [of n] assms by simp
  have "itoa n b = Inr (0 # rev (itoa_text n) @ drop (Suc (length (itoa_text n))) b)"
    using itoa_with_eq [OF assms(1-3) len] strrev_spec [OF itoa_text_nonzero] by (simp add: itoa_def)
  then show ?thesis by (auto simp: atoi_def)
qed

theorem itoa_kernel_empty_witness: "\<exists>b'. itoa 42 (replicate 12 7) = Inr b' \<and> cstr b' = []"
  using itoa_kernel_empty [of 42 "replicate 12 7"] by auto

text \<open>
  Hexadecimal round trip in the user library: \<^verbatim>\<open>atox\<close> reads back what \<^verbatim>\<open>xtoa\<close> writes for
  every positive \<^verbatim>\<open>int\<close> without the hexadecimal digit 9; the digit 9 itself is read as \<open>-30\<close>,
  since the test for a decimal digit is \<^verbatim>\<open>< '9'\<close>.
\<close>

theorem xtoa_atox_roundtrip:
  assumes "0 < n" "n < 2 ^ 31" "9 \<le> length b" "9 \<notin> set (digits 16 (nat n))"
  shows "(\<exists>b'. xtoa_user n b = Inr b' \<and> atox b' = Inr n) \<and>
         (\<exists>b'. xtoa_user 9 b = Inr b' \<and> atox b' = Inr (-30))"
proof
  let ?ds = "digits 16 (nat n)"
  have le: "length ?ds \<le> 8"
  proof -
    have "nat n < 16 ^ 8" using assms(1,2) by simp
    then show ?thesis by (intro digits_length) simp_all
  qed
  have small: "d < 16" if "d \<in> set ?ds" for d using that digits_less [of 16 d] by simp
  have nz: "0 \<notin> set (map dchar ?ds)" using small by (rule zero_notin_dchars)
  have "xtoa_user n b = Inr (map dchar (rev ?ds) @ 0 # drop (Suc (length ?ds)) b)"
    using xtoa_with_eq [of n b strrev_user] strrev_user_spec [OF nz] assms(1,3) le by (simp add: xtoa_user_def rev_map)
  moreover have "horner 16 0 (rev ?ds) = n"
    using horner_rev [of 16 ?ds] undigits_digits [of 16 "nat n"] assms(1) by simp
  then have "atox (map dchar (rev ?ds) @ 0 # drop (Suc (length ?ds)) b) = Inr n"
    using atox_loop_digits [of "rev ?ds" 0] small assms(2,4) by (auto simp: atox_def)
  ultimately show "\<exists>b'. xtoa_user n b = Inr b' \<and> atox b' = Inr n" by blast
  have d9: "digits 16 9 = [9]" by (simp add: digits_pos)
  have "dchar 9 \<noteq> 0" "schar (dchar 9) = 57" "dchar 9 \<noteq> 10" using dchar_sep [of 9] schar_dchar [of 9] by simp_all
  moreover from this have "xtoa_user 9 b = Inr (dchar 9 # 0 # drop 2 b)"
    using xtoa_with_eq [of 9 b strrev_user] strrev_user_spec [of "[dchar 9]"] assms(3)
    by (simp add: xtoa_user_def d9 numeral_2_eq_2)
  ultimately show "\<exists>b'. xtoa_user 9 b = Inr b' \<and> atox b' = Inr (-30)" by (simp add: atox_def)
qed

theorem xtoa_atox_roundtrip_witness: "\<exists>b'. xtoa_user 0xab (replicate 9 7) = Inr b' \<and> atox b' = Inr 0xab"
  using xtoa_atox_roundtrip [of "0xab" "replicate 9 7"] by (simp add: digits_pos)

end
