(* ===== verification/Alloc_Intf.thy ===== *)
theory Alloc_Intf
  imports Prelude
begin

text \<open>
  The contract of a page allocator, as the rest of the kernel uses \<^verbatim>\<open>mem_allocate\<close>: a set of
  free page addresses, an allocation that takes one of them or answers \<open>0\<close> when there is
  none.  The laws for sequences of allocations are derived from it.
\<close>

primrec alloc_n :: "('s \<Rightarrow> u64 \<times> 's) \<Rightarrow> nat \<Rightarrow> 's \<Rightarrow> u64 list \<times> 's" where
  "alloc_n al 0 s = ([], s)"
| "alloc_n al (Suc n) s =
     (let (a, s1) = al s; (as, s2) = alloc_n al n s1 in (a # as, s2))"

locale page_allocator =
  fixes alloc :: "'s \<Rightarrow> u64 \<times> 's"
    and free_pages :: "'s \<Rightarrow> u64 set"
    and ok :: "'s \<Rightarrow> bool"
  assumes free_finite: "ok s \<Longrightarrow> finite (free_pages s)"
    and free_nonzero: "ok s \<Longrightarrow> 0 \<notin> free_pages s"
    and alloc_ok: "ok s \<Longrightarrow> ok (snd (alloc s))"
    and alloc_takes: "ok s \<Longrightarrow> free_pages s \<noteq> {} \<Longrightarrow> fst (alloc s) \<in> free_pages s"
    and alloc_removes: "ok s \<Longrightarrow> free_pages (snd (alloc s)) = free_pages s - {fst (alloc s)}"
    and alloc_exhausted: "ok s \<Longrightarrow> free_pages s = {} \<Longrightarrow> alloc s = (0, s)"
begin

lemma alloc_zero_iff: "ok s \<Longrightarrow> fst (alloc s) = 0 \<longleftrightarrow> free_pages s = {}"
  using alloc_takes [of s] alloc_exhausted [of s] free_nonzero [of s] by (metis fst_conv)

lemma alloc_n_ok: "ok s \<Longrightarrow> ok (snd (alloc_n alloc n s))"
  by (induction n arbitrary: s) (auto simp: Let_def case_prod_beta alloc_ok)

text \<open>As long as enough pages are free, every allocation gets a page of its own.\<close>

lemma alloc_n_distinct:
  assumes "ok s" "n \<le> card (free_pages s)"
  shows "distinct (fst (alloc_n alloc n s)) \<and> set (fst (alloc_n alloc n s)) \<subseteq> free_pages s \<and>
         length (fst (alloc_n alloc n s)) = n \<and>
         free_pages (snd (alloc_n alloc n s)) = free_pages s - set (fst (alloc_n alloc n s))"
  using assms
proof (induction n arbitrary: s)
  case 0
  then show ?case by simp
next
  case (Suc n)
  let ?a = "fst (alloc s)" and ?s = "snd (alloc s)"
  have ne: "free_pages s \<noteq> {}" using Suc.prems(2) by auto
  note a = alloc_takes [OF Suc.prems(1) ne] alloc_removes [OF Suc.prems(1)]
  have "n \<le> card (free_pages ?s)"
    using a Suc.prems free_finite by simp
  from Suc.IH [OF alloc_ok [OF Suc.prems(1)] this] a show ?case
    by (auto simp: Let_def case_prod_beta)
qed

text \<open>Beyond that, the remaining answers are all \<open>0\<close>.\<close>

lemma alloc_n_exhausted:
  assumes "ok s" "free_pages s = {}"
  shows "alloc_n alloc n s = (replicate n 0, s)"
  using assms by (induction n) (auto simp: alloc_exhausted)

end

end
