(* ===== verification/PhysMem.thy ===== *)
theory PhysMem
  imports Alloc_Intf
begin

text \<open>
  Physical page management, the first half of \<^verbatim>\<open>sys/memory.c\<close>: the page array
  \<^verbatim>\<open>memmap\<close>, \<^verbatim>\<open>mem_allocate\<close>, \<^verbatim>\<open>kmalloc\<close>, \<^verbatim>\<open>mem_free\<close>, the rounding
  helpers and the search by physical address.  \<^verbatim>\<open>qmem\<close> is the physical memory as
  quadwords, indexed by the physical address of the quadword.
\<close>

section \<open>Constants and state\<close>

abbreviation (input) AVAIL :: u32 where "AVAIL \<equiv> 0"
abbreviation (input) BUSY :: u32 where "BUSY \<equiv> 1"
abbreviation (input) MAX_MEM :: nat where "MAX_MEM \<equiv> 32510"
abbreviation (input) INITIAL_MEM :: u64 where "INITIAL_MEM \<equiv> 100000"
abbreviation (input) KERN_MEM :: u64 where "KERN_MEM \<equiv> 0xffffffff80000000"
abbreviation (input) BUMP_PTR :: u64 where "BUMP_PTR \<equiv> 0xffffff0f80000000"
abbreviation (input) STACK_MEM_TOP :: u64 where "STACK_MEM_TOP \<equiv> 0xf0000000"
abbreviation (input) END_LIMIT :: u64 where "END_LIMIT \<equiv> 0x7ffe000"
abbreviation (input) VIDEO_MEM :: u64 where "VIDEO_MEM \<equiv> 0xb8000"
abbreviation (input) PAGE_SIZE :: u64 where "PAGE_SIZE \<equiv> 4096"
abbreviation (input) PAGE_PERM :: u64 where "PAGE_PERM \<equiv> 7"
abbreviation (input) PAGE_WRITE :: u64 where "PAGE_WRITE \<equiv> 2"
abbreviation (input) PAGE_PRESENT :: u64 where "PAGE_PRESENT \<equiv> 1"

record memory_map =
  mm_addr :: u64
  mm_res_flag :: u32
  mm_ref_cnt :: u32
  mm_cow_flag :: bool

record kmem =
  memmap :: "memory_map list"
  qmem :: "ptr \<Rightarrow> u64"
  pml4e :: ptr
  cr3_addr :: u64

section \<open>Initialisation\<close>

function init_memmap_loop :: "u64 \<Rightarrow> nat \<Rightarrow> u64 \<Rightarrow> memory_map list \<Rightarrow> memory_map list" where
  "init_memmap_loop physfree i addr_t mm =
     (if i < MAX_MEM then
        init_memmap_loop physfree (i + 1) (addr_t + 4096)
          (mm[i := (if addr_t < physfree
                    then \<lparr>mm_addr = addr_t, mm_res_flag = BUSY, mm_ref_cnt = 1, mm_cow_flag = False\<rparr>
                    else \<lparr>mm_addr = addr_t, mm_res_flag = AVAIL, mm_ref_cnt = 0, mm_cow_flag = False\<rparr>)])
      else mm)"
  by pat_completeness auto
termination
  by (relation "measure (\<lambda>(p, i, a, mm). MAX_MEM - i)") auto

definition init_memmap :: "u64 \<Rightarrow> kmem \<Rightarrow> kmem" where
  "init_memmap physfree s = s\<lparr>memmap := init_memmap_loop physfree 0 0 (memmap s)\<rparr>"

section \<open>Allocation\<close>

function mem_allocate_loop :: "nat \<Rightarrow> kmem \<Rightarrow> u64 \<times> kmem" where
  "mem_allocate_loop i s =
     (if i < MAX_MEM then
        if mm_res_flag (memmap s ! i) = AVAIL then
          (mm_addr (memmap s ! i),
           s\<lparr>memmap := (memmap s)[i := (memmap s ! i)
               \<lparr>mm_ref_cnt := mm_ref_cnt (memmap s ! i) + 1, mm_res_flag := BUSY\<rparr>]\<rparr>)
        else mem_allocate_loop (i + 1) s
      else (0, s))"
  by pat_completeness auto
termination
  by (relation "measure (\<lambda>(i, s). MAX_MEM - i)") auto

definition mem_allocate :: "kmem \<Rightarrow> u64 \<times> kmem" where
  "mem_allocate s = mem_allocate_loop 0 s"

text \<open>
  \<^verbatim>\<open>kmalloc\<close> keeps only the first page's address; \<^verbatim>\<open>cnt\<close> is an \<^verbatim>\<open>int\<close>, and the loop
  allocates the pages \<open>1 .. cnt - 1\<close>.
\<close>

definition page_count :: "u64 \<Rightarrow> int" where
  "page_count sz = sint (ucast (sz div 4096) :: u32) + (if sz mod 4096 > 0 then 1 else 0)"

definition kmalloc :: "u64 \<Rightarrow> kmem \<Rightarrow> u64 \<times> kmem" where
  "kmalloc sz s =
     (if sz > 0 then
        let (a, s1) = mem_allocate s;
            (_, s2) = alloc_n mem_allocate (nat (page_count sz - 1)) s1
        in (KERN_MEM + a, s2)
      else (0, s))"

section \<open>Freeing\<close>

definition set_avail :: "nat \<Rightarrow> kmem \<Rightarrow> kmem" where
  "set_avail i s = s\<lparr>memmap := (memmap s)[i := (memmap s ! i)\<lparr>mm_res_flag := AVAIL\<rparr>]\<rparr>"

function mem_free_loop :: "u64 \<Rightarrow> nat \<Rightarrow> kmem \<Rightarrow> kmem" where
  "mem_free_loop addr_t i s =
     (if i < MAX_MEM then
        mem_free_loop addr_t (i + 1)
          (if mm_addr (memmap s ! i) = addr_t then set_avail i s else s)
      else s)"
  by pat_completeness auto
termination
  by (relation "measure (\<lambda>(a, i, s). MAX_MEM - i)") auto

text \<open>The index \<^verbatim>\<open>(addr_t - INITIAL_MEM) / 4096\<close> is computed unsigned and not checked.\<close>

definition mem_free :: "u64 \<Rightarrow> kmem \<Rightarrow> kmem res" where
  "mem_free addr_t s =
     (let pg_no = unat ((addr_t - INITIAL_MEM) div 4096)
      in if pg_no < MAX_MEM then
           Inr (if mm_addr (memmap s ! pg_no) = addr_t then set_avail pg_no s
                else mem_free_loop addr_t 0 s)
         else Inl Out_of_bounds)"

section \<open>Rounding and search\<close>

definition page_roundoff_4096 :: "u64 \<Rightarrow> u64" where
  "page_roundoff_4096 addr =
     (if addr mod 4096 = 0 then addr
      else let new_pg_addr = addr + (4096 - addr mod 4096)
           in if new_pg_addr \<ge> END_LIMIT then 0 else new_pg_addr)"

text \<open>The test \<^verbatim>\<open>new_pg_addr < 0\<close> of the code is never true of an unsigned value.\<close>

definition page_roundless_4096 :: "u64 \<Rightarrow> u64" where
  "page_roundless_4096 addr =
     (if addr mod 4096 = 0 then addr
      else let new_pg_addr = addr - addr mod 4096
           in if new_pg_addr < 0 then 0 else new_pg_addr)"

definition page_mask :: "u64 \<Rightarrow> u64" where
  "page_mask a = a AND 0xFFFFFFFFFFFFF000"

function get_physical_loop :: "u64 \<Rightarrow> nat \<Rightarrow> kmem \<Rightarrow> nat option" where
  "get_physical_loop physical i s =
     (if i < MAX_MEM then
        if mm_addr (memmap s ! i) = physical then Some i
        else get_physical_loop physical (i + 1) s
      else None)"
  by pat_completeness auto
termination
  by (relation "measure (\<lambda>(p, i, s). MAX_MEM - i)") auto

text \<open>\<^verbatim>\<open>get_physical_memmap\<close> returns the entry's index for the pointer, \<open>None\<close> for \<^verbatim>\<open>NULL\<close>.\<close>

definition get_physical_memmap :: "u64 \<Rightarrow> kmem \<Rightarrow> nat option" where
  "get_physical_memmap physical s = get_physical_loop (page_mask physical) 0 s"

declare init_memmap_loop.simps [simp del] mem_allocate_loop.simps [simp del]
  mem_free_loop.simps [simp del] get_physical_loop.simps [simp del]


section \<open>Well-formed page arrays\<close>

text \<open>
  Every entry describes the page with its own number, page \<open>0\<close> is never free, and a flag is one
  of the two values.
\<close>

definition memmap_ok :: "kmem \<Rightarrow> bool" where
  "memmap_ok s \<longleftrightarrow>
     length (memmap s) = MAX_MEM \<and>
     (\<forall>i < MAX_MEM. mm_addr (memmap s ! i) = of_nat i * 4096) \<and>
     mm_res_flag (memmap s ! 0) \<noteq> AVAIL"

definition page_avail :: "kmem \<Rightarrow> nat \<Rightarrow> bool" where
  "page_avail s i \<longleftrightarrow> i < MAX_MEM \<and> mm_res_flag (memmap s ! i) = AVAIL"

definition free_addrs :: "kmem \<Rightarrow> u64 set" where
  "free_addrs s = (\<lambda>i. of_nat i * 4096) ` {i. page_avail s i}"

lemma page_addr_inject:
  assumes "i < MAX_MEM" "j < MAX_MEM"
  shows "(of_nat i * 4096 :: u64) = of_nat j * 4096 \<longleftrightarrow> i = j"
proof -
  have "unat (of_nat k * 4096 :: u64) = k * 4096" if "k < MAX_MEM" for k
    using that unat_of_nat_u64 [of "k * 4096"] by simp
  with assms show ?thesis by (metis mult_cancel2 zero_neq_numeral)
qed

lemma page_addr_inj: "inj_on (\<lambda>i. of_nat i * 4096 :: u64) {i. i < MAX_MEM}"
  by (simp add: inj_on_def page_addr_inject)

lemma page_addr_unat: "k < MAX_MEM \<Longrightarrow> unat (of_nat k * 4096 :: u64) = k * 4096"
  using unat_of_nat_u64 [of "k * 4096"] by simp

lemma memmap_okD:
  assumes "memmap_ok s"
  shows "length (memmap s) = MAX_MEM"
    and "i < MAX_MEM \<Longrightarrow> mm_addr (memmap s ! i) = of_nat i * 4096"
    and "\<not> page_avail s 0"
  using assms by (auto simp: memmap_ok_def page_avail_def)

subsection \<open>Initialisation\<close>

definition boot_entry :: "u64 \<Rightarrow> nat \<Rightarrow> memory_map" where
  "boot_entry physfree i =
     \<lparr>mm_addr = of_nat i * 4096,
      mm_res_flag = (if of_nat i * 4096 < physfree then BUSY else AVAIL),
      mm_ref_cnt = (if of_nat i * 4096 < physfree then 1 else 0), mm_cow_flag = False\<rparr>"

lemma init_memmap_loop_eq:
  assumes "length mm = MAX_MEM" "i \<le> MAX_MEM"
  shows "init_memmap_loop physfree i (of_nat i * 4096) mm =
           take i mm @ map (boot_entry physfree) [i..<MAX_MEM]"
  using assms
proof (induction "MAX_MEM - i" arbitrary: i mm)
  case 0
  then show ?case by (simp add: init_memmap_loop.simps)
next
  case (Suc k)
  then have i: "i < MAX_MEM" by simp
  have a: "of_nat i * 4096 + 4096 = (of_nat (Suc i) * 4096 :: u64)" by (simp add: algebra_simps)
  have e: "(if of_nat i * 4096 < physfree
      then \<lparr>mm_addr = of_nat i * 4096, mm_res_flag = BUSY, mm_ref_cnt = 1, mm_cow_flag = False\<rparr>
      else \<lparr>mm_addr = of_nat i * 4096, mm_res_flag = AVAIL, mm_ref_cnt = 0, mm_cow_flag = False\<rparr>)
      = boot_entry physfree i" by (simp add: boot_entry_def)
  have "init_memmap_loop physfree i (of_nat i * 4096) mm =
        init_memmap_loop physfree (Suc i) (of_nat (Suc i) * 4096) (mm[i := boot_entry physfree i])"
    using i by (subst init_memmap_loop.simps) (simp only: a e Suc_eq_plus1 [symmetric] if_True)
  also have "\<dots> = take (Suc i) (mm[i := boot_entry physfree i]) @
      map (boot_entry physfree) [Suc i..<MAX_MEM]"
    using Suc i by (intro Suc.hyps(1)) auto
  also have "\<dots> = take i mm @ map (boot_entry physfree) [i..<MAX_MEM]"
    using i Suc.prems by (simp add: take_Suc_conv_app_nth upt_conv_Cons)
  finally show ?case .
qed

lemma init_memmap_eq:
  "length (memmap s) = MAX_MEM \<Longrightarrow>
   memmap (init_memmap physfree s) = map (boot_entry physfree) [0..<MAX_MEM]"
  using init_memmap_loop_eq [of "memmap s" 0 physfree] by (simp add: init_memmap_def)

lemma init_memmap_ok:
  assumes "length (memmap s) = MAX_MEM" "0 < physfree"
  shows "memmap_ok (init_memmap physfree s)"
  using assms by (simp add: memmap_ok_def init_memmap_eq boot_entry_def)

subsection \<open>First-fit allocation\<close>

lemma mem_allocate_loop_found:
  assumes "i \<le> j" "page_avail s j" "\<And>k. i \<le> k \<Longrightarrow> k < j \<Longrightarrow> \<not> page_avail s k"
  shows "mem_allocate_loop i s =
           (mm_addr (memmap s ! j),
            s\<lparr>memmap := (memmap s)[j := (memmap s ! j)
               \<lparr>mm_ref_cnt := mm_ref_cnt (memmap s ! j) + 1, mm_res_flag := BUSY\<rparr>]\<rparr>)"
  using assms
proof (induction "j - i" arbitrary: i)
  case 0
  then show ?case by (subst mem_allocate_loop.simps) (auto simp: page_avail_def)
next
  case (Suc n)
  then have "i < j" by simp
  with Suc.prems have "\<not> page_avail s i" "i < MAX_MEM" by (auto simp: page_avail_def)
  then have "mem_allocate_loop i s = mem_allocate_loop (i + 1) s"
    by (subst mem_allocate_loop.simps) (simp add: page_avail_def)
  with Suc show ?case by simp
qed

lemma mem_allocate_loop_none:
  assumes "\<And>k. i \<le> k \<Longrightarrow> \<not> page_avail s k"
  shows "mem_allocate_loop i s = (0, s)"
  using assms
proof (induction "MAX_MEM - i" arbitrary: i)
  case 0
  then show ?case by (subst mem_allocate_loop.simps) simp
next
  case (Suc n)
  then have "i < MAX_MEM" "\<not> page_avail s i" by auto
  then have "mem_allocate_loop i s = mem_allocate_loop (i + 1) s"
    by (subst mem_allocate_loop.simps) (simp add: page_avail_def)
  with Suc show ?case by simp
qed

definition take_page :: "nat \<Rightarrow> kmem \<Rightarrow> kmem" where
  "take_page j s = s\<lparr>memmap := (memmap s)[j := (memmap s ! j)
     \<lparr>mm_ref_cnt := mm_ref_cnt (memmap s ! j) + 1, mm_res_flag := BUSY\<rparr>]\<rparr>"

lemma take_page_sel [simp]:
  "qmem (take_page j s) = qmem s" "pml4e (take_page j s) = pml4e s"
  "cr3_addr (take_page j s) = cr3_addr s" "length (memmap (take_page j s)) = length (memmap s)"
  by (simp_all add: take_page_def)

lemma take_page_nth:
  "memmap_ok s \<Longrightarrow> j < MAX_MEM \<Longrightarrow> i < MAX_MEM \<Longrightarrow>
   memmap (take_page j s) ! i =
     (if i = j then (memmap s ! j)\<lparr>mm_ref_cnt := mm_ref_cnt (memmap s ! j) + 1, mm_res_flag := BUSY\<rparr>
      else memmap s ! i)"
  by (simp add: take_page_def memmap_okD(1))

lemma take_page_ok: "memmap_ok s \<Longrightarrow> j < MAX_MEM \<Longrightarrow> memmap_ok (take_page j s)"
  using take_page_nth [of s j] by (auto simp: memmap_ok_def)

lemma take_page_avail:
  "memmap_ok s \<Longrightarrow> j < MAX_MEM \<Longrightarrow> page_avail (take_page j s) k \<longleftrightarrow> page_avail s k \<and> k \<noteq> j"
  using take_page_nth [of s j k] by (auto simp: page_avail_def split: if_splits)

lemma mem_allocate_first:
  assumes "memmap_ok s" "page_avail s j" "\<And>k. k < j \<Longrightarrow> \<not> page_avail s k"
  shows "mem_allocate s = (of_nat j * 4096, take_page j s)"
  using assms mem_allocate_loop_found [of 0 j s] memmap_okD(2) [OF assms(1), of j]
  by (simp add: mem_allocate_def take_page_def page_avail_def)

lemma mem_allocate_none:
  "(\<And>k. \<not> page_avail s k) \<Longrightarrow> mem_allocate s = (0, s)"
  by (simp add: mem_allocate_def mem_allocate_loop_none)

lemma mem_allocate_cases:
  assumes "memmap_ok s"
  obtains (full) "\<And>k. \<not> page_avail s k" "mem_allocate s = (0, s)"
    | (page) j where "page_avail s j" "\<And>k. k < j \<Longrightarrow> \<not> page_avail s k" "0 < j" "j < MAX_MEM"
        "mem_allocate s = (of_nat j * 4096, take_page j s)"
proof (cases "\<exists>k. page_avail s k")
  case True
  define j where "j = (LEAST k. page_avail s k)"
  have j: "page_avail s j" "\<And>k. k < j \<Longrightarrow> \<not> page_avail s k"
    unfolding j_def using True by (auto intro: LeastI dest: not_less_Least)
  moreover have "0 < j" using j(1) memmap_okD(3) [OF assms] by (cases j) auto
  ultimately show thesis
    using page mem_allocate_first [OF assms j] by (auto simp: page_avail_def)
next
  case False
  then show thesis using full mem_allocate_none by blast
qed

lemma free_addrs_take:
  assumes "memmap_ok s" "page_avail s j"
  shows "free_addrs (take_page j s) = free_addrs s - {of_nat j * 4096}"
proof -
  have "j < MAX_MEM" using assms(2) by (simp add: page_avail_def)
  then have "{i. page_avail (take_page j s) i} = {i. page_avail s i} - {j}"
    using assms(1) by (auto simp: take_page_avail)
  moreover have "{i. page_avail s i} \<subseteq> {i. i < MAX_MEM}" by (auto simp: page_avail_def)
  ultimately show ?thesis
    using inj_on_image_set_diff [OF page_addr_inj, of "{i. page_avail s i}" "{j}"] assms(2) \<open>j < MAX_MEM\<close>
    by (auto simp: free_addrs_def)
qed

interpretation pa: page_allocator mem_allocate free_addrs memmap_ok
proof unfold_locales
  fix s :: kmem
  assume ok: "memmap_ok s"
  have "free_addrs s \<subseteq> (\<lambda>i. of_nat i * 4096) ` {..<MAX_MEM}"
    by (auto simp: free_addrs_def page_avail_def)
  then show "finite (free_addrs s)" by (rule finite_subset) simp
  show "0 \<notin> free_addrs s"
    using page_addr_inject [of _ 0] memmap_okD(3) [OF ok] by (fastforce simp: free_addrs_def page_avail_def)
  show "memmap_ok (snd (mem_allocate s))"
    using ok by (cases rule: mem_allocate_cases [OF ok]) (auto simp: take_page_ok)
  show "fst (mem_allocate s) \<in> free_addrs s" if "free_addrs s \<noteq> {}"
    using that by (cases rule: mem_allocate_cases [OF ok]) (auto simp: free_addrs_def)
  show "free_addrs (snd (mem_allocate s)) = free_addrs s - {fst (mem_allocate s)}"
    using \<open>0 \<notin> free_addrs s\<close>
    by (cases rule: mem_allocate_cases [OF ok]) (auto simp: free_addrs_take [OF ok])
  show "mem_allocate s = (0, s)" if "free_addrs s = {}"
    using that by (intro mem_allocate_none) (auto simp: free_addrs_def)
qed

lemma mem_allocate_sel [simp]:
  "qmem (snd (mem_allocate s)) = qmem s" "pml4e (snd (mem_allocate s)) = pml4e s"
  "cr3_addr (snd (mem_allocate s)) = cr3_addr s"
proof -
  have "qmem (snd (mem_allocate_loop i s)) = qmem s \<and> pml4e (snd (mem_allocate_loop i s)) = pml4e s \<and>
        cr3_addr (snd (mem_allocate_loop i s)) = cr3_addr s" for i
    by (induction i s rule: mem_allocate_loop.induct) (subst (1 2 3) mem_allocate_loop.simps, simp)
  then show "qmem (snd (mem_allocate s)) = qmem s" "pml4e (snd (mem_allocate s)) = pml4e s"
    "cr3_addr (snd (mem_allocate s)) = cr3_addr s" by (simp_all add: mem_allocate_def)
qed

subsection \<open>Runs of free pages\<close>

lemma alloc_run:
  assumes "memmap_ok s" "\<And>k. j \<le> k \<Longrightarrow> k < j + n \<Longrightarrow> page_avail s k" "\<And>k. k < j \<Longrightarrow> \<not> page_avail s k"
  shows "fst (alloc_n mem_allocate n s) = map (\<lambda>k. of_nat k * 4096) [j..<j + n] \<and>
         (\<forall>k. page_avail (snd (alloc_n mem_allocate n s)) k \<longleftrightarrow> page_avail s k \<and> \<not> (j \<le> k \<and> k < j + n))"
  using assms
proof (induction n arbitrary: j s)
  case 0
  then show ?case by simp
next
  case (Suc n)
  have j: "page_avail s j" and lt: "j < MAX_MEM" using Suc.prems(2) [of j] by (auto simp: page_avail_def)
  have al: "mem_allocate s = (of_nat j * 4096, take_page j s)"
    using Suc.prems j by (intro mem_allocate_first) auto
  have "fst (alloc_n mem_allocate n (take_page j s)) = map (\<lambda>k. of_nat k * 4096) [Suc j..<Suc j + n] \<and>
         (\<forall>k. page_avail (snd (alloc_n mem_allocate n (take_page j s))) k \<longleftrightarrow>
              page_avail (take_page j s) k \<and> \<not> (Suc j \<le> k \<and> k < Suc j + n))"
    using Suc.prems lt
    by (intro Suc.IH) (auto simp: take_page_ok take_page_avail less_Suc_eq)
  moreover have "[j..<j + Suc n] = j # [Suc j..<Suc j + n]"
    by (simp add: upt_conv_Cons del: upt_Suc)
  moreover have "page_avail s k \<and> k \<noteq> j \<and> \<not> (Suc j \<le> k \<and> k < Suc j + n) \<longleftrightarrow>
      page_avail s k \<and> \<not> (j \<le> k \<and> k < j + Suc n)" for k by auto
  ultimately show ?case
    using al take_page_avail [OF Suc.prems(1) lt] by (simp add: Let_def case_prod_beta)
qed

lemma kern_page_nonzero: "j < MAX_MEM \<Longrightarrow> KERN_MEM + of_nat j * 4096 \<noteq> 0"
proof
  assume "j < MAX_MEM" "KERN_MEM + of_nat j * 4096 = 0"
  then have "unat (of_nat j * 4096 :: u64) = unat (- KERN_MEM)"
    by (metis add_eq_0_iff)
  with page_addr_unat [OF \<open>j < MAX_MEM\<close>] \<open>j < MAX_MEM\<close> show False by simp
qed

subsection \<open>Freeing\<close>

lemma mem_free_loop_skip:
  assumes "memmap_ok s" "\<And>k. i \<le> k \<Longrightarrow> k < MAX_MEM \<Longrightarrow> a \<noteq> of_nat k * 4096"
  shows "mem_free_loop a i s = s"
  using assms
proof (induction "MAX_MEM - i" arbitrary: i)
  case 0
  then show ?case by (subst mem_free_loop.simps) simp
next
  case (Suc n)
  from Suc.hyps(2) have i: "i < MAX_MEM" by simp
  with Suc.prems have "mm_addr (memmap s ! i) \<noteq> a" by (metis memmap_okD(2) order_refl)
  with Suc i show ?case by (subst mem_free_loop.simps) simp
qed

lemma set_avail_ok: "memmap_ok s \<Longrightarrow> 0 < i \<Longrightarrow> i < MAX_MEM \<Longrightarrow> memmap_ok (set_avail i s)"
  by (auto simp: memmap_ok_def set_avail_def nth_list_update)

lemma mem_free_loop_hit:
  assumes "memmap_ok s" "i \<le> j" "0 < j" "j < MAX_MEM"
  shows "mem_free_loop (of_nat j * 4096) i s = set_avail j s"
  using assms
proof (induction "j - i" arbitrary: i)
  case 0
  then have "mem_free_loop (of_nat j * 4096) (i + 1) (set_avail j s) = set_avail j s"
    by (intro mem_free_loop_skip) (auto simp: set_avail_ok page_addr_inject)
  with 0 show ?case by (subst mem_free_loop.simps) (simp add: memmap_okD)
next
  case (Suc n)
  then have "i < MAX_MEM" "i \<noteq> j" by auto
  with Suc.prems have "mm_addr (memmap s ! i) \<noteq> of_nat j * 4096"
    using page_addr_inject [of i j] by (simp add: memmap_okD(2))
  with Suc \<open>i < MAX_MEM\<close> \<open>i \<noteq> j\<close> show ?case by (subst mem_free_loop.simps) simp
qed


lemma mem_free_index:
  assumes "25 \<le> j" "j < MAX_MEM"
  shows "unat ((of_nat j * 4096 - INITIAL_MEM) div 4096) = j - 25"
proof -
  have "INITIAL_MEM \<le> of_nat j * 4096"
    using assms by (simp add: word_le_nat_alt page_addr_unat)
  then have "unat ((of_nat j * 4096 - INITIAL_MEM) div 4096) = (j * 4096 - 100000) div 4096"
    using assms by (simp add: unat_div unat_sub page_addr_unat)
  also have "\<dots> = j - 25"
  proof -
    obtain d where "j = 25 + d" using assms(1) by (auto simp: le_iff_add)
    moreover have "(25 + d) * 4096 - 100000 = 2400 + d * (4096 :: nat)" by simp
    ultimately show ?thesis by simp
  qed
  finally show ?thesis .
qed

lemma mem_free_page:
  assumes "memmap_ok s" "25 \<le> j" "j < MAX_MEM"
  shows "mem_free (of_nat j * 4096) s = Inr (set_avail j s)"
proof -
  have "mm_addr (memmap s ! (j - 25)) \<noteq> of_nat j * 4096"
    using assms page_addr_inject [of "j - 25" j] by (simp add: memmap_okD(2))
  then show ?thesis
    using assms mem_free_index [OF assms(2,3)]
    by (simp add: mem_free_def mem_free_loop_hit Let_def)
qed

lemma not_page_aligned: "(a :: u64) mod 4096 \<noteq> 0 \<Longrightarrow> k < MAX_MEM \<Longrightarrow> a \<noteq> of_nat k * 4096"
proof
  assume "k < MAX_MEM" "a = of_nat k * 4096" "a mod 4096 \<noteq> 0"
  moreover from this have "unat (a mod 4096) = 0"
    using page_addr_unat [of k] by (simp add: unat_mod)
  ultimately show False by (simp add: unat_eq_zero)
qed

lemma mem_free_unaligned:
  assumes "memmap_ok s" "a mod 4096 \<noteq> 0"
  shows "mem_free a s = (if unat ((a - INITIAL_MEM) div 4096) < MAX_MEM then Inr s else Inl Out_of_bounds)"
proof -
  let ?n = "unat ((a - INITIAL_MEM) div 4096)"
  have "mem_free_loop a 0 s = s"
    using assms not_page_aligned [of a] by (intro mem_free_loop_skip) auto
  moreover have "mm_addr (memmap s ! ?n) \<noteq> a" if "?n < MAX_MEM"
    using assms not_page_aligned [of a ?n] that memmap_okD(2) [OF assms(1) that] by metis
  ultimately show ?thesis by (simp add: mem_free_def Let_def)
qed

subsection \<open>Rounding\<close>

lemma word_mod_4096_and: "(a :: u64) mod 4096 = a AND 0xFFF"
proof -
  have "a mod 2 ^ 12 = take_bit 12 a" by (simp add: take_bit_eq_mod)
  also have "\<dots> = a AND mask 12" by (simp add: take_bit_eq_mask)
  finally show ?thesis by (simp add: mask_eq_exp_minus_1)
qed

lemma page_mask_eq: "page_mask a = a - a mod 4096"
proof -
  have c: "NOT (0xFFF :: u64) = 0xFFFFFFFFFFFFF000" by simp
  have "a - (a AND 0xFFF) = a AND NOT (a AND 0xFFF)"
    by (rule disjunctive_diff_eq_and_not) (rule bit_word_eqI, auto simp: bit_simps)
  also have "\<dots> = a AND NOT 0xFFF" by (rule bit_word_eqI) (auto simp: bit_simps)
  finally show ?thesis by (simp only: page_mask_def word_mod_4096_and c)
qed

lemma present_unaligned: "a AND PAGE_PRESENT \<noteq> 0 \<Longrightarrow> a mod 4096 \<noteq> 0"
proof
  assume "a AND PAGE_PRESENT \<noteq> 0" "a mod 4096 = 0"
  then have "(a AND 0xFFF) AND 1 = 0" by (simp add: word_mod_4096_and)
  with \<open>a AND PAGE_PRESENT \<noteq> 0\<close> show False by (simp add: and.assoc)
qed

end
