(* ===== verification/Paging.thy ===== *)
theory Paging
  imports PhysMem
begin

text \<open>
  Four-level page tables, the second half of \<^verbatim>\<open>sys/memory.c\<close>: \<^verbatim>\<open>addr_res\<close>,
  \<^verbatim>\<open>look_pages\<close>, \<^verbatim>\<open>walk_pages\<close>, \<^verbatim>\<open>map_kernel\<close>, \<^verbatim>\<open>page_insert\<close>,
  \<^verbatim>\<open>kmalloc_user_space\<close> and \<^verbatim>\<open>mem_init\<close>.  The kernel reaches a physical page through
  the mapping at \<^verbatim>\<open>KERN_MEM\<close>, and while \<^verbatim>\<open>mem_init\<close> runs also through the boot
  loader's identity mapping; both are the same quadword of \<^const>\<open>qmem\<close>.
\<close>

section \<open>Memory accesses of the kernel\<close>

definition kphys :: "ptr \<Rightarrow> u64" where
  "kphys v = (if KERN_MEM \<le> v then v - KERN_MEM else v)"

definition ldq :: "ptr \<Rightarrow> kmem \<Rightarrow> u64" where
  "ldq v s = qmem s (kphys v)"

definition stq :: "ptr \<Rightarrow> u64 \<Rightarrow> kmem \<Rightarrow> kmem" where
  "stq v x s = s\<lparr>qmem := (qmem s)(kphys v := x)\<rparr>"

text \<open>The address of element \<open>i\<close> of an array of quadwords.\<close>

definition elt :: "ptr \<Rightarrow> u64 \<Rightarrow> ptr" where
  "elt b i = b + 8 * i"

section \<open>Walking the tables\<close>

abbreviation (input) PML4E :: int where "PML4E \<equiv> 101"
abbreviation (input) PDPE :: int where "PDPE \<equiv> 102"
abbreviation (input) PDE :: int where "PDE \<equiv> 103"
abbreviation (input) PTE :: int where "PTE \<equiv> 104"

definition addr_res :: "u64 \<Rightarrow> int \<Rightarrow> u64" where
  "addr_res logical flag =
     (if flag = PML4E then drop_bit 39 logical AND 0x1FF
      else if flag = PDPE then drop_bit 30 logical AND 0x1FF
      else if flag = PDE then drop_bit 21 logical AND 0x1FF
      else if flag = PTE then drop_bit 12 logical AND 0x1FF
      else 0)"

text \<open>The kernel address of the table an entry points to.\<close>

definition table_of :: "u64 \<Rightarrow> ptr" where
  "table_of e = page_mask (e + KERN_MEM)"

definition look_pages :: "ptr \<Rightarrow> u64 \<Rightarrow> kmem \<Rightarrow> ptr" where
  "look_pages pml4 logical s =
     (let e4 = ldq (elt pml4 (addr_res logical PML4E)) s
      in if e4 AND PAGE_PRESENT \<noteq> 0 then
           let e3 = ldq (elt (table_of e4) (addr_res logical PDPE)) s
           in if e3 \<noteq> 0 then
                let e2 = ldq (elt (table_of e3) (addr_res logical PDE)) s
                in if e2 \<noteq> 0 then
                     let pte = elt (table_of e2) (addr_res logical PTE)
                     in if ldq pte s \<noteq> 0 then pte else 0
                   else 0
              else 0
         else 0)"

text \<open>
  One level of \<^verbatim>\<open>walk_pages\<close>: the code tests \<^verbatim>\<open>!e & PAGE_PRESENT\<close>, which is
  \<^verbatim>\<open>(!e) & 1\<close>, at the top level and \<^verbatim>\<open>!e\<close> below it; both ask whether the entry is zero.
  A page for the next table is entered with \<^verbatim>\<open>PAGE_PERM\<close> and not cleared; when no page is
  left the entry stays zero and the walk goes on with the table at \<^verbatim>\<open>KERN_MEM\<close>.
\<close>

definition walk_level :: "ptr \<Rightarrow> u64 \<Rightarrow> kmem \<Rightarrow> ptr \<times> kmem" where
  "walk_level tab i s =
     (let s2 = (if ldq (elt tab i) s = 0 then
                  let (page_addr, s1) = mem_allocate s
                  in if page_addr \<noteq> 0 then stq (elt tab i) (page_addr OR PAGE_PERM) s1 else s1
                else s)
      in (table_of (ldq (elt tab i) s2), s2))"

definition walk_pages :: "ptr \<Rightarrow> u64 \<Rightarrow> kmem \<Rightarrow> ptr \<times> kmem" where
  "walk_pages pml4 logical s =
     (let (pdpe, s1) = walk_level pml4 (addr_res logical PML4E) s;
          (pde, s2) = walk_level pdpe (addr_res logical PDPE) s1;
          (pte, s3) = walk_level pde (addr_res logical PDE) s2
      in (elt pte (addr_res logical PTE), s3))"

section \<open>Mapping\<close>

text \<open>
  The loop counter of \<^verbatim>\<open>map_kernel\<close> is an \<^verbatim>\<open>int\<close>: a size of \<open>2\<^sup>3\<^sup>1\<close> bytes or more makes
  it overflow.
\<close>

function map_kernel_loop :: "ptr \<Rightarrow> u64 \<Rightarrow> u64 \<Rightarrow> u64 \<Rightarrow> nat \<Rightarrow> kmem \<Rightarrow> kmem res" where
  "map_kernel_loop pml4 vir_addr physical sz i s =
     (if i < unat sz then
        let (pte, s1) = walk_pages pml4 (vir_addr + of_nat i) s;
            s2 = stq pte ((physical + of_nat i) OR PAGE_PERM) s1
        in if i + 4096 < 2 ^ 31 then map_kernel_loop pml4 vir_addr physical sz (i + 4096) s2
           else Inl Signed_overflow
      else Inr s)"
  by pat_completeness auto
termination
  by (relation "measure (\<lambda>(p, v, ph, sz, i, s). 2 ^ 31 - i)") auto

definition map_kernel :: "ptr \<Rightarrow> u64 \<Rightarrow> u64 \<Rightarrow> u64 \<Rightarrow> kmem \<Rightarrow> kmem res" where
  "map_kernel pml4 logical phys sz s =
     (let vir_addr = page_roundless_4096 logical;
          physical = page_roundless_4096 phys;
          sz' = page_roundoff_4096 sz
      in if vir_addr \<noteq> 0 then map_kernel_loop pml4 vir_addr physical sz' 0 s else Inr s)"

definition page_insert :: "ptr \<Rightarrow> u64 \<Rightarrow> u64 \<Rightarrow> kmem \<Rightarrow> kmem res" where
  "page_insert pml4 logical physical s =
     (let (pte, s1) = walk_pages pml4 logical s
      in bindr (if ldq pte s1 AND PAGE_PRESENT \<noteq> 0 then mem_free (ldq pte s1) s1 else Inr s1)
           (\<lambda>s2. Inr (stq pte (physical OR PAGE_PERM) s2)))"

fun kmalloc_user_loop :: "nat \<Rightarrow> ptr \<Rightarrow> u64 \<Rightarrow> kmem \<Rightarrow> kmem res" where
  "kmalloc_user_loop 0 pml4 logical s = Inr s"
| "kmalloc_user_loop (Suc n) pml4 logical s =
     (let (p_addr, s1) = mem_allocate s
      in bindr (page_insert pml4 logical p_addr s1) (kmalloc_user_loop n pml4 (logical + 4096)))"

text \<open>The loop runs \<^verbatim>\<open>cnt\<close> times, a signed count, so not at all for a negative one.\<close>

definition kmalloc_user_space :: "ptr \<Rightarrow> u64 \<Rightarrow> u64 \<Rightarrow> kmem \<Rightarrow> kmem res" where
  "kmalloc_user_space pml4 logical sz s = kmalloc_user_loop (nat (page_count sz)) pml4 logical s"

section \<open>Initialisation\<close>

text \<open>\<^verbatim>\<open>memset(p, 0, 4096)\<close> on a page: its 512 quadwords become zero.\<close>

definition zero_page :: "ptr \<Rightarrow> kmem \<Rightarrow> kmem" where
  "zero_page p s = fold (\<lambda>i. stq (elt p (of_nat i)) 0) [0..<512] s"

definition mem_init :: "u64 \<Rightarrow> u64 \<Rightarrow> kmem \<Rightarrow> kmem res" where
  "mem_init physbase physfree s =
     (let (pg, s1) = mem_allocate (init_memmap physfree s);
          s2 = zero_page pg (s1\<lparr>pml4e := pg\<rparr>);
          s3 = s2\<lparr>cr3_addr := pg\<rparr>
      in bindr (map_kernel pg (KERN_MEM + physbase) physbase (END_LIMIT - physbase) s3)
           (\<lambda>s4. bindr (map_kernel pg (KERN_MEM + VIDEO_MEM) VIDEO_MEM 8192 s4)
             (\<lambda>s5. Inr (s5\<lparr>pml4e := KERN_MEM + cr3_addr s5\<rparr>))))"

declare map_kernel_loop.simps [simp del]

end
