(* ===== verification/Console.thy ===== *)
theory Console
  imports CString
begin

text \<open>
  The text console, \<^verbatim>\<open>sys/printf.c\<close>: the cursor, the video memory, scrolling, single
  characters, numbers and \<^verbatim>\<open>printk\<close>.  The video memory is the bytes of the two pages
  mapped for it; every cell is a character byte and an attribute byte.
\<close>

section \<open>State\<close>

record console =
  csr_x :: int
  csr_y :: int
  vid :: "u8 list"

text \<open>The initial cursor, on a screen with contents \<open>v\<close>.\<close>

definition console_init :: "u8 list \<Rightarrow> console" where
  "console_init v = \<lparr>csr_x = 0, csr_y = 0, vid = v\<rparr>"

definition put_byte :: "nat \<Rightarrow> u8 \<Rightarrow> console \<Rightarrow> console res" where
  "put_byte i b c = bindr (wr (vid c) i b) (\<lambda>v. Inr (c\<lparr>vid := v\<rparr>))"

text \<open>\<^verbatim>\<open>*p = ch; p++; *p = 0x07; p++\<close>.\<close>

definition put_cell :: "nat \<Rightarrow> u8 \<Rightarrow> console \<Rightarrow> console res" where
  "put_cell p ch c = bindr (put_byte p ch c) (put_byte (p + 1) 0x07)"

section \<open>Clearing and scrolling\<close>

fun reset_loop :: "nat \<Rightarrow> nat \<Rightarrow> console \<Rightarrow> console res" where
  "reset_loop 0 p c = Inr c"
| "reset_loop (Suc n) p c = bindr (put_cell p 32 c) (reset_loop n (p + 2))"

text \<open>The loop variable runs from \<open>0\<close> to \<^verbatim>\<open>80*15*2\<close> inclusive.\<close>

definition reset :: "console \<Rightarrow> console res" where
  "reset c = bindr (reset_loop (80 * 15 * 2 + 1) 0 c) (\<lambda>c'. Inr (c'\<lparr>csr_x := 0, csr_y := 0\<rparr>))"

definition getcsr_x :: "console \<Rightarrow> int" where
  "getcsr_x c = csr_x c"

definition getcsr_y :: "console \<Rightarrow> int" where
  "getcsr_y c = csr_y c"

definition gotoxy :: "int \<Rightarrow> int \<Rightarrow> console \<Rightarrow> console" where
  "gotoxy x y c = c\<lparr>csr_y := y, csr_x := x\<rparr>"

fun scroll_loop :: "nat \<Rightarrow> nat \<Rightarrow> console \<Rightarrow> console res" where
  "scroll_loop 0 p c = Inr c"
| "scroll_loop (Suc n) p c =
     bindr (rd (vid c) (p + 160)) (\<lambda>b. bindr (put_cell p b c) (scroll_loop n (p + 2)))"

definition window_scroll :: "console \<Rightarrow> console res" where
  "window_scroll c =
     bindr (scroll_loop (20 * 80 - 80) 0 c) (\<lambda>c1.
       bindr (reset_loop 80 (2 * (20 * 80 - 80)) c1) (\<lambda>c2.
         Inr (c2\<lparr>csr_x := 0, csr_y := 19\<rparr>)))"

section \<open>One character\<close>

text \<open>\<^verbatim>\<open>csr_x = 0; csr_y++; if(csr_y >= 20) window_scroll();\<close>\<close>

definition new_line :: "console \<Rightarrow> console res" where
  "new_line c =
     bindr (ck (csr_y c + 1)) (\<lambda>y.
       let c1 = c\<lparr>csr_x := 0, csr_y := y\<rparr> in if y \<ge> 20 then window_scroll c1 else Inr c1)"

text \<open>The last branch: a character that is not a control character.\<close>

definition c_plain :: "u8 \<Rightarrow> console \<Rightarrow> console res" where
  "c_plain ch c =
     bindr (if csr_x c \<ge> 0 \<and> csr_x c < 80 \<and> csr_y c \<ge> 0 \<and> csr_y c < 25
            then put_cell (2 * nat (csr_x c + csr_y c * 80)) ch c else Inr c) (\<lambda>c1.
       if csr_x c1 \<ge> 80 then new_line c1
       else bindr (ck (csr_x c1 + 1)) (\<lambda>x. Inr (c1\<lparr>csr_x := x\<rparr>)))"

text \<open>A backspace prints a blank one column to the left.\<close>

definition c_printf :: "u8 \<Rightarrow> console \<Rightarrow> console res" where
  "c_printf ch c =
     (if ch = 8 then
        bindr (ck (csr_x c - 1)) (\<lambda>x. bindr (c_plain 32 (c\<lparr>csr_x := x\<rparr>)) (\<lambda>c1.
          bindr (ck (csr_x c1 - 1)) (\<lambda>x. Inr (c1\<lparr>csr_x := x\<rparr>))))
      else if ch = 10 then new_line c
      else if ch = 9 then bindr (ck (csr_x c + 8)) (\<lambda>x. Inr (c\<lparr>csr_x := x\<rparr>))
      else if ch = 13 then Inr (c\<lparr>csr_x := 0\<rparr>)
      else c_plain ch c)"

section \<open>Strings and numbers\<close>

fun s_printf :: "u8 list \<Rightarrow> console \<Rightarrow> console res" where
  "s_printf [] c = Inl Out_of_bounds"
| "s_printf (ch # cs) c = (if ch \<noteq> 0 then bindr (c_printf ch c) (s_printf cs) else Inr c)"

abbreviation (input) intSize :: nat where "intSize \<equiv> 20"

text \<open>
  The digits go into \<^verbatim>\<open>numArr\<close>, least significant first; a digit above nine is moved up so
  that adding 48 gives its letter.  The base is 10 or 16 in every call with a positive number.
\<close>

function num_digits :: "nat \<Rightarrow> nat \<Rightarrow> nat \<Rightarrow> int list \<Rightarrow> (nat \<times> int list) res" where
  "num_digits num base i numArr =
     (if num > 0 \<and> base \<ge> 2 then
        let digit = int (num mod base)
        in bindr (wr numArr i (if digit > 9 then digit + 39 else digit)) (num_digits (num div base) base (i + 1))
      else Inr (i, numArr))"
  by pat_completeness auto
termination
  by (relation "measure fst") auto

declare num_digits.simps [simp del]

text \<open>The printing loop runs from index \<open>i\<close>, one above the last digit, down to \<open>0\<close>.\<close>

fun print_digits :: "nat \<Rightarrow> bool \<Rightarrow> int list \<Rightarrow> console \<Rightarrow> console res" where
  "print_digits i flag numArr c =
     bindr (rd numArr i) (\<lambda>d.
       bindr (if d \<noteq> 0 \<or> flag then bindr (c_printf (to_char (d + 48)) c) (\<lambda>c'. Inr (True, c')) else Inr (flag, c))
         (\<lambda>(flag', c'). case i of 0 \<Rightarrow> Inr c' | Suc i' \<Rightarrow> print_digits i' flag' numArr c'))"

declare print_digits.simps [simp del]

definition i_printf :: "u64 \<Rightarrow> nat \<Rightarrow> bool \<Rightarrow> console \<Rightarrow> console res" where
  "i_printf num base xflag c =
     bindr (if xflag then bindr (c_printf 48 c) (c_printf 120) else Inr c) (\<lambda>c1.
       if num = 0 then c_printf (to_char (uint num + 48)) c1
       else bindr (num_digits (unat num) base 0 (replicate intSize 0)) (\<lambda>(i, numArr).
              print_digits i False numArr c1))"

section \<open>\<^verbatim>\<open>printk\<close>\<close>

text \<open>
  The variable arguments: an \<^verbatim>\<open>int\<close> or a string.  Taking an argument that is not there, or
  of the other type, is undefined.
\<close>

datatype arg = Int_arg u32 | Str_arg "u8 list"

fun va_int :: "arg list \<Rightarrow> (u32 \<times> arg list) res" where
  "va_int (Int_arg n # as) = Inr (n, as)"
| "va_int _ = Inl Out_of_bounds"

fun va_str :: "arg list \<Rightarrow> (u8 list \<times> arg list) res" where
  "va_str (Str_arg s # as) = Inr (s, as)"
| "va_str _ = Inl Out_of_bounds"

text \<open>\<^verbatim>\<open>%d\<close> and \<^verbatim>\<open>%x\<close>: a minus sign, then the sign-extended argument read as unsigned.\<close>

definition print_signed :: "nat \<Rightarrow> u32 \<Rightarrow> console \<Rightarrow> console res" where
  "print_signed base n c =
     bindr (if sint n < 0 then c_printf 45 c else Inr c) (i_printf (scast n) base False)"

definition conversion :: "u8 \<Rightarrow> arg list \<Rightarrow> console \<Rightarrow> (arg list \<times> console) res" where
  "conversion f as c =
     (if f = 100 then bindr (va_int as) (\<lambda>(n, as'). bindr (print_signed 10 n c) (\<lambda>c'. Inr (as', c')))
      else if f = 115 then bindr (va_str as) (\<lambda>(t, as'). bindr (s_printf t c) (\<lambda>c'. Inr (as', c')))
      else if f = 120 then bindr (va_int as) (\<lambda>(n, as'). bindr (print_signed 16 n c) (\<lambda>c'. Inr (as', c')))
      else if f = 112 then bindr (va_int as) (\<lambda>(n, as'). bindr (i_printf (scast n) 16 True c) (\<lambda>c'. Inr (as', c')))
      else if f = 99 then bindr (va_int as) (\<lambda>(n, as'). bindr (c_printf (ucast n) c) (\<lambda>c'. Inr (as', c')))
      else if f = 37 then bindr (c_printf f c) (\<lambda>c'. Inr (as, c'))
      else Inr (as, c))"

fun printk_loop :: "u8 list \<Rightarrow> arg list \<Rightarrow> nat \<Rightarrow> console \<Rightarrow> (nat \<times> console) res" where
  "printk_loop [] as printed c = Inl Out_of_bounds"
| "printk_loop (ch # fmt) as printed c =
     (if ch = 0 then Inr (printed, c)
      else if ch = 37 then
        (case fmt of [] \<Rightarrow> Inl Out_of_bounds
         | f # fmt' \<Rightarrow> bindr (conversion f as c) (\<lambda>(as', c'). printk_loop fmt' as' (printed + 1) c'))
      else bindr (c_printf ch c) (printk_loop fmt as (printed + 1)))"

definition printk :: "u8 list \<Rightarrow> arg list \<Rightarrow> console \<Rightarrow> (nat \<times> console) res" where
  "printk format as c = printk_loop format as 0 c"

end
