(* ===== verification/Keyboard.thy ===== *)
theory Keyboard
  imports Console
begin

text \<open>
  The keyboard driver, \<^verbatim>\<open>sys/keyb.c\<close>: the scan code tables, the interrupt handler
  \<^verbatim>\<open>kb_handler\<close> and the line reader \<^verbatim>\<open>scank\<close>, which waits for the handler to see the Enter
  key.  Writes to I/O ports are logged in order.
\<close>

section \<open>State\<close>

record tty =
  con :: console
  kbuffer :: "u8 list"
  kb_count :: int
  scan_flag :: bool
  shift_key :: int
  ports :: "(u16 \<times> u8) list"

text \<open>The static initial values, on a blank screen.\<close>

definition tty0 :: tty where
  "tty0 = \<lparr>con = console_init (replicate 8192 0), kbuffer = replicate 512 0, kb_count = 0, scan_flag = False, shift_key = 0, ports = []\<rparr>"

definition outportb :: "u16 \<Rightarrow> u8 \<Rightarrow> tty \<Rightarrow> tty" where
  "outportb port val s = s\<lparr>ports := ports s @ [(port, val)]\<rparr>"

definition tty_printk :: "u8 list \<Rightarrow> arg list \<Rightarrow> tty \<Rightarrow> (nat \<times> tty) res" where
  "tty_printk fmt as s = bindr (printk fmt as (con s)) (\<lambda>(n, c). Inr (n, s\<lparr>con := c\<rparr>))"

section \<open>Scan codes\<close>

definition keyborard_character_set_normal :: "u8 list" where
  "keyborard_character_set_normal =
     [0, 27, 49, 50, 51, 52, 53, 54, 55, 56, 57, 48, 45, 61, 8, 9,
      113, 119, 101, 114, 116, 121, 117, 105, 111, 112, 91, 93, 10, 0,
      97, 115, 100, 102, 103, 104, 106, 107, 108, 59, 39, 96, 0,
      92, 122, 120, 99, 118, 98, 110, 109, 44, 46, 47, 0, 42, 0, 32, 0,
      0, 0, 0, 0, 0, 0, 0, 0, 0, 0, 0, 0, 0, 0, 0, 45, 0, 0, 0, 43,
      0, 0, 0, 0, 0, 0, 0, 0, 0, 0, 0,
      33, 64, 35, 36, 37, 94, 38, 42, 40, 41, 95, 43] @ replicate 26 0"

definition Keyboard_character_set_shift :: "u8 list" where
  "Keyboard_character_set_shift =
     [0, 27, 33, 64, 35, 36, 37, 94, 38, 42, 40, 41, 95, 43, 8, 9,
      81, 87, 69, 82, 84, 89, 85, 73, 79, 80, 123, 125, 10, 0,
      65, 83, 68, 70, 71, 72, 74, 75, 76, 58, 34, 126, 0,
      124, 90, 88, 67, 86, 66, 78, 77, 60, 62, 63, 0, 42, 0, 32, 0,
      0, 0, 0, 0, 0, 0, 0, 0, 0, 0, 0, 0, 0, 0, 0, 45, 0, 0, 0, 43,
      0, 0, 0, 0, 0, 0, 0, 0, 0, 0, 0] @ replicate 38 0"

section \<open>The handler\<close>

text \<open>\<^verbatim>\<open>kbuffer[count++] = ch\<close>; a negative index is outside the array.\<close>

definition kb_store :: "u8 \<Rightarrow> tty \<Rightarrow> tty res" where
  "kb_store ch s =
     (if kb_count s < 0 then Inl Out_of_bounds
      else bindr (wr (kbuffer s) (nat (kb_count s)) ch) (\<lambda>b.
             bindr (ck (kb_count s + 1)) (\<lambda>n. Inr (s\<lparr>kbuffer := b, kb_count := n\<rparr>))))"

text \<open>A pressed key, looked up in one of the tables: echo it, and while a line is being read store it.\<close>

definition kb_key :: "u8 list \<Rightarrow> u8 \<Rightarrow> tty \<Rightarrow> tty res" where
  "kb_key charset check_code s =
     bindr (rd charset (unat check_code)) (\<lambda>ch.
       if ch = 10 then bindr (tty_printk [10, 0] [] s) (\<lambda>(n, s'). Inr s')
       else bindr (tty_printk [37, 99, 0] [Int_arg (ucast ch)] s) (\<lambda>(n, s').
              if scan_flag s' then
                if check_code = 14 then bindr (ck (kb_count s' - 1)) (\<lambda>n. Inr (s'\<lparr>kb_count := n\<rparr>))
                else kb_store ch s'
              else Inr s'))"

definition kb_handler :: "u8 \<Rightarrow> tty \<Rightarrow> tty res" where
  "kb_handler check_code s =
     (let s1 = (if check_code = 28 then s\<lparr>scan_flag := False\<rparr> else s)
      in bindr
           (if check_code AND 0x80 \<noteq> 0 then
              Inr (if check_code = 0x2A then s1\<lparr>shift_key := 0\<rparr> else s1)
            else if check_code = 0x2A then Inr (s1\<lparr>shift_key := 1\<rparr>)
            else if shift_key s1 = 1 then
              bindr (kb_key Keyboard_character_set_shift check_code s1) (\<lambda>s2. Inr (s2\<lparr>shift_key := 0\<rparr>))
            else kb_key keyborard_character_set_normal check_code s1)
           (\<lambda>s3. Inr (outportb 0x20 0x20 s3)))"

section \<open>Reading a line\<close>

definition clear_kbuffer :: "tty \<Rightarrow> tty res" where
  "clear_kbuffer s = bindr (memset_loop 512 0 0 (kbuffer s)) (\<lambda>b. Inr (s\<lparr>kbuffer := b\<rparr>))"

text \<open>
  \<^verbatim>\<open>while(scan_flag);\<close> waits while interrupts bring the scan codes \<open>codes\<close>; when no more come
  the loop does not end.
\<close>

fun await_line :: "u8 list \<Rightarrow> tty \<Rightarrow> (u8 list \<times> tty) res" where
  "await_line codes s =
     (if scan_flag s then
        case codes of [] \<Rightarrow> Inl No_return | code # codes' \<Rightarrow> bindr (kb_handler code s) (await_line codes')
      else Inr (codes, s))"

declare await_line.simps [simp del]

function scank_copy :: "nat \<Rightarrow> u8 list \<Rightarrow> u8 list \<Rightarrow> (nat \<times> u8 list) res" where
  "scank_copy j kb buf =
     (if j < length kb then
        if kb ! j \<noteq> 0 then bindr (wr buf j (kb ! j)) (scank_copy (j + 1) kb) else Inr (j, buf)
      else Inl Out_of_bounds)"
  by pat_completeness auto
termination
  by (relation "measure (\<lambda>(j, kb, buf). length kb - j)") auto

declare scank_copy.simps [simp del]

text \<open>The result is the length, the buffer, the scan codes not yet used, and the new state.\<close>

definition scank :: "u8 list \<Rightarrow> u8 list \<Rightarrow> tty \<Rightarrow> (nat \<times> u8 list \<times> u8 list \<times> tty) res" where
  "scank buf codes s =
     bindr (clear_kbuffer s) (\<lambda>s1.
       bindr (await_line codes (s1\<lparr>scan_flag := True, kb_count := 0\<rparr>)) (\<lambda>(rest, s2).
         bindr (scank_copy 0 (kbuffer s2) buf) (\<lambda>(j, buf1).
           bindr (wr buf1 j 0) (\<lambda>buf2.
             bindr (clear_kbuffer s2) (\<lambda>s3. Inr (j, buf2, rest, s3))))))"

end
