(* ===== verification/Tarfs.thy ===== *)
theory Tarfs
  imports CString
begin

text \<open>
  The index of the embedded tar archive, first part of \<^verbatim>\<open>sys/tarfs.c\<close>: \<^verbatim>\<open>tarfs_initialize\<close> and
  \<^verbatim>\<open>check_file\<close>.  \<^verbatim>\<open>struct tarfs\<close> is packed, and strings copied into its one-byte
  \<^verbatim>\<open>typeflag\<close> run into the fields after it; an entry is therefore its 125 bytes, and the
  fields are read and written at their offsets, little endian.
\<close>

section \<open>Little-endian fields\<close>

fun le_val :: "u8 list \<Rightarrow> nat" where
  "le_val [] = 0"
| "le_val (b # bs) = unat b + 256 * le_val bs"

fun le_bytes :: "nat \<Rightarrow> nat \<Rightarrow> u8 list" where
  "le_bytes 0 v = []"
| "le_bytes (Suc n) v = of_nat v # le_bytes n (v div 256)"

definition get_le :: "nat \<Rightarrow> nat \<Rightarrow> u8 list \<Rightarrow> nat" where
  "get_le n off e = le_val (take n (drop off e))"

definition put_le :: "nat \<Rightarrow> nat \<Rightarrow> nat \<Rightarrow> u8 list \<Rightarrow> u8 list" where
  "put_le n off v e = take off e @ le_bytes n v @ drop (off + n) e"

section \<open>Entries\<close>

abbreviation (input) MAX_BIN :: nat where "MAX_BIN \<equiv> 40"

text \<open>The bytes of one \<^verbatim>\<open>struct tarfs\<close>; its name starts at offset 0.\<close>

type_synonym tarfs = "u8 list"

text \<open>The array before it is filled.\<close>

definition tab0 :: "tarfs list" where
  "tab0 = replicate 40 (replicate 125 0)"

definition typeflag :: "tarfs \<Rightarrow> u8 list" where
  "typeflag e = drop 104 e"

definition file_size :: "tarfs \<Rightarrow> u32" where
  "file_size e = of_nat (get_le 4 100 e)"

definition ref_cnt :: "tarfs \<Rightarrow> u32" where
  "ref_cnt e = of_nat (get_le 4 105 e)"

definition set_ref_cnt :: "u32 \<Rightarrow> tarfs \<Rightarrow> tarfs" where
  "set_ref_cnt n e = put_le 4 105 (unat n) e"

definition tarfs_start_addr :: "tarfs \<Rightarrow> u64" where
  "tarfs_start_addr e = of_nat (get_le 8 109 e)"

definition bin_start_addr :: "tarfs \<Rightarrow> u64" where
  "bin_start_addr e = of_nat (get_le 8 117 e)"

section \<open>Building the index\<close>

text \<open>
  One round of the loop, for the header \<open>h\<close> that starts at address \<open>a\<close>: the new entry, and its
  file size.  \<open>h\<close> reaches to the end of the archive, since the string functions do not stop at the
  end of a field.
\<close>

definition index_entry :: "u8 list \<Rightarrow> u64 \<Rightarrow> tarfs \<Rightarrow> (tarfs \<times> int) res" where
  "index_entry h a e =
     bindr (strcpy e h) (\<lambda>e1.
       let e2 = set_ref_cnt 0 e1
       in bindr (atoo (drop 124 h)) (\<lambda>sz.
            let e3 = put_le 4 100 (nat sz) e2
            in bindr (strcpy (typeflag e3) (drop 156 h)) (\<lambda>t.
                 let e4 = take 104 e3 @ t;
                     e5 = put_le 8 109 (unat a) e4;
                     e6 = put_le 8 117 (unat (a + 512)) e5
                 in Inr (e6, sz))))"

text \<open>The position is in bytes from \<^verbatim>\<open>_binary_tarfs_start\<close>, which has the address \<open>base\<close>.\<close>

function tarfs_loop :: "u8 list \<Rightarrow> u64 \<Rightarrow> nat \<Rightarrow> nat \<Rightarrow> tarfs list \<Rightarrow> tarfs list res" where
  "tarfs_loop img base pos ind tab =
     (if pos < length img then
        bindr (rd tab ind) (\<lambda>e.
          bindr (index_entry (drop pos img) (base + of_nat pos) e) (\<lambda>(e', sz).
            tarfs_loop img base
              (pos + 512 + 512 * (if sz mod 512 = 0 then nat (sz div 512) else nat (sz div 512) + 1))
              (ind + 1) (tab[ind := e'])))
      else Inr tab)"
  by pat_completeness auto
termination
  by (relation "measure (\<lambda>(img, base, pos, ind, tab). length img - pos)") auto

declare tarfs_loop.simps [simp del]

definition tarfs_initialize :: "u8 list \<Rightarrow> u64 \<Rightarrow> tarfs list \<Rightarrow> tarfs list res" where
  "tarfs_initialize img base tab = tarfs_loop img base 0 0 tab"

section \<open>Looking up a file\<close>

fun check_file_loop :: "u8 list \<Rightarrow> tarfs list \<Rightarrow> u64 res" where
  "check_file_loop name [] = Inr 0"
| "check_file_loop name (e # tab) =
     bindr (strcmp name e) (\<lambda>r. if r = 0 then Inr (bin_start_addr e) else check_file_loop name tab)"

text \<open>The loop covers all \<^verbatim>\<open>MAX_BIN\<close> entries of the array.\<close>

definition check_file :: "u8 list \<Rightarrow> tarfs list \<Rightarrow> u64 res" where
  "check_file name tab = check_file_loop name (take MAX_BIN tab)"

end
