(* ===== verification/Kernel.thy ===== *)
theory Kernel
  imports Sched Paging Keyboard Tarfs
begin

text \<open>
  The state of the whole kernel: the scheduler and its tasks, memory, and the structures the
  process code keeps beside them (\<^verbatim>\<open>struct vm_struct\<close>, \<^verbatim>\<open>struct mm_struct\<close>,
  \<^verbatim>\<open>avail_pid\<close>), the terminal, the clock of \<^verbatim>\<open>sys/timer.c\<close> and the file index.  Structures are typed heaps indexed by their address; what they hold before
  they are written is arbitrary, as in a page that was not cleared.
\<close>

section \<open>State\<close>

record vm_struct =
  vm_start :: u64
  vm_end :: u64
  vm_mmsz :: u64
  vm_file :: u64
  vm_offset :: u64
  vm_next :: ptr

record mm_struct =
  vma_addr :: ptr
  mm_cnt :: u16

record clock =
  tm_counter :: u64
  tm_time :: int
  tm_secs :: int
  tm_hours :: int
  tm_mins :: int
  tm_ticks :: int

definition clock0 :: clock where
  "clock0 = \<lparr>tm_counter = 0, tm_time = 0, tm_secs = 0, tm_hours = 0, tm_mins = 0, tm_ticks = 0\<rparr>"

record kernel =
  k_sched :: sched
  k_mem :: kmem
  vmas :: "ptr \<Rightarrow> vm_struct"
  mms :: "ptr \<Rightarrow> mm_struct"
  avail_pid :: u16
  k_tty :: tty
  k_clock :: clock
  tarfs_ind :: "tarfs list"

definition cur_task :: "kernel \<Rightarrow> task_struct" where
  "cur_task k = tasks (k_sched k) (getCurrentTask (k_sched k))"

definition set_task :: "ptr \<Rightarrow> (task_struct \<Rightarrow> task_struct) \<Rightarrow> kernel \<Rightarrow> kernel" where
  "set_task t f k = k\<lparr>k_sched := upd_task t f (k_sched k)\<rparr>"

definition set_mem :: "kmem \<Rightarrow> kernel \<Rightarrow> kernel" where
  "set_mem m k = k\<lparr>k_mem := m\<rparr>"

section \<open>Scheduler calls on the kernel state\<close>

type_synonym kstep = "(int outcome \<times> kernel) res"

definition k_exit :: "kernel \<Rightarrow> kstep" where
  "k_exit k = bindr (of_option (sys_exit (k_sched k))) (\<lambda>(r, s). Inr (r, k\<lparr>k_sched := s\<rparr>))"

text \<open>Continue after a call that returned; a call that switched away does not come back.\<close>

definition and_then :: "kstep \<Rightarrow> (kernel \<Rightarrow> kstep) \<Rightarrow> kstep" where
  "and_then m f = bindr m (\<lambda>(r, k). case r of Ret _ \<Rightarrow> f k | Switch \<Rightarrow> Inr (Switch, k))"

text \<open>
  \<^verbatim>\<open>OOM\<close> and \<^verbatim>\<open>segfault\<close> print a message and end the current task.  \<^verbatim>\<open>%p\<close> takes an \<^verbatim>\<open>int\<close>, so that
  the low half of an address is printed.
\<close>

definition k_printk :: "string \<Rightarrow> arg list \<Rightarrow> kernel \<Rightarrow> kernel res" where
  "k_printk fmt as k = bindr (tty_printk (map of_char fmt @ [0]) as (k_tty k)) (\<lambda>(n, t). Inr (k\<lparr>k_tty := t\<rparr>))"

definition OOM :: "kernel \<Rightarrow> kstep" where
  "OOM k = bindr (k_printk (''Out of Memory'' @ [CHR 0x0A]) [] k) k_exit"

definition segfault :: "u64 \<Rightarrow> kernel \<Rightarrow> kstep" where
  "segfault addr k = bindr (k_printk (''SIGSEGV: Segmentation fault at %p'' @ [CHR 0x0A]) [Int_arg (ucast addr)] k) k_exit"

section \<open>\<^verbatim>\<open>allocate\<close>\<close>

text \<open>
  The loop of \<^verbatim>\<open>allocate\<close>: start and end are multiples of the page size, so the loop variable
  does not wrap, and \<^verbatim>\<open>start+cnt\<close> is the loop variable.  After \<^verbatim>\<open>OOM\<close> returns the loop goes on.
\<close>

function allocate_loop :: "ptr \<Rightarrow> nat \<Rightarrow> nat \<Rightarrow> kernel \<Rightarrow> kstep" where
  "allocate_loop pml4 i stop k =
     (if i < stop then
        let (p, m) = mem_allocate (k_mem k); k1 = set_mem m k
        in if p = 0 then and_then (OOM k1) (allocate_loop pml4 (i + 4096) stop)
           else bindr (page_insert pml4 (of_nat i) p m) (\<lambda>m2.
                  allocate_loop pml4 (i + 4096) stop (set_mem m2 k1))
      else Inr (Ret 0, k))"
  by pat_completeness auto
termination
  by (relation "measure (\<lambda>(p, i, l, k). l - i)") auto

declare allocate_loop.simps [simp del]

definition allocate :: "ptr \<Rightarrow> u64 \<Rightarrow> int \<Rightarrow> kernel \<Rightarrow> kstep" where
  "allocate pml4 addr len k =
     (let start = (if addr mod 4096 \<noteq> 0 then page_roundoff_4096 addr - 4096 else addr);
          stop = page_roundoff_4096 (addr + of_int len)
      in allocate_loop pml4 (unat start) (unat stop) k)"

section \<open>Copy on write\<close>

text \<open>
  One entry of a leaf table: the parent's entry loses its write bit, the child gets the same
  entry, and the page's count goes up.  \<open>Inl\<close> is the early \<^verbatim>\<open>return -1\<close>.
\<close>

definition cow_pte :: "ptr \<Rightarrow> ptr \<Rightarrow> nat \<Rightarrow> kmem \<Rightarrow> kmem + kmem" where
  "cow_pte pte pte_child l s =
     (let e = ldq (elt pte (of_nat l)) s
      in if e AND PAGE_PRESENT \<noteq> 0 then
           let s1 = stq (elt pte (of_nat l)) (e AND NOT PAGE_WRITE) s;
               s2 = stq (elt pte_child (of_nat l)) (ldq (elt pte (of_nat l)) s1) s1;
               pte_t = page_mask (ldq (elt pte_child (of_nat l)) s2)
           in case get_physical_memmap pte_t s2 of
                None \<Rightarrow> Inl s2
              | Some i \<Rightarrow> Inr (s2\<lparr>memmap := (memmap s2)[i := (memmap s2 ! i)
                    \<lparr>mm_ref_cnt := mm_ref_cnt (memmap s2 ! i) + 1, mm_cow_flag := True\<rparr>]\<rparr>)
         else Inr s)"

text \<open>One entry of a table above: a new table for the child, then the loop over the table below.\<close>

definition cow_level :: "(ptr \<Rightarrow> ptr \<Rightarrow> kmem \<Rightarrow> kmem + kmem) \<Rightarrow> ptr \<Rightarrow> ptr \<Rightarrow> nat \<Rightarrow> kmem \<Rightarrow> kmem + kmem" where
  "cow_level below tab tab_child i s =
     (if ldq (elt tab (of_nat i)) s AND PAGE_PRESENT \<noteq> 0 then
        let (page_addr, s1) = mem_allocate s;
            s2 = (if page_addr \<noteq> 0 then stq (elt tab_child (of_nat i)) (page_addr OR PAGE_PERM) s1 else s1)
        in below (table_of (ldq (elt tab (of_nat i)) s2)) (table_of (ldq (elt tab_child (of_nat i)) s2)) s2
      else Inr s)"

definition cow_pt :: "ptr \<Rightarrow> ptr \<Rightarrow> kmem \<Rightarrow> kmem + kmem" where
  "cow_pt pte pte_child = for_loop 512 0 (cow_pte pte pte_child)"

definition cow_pd :: "ptr \<Rightarrow> ptr \<Rightarrow> kmem \<Rightarrow> kmem + kmem" where
  "cow_pd pde pde_child = for_loop 512 0 (cow_level cow_pt pde pde_child)"

definition cow_pdp :: "ptr \<Rightarrow> ptr \<Rightarrow> kmem \<Rightarrow> kmem + kmem" where
  "cow_pdp pdpe pdpe_child = for_loop 512 0 (cow_level cow_pd pdpe pdpe_child)"

text \<open>Entry 511, the kernel's part of the address space, is left out.\<close>

definition cow_walk_pages :: "ptr \<Rightarrow> ptr \<Rightarrow> kmem \<Rightarrow> int \<times> kmem" where
  "cow_walk_pages pml4 pml4_child s =
     (case for_loop 511 0 (cow_level cow_pdp pml4 pml4_child) s of
        Inl s' \<Rightarrow> (-1, s')
      | Inr s' \<Rightarrow> (0, s'))"

section \<open>Page faults\<close>

text \<open>The copy loop runs \<^verbatim>\<open>i = 0, 8, ..., 4088\<close>: all 512 quadwords of the page.\<close>

definition copy_page :: "ptr \<Rightarrow> ptr \<Rightarrow> kmem \<Rightarrow> kmem" where
  "copy_page to from s = fold (\<lambda>j s. stq (elt to (of_nat j)) (ldq (elt from (of_nat j)) s) s) [0..<512] s"

text \<open>What follows a violation whose \<^verbatim>\<open>segfault\<close> returned.\<close>

definition fault_tail :: "ptr \<Rightarrow> u64 \<Rightarrow> kernel \<Rightarrow> kstep" where
  "fault_tail pml4 logical k =
     (let (pte, m) = walk_pages pml4 logical (k_mem k)
      in bindr (if ldq pte m AND PAGE_PRESENT \<noteq> 0 then mem_free (ldq pte m) m else Inr m)
           (\<lambda>m2. Inr (Ret (-1), set_mem m2 k)))"

definition cow_fault :: "ptr \<Rightarrow> u64 \<Rightarrow> ptr \<Rightarrow> u64 \<Rightarrow> nat \<Rightarrow> kmem \<Rightarrow> kmem res" where
  "cow_fault pml4 logical pte physical i m =
     (if mm_ref_cnt (memmap m ! i) = 1 then Inr (stq pte (physical OR PAGE_PERM) m)
      else
        let m1 = m\<lparr>memmap := (memmap m)[i := (memmap m ! i)\<lparr>mm_ref_cnt := mm_ref_cnt (memmap m ! i) - 1\<rparr>]\<rparr>;
            (page_physical, m2) = mem_allocate m1;
            m3 = copy_page (page_physical + KERN_MEM) (physical + KERN_MEM) m2
        in map_kernel pml4 logical page_physical PAGE_SIZE m3)"

text \<open>\<^verbatim>\<open>error\<close> is the error code, \<^verbatim>\<open>logical\<close> the faulting address from \<^verbatim>\<open>cr2\<close>.\<close>

definition page_fault :: "u64 \<Rightarrow> u64 \<Rightarrow> kernel \<Rightarrow> kstep" where
  "page_fault err logical k =
     (let pml4 = t_pml4e_addr (cur_task k); m = k_mem k
      in if err AND PAGE_PRESENT \<noteq> 0 then
           if err AND PAGE_WRITE \<noteq> 0 then
             let pte = look_pages pml4 logical m
             in if pte = 0 then Inl Null_deref
                else let physical = page_mask (ldq pte m)
                  in case get_physical_memmap physical m of
                       None \<Rightarrow> Inl Null_deref
                     | Some i \<Rightarrow>
                         if mm_cow_flag (memmap m ! i) then
                           bindr (cow_fault pml4 logical pte physical i m) (\<lambda>m'. Inr (Ret 0, set_mem m' k))
                         else bindr (k_printk (''Write access violation!'' @ [CHR 0x0A]) [] k) (\<lambda>k1.
                                and_then (segfault logical k1) (fault_tail pml4 logical))
           else bindr (k_printk (''Read access violation!'' @ [CHR 0x0A]) [] k) (\<lambda>k1.
                  and_then (segfault logical k1) (fault_tail pml4 logical))
         else if logical < INITIAL_MEM then and_then (segfault logical k) (\<lambda>k'. Inr (Ret (-1), k'))
         else
           let (pte, m1) = walk_pages pml4 logical m;
               (physical, m2) = mem_allocate m1
           in Inr (Ret (-1), set_mem (stq pte (physical OR PAGE_PERM) m2) k))"

end
