(* ===== verification/Timer.thy ===== *)
theory Timer
  imports Kernel
begin

text \<open>
  The clock interrupt, \<^verbatim>\<open>sys/timer.c\<close>: programming the interval timer, counting ticks, the
  clock on the screen, and the calls into the scheduler.  \<open>junk\<close> is the memory from the local
  array \<^verbatim>\<open>str_time\<close> on: the array has 10 elements.
\<close>

section \<open>Programming the timer\<close>

abbreviation (input) HZ :: nat where "HZ \<equiv> 100"

definition timer_set :: "tty \<Rightarrow> tty" where
  "timer_set s =
     (let divisor = 1193180 div HZ
      in outportb 0x40 (of_nat (divisor div 256))
           (outportb 0x40 (of_nat (divisor mod 256)) (outportb 0x43 0x36 s)))"

definition timer_handler :: "clock \<Rightarrow> clock res" where
  "timer_handler c = bindr (ck (tm_ticks c + 1)) (\<lambda>n. Inr (c\<lparr>tm_ticks := n\<rparr>))"

text \<open>
  \<^verbatim>\<open>timer_wait\<close> spins while \<^verbatim>\<open>timer_ticks\<close>, converted to unsigned, is below the target; \<open>n\<close>
  is the number of interrupts that still come.
\<close>

fun timer_wait_loop :: "nat \<Rightarrow> u64 \<Rightarrow> clock \<Rightarrow> clock res" where
  "timer_wait_loop n eticks c =
     (if (of_int (tm_ticks c) :: u64) < eticks then
        (case n of 0 \<Rightarrow> Inl No_return | Suc n' \<Rightarrow> bindr (timer_handler c) (timer_wait_loop n' eticks))
      else Inr c)"

declare timer_wait_loop.simps [simp del]

definition timer_wait :: "int \<Rightarrow> nat \<Rightarrow> clock \<Rightarrow> clock res" where
  "timer_wait ticks n c = bindr (ck (tm_ticks c + ticks)) (\<lambda>e. timer_wait_loop n (of_int e) c)"

section \<open>The clock on the screen\<close>

text \<open>Two digits at offset \<open>p\<close> of the string.\<close>

definition fillTimer :: "nat \<Rightarrow> int \<Rightarrow> u8 list \<Rightarrow> u8 list res" where
  "fillTimer p num str =
     (if num \<le> 9 then bindr (wr str p 48) (\<lambda>s. wr s (p + 1) (to_char (num + 48)))
      else bindr (wr str p (to_char (num div 10 + 48))) (\<lambda>s. wr s (p + 1) (to_char (num mod 10 + 48))))"

definition time_string :: "clock \<Rightarrow> u8 list \<Rightarrow> u8 list res" where
  "time_string c junk =
     bindr (fillTimer 0 (tm_hours c) junk) (\<lambda>s1. bindr (wr s1 2 58) (\<lambda>s2. bindr (wr s2 3 58) (\<lambda>s3.
       bindr (fillTimer 4 (tm_mins c) s3) (\<lambda>s4. bindr (wr s4 6 58) (\<lambda>s5. bindr (wr s5 7 58) (\<lambda>s6.
         bindr (fillTimer 8 (tm_secs c) s6) (\<lambda>s7. wr s7 10 0)))))))"

text \<open>Once per 100 ticks: advance the time and print it at column 66 of row 22.\<close>

definition tick_clock :: "clock \<Rightarrow> clock res" where
  "tick_clock c =
     bindr (ck (tm_time c + 1)) (\<lambda>t.
       Inr (c\<lparr>tm_time := t, tm_hours := t div 3600 mod 24, tm_mins := (t - t div 3600 * 3600) div 60, tm_secs := t mod 60\<rparr>))"

definition show_time :: "clock \<Rightarrow> u8 list \<Rightarrow> tty \<Rightarrow> tty res" where
  "show_time c junk s =
     bindr (time_string c junk) (\<lambda>str.
       let x = getcsr_x (con s); y = getcsr_y (con s); s1 = s\<lparr>con := gotoxy 66 22 (con s)\<rparr>
       in bindr (tty_printk [37, 115, 0] [Str_arg str] s1) (\<lambda>(n, s2). Inr (s2\<lparr>con := gotoxy x y (con s2)\<rparr>)))"

section \<open>The interrupt\<close>

definition tick_display :: "u8 list \<Rightarrow> kernel \<Rightarrow> kernel res" where
  "tick_display junk k =
     (if tm_counter (k_clock k) mod 100 = 0 then
        bindr (tick_clock (k_clock k)) (\<lambda>c. bindr (show_time c junk (k_tty k)) (\<lambda>s. Inr (k\<lparr>k_clock := c, k_tty := s\<rparr>)))
      else Inr k)"

text \<open>Every 18 ticks: wake sleepers, and switch unless a line is being read.\<close>

definition tick_sched :: "kernel \<Rightarrow> (unit outcome \<times> kernel) res" where
  "tick_sched k =
     (if tm_counter (k_clock k) mod 18 = 0 then
        bindr (of_option (awake (k_sched k))) (\<lambda>s.
          if scan_flag (k_tty k) then Inr (Ret (), k\<lparr>k_sched := s\<rparr>)
          else let (r, s') = schedule s in Inr (r, k\<lparr>k_sched := s'\<rparr>))
      else Inr (Ret (), k))"

definition call_timer :: "u8 list \<Rightarrow> kernel \<Rightarrow> (unit outcome \<times> kernel) res" where
  "call_timer junk k =
     bindr (tick_display junk (k\<lparr>k_clock := (k_clock k)\<lparr>tm_counter := tm_counter (k_clock k) + 1\<rparr>\<rparr>)) (\<lambda>k1.
       tick_sched (k1\<lparr>k_tty := outportb 0x20 0x20 (k_tty k1)\<rparr>))"

definition div_zero :: "tty \<Rightarrow> tty res" where
  "div_zero s = bindr (tty_printk [100, 105, 118, 32, 122, 101, 114, 111, 10, 0] [] s) (\<lambda>(n, s'). Inr s')"

end
