(* ===== verification/Map_Intf.thy ===== *)
theory Map_Intf
  imports Prelude
begin

text \<open>
  The contract between the page tables and the loops that map consecutive pages: an operation
  that sets the entry of one page, and what it guarantees.  The loops of \<^verbatim>\<open>map_kernel\<close>,
  \<^verbatim>\<open>kmalloc_user_space\<close> and \<^verbatim>\<open>sys_brk\<close> are its clients.
\<close>

fun pages :: "u64 \<Rightarrow> nat \<Rightarrow> u64 list" where
  "pages v 0 = []"
| "pages v (Suc n) = v # pages (v + 4096) n"

fun map_range :: "(u64 \<Rightarrow> 's \<Rightarrow> 's res) \<Rightarrow> nat \<Rightarrow> u64 \<Rightarrow> 's \<Rightarrow> 's res" where
  "map_range ins 0 v s = Inr s"
| "map_range ins (Suc n) v s = bindr (ins v s) (map_range ins n (v + 4096))"

lemma page_shift: "v + 4096 + 4096 * of_nat i = v + 4096 * of_nat (Suc i)" for v :: u64
  by (simp add: algebra_simps)

lemma set_pages: "set (pages v n) = (\<lambda>i. v + 4096 * of_nat i) ` {..<n}"
proof (induction n arbitrary: v)
  case (Suc n)
  have "{..<Suc n} = insert 0 (Suc ` {..<n})" by (simp add: lessThan_Suc_eq_insert_0)
  then show ?case by (simp add: Suc image_image page_shift del: of_nat_Suc)
qed simp

lemma length_pages [simp]: "length (pages v n) = n"
  by (induction n arbitrary: v) simp_all

text \<open>
  \<open>good vs s\<close>: the tables are well formed and there is room to map the pages \<open>vs\<close>; \<open>old\<close> says
  which present entries may be replaced; \<open>val s v\<close> is the entry \<open>ins\<close> writes.
\<close>

locale page_mapper =
  fixes ins :: "u64 \<Rightarrow> 's \<Rightarrow> 's res"
    and entry :: "'s \<Rightarrow> u64 \<Rightarrow> u64"
    and good :: "u64 list \<Rightarrow> 's \<Rightarrow> bool"
    and key :: "u64 \<Rightarrow> u64"
    and old :: "u64 \<Rightarrow> bool"
    and val :: "'s \<Rightarrow> u64 \<Rightarrow> u64"
  assumes ins_entry: "good (v # vs) s \<Longrightarrow> old (entry s v) \<Longrightarrow>
      \<exists>t. ins v s = Inr t \<and> good vs t \<and> (\<forall>w. entry t w = (if key w = key v then val s v else entry s w))"
    and key_inject: "i < 2 ^ 36 \<Longrightarrow> j < 2 ^ 36 \<Longrightarrow>
      key (v + 4096 * of_nat i) = key (v + 4096 * of_nat j) \<Longrightarrow> i = j"
begin

lemma key_apart: "i < n \<Longrightarrow> Suc n \<le> 2 ^ 36 \<Longrightarrow> key (v + 4096 * of_nat (Suc i)) \<noteq> key v"
  using key_inject [of "Suc i" 0 v] by (auto simp del: of_nat_Suc)

text \<open>One step of a run: the rest of the run can still be mapped, and will not touch \<open>v\<close> again.\<close>

lemma ins_step:
  assumes "good (pages v (Suc n) @ ws) s" "Suc n \<le> 2 ^ 36"
    and "\<And>i. i < Suc n \<Longrightarrow> old (entry s (v + 4096 * of_nat i))"
  obtains t where "ins v s = Inr t" "good (v # pages (v + 4096) n @ ws) s" "good (pages (v + 4096) n @ ws) t"
    "\<And>w. entry t w = (if key w = key v then val s v else entry s w)"
    "\<And>i. i < n \<Longrightarrow> old (entry t (v + 4096 + 4096 * of_nat i))"
proof -
  have g: "good (v # pages (v + 4096) n @ ws) s" using assms(1) by simp
  obtain t where t: "ins v s = Inr t" "good (pages (v + 4096) n @ ws) t"
    "\<And>w. entry t w = (if key w = key v then val s v else entry s w)"
    using ins_entry [OF g] assms(3) [of 0] by auto
  have "old (entry t (v + 4096 + 4096 * of_nat i))" if "i < n" for i
    using that key_apart [OF that assms(2)] assms(3) [of "Suc i"] unfolding page_shift t(3) by simp
  with t g that show thesis by blast
qed

text \<open>A run of pages is mapped completely, and nothing else changes.\<close>

lemma map_range_ok:
  assumes "good (pages v n @ ws) s" "n \<le> 2 ^ 36" "\<And>i. i < n \<Longrightarrow> old (entry s (v + 4096 * of_nat i))"
  shows "\<exists>t. map_range ins n v s = Inr t \<and> good ws t \<and>
           (\<forall>i < n. \<exists>u us. good ((v + 4096 * of_nat i) # us) u \<and>
              entry t (v + 4096 * of_nat i) = val u (v + 4096 * of_nat i)) \<and>
           (\<forall>w. (\<forall>i < n. key w \<noteq> key (v + 4096 * of_nat i)) \<longrightarrow> entry t w = entry s w)"
  using assms
proof (induction n arbitrary: v s)
  case (Suc n)
  obtain t where t: "ins v s = Inr t" "good (v # pages (v + 4096) n @ ws) s" "good (pages (v + 4096) n @ ws) t"
    "\<And>w. entry t w = (if key w = key v then val s v else entry s w)"
    "\<And>i. i < n \<Longrightarrow> old (entry t (v + 4096 + 4096 * of_nat i))"
    by (rule ins_step [OF Suc.prems]) blast+
  obtain t' where t': "map_range ins n (v + 4096) t = Inr t'" "good ws t'"
    "\<And>i. i < n \<Longrightarrow> \<exists>u us. good ((v + 4096 * of_nat (Suc i)) # us) u \<and>
        entry t' (v + 4096 * of_nat (Suc i)) = val u (v + 4096 * of_nat (Suc i))"
    "\<And>w. (\<And>i. i < n \<Longrightarrow> key w \<noteq> key (v + 4096 * of_nat (Suc i))) \<Longrightarrow> entry t' w = entry t w"
    using Suc.IH [OF t(3) _ t(5)] Suc.prems(2) unfolding page_shift by (auto simp del: of_nat_Suc)
  have "entry t' v = val s v"
    using t'(4) [of v] key_apart [OF _ Suc.prems(2), of _ v] t(4) [of v] by metis
  then have "\<exists>u us. good ((v + 4096 * of_nat i) # us) u \<and> entry t' (v + 4096 * of_nat i) = val u (v + 4096 * of_nat i)"
    if "i < Suc n" for i
    using that t(2) t'(3) [of "i - 1"] by (cases i) (auto simp del: of_nat_Suc simp: of_nat_0)
  moreover have "entry t' w = entry s w"
    if "\<forall>i < Suc n. key w \<noteq> key (v + 4096 * of_nat i)" for w
  proof -
    have "key w \<noteq> key v" using that [rule_format, of 0] by simp
    moreover have "entry t' w = entry t w" using that by (intro t'(4)) (simp del: of_nat_Suc)
    ultimately show ?thesis by (simp add: t(4))
  qed
  ultimately show ?case using t(1) t'(1,2) by (auto simp del: of_nat_Suc)
qed simp

end

text \<open>
  A mapper whose entries come from a pool: every entry it writes is taken out of the pool, so
  a run of pages gets pairwise different entries.
\<close>

locale fresh_mapper = page_mapper +
  fixes pool :: "'a \<Rightarrow> u64 set"
  assumes val_pool: "good (v # vs) s \<Longrightarrow> val s v \<in> pool s"
    and ins_pool: "good (v # vs) s \<Longrightarrow> old (entry s v) \<Longrightarrow> ins v s = Inr t \<Longrightarrow>
      pool t \<subseteq> pool s - {val s v}"
begin

lemma map_range_fresh:
  assumes "good (pages v n @ ws) s" "n \<le> 2 ^ 36" "\<And>i. i < n \<Longrightarrow> old (entry s (v + 4096 * of_nat i))"
    and "map_range ins n v s = Inr t"
  shows "(\<forall>i < n. entry t (v + 4096 * of_nat i) \<in> pool s) \<and>
         inj_on (\<lambda>i. entry t (v + 4096 * of_nat i)) {..<n}"
  using assms
proof (induction n arbitrary: v s)
  case (Suc n)
  obtain u where u: "ins v s = Inr u" "good (v # pages (v + 4096) n @ ws) s" "good (pages (v + 4096) n @ ws) u"
    "\<And>w. entry u w = (if key w = key v then val s v else entry s w)"
    "\<And>i. i < n \<Longrightarrow> old (entry u (v + 4096 + 4096 * of_nat i))"
    by (rule ins_step [OF Suc.prems(1-3)]) blast+
  have run: "map_range ins n (v + 4096) u = Inr t" using Suc.prems(4) u(1) by simp
  have ih: "\<And>i. i < n \<Longrightarrow> entry t (v + 4096 * of_nat (Suc i)) \<in> pool u"
    "inj_on (\<lambda>i. entry t (v + 4096 * of_nat (Suc i))) {..<n}"
    using Suc.IH [OF u(3) _ u(5) run] Suc.prems(2) unfolding page_shift by (auto simp del: of_nat_Suc)
  have "entry t v = entry u v"
    using map_range_ok [OF u(3) _ u(5)] Suc.prems(2) key_apart [OF _ Suc.prems(2), of _ v] run
    unfolding page_shift by (metis (no_types, lifting) Suc_leD sum.inject(2))
  then have tv: "entry t v = val s v" by (simp add: u(4))
  have sup: "pool u \<subseteq> pool s - {val s v}" "val s v \<in> pool s"
    using ins_pool [OF u(2) _ u(1)] Suc.prems(3) [of 0] val_pool [OF u(2)] by auto
  let ?f = "\<lambda>i. entry t (v + 4096 * of_nat i)"
  have f: "?f 0 = val s v" "\<And>i. i < n \<Longrightarrow> ?f (Suc i) \<in> pool s - {val s v}"
    using tv ih(1) sup by (auto simp del: of_nat_Suc)
  have "?f 0 \<notin> ?f ` Suc ` {..<n}"
  proof
    assume "?f 0 \<in> ?f ` Suc ` {..<n}"
    then obtain i where "i < n" "?f 0 = ?f (Suc i)" by blast
    with f(1) f(2) [OF this(1)] show False by simp
  qed
  moreover have "inj_on ?f (Suc ` {..<n})"
    using ih(2) by (intro inj_on_imageI) (simp add: comp_def del: of_nat_Suc)
  ultimately have "inj_on ?f (insert 0 (Suc ` {..<n}))"
    unfolding inj_on_insert by blast
  moreover have "\<forall>i < Suc n. ?f i \<in> pool s"
    using f sup(2) by (auto simp: less_Suc_eq_0_disj simp del: of_nat_Suc)
  moreover have "{..<Suc n} = insert 0 (Suc ` {..<n})" by (simp add: lessThan_Suc_eq_insert_0)
  ultimately show ?case by simp
qed simp

end

end
