(* ===== verification/Paging_Props.thy ===== *)
theory Paging_Props
  imports Paging Map_Intf
begin

text \<open>
  Well-formed page tables: a level for every table page, entries that point to tables of the
  next level, no table shared by two entries.  A walk keeps the tables well formed and changes
  no translation; a write to a leaf entry changes the translation of one page only.
\<close>

section \<open>Addresses of table entries\<close>

definition frame :: "u64 \<Rightarrow> bool" where
  "frame b \<longleftrightarrow> (\<exists>j < MAX_MEM. b = of_nat j * 4096)"

lemma frameE:
  assumes "frame b"
  obtains j where "j < MAX_MEM" "b = of_nat j * 4096" "unat b = j * 4096"
  using assms page_addr_unat unfolding frame_def by blast

lemma unat_inject: "unat (a :: u64) = unat b \<Longrightarrow> a = b"
  by (simp add: word_unat_eq_iff)

lemma idx_unat: "(i :: u64) < 512 \<Longrightarrow> unat i < 512"
  by (simp add: word_less_nat_alt)

lemma elt_unat:
  assumes "frame b" "i < 512"
  shows "unat (elt b i) = unat b + 8 * unat i"
proof -
  obtain j where j: "j < MAX_MEM" "b = of_nat j * 4096" using assms(1) by (auto elim: frameE)
  have "elt b i = of_nat (j * 4096 + 8 * unat i)" by (simp add: elt_def j)
  moreover have "j * 4096 + 8 * unat i < 2 ^ 64" using j idx_unat [OF assms(2)] by simp
  ultimately have "unat (elt b i) = j * 4096 + 8 * unat i" by (simp only: unat_of_nat_u64)
  with j show ?thesis by (simp add: page_addr_unat)
qed

lemma elt_inject:
  assumes "frame b" "frame b'" "i < 512" "i' < 512"
  shows "elt b i = elt b' i' \<longleftrightarrow> b = b' \<and> i = i'"
proof
  assume e: "elt b i = elt b' i'"
  obtain j where j: "unat b = j * 4096" "b = of_nat j * 4096" using assms(1) by (auto elim: frameE)
  obtain j' where j': "unat b' = j' * 4096" "b' = of_nat j' * 4096" using assms(2) by (auto elim: frameE)
  have sum: "j * 4096 + 8 * unat i = j' * 4096 + 8 * unat i'"
    using e elt_unat [OF assms(1,3)] elt_unat [OF assms(2,4)] j j' by simp
  have lt: "8 * unat i < 4096" "8 * unat i' < 4096" using assms(3,4) idx_unat by auto
  have "j = (j * 4096 + 8 * unat i) div 4096" "j' = (j' * 4096 + 8 * unat i') div 4096"
    using lt by simp_all
  with sum have "j = j'" by simp
  with sum have "unat i = unat i'" by simp
  then have "i = i'" by (rule unat_inject)
  with \<open>j = j'\<close> j j' show "b = b' \<and> i = i'" by simp
qed simp

lemma kphys_elt:
  assumes "frame b" "i < 512"
  shows "kphys (elt (KERN_MEM + b) i) = elt b i"
proof -
  have b: "unat b \<le> 32510 * 4096" using assms(1) by (auto elim!: frameE)
  have "elt (KERN_MEM + b) i = KERN_MEM + elt b i" by (simp add: elt_def)
  moreover have "KERN_MEM \<le> KERN_MEM + elt b i"
    using elt_unat [OF assms] b idx_unat [OF assms(2)]
    by (simp add: word_le_nat_alt unat_word_ariths)
  ultimately show ?thesis by (simp add: kphys_def)
qed

lemma frame_and_7: "frame b \<Longrightarrow> b AND 7 = 0"
proof -
  assume "frame b"
  then obtain j where "b = of_nat j * 4096" by (auto elim: frameE)
  then have "b = push_bit 12 (of_nat j)" by (simp add: push_bit_eq_mult)
  then have "b AND mask 3 = 0" by (auto simp: bit_eq_iff bit_simps)
  then show ?thesis by (simp add: mask_eq_exp_minus_1)
qed

lemma frame_or_7:
  assumes "frame b"
  shows "b OR 7 = b + 7"
  using disjunctive_add_eq_or [OF frame_and_7 [OF assms]] by simp

lemma table_of_frame:
  assumes "frame b"
  shows "table_of (b OR 7) = KERN_MEM + b"
proof -
  obtain j where j: "j < MAX_MEM" "b = of_nat j * 4096" "unat b = j * 4096" using assms by (rule frameE)
  have "b + 7 + KERN_MEM = of_nat (j * 4096 + 0xffffffff80000007)" by (simp add: j)
  moreover have "j * 4096 + 0xffffffff80000007 < 2 ^ 64" using j by simp
  ultimately have "unat (b + 7 + KERN_MEM) = j * 4096 + 0xffffffff80000007"
    by (simp only: unat_of_nat_u64)
  then have "unat ((b + 7 + KERN_MEM) mod 4096) = 7" by (simp add: unat_mod)
  then have "(b + 7 + KERN_MEM) mod 4096 = 7" by (intro unat_inject) simp
  then show ?thesis by (simp add: table_of_def frame_or_7 [OF assms] page_mask_eq)
qed

lemma entry_nonzero: "(b OR 7 :: u64) \<noteq> 0" "(b OR 7) AND (1 :: u64) \<noteq> 0"
proof -
  have "bit (b OR 7) 0" by (simp add: bit_simps)
  then show "b OR 7 \<noteq> 0" "(b OR 7) AND 1 \<noteq> 0" by (auto simp: and_one_eq bit_0 mod_2_eq_odd)
qed

lemma entry_inject: "frame b \<Longrightarrow> frame c \<Longrightarrow> b OR 7 = c OR 7 \<longleftrightarrow> b = c"
  by (simp add: frame_or_7)

section \<open>Indices\<close>

text \<open>The index of an address at the levels \<open>4\<close> to \<open>1\<close>, and the part of an address the tables translate.\<close>

definition idx :: "u64 \<Rightarrow> nat \<Rightarrow> u64" where
  "idx v k = addr_res v (105 - int k)"

definition vpn :: "u64 \<Rightarrow> u64" where
  "vpn v = take_bit 36 (drop_bit 12 v)"

lemma mask_0x1FF: "(0x1FF :: u64) = mask 9"
  by (simp add: mask_eq_exp_minus_1)

lemma idx_eq:
  "idx v (Suc 0) = take_bit 9 (drop_bit 12 v)" "idx v 2 = take_bit 9 (drop_bit 21 v)"
  "idx v 3 = take_bit 9 (drop_bit 30 v)" "idx v 4 = take_bit 9 (drop_bit 39 v)"
  by (simp_all add: idx_def addr_res_def mask_0x1FF take_bit_eq_mask)

lemma addr_res_idx:
  "addr_res v PML4E = idx v 4" "addr_res v PDPE = idx v 3" "addr_res v PDE = idx v 2"
  "addr_res v PTE = idx v (Suc 0)"
  by (simp_all add: idx_def)

lemma addr_res_less: "addr_res v f < 512"
proof -
  have "x AND 0x1FF < (512 :: u64)" for x
  proof -
    have "x AND mask 9 \<le> mask 9" by (rule word_and_le1)
    then show ?thesis by (simp add: mask_eq_exp_minus_1 word_le_less_eq) (auto simp: word_less_nat_alt)
  qed
  then show ?thesis by (auto simp: addr_res_def)
qed

lemma idx_less [simp]: "idx v k < 512"
  by (simp add: idx_def addr_res_less)

lemma idx_vpn: "idx v (Suc 0) = idx w (Suc 0) \<and> idx v 2 = idx w 2 \<and> idx v 3 = idx w 3 \<and> idx v 4 = idx w 4
    \<longleftrightarrow> vpn v = vpn w"
proof
  assume a: "idx v (Suc 0) = idx w (Suc 0) \<and> idx v 2 = idx w 2 \<and> idx v 3 = idx w 3 \<and> idx v 4 = idx w 4"
  have bits: "bit v (d + n) = bit w (d + n)"
    if "take_bit 9 (drop_bit d v) = take_bit 9 (drop_bit d w)" "n < 9" for d n
    using arg_cong [OF that(1), of "\<lambda>x. bit x n"] that(2) by (simp add: bit_simps)
  show "vpn v = vpn w"
  proof (rule bit_word_eqI)
    fix n assume "n < LENGTH(64)"
    consider "n < 9" | "9 \<le> n" "n < 18" | "18 \<le> n" "n < 27" | "27 \<le> n" "n < 36" | "36 \<le> n" by linarith
    then show "bit (vpn v) n = bit (vpn w) n"
    proof cases
      case 1 then show ?thesis using a bits [of 12 n] by (simp add: idx_eq vpn_def bit_simps)
    next
      case 2 then show ?thesis using a bits [of 21 "n - 9"] by (simp add: idx_eq vpn_def bit_simps)
    next
      case 3 then show ?thesis using a bits [of 30 "n - 18"] by (simp add: idx_eq vpn_def bit_simps)
    next
      case 4 then show ?thesis using a bits [of 39 "n - 27"] by (simp add: idx_eq vpn_def bit_simps)
    next
      case 5 then show ?thesis by (simp add: vpn_def bit_simps)
    qed
  qed
next
  assume a: "vpn v = vpn w"
  have "take_bit 9 (drop_bit (12 + d) x) = take_bit 9 (drop_bit d (vpn x))" if "d \<le> 27" for d x
    by (rule bit_word_eqI) (use that in \<open>auto simp: vpn_def bit_simps ac_simps\<close>)
  from this [of 0] this [of 9] this [of 18] this [of 27] a
  show "idx v (Suc 0) = idx w (Suc 0) \<and> idx v 2 = idx w 2 \<and> idx v 3 = idx w 3 \<and> idx v 4 = idx w 4"
    by (simp add: idx_eq)
qed

section \<open>Well-formed tables\<close>

text \<open>
  \<open>lev\<close> gives the level of every table page, \<open>4\<close> for the root \<open>r\<close> and \<open>1\<close> for the tables of
  leaf entries.  Free pages are zero, since a page becomes a table without being cleared.
\<close>

definition pt_wf :: "(u64 \<rightharpoonup> nat) \<Rightarrow> u64 \<Rightarrow> kmem \<Rightarrow> bool" where
  "pt_wf lev r s \<longleftrightarrow> memmap_ok s \<and> lev r = Some 4 \<and>
     (\<forall>b \<in> dom lev. \<exists>j < MAX_MEM. b = of_nat j * 4096 \<and> \<not> page_avail s j) \<and>
     (\<forall>b k i. lev b = Some k \<and> 1 < k \<and> i < 512 \<and> qmem s (elt b i) \<noteq> 0 \<longrightarrow>
        (\<exists>c. qmem s (elt b i) = c OR 7 \<and> lev c = Some (k - 1))) \<and>
     (\<forall>b k i b' k' i'. lev b = Some k \<and> 1 < k \<and> i < 512 \<and> lev b' = Some k' \<and> 1 < k' \<and> i' < 512 \<and>
        qmem s (elt b i) \<noteq> 0 \<and> qmem s (elt b i) = qmem s (elt b' i') \<longrightarrow> b = b' \<and> i = i') \<and>
     (\<forall>j i. page_avail s j \<and> i < 512 \<longrightarrow> qmem s (elt (of_nat j * 4096) i) = 0)"

lemma pt_wfD:
  assumes "pt_wf lev r s"
  shows "memmap_ok s" "lev r = Some 4"
    and "lev b = Some k \<Longrightarrow> frame b"
    and "lev b = Some k \<Longrightarrow> \<exists>j < MAX_MEM. b = of_nat j * 4096 \<and> \<not> page_avail s j"
    and "lev b = Some k \<Longrightarrow> 1 < k \<Longrightarrow> i < 512 \<Longrightarrow> qmem s (elt b i) \<noteq> 0 \<Longrightarrow>
           \<exists>c. qmem s (elt b i) = c OR 7 \<and> lev c = Some (k - 1)"
    and "lev b = Some k \<Longrightarrow> 1 < k \<Longrightarrow> i < 512 \<Longrightarrow> lev b' = Some k' \<Longrightarrow> 1 < k' \<Longrightarrow> i' < 512 \<Longrightarrow>
           qmem s (elt b i) \<noteq> 0 \<Longrightarrow> qmem s (elt b i) = qmem s (elt b' i') \<Longrightarrow> b = b' \<and> i = i'"
    and "page_avail s j \<Longrightarrow> i < 512 \<Longrightarrow> qmem s (elt (of_nat j * 4096) i) = 0"
  using assms unfolding pt_wf_def frame_def by blast+

lemma pt_wfI:
  assumes "memmap_ok s" "lev r = Some 4"
    and "\<And>b k. lev b = Some k \<Longrightarrow> \<exists>j < MAX_MEM. b = of_nat j * 4096 \<and> \<not> page_avail s j"
    and "\<And>b k i. lev b = Some k \<Longrightarrow> 1 < k \<Longrightarrow> i < 512 \<Longrightarrow> qmem s (elt b i) \<noteq> 0 \<Longrightarrow>
           \<exists>c. qmem s (elt b i) = c OR 7 \<and> lev c = Some (k - 1)"
    and "\<And>b k i b' k' i'. lev b = Some k \<Longrightarrow> 1 < k \<Longrightarrow> i < 512 \<Longrightarrow> lev b' = Some k' \<Longrightarrow> 1 < k' \<Longrightarrow> i' < 512 \<Longrightarrow>
           qmem s (elt b i) \<noteq> 0 \<Longrightarrow> qmem s (elt b i) = qmem s (elt b' i') \<Longrightarrow> b = b' \<and> i = i'"
    and "\<And>j i. page_avail s j \<Longrightarrow> i < 512 \<Longrightarrow> qmem s (elt (of_nat j * 4096) i) = 0"
  shows "pt_wf lev r s"
  using assms unfolding pt_wf_def by blast

text \<open>The leaf table of an address, and its entry there (\<open>0\<close> when there is none).\<close>

fun leaf_table :: "kmem \<Rightarrow> nat \<Rightarrow> u64 \<Rightarrow> u64 \<Rightarrow> u64 option" where
  "leaf_table s 0 b v = None"
| "leaf_table s (Suc 0) b v = Some b"
| "leaf_table s (Suc (Suc k)) b v =
     (let e = qmem s (elt b (idx v (Suc (Suc k))))
      in if e = 0 then None else leaf_table s (Suc k) (table_of e - KERN_MEM) v)"

definition leaf_entry :: "kmem \<Rightarrow> nat \<Rightarrow> u64 \<Rightarrow> u64 \<Rightarrow> u64" where
  "leaf_entry s k b v = (case leaf_table s k b v of None \<Rightarrow> 0 | Some c \<Rightarrow> qmem s (elt c (idx v (Suc 0))))"

lemma child_table:
  assumes "pt_wf lev r s" "lev b = Some (Suc (Suc k))" "qmem s (elt b (idx v (Suc (Suc k)))) \<noteq> 0"
  obtains c where "qmem s (elt b (idx v (Suc (Suc k)))) = c OR 7" "lev c = Some (Suc k)" "frame c"
    "table_of (c OR 7) - KERN_MEM = c"
proof -
  obtain c where c: "qmem s (elt b (idx v (Suc (Suc k)))) = c OR 7" "lev c = Some (Suc k)"
    using pt_wfD(5) [OF assms(1,2) _ idx_less assms(3)] by auto
  with pt_wfD(3) [OF assms(1)] have "frame c" by blast
  with c that show thesis by (simp add: table_of_frame)
qed

lemma leaf_table_level:
  assumes "pt_wf lev r s" "lev b = Some (Suc k)" "leaf_table s (Suc k) b v = Some c"
  shows "lev c = Some 1"
  using assms(2,3)
proof (induction k arbitrary: b)
  case (Suc k)
  then have e: "qmem s (elt b (idx v (Suc (Suc k)))) \<noteq> 0" by (auto simp: Let_def split: if_splits)
  obtain d where "qmem s (elt b (idx v (Suc (Suc k)))) = d OR 7" "lev d = Some (Suc k)" "table_of (d OR 7) - KERN_MEM = d"
    by (rule child_table [OF assms(1) Suc.prems(1) e])
  with Suc e show ?case by (simp add: Let_def)
qed simp

text \<open>Two addresses that share a leaf table agree in all indices above it.\<close>

lemma leaf_table_unique:
  assumes "pt_wf lev r s" "lev b = Some (Suc k)" "lev b' = Some (Suc k)"
    and "leaf_table s (Suc k) b v = Some c" "leaf_table s (Suc k) b' w = Some c"
  shows "b = b' \<and> (\<forall>j. 1 < j \<and> j \<le> Suc k \<longrightarrow> idx v j = idx w j)"
  using assms(2-)
proof (induction k arbitrary: b b')
  case (Suc k)
  let ?i = "idx v (Suc (Suc k))" and ?i' = "idx w (Suc (Suc k))"
  from Suc.prems have e: "qmem s (elt b ?i) \<noteq> 0" "qmem s (elt b' ?i') \<noteq> 0"
    by (auto simp: Let_def split: if_splits)
  obtain d where d: "qmem s (elt b ?i) = d OR 7" "lev d = Some (Suc k)" "table_of (d OR 7) - KERN_MEM = d"
    by (rule child_table [OF assms(1) Suc.prems(1) e(1)])
  obtain d' where d': "qmem s (elt b' ?i') = d' OR 7" "lev d' = Some (Suc k)" "table_of (d' OR 7) - KERN_MEM = d'"
    by (rule child_table [OF assms(1) Suc.prems(2) e(2)])
  have ih: "d = d' \<and> (\<forall>j. 1 < j \<and> j \<le> Suc k \<longrightarrow> idx v j = idx w j)"
    using Suc.prems(3,4) d d' e by (intro Suc.IH) (simp_all add: Let_def)
  have "b = b' \<and> ?i = ?i'"
    using d(1) d'(1) ih e
    by (intro pt_wfD(6) [OF assms(1) Suc.prems(1) _ idx_less Suc.prems(2)]) simp_all
  with ih show ?case by (auto simp: le_Suc_eq)
qed auto

section \<open>Looking up\<close>

lemma ldq_table: "frame b \<Longrightarrow> i < 512 \<Longrightarrow> ldq (elt (KERN_MEM + b) i) s = qmem s (elt b i)"
  by (simp add: ldq_def kphys_elt)

lemma stq_table:
  "frame b \<Longrightarrow> i < 512 \<Longrightarrow> stq (elt (KERN_MEM + b) i) x s = s\<lparr>qmem := (qmem s)(elt b i := x)\<rparr>"
  by (simp add: stq_def kphys_elt)

lemma kern_elt_nonzero: "frame b \<Longrightarrow> i < 512 \<Longrightarrow> elt (KERN_MEM + b) i \<noteq> 0"
proof
  assume a: "frame b" "i < 512" "elt (KERN_MEM + b) i = 0"
  have b: "unat b \<le> 32510 * 4096" using a(1) by (auto elim!: frameE)
  have "elt b i = - KERN_MEM" using a(3) by (simp add: elt_def add_eq_0_iff add.assoc)
  then have "unat (elt b i) = 2147483648" by simp
  with elt_unat [OF a(1,2)] b idx_unat [OF a(2)] show False by simp
qed

lemma look_pages_none:
  "frame r \<Longrightarrow> qmem s (elt r (idx v 4)) = 0 \<Longrightarrow> look_pages (KERN_MEM + r) v s = 0"
  by (simp add: look_pages_def addr_res_idx ldq_table)

text \<open>\<^verbatim>\<open>look_pages\<close> returns the address of the leaf entry when it is nonzero, and \<^verbatim>\<open>NULL\<close> otherwise.\<close>

lemma look_pages_spec:
  assumes "pt_wf lev r s"
  shows "(leaf_entry s 4 r v = 0 \<longrightarrow> look_pages (KERN_MEM + r) v s = 0) \<and>
         (leaf_entry s 4 r v \<noteq> 0 \<longrightarrow> look_pages (KERN_MEM + r) v s \<noteq> 0 \<and>
            ldq (look_pages (KERN_MEM + r) v s) s = leaf_entry s 4 r v)"
proof -
  note wf = pt_wfD [OF assms]
  have n: "4 = Suc (Suc (Suc (Suc 0)))" "3 = Suc (Suc (Suc 0))" "2 = Suc (Suc 0)" by simp_all
  note unf = look_pages_def addr_res_idx leaf_entry_def Let_def ldq_table n table_of_frame entry_nonzero
  have r: "lev r = Some (Suc (Suc (Suc (Suc 0))))" "frame r" using wf(2) wf(3) by auto
  show ?thesis
  proof (cases "qmem s (elt r (idx v (Suc (Suc (Suc (Suc 0)))))) = 0")
    case True
    then show ?thesis using r by (simp add: unf del: One_nat_def)
  next
    case e4: False
    obtain a where a: "qmem s (elt r (idx v (Suc (Suc (Suc (Suc 0)))))) = a OR 7" "lev a = Some (Suc (Suc (Suc 0)))"
      "frame a" by (rule child_table [OF assms r(1) e4])
    show ?thesis
    proof (cases "qmem s (elt a (idx v (Suc (Suc (Suc 0))))) = 0")
      case True
      then show ?thesis using r a by (simp add: unf)
    next
      case e3: False
      obtain b where b: "qmem s (elt a (idx v (Suc (Suc (Suc 0))))) = b OR 7" "lev b = Some (Suc (Suc 0))"
        "frame b" by (rule child_table [OF assms a(2) e3])
      show ?thesis
      proof (cases "qmem s (elt b (idx v (Suc (Suc 0)))) = 0")
        case True
        then show ?thesis using r a b by (simp add: unf)
      next
        case e2: False
        obtain c where c: "qmem s (elt b (idx v (Suc (Suc 0)))) = c OR 7" "lev c = Some (Suc 0)"
          "frame c" by (rule child_table [OF assms b(2) e2])
        then show ?thesis using r a b by (simp add: unf kern_elt_nonzero)
      qed
    qed
  qed
qed

section \<open>Walking\<close>

text \<open>The state after entering the free page \<open>j\<close> as a new table in slot \<open>i\<close> of the table \<open>b\<close>.\<close>

definition enter_table :: "u64 \<Rightarrow> u64 \<Rightarrow> nat \<Rightarrow> kmem \<Rightarrow> kmem" where
  "enter_table b i j s = (take_page j s)\<lparr>qmem := (qmem s)(elt b i := (of_nat j * 4096) OR 7)\<rparr>"

lemma enter_table_sel [simp]:
  "qmem (enter_table b i j s) = (qmem s)(elt b i := (of_nat j * 4096) OR 7)"
  "memmap (enter_table b i j s) = memmap (take_page j s)"
  "page_avail (enter_table b i j s) k = page_avail (take_page j s) k"
  "memmap_ok (enter_table b i j s) = memmap_ok (take_page j s)"
  "free_addrs (enter_table b i j s) = free_addrs (take_page j s)"
  by (simp_all add: enter_table_def page_avail_def memmap_ok_def free_addrs_def)

lemma avail_frame: "page_avail s j \<Longrightarrow> frame (of_nat j * 4096)"
  by (auto simp: frame_def page_avail_def)

lemma avail_not_table:
  assumes "pt_wf lev r s" "page_avail s j"
  shows "lev (of_nat j * 4096) = None"
proof (rule ccontr)
  assume "lev (of_nat j * 4096) \<noteq> None"
  then obtain k where "lev (of_nat j * 4096) = Some k" by blast
  from pt_wfD(4) [OF assms(1) this] obtain j' where "j' < MAX_MEM" "of_nat j * 4096 = (of_nat j' * 4096 :: u64)"
    "\<not> page_avail s j'" by auto
  with assms(2) page_addr_inject [of j j'] show False by (auto simp: page_avail_def)
qed

lemma enter_table_wf:
  assumes wf: "pt_wf lev r s" and b: "lev b = Some (Suc (Suc k))" and i: "i < 512"
    and z: "qmem s (elt b i) = 0" and j: "page_avail s j"
  shows "pt_wf (lev(of_nat j * 4096 \<mapsto> Suc k)) r (enter_table b i j s)"
proof -
  let ?a = "of_nat j * 4096 :: u64" and ?s = "enter_table b i j s"
  let ?lev = "lev(?a \<mapsto> Suc k)"
  note w = pt_wfD [OF wf]
  have jm: "j < MAX_MEM" using j by (simp add: page_avail_def)
  have fa: "frame ?a" and na: "lev ?a = None" using j wf by (auto intro: avail_frame avail_not_table)
  have fr: "frame c" if "?lev c = Some m" for c m
    using that fa w(3) by (auto split: if_splits)
  have ba: "b \<noteq> ?a" using b na by auto
  have new: "?lev c = Some m \<Longrightarrow> i' < 512 \<Longrightarrow> elt c i' = elt b i \<longleftrightarrow> c = b \<and> i' = i" for c m i'
    using elt_inject [OF fr w(3) [OF b] _ i] by blast
  have az: "qmem ?s (elt ?a i') = 0" if "i' < 512" for i'
    using that w(7) [OF j] elt_inject [OF fa w(3) [OF b] that i] ba by simp
  have old: "qmem s (elt c i') = c' OR 7 \<Longrightarrow> lev c = Some m \<Longrightarrow> 1 < m \<Longrightarrow> i' < 512 \<Longrightarrow> c' OR 7 = ?a OR 7 \<Longrightarrow> False"
    for c m i' c'
  proof -
    assume a: "qmem s (elt c i') = c' OR 7" "lev c = Some m" "1 < m" "i' < 512" "c' OR 7 = ?a OR 7"
    then obtain d where d: "c' OR 7 = d OR 7" "lev d = Some (m - 1)"
      using w(5) [OF a(2-4)] entry_nonzero(1) by auto
    with a(5) entry_inject [OF w(3) fa] na show False by simp
  qed
  have "\<exists>j' < MAX_MEM. c = of_nat j' * 4096 \<and> \<not> page_avail ?s j'" if "c \<in> dom ?lev" for c
    using that w(4) jm take_page_avail [OF w(1) jm] by (auto split: if_splits)
  moreover have "\<exists>d. qmem ?s (elt c i') = d OR 7 \<and> ?lev d = Some (m - 1)"
    if "?lev c = Some m" "1 < m" "i' < 512" "qmem ?s (elt c i') \<noteq> 0" for c m i'
  proof (cases "c = ?a \<or> (c = b \<and> i' = i)")
    case True
    with that az b ba show ?thesis by auto
  next
    case False
    then have "lev c = Some m" "qmem ?s (elt c i') = qmem s (elt c i')" using that new by auto
    with w(5) [of c m i'] that na show ?thesis by (metis fun_upd_other option.distinct(1))
  qed
  moreover have "c = c' \<and> i1 = i2"
    if "?lev c = Some m" "1 < m" "i1 < 512" "?lev c' = Some m'" "1 < m'" "i2 < 512"
      "qmem ?s (elt c i1) \<noteq> 0" "qmem ?s (elt c i1) = qmem ?s (elt c' i2)" for c m i1 c' m' i2
  proof -
    have "c \<noteq> ?a" "c' \<noteq> ?a" using az [OF that(3)] az [OF that(6)] that(7,8) by metis+
    then have l: "lev c = Some m" "lev c' = Some m'" using that by simp_all
    have e: "qmem ?s (elt c i1) = (if c = b \<and> i1 = i then ?a OR 7 else qmem s (elt c i1))"
      "qmem ?s (elt c' i2) = (if c' = b \<and> i2 = i then ?a OR 7 else qmem s (elt c' i2))"
      using new that by auto
    have diff: "qmem s (elt d i3) \<noteq> ?a OR 7" if "lev d = Some n" "1 < n" "i3 < 512" for d n i3
      using old [OF _ that] by blast
    show ?thesis
    proof (cases "c = b \<and> i1 = i \<or> c' = b \<and> i2 = i")
      case True
      then show ?thesis
        using e that(8) diff [OF l(1) that(2,3)] diff [OF l(2) that(5,6)] by (auto split: if_splits)
    next
      case False
      then have "qmem s (elt c i1) \<noteq> 0" "qmem s (elt c i1) = qmem s (elt c' i2)" using e that(7,8) by auto
      then show ?thesis using w(6) [OF l(1) that(2,3) l(2) that(5,6)] by blast
    qed
  qed
  moreover have "qmem ?s (elt (of_nat j' * 4096) i') = 0" if "page_avail ?s j'" "i' < 512" for j' i'
  proof -
    have p: "page_avail s j'" using that take_page_avail [OF w(1) jm] by simp
    then have "of_nat j' * 4096 \<noteq> b" using avail_not_table [OF wf p] b by auto
    then show ?thesis
      using w(7) [OF p that(2)] elt_inject [OF avail_frame [OF p] w(3) [OF b] that(2) i] by simp
  qed
  moreover have "memmap_ok ?s" "?lev r = Some 4"
    using take_page_ok [OF w(1) jm] w(2) na by auto
  ultimately show ?thesis unfolding pt_wf_def by blast
qed

text \<open>A new table is empty, so no translation changes.\<close>

lemma enter_table_entry:
  assumes wf: "pt_wf lev r s" and b: "lev b = Some (Suc (Suc k))" and i: "i < 512"
    and z: "qmem s (elt b i) = 0" and j: "page_avail s j" and c: "lev c = Some (Suc m)"
  shows "leaf_entry (enter_table b i j s) (Suc m) c v = leaf_entry s (Suc m) c v"
  using c
proof (induction m arbitrary: c)
  case 0
  then have "c \<noteq> b" using b by auto
  then have "elt c (idx v (Suc 0)) \<noteq> elt b i"
    using elt_inject [OF pt_wfD(3) [OF wf 0] pt_wfD(3) [OF wf b] idx_less i] by simp
  then show ?case by (simp add: leaf_entry_def)
next
  case (Suc m)
  let ?a = "of_nat j * 4096 :: u64" and ?s = "enter_table b i j s" and ?i = "idx v (Suc (Suc m))"
  have fa: "frame ?a" and ba: "b \<noteq> ?a" using avail_frame [OF j] avail_not_table [OF wf j] b by auto
  have az: "qmem ?s (elt ?a i') = 0" if "i' < 512" for i'
    using that pt_wfD(7) [OF wf j] elt_inject [OF fa pt_wfD(3) [OF wf b] that i] ba by simp
  show ?case
  proof (cases "c = b \<and> ?i = i")
    case True
    have "leaf_entry ?s (Suc m) ?a v = 0"
      using az by (cases m) (simp_all add: leaf_entry_def)
    moreover have "leaf_entry ?s (Suc (Suc m)) c v = leaf_entry ?s (Suc m) ?a v"
      using True by (simp add: leaf_entry_def entry_nonzero table_of_frame [OF fa])
    ultimately show ?thesis using True z by (simp add: leaf_entry_def)
  next
    case False
    then have eq: "qmem ?s (elt c ?i) = qmem s (elt c ?i)"
      using elt_inject [OF pt_wfD(3) [OF wf Suc.prems] pt_wfD(3) [OF wf b] idx_less i] by auto
    show ?thesis
    proof (cases "qmem s (elt c ?i) = 0")
      case True
      with eq show ?thesis by (simp add: leaf_entry_def)
    next
      case nz: False
      obtain d where d: "qmem s (elt c ?i) = d OR 7" "lev d = Some (Suc m)" "table_of (d OR 7) - KERN_MEM = d"
        by (rule child_table [OF wf Suc.prems nz])
      have "leaf_entry t (Suc (Suc m)) c v = leaf_entry t (Suc m) d v" if "qmem t (elt c ?i) = d OR 7" for t
        using that d(3) by (simp add: leaf_entry_def entry_nonzero Let_def)
      then show ?thesis using Suc.IH [OF d(2)] d(1) eq by simp
    qed
  qed
qed

text \<open>
  What one step of a walk guarantees: only zero quadwords change, translations do not, and at most
  one page is taken.
\<close>

definition extends :: "u64 \<Rightarrow> kmem \<Rightarrow> kmem \<Rightarrow> bool" where
  "extends r s t \<longleftrightarrow>
     (\<forall>a. qmem s a \<noteq> 0 \<longrightarrow> qmem t a = qmem s a) \<and> (\<forall>v. leaf_entry t 4 r v = leaf_entry s 4 r v) \<and>
     free_addrs t \<subseteq> free_addrs s \<and> (\<forall>j. \<not> page_avail s j \<longrightarrow> \<not> page_avail t j)"

lemma extends_refl [simp]: "extends r s s"
  by (simp add: extends_def)

lemma extends_trans: "extends r s t \<Longrightarrow> extends r t u \<Longrightarrow> extends r s u"
  unfolding extends_def by (metis order_trans)

text \<open>New tables are pages that were free, and only the entries of tables are written.\<close>

definition slots :: "(u64 \<rightharpoonup> nat) \<Rightarrow> u64 set" where
  "slots lev = {elt b i | b i. b \<in> dom lev \<and> i < 512}"

lemma slots_mono: "dom l1 \<subseteq> dom l2 \<Longrightarrow> slots l1 \<subseteq> slots l2"
  unfolding slots_def by blast

definition grows :: "(u64 \<rightharpoonup> nat) \<Rightarrow> kmem \<Rightarrow> (u64 \<rightharpoonup> nat) \<Rightarrow> kmem \<Rightarrow> bool" where
  "grows lev s lev' t \<longleftrightarrow>
     dom lev \<subseteq> dom lev' \<and> dom lev' \<subseteq> dom lev \<union> free_addrs s \<and> free_addrs t \<subseteq> free_addrs s \<and>
     (\<forall>a. a \<notin> slots lev' \<longrightarrow> qmem t a = qmem s a)"

lemma grows_refl [simp]: "grows lev s lev s"
  by (simp add: grows_def)

lemma grows_trans:
  assumes "grows l1 s1 l2 s2" "grows l2 s2 l3 s3"
  shows "grows l1 s1 l3 s3"
proof -
  have "slots l2 \<subseteq> slots l3" using assms(2) slots_mono by (simp add: grows_def)
  then have "qmem s3 a = qmem s1 a" if "a \<notin> slots l3" for a
    using that assms unfolding grows_def by (metis subsetD)
  moreover have "dom l1 \<subseteq> dom l3" "dom l3 \<subseteq> dom l1 \<union> free_addrs s1" "free_addrs s3 \<subseteq> free_addrs s1"
    using assms unfolding grows_def by blast+
  ultimately show ?thesis unfolding grows_def by blast
qed

lemma walk_level_ok:
  assumes wf: "pt_wf lev r s" and b: "lev b = Some (Suc (Suc k))" and i: "i < 512"
    and room: "Suc n \<le> card (free_addrs s)"
  obtains c lev' t where "walk_level (KERN_MEM + b) i s = (KERN_MEM + c, t)" "pt_wf lev' r t"
    "lev \<subseteq>\<^sub>m lev'" "lev' c = Some (Suc k)" "qmem t (elt b i) = c OR 7" "frame c"
    "extends r s t" "n \<le> card (free_addrs t)" "grows lev s lev' t"
proof (cases "qmem s (elt b i) = 0")
  case False
  obtain c where c: "qmem s (elt b i) = c OR 7" "lev c = Some (Suc k)"
    using pt_wfD(5) [OF wf b _ i False] by auto
  then have "frame c" using pt_wfD(3) [OF wf] by blast
  moreover have "walk_level (KERN_MEM + b) i s = (KERN_MEM + c, s)"
    using c(1) False pt_wfD(3) [OF wf b] i \<open>frame c\<close>
    by (simp add: walk_level_def ldq_table table_of_frame)
  ultimately show thesis using that [of c s lev] c wf room by simp
next
  case True
  note ok = pt_wfD(1) [OF wf]
  show thesis
  proof (cases rule: mem_allocate_cases [OF ok, case_names full page])
    case full
    then have "free_addrs s = {}" by (auto simp: free_addrs_def)
    with room show thesis by simp
  next
    case (page j)
    let ?a = "of_nat j * 4096 :: u64" and ?t = "enter_table b i j s"
    have fb: "frame b" and fa: "frame ?a" using pt_wfD(3) [OF wf b] avail_frame [OF page(1)] .
    have nz: "?a \<noteq> 0" using page_addr_inject [of j 0] page(3,4) by simp
    have "walk_level (KERN_MEM + b) i s = (KERN_MEM + ?a, ?t)"
      using True page(5) nz fb fa i
      by (simp add: walk_level_def ldq_table stq_table enter_table_def table_of_frame)
    moreover have "pt_wf (lev(?a \<mapsto> Suc k)) r ?t" by (rule enter_table_wf [OF wf b i True page(1)])
    moreover have "lev \<subseteq>\<^sub>m lev(?a \<mapsto> Suc k)"
      using avail_not_table [OF wf page(1)] by (auto simp: map_le_def)
    moreover have "extends r s ?t"
      using True enter_table_entry [OF wf b i True page(1), of r 3] pt_wfD(2) [OF wf]
        free_addrs_take [OF ok page(1)] take_page_avail [OF ok page(4)]
      by (auto simp: extends_def numeral_eq_Suc)
    moreover have "n \<le> card (free_addrs ?t)"
    proof -
      have "?a \<in> free_addrs s" using page(1) by (auto simp: free_addrs_def)
      then show ?thesis using room free_addrs_take [OF ok page(1)] pa.free_finite [OF ok] by simp
    qed
    moreover have "grows lev s (lev(?a \<mapsto> Suc k)) ?t"
    proof -
      have "qmem ?t a = qmem s a" if "a \<noteq> elt b i" for a using that by simp
      moreover have "?a \<in> free_addrs s" using page(1) by (auto simp: free_addrs_def)
      moreover have "dom lev \<subseteq> dom (lev(?a \<mapsto> Suc k))" "b \<in> dom (lev(?a \<mapsto> Suc k))" using b by auto
      moreover from this(2) have "elt b i \<in> slots (lev(?a \<mapsto> Suc k))" using i unfolding slots_def by blast
      ultimately show ?thesis using free_addrs_take [OF ok page(1)] unfolding grows_def by auto
    qed
    ultimately show thesis using that [of ?a ?t "lev(?a \<mapsto> Suc k)"] fa by simp
  qed
qed

lemma walk_pages_ok:
  assumes wf: "pt_wf lev r s" and room: "n + 3 \<le> card (free_addrs s)"
  obtains c lev' t where "walk_pages (KERN_MEM + r) v s = (elt (KERN_MEM + c) (idx v (Suc 0)), t)"
    "pt_wf lev' r t" "lev' c = Some (Suc 0)" "leaf_table t 4 r v = Some c" "frame c"
    "extends r s t" "n \<le> card (free_addrs t)" "grows lev s lev' t"
proof -
  have r: "lev r = Some (Suc (Suc (Suc (Suc 0))))" using pt_wfD(2) [OF wf] by simp
  have n: "4 = Suc (Suc (Suc (Suc 0)))" "3 = Suc (Suc (Suc 0))" "2 = Suc (Suc 0)" by simp_all
  have room': "Suc (Suc (Suc n)) \<le> card (free_addrs s)" using room by simp
  obtain a l1 s1 where 1: "walk_level (KERN_MEM + r) (idx v 4) s = (KERN_MEM + a, s1)" "pt_wf l1 r s1"
    "l1 a = Some (Suc (Suc (Suc 0)))" "qmem s1 (elt r (idx v 4)) = a OR 7" "frame a" "extends r s s1"
    "Suc (Suc n) \<le> card (free_addrs s1)" "grows lev s l1 s1"
    by (rule walk_level_ok [OF wf r idx_less [of v 4] room'])
  obtain b l2 s2 where 2: "walk_level (KERN_MEM + a) (idx v 3) s1 = (KERN_MEM + b, s2)" "pt_wf l2 r s2"
    "l2 b = Some (Suc (Suc 0))" "qmem s2 (elt a (idx v 3)) = b OR 7" "frame b" "extends r s1 s2"
    "Suc n \<le> card (free_addrs s2)" "grows l1 s1 l2 s2"
    by (rule walk_level_ok [OF 1(2,3) idx_less [of v 3] 1(7)])
  obtain c l3 s3 where 3: "walk_level (KERN_MEM + b) (idx v 2) s2 = (KERN_MEM + c, s3)" "pt_wf l3 r s3"
    "l3 c = Some (Suc 0)" "qmem s3 (elt b (idx v 2)) = c OR 7" "frame c" "extends r s2 s3"
    "n \<le> card (free_addrs s3)" "grows l2 s2 l3 s3"
    by (rule walk_level_ok [OF 2(2,3) idx_less [of v 2] 2(7)])
  have "qmem s3 (elt r (idx v 4)) = a OR 7" "qmem s3 (elt a (idx v 3)) = b OR 7"
    using 1(4) 2(4,6) 3(6) entry_nonzero(1) unfolding extends_def by metis+
  then have "leaf_table s3 4 r v = Some c"
    using 3(4) 1(5) 2(5) 3(5) by (simp add: n Let_def entry_nonzero table_of_frame)
  moreover have "walk_pages (KERN_MEM + r) v s = (elt (KERN_MEM + c) (idx v (Suc 0)), s3)"
    using 1(1) 2(1) 3(1) by (simp add: walk_pages_def addr_res_idx)
  moreover have "extends r s s3" using 1(6) 2(6) 3(6) by (blast intro: extends_trans)
  moreover have "grows lev s l3 s3" using 1(8) 2(8) 3(8) by (blast intro: grows_trans)
  ultimately show thesis using that 3(2,3,5,7) by blast
qed

section \<open>Writing a leaf entry\<close>

lemma leaf_write_wf:
  assumes wf: "pt_wf lev r s" and c: "lev c = Some (Suc 0)" and i: "i < 512"
  shows "pt_wf lev r (s\<lparr>qmem := (qmem s)(elt c i := x)\<rparr>)"
proof -
  let ?t = "s\<lparr>qmem := (qmem s)(elt c i := x)\<rparr>"
  note w = pt_wfD [OF wf]
  have same: "qmem ?t (elt b i') = qmem s (elt b i')" if "lev b = Some k" "1 < k" "i' < 512" for b k i'
    using that c elt_inject [OF w(3) [OF that(1)] w(3) [OF c] that(3) i] by auto
  have free: "qmem ?t (elt (of_nat j * 4096) i') = qmem s (elt (of_nat j * 4096) i')"
    if "page_avail s j" "i' < 512" for j i'
    using avail_not_table [OF wf that(1)] c elt_inject [OF avail_frame [OF that(1)] w(3) [OF c] that(2) i]
    by auto
  have av: "page_avail ?t = page_avail s" "memmap_ok ?t = memmap_ok s"
    by (auto simp: page_avail_def memmap_ok_def)
  show ?thesis
  proof (rule pt_wfI)
    fix b k i' assume l: "lev b = Some k" "1 < k" "i' < 512" and "qmem ?t (elt b i') \<noteq> 0"
    then show "\<exists>d. qmem ?t (elt b i') = d OR 7 \<and> lev d = Some (k - 1)"
      unfolding same [OF l] by (rule w(5))
  next
    fix b k i1 b' k' i2
    assume l: "lev b = Some k" "1 < k" "i1 < 512" and l': "lev b' = Some k'" "1 < k'" "i2 < 512"
      and "qmem ?t (elt b i1) \<noteq> 0" "qmem ?t (elt b i1) = qmem ?t (elt b' i2)"
    then show "b = b' \<and> i1 = i2" unfolding same [OF l] same [OF l'] by (intro w(6))
  next
    fix j and i' :: u64 assume "page_avail ?t j" "i' < 512"
    then show "qmem ?t (elt (of_nat j * 4096) i') = 0" using free w(7) unfolding av by metis
  qed (use w(1,2,4) av in \<open>simp_all\<close>)
qed

lemma leaf_write_table:
  assumes wf: "pt_wf lev r s" and c: "lev c = Some (Suc 0)" and i: "i < 512" and b: "lev b = Some (Suc k)"
  shows "leaf_table (s\<lparr>qmem := (qmem s)(elt c i := x)\<rparr>) (Suc k) b v = leaf_table s (Suc k) b v"
  using b
proof (induction k arbitrary: b)
  case (Suc k)
  let ?i = "idx v (Suc (Suc k))"
  have "b \<noteq> c" using c Suc.prems by auto
  then have ne: "elt b ?i \<noteq> elt c i"
    using elt_inject [OF pt_wfD(3) [OF wf Suc.prems] pt_wfD(3) [OF wf c] idx_less i] by simp
  show ?case
  proof (cases "qmem s (elt b ?i) = 0")
    case True
    with ne show ?thesis by (simp add: Let_def)
  next
    case False
    obtain d where "qmem s (elt b ?i) = d OR 7" "lev d = Some (Suc k)" "table_of (d OR 7) - KERN_MEM = d"
      by (rule child_table [OF wf Suc.prems False])
    with Suc.IH ne show ?thesis by (simp add: Let_def entry_nonzero)
  qed
qed simp

lemma leaf_table_vpn: "vpn w = vpn v \<Longrightarrow> leaf_table s 4 r w = leaf_table s 4 r v"
  using idx_vpn [of w v] by (simp add: numeral_eq_Suc Let_def)

lemma leaf_write_entry:
  assumes wf: "pt_wf lev r s" and c: "leaf_table s 4 r v = Some c"
  shows "leaf_entry (s\<lparr>qmem := (qmem s)(elt c (idx v (Suc 0)) := x)\<rparr>) 4 r w =
           (if vpn w = vpn v then x else leaf_entry s 4 r w)"
proof -
  let ?t = "s\<lparr>qmem := (qmem s)(elt c (idx v (Suc 0)) := x)\<rparr>"
  have r: "lev r = Some (Suc 3)" using pt_wfD(2) [OF wf] by simp
  have lc: "lev c = Some (Suc 0)" using leaf_table_level [OF wf r, of v c] c by simp
  have tab: "leaf_table ?t 4 r w = leaf_table s 4 r w"
    using leaf_write_table [OF wf lc idx_less r, of v "Suc 0" x w] by simp
  show ?thesis
  proof (cases "leaf_table s 4 r w")
    case None
    have "vpn w \<noteq> vpn v"
    proof
      assume "vpn w = vpn v"
      then have "leaf_table s 4 r w = leaf_table s 4 r v" by (rule leaf_table_vpn)
      with None c show False by simp
    qed
    with None tab show ?thesis by (simp add: leaf_entry_def)
  next
    case (Some d)
    then have ld: "lev d = Some (Suc 0)" using leaf_table_level [OF wf r, of w d] by simp
    have inj: "elt d (idx w (Suc 0)) = elt c (idx v (Suc 0)) \<longleftrightarrow> d = c \<and> idx w (Suc 0) = idx v (Suc 0)"
      by (rule elt_inject [OF pt_wfD(3) [OF wf ld] pt_wfD(3) [OF wf lc] idx_less idx_less])
    have "d = c \<and> idx w (Suc 0) = idx v (Suc 0) \<longleftrightarrow> vpn w = vpn v"
    proof
      assume a: "d = c \<and> idx w (Suc 0) = idx v (Suc 0)"
      then have "\<forall>j. 1 < j \<and> j \<le> Suc 3 \<longrightarrow> idx w j = idx v j"
        using leaf_table_unique [OF wf r r, of w d v] Some c by simp
      with a show "vpn w = vpn v" by (subst idx_vpn [symmetric]) simp
    next
      assume e: "vpn w = vpn v"
      then have "idx w (Suc 0) = idx v (Suc 0)" using idx_vpn by blast
      with Some c leaf_table_vpn [OF e, of s r] show "d = c \<and> idx w (Suc 0) = idx v (Suc 0)" by simp
    qed
    with inj tab Some show ?thesis by (simp add: leaf_entry_def)
  qed
qed

section \<open>The mapping operations\<close>

text \<open>
  Room for mapping the pages \<open>vs\<close> one by one with a new frame each: at most three tables and the
  frame per page.
\<close>

definition pt_room :: "u64 \<Rightarrow> u64 list \<Rightarrow> kmem \<Rightarrow> bool" where
  "pt_room r vs s \<longleftrightarrow> (\<exists>lev. pt_wf lev r s \<and> 4 * length vs \<le> card (free_addrs s))"

lemma leaf_entry_wr:
  assumes "walk_pages (KERN_MEM + r) v s = (elt (KERN_MEM + c) (idx v (Suc 0)), t)"
    and "pt_wf lev r t" "lev c = Some (Suc 0)" "leaf_table t 4 r v = Some c" "frame c" "extends r s t"
  shows "pt_wf lev r (stq (elt (KERN_MEM + c) (idx v (Suc 0))) x t)"
    and "leaf_entry (stq (elt (KERN_MEM + c) (idx v (Suc 0))) x t) 4 r w =
           (if vpn w = vpn v then x else leaf_entry s 4 r w)"
    and "free_addrs (stq (elt (KERN_MEM + c) (idx v (Suc 0))) x t) = free_addrs t"
    and "ldq (elt (KERN_MEM + c) (idx v (Suc 0))) t = leaf_entry s 4 r v"
    and "leaf_table (stq (elt (KERN_MEM + c) (idx v (Suc 0))) x t) 4 r w = leaf_table t 4 r w"
proof -
  let ?t = "t\<lparr>qmem := (qmem t)(elt c (idx v (Suc 0)) := x)\<rparr>"
  have st: "stq (elt (KERN_MEM + c) (idx v (Suc 0))) x t = ?t" using assms(5) by (simp add: stq_table)
  show "pt_wf lev r (stq (elt (KERN_MEM + c) (idx v (Suc 0))) x t)"
    unfolding st by (rule leaf_write_wf [OF assms(2,3) idx_less])
  have "leaf_entry t 4 r w = leaf_entry s 4 r w" using assms(6) by (simp add: extends_def)
  with leaf_write_entry [OF assms(2,4), of x w]
  show "leaf_entry (stq (elt (KERN_MEM + c) (idx v (Suc 0))) x t) 4 r w =
          (if vpn w = vpn v then x else leaf_entry s 4 r w)" unfolding st by simp
  show "free_addrs (stq (elt (KERN_MEM + c) (idx v (Suc 0))) x t) = free_addrs t"
    unfolding st by (simp add: free_addrs_def page_avail_def)
  have "leaf_entry t 4 r v = leaf_entry s 4 r v" using assms(6) by (simp add: extends_def)
  then show "ldq (elt (KERN_MEM + c) (idx v (Suc 0))) t = leaf_entry s 4 r v"
    using assms(4,5) by (simp add: ldq_table leaf_entry_def)
  show "leaf_table (stq (elt (KERN_MEM + c) (idx v (Suc 0))) x t) 4 r w = leaf_table t 4 r w"
    unfolding st using leaf_write_table [OF assms(2,3) idx_less, of r 3 v "Suc 0" x w] pt_wfD(2) [OF assms(2)]
    by simp
qed

lemma page_insert_ok:
  assumes wf: "pt_wf lev r s" and room: "n + 3 \<le> card (free_addrs s)"
    and old: "leaf_entry s 4 r v AND PAGE_PRESENT \<noteq> 0 \<longrightarrow>
      unat ((leaf_entry s 4 r v - INITIAL_MEM) div 4096) < MAX_MEM"
  obtains lev' t where "page_insert (KERN_MEM + r) v p s = Inr t" "pt_wf lev' r t"
    "\<And>w. leaf_entry t 4 r w = (if vpn w = vpn v then p OR 7 else leaf_entry s 4 r w)"
    "n \<le> card (free_addrs t)" "free_addrs t \<subseteq> free_addrs s" "grows lev s lev' t"
proof -
  obtain c lev' t where w: "walk_pages (KERN_MEM + r) v s = (elt (KERN_MEM + c) (idx v (Suc 0)), t)"
    "pt_wf lev' r t" "lev' c = Some (Suc 0)" "leaf_table t 4 r v = Some c" "frame c" "extends r s t"
    "n \<le> card (free_addrs t)" "grows lev s lev' t"
    by (rule walk_pages_ok [OF wf room])
  note wr = leaf_entry_wr [OF w(1-6)]
  have "(if leaf_entry s 4 r v AND PAGE_PRESENT \<noteq> 0 then mem_free (leaf_entry s 4 r v) t else Inr t) = Inr t"
    using mem_free_unaligned [OF pt_wfD(1) [OF w(2)] present_unaligned] old by simp
  then have "page_insert (KERN_MEM + r) v p s = Inr (stq (elt (KERN_MEM + c) (idx v (Suc 0))) (p OR 7) t)"
    unfolding page_insert_def w(1) Let_def prod.case wr(4) by simp
  moreover have "grows lev' t lev' (stq (elt (KERN_MEM + c) (idx v (Suc 0))) (p OR 7) t)"
  proof -
    have "qmem (stq (elt (KERN_MEM + c) (idx v (Suc 0))) (p OR 7) t) a = qmem t a"
      if "a \<noteq> elt c (idx v (Suc 0))" for a using that w(5) by (simp add: stq_table)
    moreover have "elt c (idx v (Suc 0)) \<in> slots lev'" using w(3) idx_less [of v "Suc 0"] unfolding slots_def by blast
    ultimately show ?thesis unfolding grows_def wr(3) by (metis Un_upper1 order_refl)
  qed
  then have "grows lev s lev' (stq (elt (KERN_MEM + c) (idx v (Suc 0))) (p OR 7) t)" by (rule grows_trans [OF w(8)])
  ultimately show thesis using that [OF _ wr(1,2)] wr(3) w(6,7) by (simp add: extends_def)
qed

text \<open>The part of an address the tables translate steps with the page number.\<close>

lemma unat_vpn: "unat (vpn v) = unat v div 4096 mod 2 ^ 36"
  by (simp add: vpn_def take_bit_eq_mod drop_bit_eq_div unat_mod unat_div)

lemma vpn_inject:
  assumes "i < 2 ^ 36" "j < 2 ^ 36" "vpn (v + 4096 * of_nat i) = vpn (v + 4096 * of_nat j)"
  shows "i = j"
proof -
  have step: "unat (vpn (v + 4096 * of_nat k)) = (unat v div 4096 + k) mod 2 ^ 36" if "k < 2 ^ 36" for k
  proof -
    have "unat (4096 * of_nat k :: u64) = 4096 * k"
      using that unat_of_nat_u64 [of "4096 * k"] by simp
    then have "unat (v + 4096 * of_nat k) = (unat v + 4096 * k) mod 2 ^ 64"
      by (simp add: unat_word_ariths)
    also have "\<dots> div 4096 = (unat v + 4096 * k) div 4096 mod 2 ^ 52"
      using drop_bit_take_bit [of 12 64 "unat v + 4096 * k"]
      by (simp add: take_bit_eq_mod drop_bit_eq_div)
    finally show ?thesis
      by (simp add: unat_vpn mod_mod_cancel add.commute)
  qed
  with assms have "(unat v div 4096 + i) mod 2 ^ 36 = (unat v div 4096 + j) mod 2 ^ 36" by metis
  then show ?thesis using assms(1,2) by (rule mod_shift_inject)
qed

text \<open>\<^verbatim>\<open>page_insert\<close> of a given frame, the body of \<^verbatim>\<open>map_kernel\<close>'s loop and the body of \<^verbatim>\<open>kmalloc_user_space\<close>'s loop.\<close>

definition map_body :: "u64 \<Rightarrow> (u64 \<Rightarrow> u64) \<Rightarrow> u64 \<Rightarrow> kmem \<Rightarrow> kmem res" where
  "map_body r f v s = Inr (let (pte, s1) = walk_pages (KERN_MEM + r) v s in stq pte (f v OR 7) s1)"

definition user_body :: "u64 \<Rightarrow> u64 \<Rightarrow> kmem \<Rightarrow> kmem res" where
  "user_body r v s = (let (p, s1) = mem_allocate s in page_insert (KERN_MEM + r) v p s1)"

text \<open>
  Room for mapping the pages \<open>vs\<close> to given frames: three tables for each block of 512 pages that
  has no leaf table yet.
\<close>

definition block :: "u64 \<Rightarrow> u64" where
  "block v = drop_bit 9 (vpn v)"

definition missing :: "u64 \<Rightarrow> u64 list \<Rightarrow> kmem \<Rightarrow> u64 set" where
  "missing r vs s = block ` {w \<in> set vs. leaf_table s 4 r w = None}"

definition pt_plan :: "u64 \<Rightarrow> u64 list \<Rightarrow> kmem \<Rightarrow> bool" where
  "pt_plan r vs s \<longleftrightarrow> (\<exists>lev. pt_wf lev r s \<and> 3 * card (missing r vs s) \<le> card (free_addrs s))"

lemma block_leaf_table:
  assumes "block w = block v"
  shows "leaf_table s 4 r w = leaf_table s 4 r v"
proof -
  have i: "take_bit 9 (drop_bit (21 + d) x) = take_bit 9 (drop_bit d (block x))" if "d \<le> 18" for d x
    by (rule bit_word_eqI) (use that in \<open>auto simp: block_def vpn_def bit_simps ac_simps\<close>)
  have "idx w 4 = idx v 4" "idx w 3 = idx v 3" "idx w 2 = idx v 2"
    using i [of 18 w] i [of 18 v] i [of 9 w] i [of 9 v] i [of 0 w] i [of 0 v] assms by (simp_all add: idx_eq)
  then show ?thesis by (simp add: numeral_eq_Suc Let_def)
qed

lemma leaf_table_mono:
  assumes "\<forall>a. qmem s a \<noteq> 0 \<longrightarrow> qmem t a = qmem s a" "leaf_table s (Suc k) b v = Some c"
  shows "leaf_table t (Suc k) b v = Some c"
  using assms(2)
proof (induction k arbitrary: b)
  case (Suc k)
  let ?e = "qmem s (elt b (idx v (Suc (Suc k))))"
  from Suc.prems have "?e \<noteq> 0" "leaf_table s (Suc k) (table_of ?e - KERN_MEM) v = Some c"
    by (auto simp: Let_def split: if_splits)
  with Suc.IH assms(1) show ?case by (simp add: Let_def)
qed simp

lemma walk_level_same:
  assumes "frame b" "i < 512" "qmem s (elt b i) = c OR 7" "frame c"
  shows "walk_level (KERN_MEM + b) i s = (KERN_MEM + c, s)"
  using assms by (simp add: walk_level_def ldq_table table_of_frame entry_nonzero)

text \<open>A walk to an existing leaf table changes nothing.\<close>

lemma walk_pages_same:
  assumes wf: "pt_wf lev r s" and tab: "leaf_table s 4 r v = Some c"
  shows "walk_pages (KERN_MEM + r) v s = (elt (KERN_MEM + c) (idx v (Suc 0)), s)"
proof -
  have r: "lev r = Some (Suc (Suc (Suc (Suc 0))))" "frame r" using pt_wfD(2,3) [OF wf] by auto
  have n: "4 = Suc (Suc (Suc (Suc 0)))" "3 = Suc (Suc (Suc 0))" "2 = Suc (Suc 0)" by simp_all
  note tab' = tab [unfolded n leaf_table.simps Let_def]
  let ?e4 = "qmem s (elt r (idx v (Suc (Suc (Suc (Suc 0))))))"
  have "?e4 \<noteq> 0" using tab' by (auto split: if_splits)
  then obtain a where a: "?e4 = a OR 7" "lev a = Some (Suc (Suc (Suc 0)))" "frame a"
    "table_of (a OR 7) - KERN_MEM = a" by (rule child_table [OF wf r(1)])
  let ?e3 = "qmem s (elt a (idx v (Suc (Suc (Suc 0)))))"
  have "?e3 \<noteq> 0" using tab' a by (auto split: if_splits)
  then obtain b where b: "?e3 = b OR 7" "lev b = Some (Suc (Suc 0))" "frame b"
    "table_of (b OR 7) - KERN_MEM = b" by (rule child_table [OF wf a(2)])
  let ?e2 = "qmem s (elt b (idx v (Suc (Suc 0))))"
  have "?e2 \<noteq> 0" using tab' a b by (auto split: if_splits)
  then obtain d where d: "?e2 = d OR 7" "frame d" "table_of (d OR 7) - KERN_MEM = d"
    by (rule child_table [OF wf b(2)])
  have "d = c" using tab' a b d \<open>?e4 \<noteq> 0\<close> \<open>?e3 \<noteq> 0\<close> \<open>?e2 \<noteq> 0\<close> by simp
  then show ?thesis
    using r a b d by (simp add: walk_pages_def addr_res_idx n walk_level_same)
qed

lemma finite_missing [simp]: "finite (missing r vs s)"
  by (simp add: missing_def)

lemma map_body_ok:
  assumes "pt_plan r (v # vs) s"
  shows "\<exists>t. map_body r f v s = Inr t \<and> pt_plan r vs t \<and>
           (\<forall>w. leaf_entry t 4 r w = (if vpn w = vpn v then f v OR 7 else leaf_entry s 4 r w))"
proof -
  obtain lev where wf: "pt_wf lev r s" and room: "3 * card (missing r (v # vs) s) \<le> card (free_addrs s)"
    using assms by (auto simp: pt_plan_def)
  have four: "lev' r = Some (Suc 3)" if "pt_wf lev' r t" for lev' t using pt_wfD(2) [OF that] by simp
  show ?thesis
  proof (cases "leaf_table s 4 r v")
    case (Some c)
    have lc: "lev c = Some (Suc 0)" "frame c"
      using leaf_table_level [OF wf four [OF wf], of v c] Some pt_wfD(3) [OF wf] by auto
    note w = walk_pages_same [OF wf Some]
    note wr = leaf_entry_wr [OF w wf lc(1) Some lc(2) extends_refl]
    let ?t = "stq (elt (KERN_MEM + c) (idx v (Suc 0))) (f v OR 7) s"
    have "missing r vs ?t \<subseteq> missing r (v # vs) s" by (auto simp: missing_def wr(5))
    then have "card (missing r vs ?t) \<le> card (missing r (v # vs) s)" by (rule card_mono [rotated]) simp
    then have "pt_plan r vs ?t" using wr(1) room by (auto simp: pt_plan_def wr(3))
    then show ?thesis using wr(2) w by (auto simp: map_body_def)
  next
    case None
    then have v: "block v \<in> missing r (v # vs) s" by (simp add: missing_def)
    then have pos: "0 < card (missing r (v # vs) s)" by (metis card_gt_0_iff empty_iff finite_missing)
    then have room': "(card (free_addrs s) - 3) + 3 \<le> card (free_addrs s)" using room by simp
    obtain c lev' t where w: "walk_pages (KERN_MEM + r) v s = (elt (KERN_MEM + c) (idx v (Suc 0)), t)"
      "pt_wf lev' r t" "lev' c = Some (Suc 0)" "leaf_table t 4 r v = Some c" "frame c" "extends r s t"
      "card (free_addrs s) - 3 \<le> card (free_addrs t)" "grows lev s lev' t"
      by (rule walk_pages_ok [OF wf room'])
    note wr = leaf_entry_wr [OF w(1-6)]
    let ?t = "stq (elt (KERN_MEM + c) (idx v (Suc 0))) (f v OR 7) t"
    have mono: "leaf_table s 4 r u = None" if "leaf_table t 4 r u = None" for u
      using that leaf_table_mono [of s t 3 r u] w(6) by (cases "leaf_table s 4 r u") (auto simp: extends_def)
    have "missing r vs ?t \<subseteq> missing r (v # vs) s - {block v}"
      using mono block_leaf_table [of _ v t r] w(4) by (auto simp: missing_def wr(5))
    then have "card (missing r vs ?t) \<le> card (missing r (v # vs) s - {block v})"
      by (rule card_mono [rotated]) simp
    then have "card (missing r vs ?t) \<le> card (missing r (v # vs) s) - 1" using v by simp
    then have "3 * card (missing r vs ?t) \<le> card (free_addrs s) - 3" using room pos by linarith
    then have "pt_plan r vs ?t" using wr(1) w(7) by (auto simp: pt_plan_def wr(3))
    then show ?thesis using wr(2) w(1) by (auto simp: map_body_def)
  qed
qed

interpretation mk: page_mapper "map_body r f" "\<lambda>s. leaf_entry s 4 r" "pt_plan r" vpn "\<lambda>_. True" "\<lambda>s v. f v OR 7"
  for r f
  by unfold_locales (use map_body_ok vpn_inject in blast)+

lemma alloc_wf:
  assumes wf: "pt_wf lev r s" and room: "0 < card (free_addrs s)"
  shows "pt_wf lev r (snd (mem_allocate s)) \<and> fst (mem_allocate s) \<in> free_addrs s \<and>
         card (free_addrs (snd (mem_allocate s))) = card (free_addrs s) - 1 \<and>
         free_addrs (snd (mem_allocate s)) = free_addrs s - {fst (mem_allocate s)} \<and>
         leaf_entry (snd (mem_allocate s)) k b v = leaf_entry s k b v"
proof -
  note ok = pt_wfD(1) [OF wf]
  have ne: "free_addrs s \<noteq> {}" using room by auto
  have q: "qmem (snd (mem_allocate s)) = qmem s" by simp
  have "leaf_table (snd (mem_allocate s)) k b v = leaf_table s k b v"
    by (induction s k b v rule: leaf_table.induct) (simp_all add: Let_def)
  then have le: "leaf_entry (snd (mem_allocate s)) k b v = leaf_entry s k b v"
    by (simp add: leaf_entry_def split: option.split)
  have av: "page_avail s j" if "page_avail (snd (mem_allocate s)) j" for j
    using that ok by (cases rule: mem_allocate_cases [OF ok]) (auto simp: take_page_avail)
  have "pt_wf lev r (snd (mem_allocate s))"
  proof (rule pt_wfI)
    show "memmap_ok (snd (mem_allocate s))" by (rule pa.alloc_ok [OF ok])
  qed (use pt_wfD [OF wf] av q in \<open>metis+\<close>)
  with le pa.alloc_takes [OF ok ne] pa.alloc_removes [OF ok] pa.free_finite [OF ok] show ?thesis by simp
qed

text \<open>The pool of \<^verbatim>\<open>kmalloc_user_space\<close>: an entry for every free page.\<close>

definition entry_pool :: "kmem \<Rightarrow> u64 set" where
  "entry_pool s = (\<lambda>a. a OR 7) ` free_addrs s"

lemma free_addrs_frame: "a \<in> free_addrs s \<Longrightarrow> frame a"
  by (auto simp: free_addrs_def avail_frame)

lemma user_body_ok:
  assumes "pt_room r (v # vs) s" "leaf_entry s 4 r v = 0"
  shows "\<exists>t. user_body r v s = Inr t \<and> pt_room r vs t \<and>
           (\<forall>w. leaf_entry t 4 r w = (if vpn w = vpn v then fst (mem_allocate s) OR 7 else leaf_entry s 4 r w)) \<and>
           free_addrs t \<subseteq> free_addrs s - {fst (mem_allocate s)}"
proof -
  obtain lev where lev: "pt_wf lev r s" "4 * Suc (length vs) \<le> card (free_addrs s)"
    using assms(1) by (auto simp: pt_room_def)
  let ?p = "fst (mem_allocate s)" and ?s = "snd (mem_allocate s)"
  have al: "pt_wf lev r ?s" "4 * length vs + 3 \<le> card (free_addrs ?s)" "free_addrs ?s = free_addrs s - {?p}"
    "\<And>w. leaf_entry ?s 4 r w = leaf_entry s 4 r w"
    using alloc_wf [OF lev(1)] lev(2) by auto
  have old: "leaf_entry ?s 4 r v AND PAGE_PRESENT \<noteq> 0 \<longrightarrow>
      unat ((leaf_entry ?s 4 r v - INITIAL_MEM) div 4096) < MAX_MEM"
    using al(4) assms(2) by simp
  show ?thesis
  proof (rule page_insert_ok [OF al(1,2) old, of ?p])
    fix lev' t
    assume t: "page_insert (KERN_MEM + r) v ?p ?s = Inr t" "pt_wf lev' r t"
      "\<And>w. leaf_entry t 4 r w = (if vpn w = vpn v then ?p OR 7 else leaf_entry ?s 4 r w)"
      "4 * length vs \<le> card (free_addrs t)" "free_addrs t \<subseteq> free_addrs ?s" "grows lev ?s lev' t"
    have "user_body r v s = Inr t" using t(1) by (simp add: user_body_def case_prod_beta)
    moreover have "pt_room r vs t" using t(2,4) by (auto simp: pt_room_def)
    ultimately show ?thesis using t(3,5) al(3,4) by auto
  qed
qed

interpretation ku: fresh_mapper "user_body r" "\<lambda>s. leaf_entry s 4 r" "pt_room r" vpn "\<lambda>e. e = 0"
    "\<lambda>s v. fst (mem_allocate s) OR 7" entry_pool
  for r
proof unfold_locales
  fix vs s v assume a: "pt_room r (v # vs) s" "leaf_entry s 4 r v = 0"
  from user_body_ok [OF a]
  show "\<exists>t. user_body r v s = Inr t \<and> pt_room r vs t \<and>
      (\<forall>w. leaf_entry t 4 r w = (if vpn w = vpn v then fst (mem_allocate s) OR 7 else leaf_entry s 4 r w))"
    by blast
next
  fix vs s v assume "pt_room r (v # vs) s"
  then obtain lev where "pt_wf lev r s" "0 < card (free_addrs s)" by (auto simp: pt_room_def)
  from alloc_wf [OF this] show "fst (mem_allocate s) OR 7 \<in> entry_pool s" by (simp add: entry_pool_def)
next
  fix vs s v t assume a: "pt_room r (v # vs) s" "leaf_entry s 4 r v = 0" "user_body r v s = Inr t"
  then obtain lev where "pt_wf lev r s" "0 < card (free_addrs s)" by (auto simp: pt_room_def)
  from alloc_wf [OF this] have p: "fst (mem_allocate s) \<in> free_addrs s" by simp
  from user_body_ok [OF a(1,2)] a(3) have "free_addrs t \<subseteq> free_addrs s - {fst (mem_allocate s)}" by auto
  then show "entry_pool t \<subseteq> entry_pool s - {fst (mem_allocate s) OR 7}"
    using entry_inject [OF free_addrs_frame free_addrs_frame [OF p], of _ s] unfolding entry_pool_def
    by auto
qed (rule vpn_inject)

section \<open>The loops as runs of the mapping operations\<close>

lemma kmalloc_user_loop_range:
  "kmalloc_user_loop n (KERN_MEM + r) v s = map_range (user_body r) n v s"
proof (induction n arbitrary: v s)
  case (Suc n)
  have "kmalloc_user_loop n (KERN_MEM + r) (v + 4096) = map_range (user_body r) n (v + 4096)"
    using Suc by blast
  then show ?case by (simp add: user_body_def [of r v s] case_prod_beta)
qed simp

lemma map_kernel_loop_range:
  assumes "i + n * 4096 < 2 ^ 31" "unat sz = i + n * 4096"
  shows "map_kernel_loop (KERN_MEM + r) vir phys sz i s =
           map_range (map_body r (\<lambda>v. phys + (v - vir))) n (vir + of_nat i) s"
  using assms
proof (induction n arbitrary: i s)
  case 0
  then show ?case by (subst map_kernel_loop.simps) simp
next
  case (Suc n)
  then have i: "i < unat sz" "i + 4096 < 2 ^ 31" by simp_all
  have "map_kernel_loop (KERN_MEM + r) vir phys sz (i + 4096) t =
      map_range (map_body r (\<lambda>v. phys + (v - vir))) n (vir + of_nat i + 4096) t" for t
    using Suc.IH [of "i + 4096" t] Suc.prems by (simp add: ac_simps)
  then show ?case
    using i by (subst map_kernel_loop.simps) (simp add: map_body_def Let_def case_prod_beta)
qed

end
