(* ===== verification/Paging_Boot.thy ===== *)
theory Paging_Boot
  imports Paging_Props
begin

text \<open>
  The mapping loops on whole address ranges and the address space that \<^verbatim>\<open>mem_init\<close> builds.
\<close>

section \<open>Lookups as the kernel sees them\<close>

definition pte_of :: "ptr \<Rightarrow> u64 \<Rightarrow> kmem \<Rightarrow> u64 option" where
  "pte_of pml4 v s = (let p = look_pages pml4 v s in if p = 0 then None else Some (ldq p s))"

lemma pte_of_leaf:
  "pt_wf lev r s \<Longrightarrow>
   pte_of (KERN_MEM + r) v s = (if leaf_entry s 4 r v = 0 then None else Some (leaf_entry s 4 r v))"
  using look_pages_spec [of lev r s v] by (simp add: pte_of_def Let_def)

lemma leaf_entry_vpn: "vpn w = vpn v \<Longrightarrow> leaf_entry s 4 r w = leaf_entry s 4 r v"
  using leaf_table_vpn [of w v s r] idx_vpn [of w v] by (simp add: leaf_entry_def split: option.split)

section \<open>\<^verbatim>\<open>map_kernel\<close> on a range\<close>

lemma map_kernel_ok:
  assumes plan: "pt_plan r (pages (page_mask logical) n @ ws) s" and "page_mask logical \<noteq> 0"
    and sz: "unat (page_roundoff_4096 sz) = n * 4096" "n < 2 ^ 19"
  shows "\<exists>t. map_kernel (KERN_MEM + r) logical phys sz s = Inr t \<and> pt_plan r ws t \<and>
           (\<forall>i < n. leaf_entry t 4 r (page_mask logical + 4096 * of_nat i) =
              (page_mask phys + 4096 * of_nat i) OR 7) \<and>
           (\<forall>w. (\<forall>i < n. vpn w \<noteq> vpn (page_mask logical + 4096 * of_nat i)) \<longrightarrow>
              leaf_entry t 4 r w = leaf_entry s 4 r w)"
proof -
  let ?v = "page_mask logical" and ?p = "page_mask phys"
  have rl: "page_roundless_4096 a = page_mask a" for a
    by (simp add: page_roundless_4096_def page_mask_eq)
  have "map_kernel (KERN_MEM + r) logical phys sz s =
      map_range (map_body r (\<lambda>v. ?p + (v - ?v))) n ?v s"
    using assms(2) sz map_kernel_loop_range [of 0 n "page_roundoff_4096 sz" r ?v ?p s]
    by (simp add: map_kernel_def rl Let_def)
  with mk.map_range_ok [OF plan, of "\<lambda>v. ?p + (v - ?v)"] sz(2) show ?thesis by fastforce
qed

section \<open>The root table through the identity mapping\<close>

lemma kphys_elt_low: "frame b \<Longrightarrow> i < 512 \<Longrightarrow> kphys (elt b i) = elt b i"
proof -
  assume a: "frame b" "i < 512"
  have "unat b \<le> 32510 * 4096" using a(1) by (auto elim!: frameE)
  then have "\<not> KERN_MEM \<le> elt b i"
    using elt_unat [OF a] idx_unat [OF a(2)] by (simp add: word_le_nat_alt)
  then show ?thesis by (simp add: kphys_def)
qed

lemma walk_pages_low: "frame r \<Longrightarrow> walk_pages r v s = walk_pages (KERN_MEM + r) v s"
proof -
  assume r: "frame r"
  have "walk_level r (idx v 4) s = walk_level (KERN_MEM + r) (idx v 4) s"
    using r by (simp add: walk_level_def ldq_def stq_def kphys_elt_low kphys_elt Let_def case_prod_beta)
  then show ?thesis by (simp add: walk_pages_def addr_res_idx)
qed

lemma map_kernel_low: "frame r \<Longrightarrow> map_kernel r logical phys sz s = map_kernel (KERN_MEM + r) logical phys sz s"
proof -
  assume r: "frame r"
  have "map_kernel_loop r vir p n i s = map_kernel_loop (KERN_MEM + r) vir p n i s" for vir p n i s
  proof (induction "2 ^ 31 - i" arbitrary: i s rule: less_induct)
    case less
    show ?case
      by (subst (1 2) map_kernel_loop.simps)
        (use less [of "i + 4096"] in \<open>auto simp: walk_pages_low [OF r] Let_def case_prod_beta\<close>)
  qed
  then show ?thesis by (simp add: map_kernel_def Let_def)
qed

lemma zero_page_eq:
  "zero_page p s = s\<lparr>qmem := \<lambda>a. if \<exists>i < 512. a = kphys (elt p (of_nat i)) then 0 else qmem s a\<rparr>"
proof -
  have "fold (\<lambda>i. stq (elt p (of_nat i)) 0) [0..<n] s =
      s\<lparr>qmem := \<lambda>a. if \<exists>i < n. a = kphys (elt p (of_nat i)) then 0 else qmem s a\<rparr>" for n
    by (induction n) (auto simp: stq_def fun_eq_iff less_Suc_eq intro!: kmem.equality)
  then show ?thesis by (simp add: zero_page_def)
qed

section \<open>The address space after \<^verbatim>\<open>mem_init\<close>\<close>

text \<open>The root table of a fresh address space: an empty page.\<close>

lemma fresh_root:
  assumes ok: "memmap_ok s" and j: "j < MAX_MEM" "\<not> page_avail s j"
    and z: "\<And>i. i < 512 \<Longrightarrow> qmem s (elt (of_nat j * 4096) i) = 0"
    and free: "\<And>k i. page_avail s k \<Longrightarrow> i < 512 \<Longrightarrow> qmem s (elt (of_nat k * 4096) i) = 0"
  shows "pt_wf [of_nat j * 4096 \<mapsto> 4] (of_nat j * 4096) s" "leaf_entry s 4 (of_nat j * 4096) v = 0"
    "leaf_table s 4 (of_nat j * 4096) v = None"
proof -
  show "pt_wf [of_nat j * 4096 \<mapsto> 4] (of_nat j * 4096) s"
    by (rule pt_wfI) (use assms in \<open>auto split: if_splits\<close>)
  show "leaf_table s 4 (of_nat j * 4096) v = None" using z by (simp add: numeral_eq_Suc)
  then show "leaf_entry s 4 (of_nat j * 4096) v = 0" by (simp add: leaf_entry_def)
qed

text \<open>The kernel's half of memory below \<^verbatim>\<open>END_LIMIT\<close> lies in 64 blocks of 512 pages.\<close>

lemma kern_unat: "x < 2 ^ 27 \<Longrightarrow> unat (KERN_MEM + of_nat x) = 18446744071562067968 + x"
  using unat_of_nat_u64 [of "18446744071562067968 + x"] by simp

lemma kern_vpn: "x < 2 ^ 27 \<Longrightarrow> unat (vpn (KERN_MEM + of_nat x)) = 68718952448 + x div 4096"
proof -
  assume x: "x < 2 ^ 27"
  have "(18446744071562067968 + x) div 4096 = 4503599626846208 + x div 4096"
    using div_mult_self1 [of 4096 x 4503599626846208] by simp
  also have "\<dots> mod 2 ^ 36 = 68718952448 + x div 4096"
  proof -
    have "4503599626846208 + x div 4096 = (68718952448 + x div 4096) + 65535 * 2 ^ 36" by simp
    moreover have "68718952448 + x div 4096 < 2 ^ 36" using x by simp
    ultimately show ?thesis by (simp only: mod_mult_self1 mod_less)
  qed
  finally show ?thesis by (simp add: unat_vpn kern_unat [OF x])
qed

lemma kern_block: "x < 2 ^ 27 \<Longrightarrow> block (KERN_MEM + of_nat x) \<in> of_nat ` {134216704..<134216768}"
proof -
  assume x: "x < 2 ^ 27"
  have "unat (block (KERN_MEM + of_nat x)) = (68718952448 + x div 4096) div 512"
    using kern_vpn [OF x] by (simp add: block_def drop_bit_eq_div unat_div)
  also have "\<dots> = 134216704 + x div 4096 div 512"
    using div_mult_self1 [of 512 "x div 4096" 134216704] by simp
  finally have u: "unat (block (KERN_MEM + of_nat x)) = 134216704 + x div 4096 div 512" .
  have "x div 4096 div 512 < 64" using x by (simp add: div_mult2_eq [symmetric] div_less_iff_less_mult)
  then have "unat (block (KERN_MEM + of_nat x)) \<in> {134216704..<134216768}" unfolding u by simp
  then show ?thesis by (intro image_eqI [of _ _ "unat (block (KERN_MEM + of_nat x))"]) simp_all
qed

lemma kern_missing:
  assumes "\<And>w. w \<in> set vs \<Longrightarrow> \<exists>x < 2 ^ 27. w = KERN_MEM + of_nat x"
  shows "card (missing r vs s) \<le> 64"
proof -
  have "missing r vs s \<subseteq> of_nat ` {134216704..<134216768}"
    using assms kern_block by (fastforce simp: missing_def)
  then have "card (missing r vs s) \<le> card (of_nat ` {134216704..<134216768} :: u64 set)"
    by (rule card_mono [rotated]) simp
  also have "\<dots> \<le> card {134216704..<134216768 :: nat}" by (rule card_image_le) simp
  finally show ?thesis by simp
qed

text \<open>The free pages after \<^verbatim>\<open>init_memmap\<close>.\<close>

lemma init_avail:
  "length (memmap s) = MAX_MEM \<Longrightarrow>
   page_avail (init_memmap physfree s) i \<longleftrightarrow> i < MAX_MEM \<and> physfree \<le> of_nat i * 4096"
  by (auto simp: page_avail_def init_memmap_eq boot_entry_def not_less split: if_splits)

lemma init_room:
  assumes "length (memmap s) = MAX_MEM" "physfree \<le> 32000 * 4096"
  shows "510 \<le> card (free_addrs (init_memmap physfree s))"
proof -
  have "(\<lambda>i. of_nat i * 4096 :: u64) ` {32000..<MAX_MEM} \<subseteq> free_addrs (init_memmap physfree s)"
    unfolding free_addrs_def using assms
    by (intro image_mono) (auto simp: init_avail word_le_nat_alt page_addr_unat)
  moreover have "finite (free_addrs (init_memmap physfree s))"
    unfolding free_addrs_def by (rule finite_imageI, rule finite_subset [of _ "{..<MAX_MEM}"]) (auto simp: page_avail_def)
  ultimately have "card ((\<lambda>i. of_nat i * 4096 :: u64) ` {32000..<MAX_MEM}) \<le> card (free_addrs (init_memmap physfree s))"
    by (intro card_mono)
  moreover have "inj_on (\<lambda>i. of_nat i * 4096 :: u64) {32000..<MAX_MEM}"
    by (intro inj_onI) (simp add: page_addr_inject)
  ultimately show ?thesis by (simp add: card_image)
qed

lemma page_mask_aligned: "x < 2 ^ 27 \<Longrightarrow> page_mask (KERN_MEM + of_nat x) = KERN_MEM + of_nat (x div 4096 * 4096)"
  "x < 2 ^ 27 \<Longrightarrow> page_mask (of_nat x) = of_nat (x div 4096 * 4096)"
proof -
  assume x: "x < 2 ^ 27"
  have "(18446744071562067968 + x) mod 4096 = x mod 4096"
    using mod_mult_self1 [of x 4503599626846208 4096] by (simp add: add.commute)
  then have "unat ((KERN_MEM + of_nat x) mod 4096) = unat (of_nat (x mod 4096) :: u64)"
    using kern_unat [OF x] by (simp add: unat_mod)
  then have "(KERN_MEM + of_nat x) mod 4096 = of_nat (x mod 4096)" by (rule unat_inject)
  moreover have "unat ((of_nat x :: u64) mod 4096) = unat (of_nat (x mod 4096) :: u64)"
    using x by (simp add: unat_mod)
  then have "(of_nat x :: u64) mod 4096 = of_nat (x mod 4096)" by (rule unat_inject)
  moreover have "(of_nat x :: u64) = of_nat (x div 4096 * 4096) + of_nat (x mod 4096)"
    by (simp only: of_nat_add [symmetric] div_mult_mod_eq)
  ultimately show "page_mask (KERN_MEM + of_nat x) = KERN_MEM + of_nat (x div 4096 * 4096)"
    "page_mask (of_nat x) = of_nat (x div 4096 * 4096)"
    by (simp_all add: page_mask_eq)
qed

text \<open>The state in which \<^verbatim>\<open>mem_init\<close> starts to map: the root table is an empty page.\<close>

lemma mem_init_root:
  assumes len: "length (memmap s) = MAX_MEM" and pf: "0 < physfree" "physfree \<le> 32000 * 4096"
    and z: "\<And>k i. k < MAX_MEM \<Longrightarrow> physfree \<le> of_nat k * 4096 \<Longrightarrow> i < 512 \<Longrightarrow> qmem s (elt (of_nat k * 4096) i) = 0"
  obtains r s3 where "frame r" "\<And>b. mem_init b physfree s =
        bindr (map_kernel r (KERN_MEM + b) b (END_LIMIT - b) s3)
           (\<lambda>s4. bindr (map_kernel r (KERN_MEM + VIDEO_MEM) VIDEO_MEM 8192 s4)
             (\<lambda>s5. Inr (s5\<lparr>pml4e := KERN_MEM + cr3_addr s5\<rparr>)))"
    "pt_wf [r \<mapsto> 4] r s3" "\<And>v. leaf_entry s3 4 r v = 0" "509 \<le> card (free_addrs s3)" "cr3_addr s3 = r"
proof -
  let ?s0 = "init_memmap physfree s"
  have ok: "memmap_ok ?s0" using len pf(1) by (rule init_memmap_ok)
  have card0: "510 \<le> card (free_addrs ?s0)" by (rule init_room [OF len pf(2)])
  then have "free_addrs ?s0 \<noteq> {}" by auto
  then obtain j where j: "page_avail ?s0 j" "mem_allocate ?s0 = (of_nat j * 4096, take_page j ?s0)" "j < MAX_MEM"
    by (cases rule: mem_allocate_cases [OF ok]) (auto simp: free_addrs_def)
  let ?r = "of_nat j * 4096 :: u64"
  let ?s3 = "(zero_page ?r ((take_page j ?s0)\<lparr>pml4e := ?r\<rparr>))\<lparr>cr3_addr := ?r\<rparr>"
  have av: "page_avail ?s3 k = page_avail (take_page j ?s0) k" "memmap_ok ?s3 = memmap_ok (take_page j ?s0)"
    "free_addrs ?s3 = free_addrs (take_page j ?s0)" for k
    by (simp_all add: zero_page_eq page_avail_def memmap_ok_def free_addrs_def)
  have fr: "frame ?r" using avail_frame [OF j(1)] .
  have q0: "qmem (take_page j ?s0) = qmem s" by (simp add: init_memmap_def)
  have rz: "qmem ?s3 (elt ?r i) = 0" if "i < 512" for i
    using that by (auto simp: zero_page_eq kphys_elt_low [OF fr] intro!: exI [of _ "unat i"] dest: idx_unat)
  have kz: "qmem ?s3 (elt (of_nat k * 4096) i) = 0" if "page_avail ?s3 k" "i < 512" for k i
  proof -
    have "k < MAX_MEM" "physfree \<le> of_nat k * 4096"
      using that(1) take_page_avail [OF ok j(3)] by (auto simp: av init_avail [OF len])
    then show ?thesis using z that(2) q0 by (simp add: zero_page_eq)
  qed
  have nav: "\<not> page_avail ?s3 j" using take_page_avail [OF ok j(3)] by (simp add: av)
  have ok3: "memmap_ok ?s3" using take_page_ok [OF ok j(3)] by (simp add: av)
  note root = fresh_root [OF ok3 j(3) nav rz kz]
  have "509 \<le> card (free_addrs ?s3)"
    using card0 pa.free_finite [OF ok] by (auto simp: av free_addrs_take [OF ok j(1)] card_Diff_singleton_if)
  with fr root show thesis
    by (intro that [of ?r ?s3]) (simp_all add: mem_init_def j(2) Let_def)
qed

text \<open>Which kernel addresses are mapped: the memory from \<open>pb\<close> pages on, and the two video pages.\<close>

definition mapped :: "nat \<Rightarrow> nat \<Rightarrow> bool" where
  "mapped pb x \<longleftrightarrow> pb \<le> x div 4096 \<and> x div 4096 < 32766 \<or> 184 \<le> x div 4096 \<and> x div 4096 < 186"

lemma kern_vpn_eq:
  "x < 2 ^ 27 \<Longrightarrow> p < 32768 \<Longrightarrow>
   vpn (KERN_MEM + of_nat x) = vpn (KERN_MEM + of_nat (p * 4096)) \<longleftrightarrow> x div 4096 = p"
  using kern_vpn [of x] kern_vpn [of "p * 4096"] by (auto simp: word_unat_eq_iff)

lemma kern_pages: "KERN_MEM + of_nat p * 4096 + 4096 * of_nat i = KERN_MEM + of_nat ((p + i) * 4096)"
  by (simp add: algebra_simps)

lemma kern_page_nz: "p < 32768 \<Longrightarrow> KERN_MEM + of_nat p * 4096 \<noteq> 0"
proof
  assume "p < 32768" and z: "KERN_MEM + of_nat p * 4096 = 0"
  with kern_unat [of "p * 4096"] have "unat (KERN_MEM + of_nat p * 4096) = 18446744071562067968 + p * 4096" by simp
  with z show False by simp
qed

lemma page_or_nz: "(a OR 7 :: u64) \<noteq> 0"
  by (rule entry_nonzero)

lemma walk_pages_cr3: "cr3_addr (snd (walk_pages p v s)) = cr3_addr s"
proof -
  have "cr3_addr (snd (walk_level tab i u)) = cr3_addr u" for tab i u
    by (simp add: walk_level_def Let_def case_prod_beta stq_def)
  then show ?thesis by (simp add: walk_pages_def Let_def case_prod_beta)
qed

lemma map_kernel_cr3: "map_kernel p v a n s = Inr t \<Longrightarrow> cr3_addr t = cr3_addr s"
proof -
  have "map_kernel_loop p v a n i s = Inr t \<Longrightarrow> cr3_addr t = cr3_addr s" for v a n i s
  proof (induction "2 ^ 31 - i" arbitrary: i s rule: less_induct)
    case less
    from less.prems less.hyps [of "i + 4096"] show ?case
      by (subst (asm) map_kernel_loop.simps)
        (auto simp: Let_def case_prod_beta walk_pages_cr3 stq_def split: if_splits)
  qed
  then show "map_kernel p v a n s = Inr t \<Longrightarrow> cr3_addr t = cr3_addr s"
    by (auto simp: map_kernel_def Let_def split: if_splits)
qed

lemma boot_size:
  assumes "pb \<le> 32766"
  shows "unat (page_roundoff_4096 (END_LIMIT - of_nat pb * 4096)) = (32766 - pb) * 4096"
proof -
  have e: "END_LIMIT - of_nat pb * 4096 = of_nat ((32766 - pb) * 4096)"
    using assms by (simp add: of_nat_diff algebra_simps)
  have "unat (of_nat ((32766 - pb) * 4096) :: u64) = (32766 - pb) * 4096"
    by (rule unat_of_nat_u64) simp
  moreover from this have "(of_nat ((32766 - pb) * 4096) :: u64) mod 4096 = 0"
    by (intro unat_inject) (simp add: unat_mod)
  ultimately show ?thesis unfolding e by (simp add: page_roundoff_4096_def)
qed

lemma kern_range:
  assumes "w \<in> set (pages (KERN_MEM + of_nat p * 4096) n)" "p + n \<le> 32766"
  shows "\<exists>x < 2 ^ 27. w = KERN_MEM + of_nat x"
proof -
  obtain i where "i < n" "w = KERN_MEM + of_nat ((p + i) * 4096)"
    using assms(1) unfolding set_pages by (auto simp: kern_pages simp del: of_nat_mult of_nat_add)
  moreover have "(p + i) * 4096 < 2 ^ 27" using \<open>i < n\<close> assms(2) by simp
  ultimately show ?thesis by blast
qed

text \<open>One call of \<^verbatim>\<open>map_kernel\<close> on kernel pages maps them to the physical pages with the same number.\<close>

lemma map_kern_pages:
  assumes "frame r" "pt_plan r (pages (KERN_MEM + of_nat p * 4096) n @ ws) s" "p + n \<le> 32766"
    and "unat (page_roundoff_4096 sz) = n * 4096"
  shows "\<exists>t. map_kernel r (KERN_MEM + of_nat p * 4096) (of_nat p * 4096) sz s = Inr t \<and> pt_plan r ws t \<and>
           (\<forall>x < 2 ^ 27. leaf_entry t 4 r (KERN_MEM + of_nat x) =
              (if p \<le> x div 4096 \<and> x div 4096 < p + n then page_mask (of_nat x) OR 7
               else leaf_entry s 4 r (KERN_MEM + of_nat x)))"
proof -
  let ?v = "KERN_MEM + of_nat p * 4096 :: u64"
  have px: "p * 4096 < 2 ^ 27" using assms(3) by simp
  have m: "page_mask ?v = ?v" "page_mask (of_nat p * 4096) = of_nat p * 4096"
    using page_mask_aligned [OF px] by simp_all
  obtain t where t: "map_kernel (KERN_MEM + r) ?v (of_nat p * 4096) sz s = Inr t" "pt_plan r ws t"
    "\<And>i. i < n \<Longrightarrow> leaf_entry t 4 r (?v + 4096 * of_nat i) = (of_nat p * 4096 + 4096 * of_nat i) OR 7"
    "\<And>w. (\<And>i. i < n \<Longrightarrow> vpn w \<noteq> vpn (?v + 4096 * of_nat i)) \<Longrightarrow> leaf_entry t 4 r w = leaf_entry s 4 r w"
    using map_kernel_ok [of r ?v n ws s sz "of_nat p * 4096"] assms(2-4) kern_page_nz [of p] unfolding m by auto
  have "leaf_entry t 4 r (KERN_MEM + of_nat x) = (if p \<le> x div 4096 \<and> x div 4096 < p + n
      then page_mask (of_nat x) OR 7 else leaf_entry s 4 r (KERN_MEM + of_nat x))" if x: "x < 2 ^ 27" for x
  proof (cases "p \<le> x div 4096 \<and> x div 4096 < p + n")
    case True
    define i where "i = x div 4096 - p"
    have i: "i < n" "p + i = x div 4096" using True by (auto simp: i_def)
    have "vpn (KERN_MEM + of_nat x) = vpn (?v + 4096 * of_nat i)"
      using kern_vpn_eq [OF x, of "p + i"] i assms(3) unfolding kern_pages by simp
    then have "leaf_entry t 4 r (KERN_MEM + of_nat x) = (of_nat p * 4096 + 4096 * of_nat i) OR 7"
      by (rule trans [OF leaf_entry_vpn t(3) [OF i(1)]])
    also have "of_nat p * 4096 + 4096 * of_nat i = (of_nat ((p + i) * 4096) :: u64)" by (simp add: algebra_simps)
    also have "\<dots> = page_mask (of_nat x)" using page_mask_aligned(2) [OF x] i by simp
    finally show ?thesis using True by simp
  next
    case False
    then have "vpn (KERN_MEM + of_nat x) \<noteq> vpn (?v + 4096 * of_nat i)" if "i < n" for i
      using kern_vpn_eq [OF x, of "p + i"] that assms(3) unfolding kern_pages by auto
    then have "leaf_entry t 4 r (KERN_MEM + of_nat x) = leaf_entry s 4 r (KERN_MEM + of_nat x)" by (rule t(4))
    then show ?thesis using False by auto
  qed
  with t(1,2) show ?thesis by (simp add: map_kernel_low [OF assms(1)])
qed

lemma pt_wf_cong:
  assumes "memmap t = memmap s" "qmem t = qmem s"
  shows "pt_wf lev r t = pt_wf lev r s" "leaf_entry t k b v = leaf_entry s k b v"
proof -
  have "page_avail t = page_avail s" "memmap_ok t = memmap_ok s"
    using assms by (auto simp: fun_eq_iff page_avail_def memmap_ok_def)
  then show "pt_wf lev r t = pt_wf lev r s" unfolding pt_wf_def by (simp only: assms)
  have "leaf_table t k b v = leaf_table s k b v"
    using assms(2) by (induction s k b v rule: leaf_table.induct) (simp_all add: Let_def)
  then show "leaf_entry t k b v = leaf_entry s k b v" by (simp only: leaf_entry_def assms)
qed

lemma mem_init_ok:
  assumes len: "length (memmap s) = MAX_MEM" and pf: "0 < physfree" "physfree \<le> 32000 * 4096"
    and z: "\<And>k i. k < MAX_MEM \<Longrightarrow> physfree \<le> of_nat k * 4096 \<Longrightarrow> i < 512 \<Longrightarrow> qmem s (elt (of_nat k * 4096) i) = 0"
    and pb: "pb \<le> 32766"
  shows "\<exists>t lev. mem_init (of_nat pb * 4096) physfree s = Inr t \<and> pml4e t = KERN_MEM + cr3_addr t \<and>
           pt_wf lev (cr3_addr t) t \<and>
           (\<forall>x < 2 ^ 27. leaf_entry t 4 (cr3_addr t) (KERN_MEM + of_nat x) =
              (if mapped pb x then page_mask (of_nat x) OR 7 else 0))"
proof (rule mem_init_root [OF len pf z])
  fix r s3
  assume r: "frame r" "\<And>b. mem_init b physfree s =
        bindr (map_kernel r (KERN_MEM + b) b (END_LIMIT - b) s3)
           (\<lambda>s4. bindr (map_kernel r (KERN_MEM + VIDEO_MEM) VIDEO_MEM 8192 s4)
             (\<lambda>s5. Inr (s5\<lparr>pml4e := KERN_MEM + cr3_addr s5\<rparr>)))"
    "pt_wf [r \<mapsto> 4] r s3" "\<And>v. leaf_entry s3 4 r v = 0" "509 \<le> card (free_addrs s3)" "cr3_addr s3 = r"
  let ?n = "32766 - pb"
  let ?k = "pages (KERN_MEM + of_nat pb * 4096) ?n" and ?v = "pages (KERN_MEM + of_nat 184 * 4096) 2"
  have "card (missing r (?k @ ?v @ []) s3) \<le> 64"
    using kern_range [of _ pb ?n] kern_range [of _ 184 2] pb by (intro kern_missing) auto
  then have "pt_plan r (?k @ ?v @ []) s3"
    using r(3,5) unfolding pt_plan_def by (intro exI [of _ "[r \<mapsto> 4]"]) simp
  then obtain s4 where s4: "map_kernel r (KERN_MEM + of_nat pb * 4096) (of_nat pb * 4096) (END_LIMIT - of_nat pb * 4096) s3 = Inr s4"
    "pt_plan r (?v @ []) s4"
    "\<And>x. x < 2 ^ 27 \<Longrightarrow> leaf_entry s4 4 r (KERN_MEM + of_nat x) =
       (if pb \<le> x div 4096 \<and> x div 4096 < pb + ?n then page_mask (of_nat x) OR 7 else 0)"
    using map_kern_pages [OF r(1) _ _ boot_size [OF pb], of pb "?v @ []" s3] pb by (auto simp: r(4))
  have sz: "unat (page_roundoff_4096 8192) = 2 * 4096" by (simp add: page_roundoff_4096_def)
  have vid: "184 + 2 \<le> (32766 :: nat)" by simp
  obtain s5 where s5: "map_kernel r (KERN_MEM + of_nat 184 * 4096) (of_nat 184 * 4096) 8192 s4 = Inr s5" "pt_plan r [] s5"
    "\<And>x. x < 2 ^ 27 \<Longrightarrow> leaf_entry s5 4 r (KERN_MEM + of_nat x) =
       (if 184 \<le> x div 4096 \<and> x div 4096 < 184 + 2 then page_mask (of_nat x) OR 7
        else leaf_entry s4 4 r (KERN_MEM + of_nat x))"
    using map_kern_pages [OF r(1) s4(2) vid sz] by blast
  let ?t = "s5\<lparr>pml4e := KERN_MEM + cr3_addr s5\<rparr>"
  obtain lev where "pt_wf lev r s5" using s5(2) by (auto simp: pt_plan_def)
  then have wf: "pt_wf lev r ?t" using pt_wf_cong(1) [of ?t s5] by simp
  have "cr3_addr ?t = r" using map_kernel_cr3 [OF s4(1)] map_kernel_cr3 [OF s5(1)] r(6) by simp
  moreover have "leaf_entry ?t 4 r v = leaf_entry s5 4 r v" for v using pt_wf_cong(2) [of ?t s5] by simp
  moreover have "mem_init (of_nat pb * 4096) physfree s = Inr ?t" using r(2) s4(1) s5(1) by simp
  moreover have "pb + ?n = 32766" using pb by simp
  ultimately show ?thesis using wf s4(3) s5(3) by (intro exI [of _ ?t] exI [of _ lev]) (auto simp: mapped_def)
qed

text \<open>A run of user pages goes to different free pages and leaves every other lookup alone.\<close>

lemma user_range_fresh:
  assumes "pt_wf lev r s" "4 * n \<le> card (free_addrs s)" "n \<le> 2 ^ 36"
    and "\<And>i. i < n \<Longrightarrow> pte_of (KERN_MEM + r) (v + 4096 * of_nat i) s = None"
  shows "\<exists>t f. map_range (user_body r) n v s = Inr t \<and>
           (\<forall>i < n. f i \<in> free_addrs s \<and> pte_of (KERN_MEM + r) (v + 4096 * of_nat i) t = Some (f i OR 7)) \<and>
           inj_on f {..<n} \<and>
           (\<forall>w. (\<forall>i < n. vpn w \<noteq> vpn (v + 4096 * of_nat i)) \<longrightarrow>
              pte_of (KERN_MEM + r) w t = pte_of (KERN_MEM + r) w s)"
proof -
  have good: "pt_room r (pages v n @ []) s" using assms(1,2) by (auto simp: pt_room_def)
  have old: "leaf_entry s 4 r (v + 4096 * of_nat i) = 0" if "i < n" for i
    using assms(4) [OF that] pte_of_leaf [OF assms(1)] by (simp split: if_splits)
  obtain t where t: "map_range (user_body r) n v s = Inr t" "pt_room r [] t"
    "\<And>w. (\<And>i. i < n \<Longrightarrow> vpn w \<noteq> vpn (v + 4096 * of_nat i)) \<Longrightarrow> leaf_entry t 4 r w = leaf_entry s 4 r w"
    using ku.map_range_ok [OF good assms(3) old] by blast
  have fresh: "\<And>i. i < n \<Longrightarrow> leaf_entry t 4 r (v + 4096 * of_nat i) \<in> entry_pool s"
    "inj_on (\<lambda>i. leaf_entry t 4 r (v + 4096 * of_nat i)) {..<n}"
    using ku.map_range_fresh [OF good assms(3) old t(1)] by blast+
  then have "\<forall>i. \<exists>a. i < n \<longrightarrow> a \<in> free_addrs s \<and> leaf_entry t 4 r (v + 4096 * of_nat i) = a OR 7"
    unfolding entry_pool_def by blast
  then obtain f where f: "\<And>i. i < n \<Longrightarrow> f i \<in> free_addrs s \<and> leaf_entry t 4 r (v + 4096 * of_nat i) = f i OR 7" by metis
  have "inj_on f {..<n}"
    using fresh(2) f unfolding inj_on_def by (metis lessThan_iff)
  moreover obtain lev' where lev': "pt_wf lev' r t" using t(2) by (auto simp: pt_room_def)
  ultimately show ?thesis
    using t(1) f t(3) by (intro exI [of _ t] exI [of _ f]) (simp add: pte_of_leaf [OF lev'] pte_of_leaf [OF assms(1)] entry_nonzero)
qed

end
