(* ===== verification/Cow_Props.thy ===== *)
theory Cow_Props
  imports Kernel Paging_Boot
begin

text \<open>
  Copy on write: what the innermost loop of \<^verbatim>\<open>cow_walk_pages\<close> does to a parent's and a child's
  leaf table and to the page counts, and what a write fault on a shared page does.
\<close>

section \<open>Finding the page of an entry\<close>

lemma get_physical_loop_found:
  assumes "memmap_ok s" "i \<le> j" "j < MAX_MEM"
  shows "get_physical_loop (of_nat j * 4096) i s = Some j"
  using assms
proof (induction "j - i" arbitrary: i)
  case 0
  then show ?case by (subst get_physical_loop.simps) (simp add: memmap_okD(2))
next
  case (Suc n)
  then have "i < MAX_MEM" "i \<noteq> j" by auto
  with Suc.prems have "mm_addr (memmap s ! i) \<noteq> of_nat j * 4096"
    using page_addr_inject [of i j] by (simp add: memmap_okD(2))
  with Suc \<open>i < MAX_MEM\<close> \<open>i \<noteq> j\<close> show ?case by (subst get_physical_loop.simps) simp
qed

lemma page_mask_frame: "frame b \<Longrightarrow> page_mask b = b"
proof -
  assume "frame b"
  then obtain j where "unat b = j * 4096" by (auto elim: frameE)
  then have "unat (b mod 4096) = unat (0 :: u64)" by (simp add: unat_mod)
  then have "b mod 4096 = 0" by (rule unat_inject)
  then show ?thesis by (simp add: page_mask_eq)
qed

lemma get_physical_memmap_frame:
  "memmap_ok s \<Longrightarrow> j < MAX_MEM \<Longrightarrow> get_physical_memmap (of_nat j * 4096) s = Some j"
proof -
  assume "memmap_ok s" "j < MAX_MEM"
  moreover from this have "frame (of_nat j * 4096)" by (auto simp: frame_def)
  ultimately show ?thesis
    using get_physical_loop_found [of s 0 j] by (simp add: get_physical_memmap_def page_mask_frame)
qed

lemma page_mask_idem: "page_mask (page_mask a) = page_mask a"
  by (simp add: page_mask_def and.assoc)

lemma page_mask_ro: "page_mask (a AND NOT PAGE_WRITE) = page_mask a"
proof -
  have "NOT (2 :: u64) AND 0xFFFFFFFFFFFFF000 = 0xFFFFFFFFFFFFF000" by simp
  then show ?thesis by (simp add: page_mask_def and.assoc)
qed

section \<open>Sharing a leaf table\<close>

definition present :: "u64 \<Rightarrow> bool" where
  "present e \<longleftrightarrow> e AND PAGE_PRESENT \<noteq> 0"

definition read_only :: "u64 \<Rightarrow> u64" where
  "read_only e = e AND NOT PAGE_WRITE"

text \<open>The entries below \<open>n\<close> of the table \<open>b\<close> that point to page \<open>j\<close>.\<close>

definition refs :: "kmem \<Rightarrow> u64 \<Rightarrow> nat \<Rightarrow> nat \<Rightarrow> nat set" where
  "refs s b n j = {l. l < n \<and> present (qmem s (elt b (of_nat l))) \<and>
     page_mask (qmem s (elt b (of_nat l))) = of_nat j * 4096}"

text \<open>The state after the first \<open>n\<close> entries of table \<open>b\<close> have been shared with table \<open>c\<close>.\<close>

definition shared :: "kmem \<Rightarrow> u64 \<Rightarrow> u64 \<Rightarrow> nat \<Rightarrow> kmem \<Rightarrow> bool" where
  "shared s b c n t \<longleftrightarrow> memmap_ok t \<and>
     (\<forall>l < 512. qmem t (elt b (of_nat l)) =
        (if l < n \<and> present (qmem s (elt b (of_nat l))) then read_only (qmem s (elt b (of_nat l)))
         else qmem s (elt b (of_nat l)))) \<and>
     (\<forall>l < 512. qmem t (elt c (of_nat l)) =
        (if l < n \<and> present (qmem s (elt b (of_nat l))) then read_only (qmem s (elt b (of_nat l)))
         else qmem s (elt c (of_nat l)))) \<and>
     (\<forall>a. (\<forall>l < 512. a \<noteq> elt b (of_nat l) \<and> a \<noteq> elt c (of_nat l)) \<longrightarrow> qmem t a = qmem s a) \<and>
     (\<forall>j < MAX_MEM. memmap t ! j = (memmap s ! j)
        \<lparr>mm_ref_cnt := mm_ref_cnt (memmap s ! j) + of_nat (card (refs s b n j)),
         mm_cow_flag := mm_cow_flag (memmap s ! j) \<or> refs s b n j \<noteq> {}\<rparr>)"

lemma refs_0 [simp]: "refs s b 0 j = {}"
  by (simp add: refs_def)

lemma finite_refs [simp]: "finite (refs s b n j)"
  by (simp add: refs_def)

lemma refs_Suc:
  "refs s b (Suc n) j = (if present (qmem s (elt b (of_nat n))) \<and> page_mask (qmem s (elt b (of_nat n))) = of_nat j * 4096
     then insert n (refs s b n j) else refs s b n j)"
  by (auto simp: refs_def less_Suc_eq)

lemma nat_idx: "l < 512 \<Longrightarrow> (of_nat l :: u64) < 512"
  by (simp add: word_less_nat_alt)

lemma nat_idx_inject: "l < 512 \<Longrightarrow> m < 512 \<Longrightarrow> (of_nat l :: u64) = of_nat m \<longleftrightarrow> l = m"
proof
  assume a: "l < 512" "m < 512" and "(of_nat l :: u64) = of_nat m"
  then have "unat (of_nat l :: u64) = unat (of_nat m :: u64)" by simp
  then show "l = m" using a by simp
qed simp

lemma slot_inject:
  "frame b \<Longrightarrow> frame c \<Longrightarrow> l < 512 \<Longrightarrow> m < 512 \<Longrightarrow> elt b (of_nat l) = elt c (of_nat m) \<longleftrightarrow> b = c \<and> l = m"
  using elt_inject [of b c "of_nat l" "of_nat m"] nat_idx nat_idx_inject by auto

lemma cow_pte_absent:
  assumes "shared s b c n t" "n < 512" "frame b" "\<not> present (qmem s (elt b (of_nat n)))"
  shows "cow_pte (KERN_MEM + b) (KERN_MEM + c) n t = Inr t \<and> shared s b c (Suc n) t"
proof -
  have "ldq (elt (KERN_MEM + b) (of_nat n)) t = qmem s (elt b (of_nat n))"
    using assms(1-3) by (simp add: ldq_table nat_idx shared_def)
  then have "cow_pte (KERN_MEM + b) (KERN_MEM + c) n t = Inr t"
    using assms(4) by (simp add: cow_pte_def present_def)
  moreover have "(l < Suc n \<and> present (qmem s (elt b (of_nat l)))) = (l < n \<and> present (qmem s (elt b (of_nat l))))" for l
    using assms(4) by (auto simp: less_Suc_eq)
  then have "shared s b c (Suc n) t"
    using assms(1,4) by (simp add: shared_def refs_Suc)
  ultimately show ?thesis ..
qed

lemma cow_pte_present:
  assumes sh: "shared s b c n t" and n: "n < 512" and fr: "frame b" "frame c" "b \<noteq> c"
    and e: "present (qmem s (elt b (of_nat n)))" and j: "page_mask (qmem s (elt b (of_nat n))) = of_nat j * 4096" "j < MAX_MEM"
  shows "\<exists>u. cow_pte (KERN_MEM + b) (KERN_MEM + c) n t = Inr u \<and> shared s b c (Suc n) u"
proof -
  let ?e = "qmem s (elt b (of_nat n))"
  let ?s2 = "t\<lparr>qmem := (qmem t)(elt b (of_nat n) := read_only ?e, elt c (of_nat n) := read_only ?e)\<rparr>"
  let ?u = "?s2\<lparr>memmap := (memmap t)[j := (memmap t ! j)\<lparr>mm_ref_cnt := mm_ref_cnt (memmap t ! j) + 1, mm_cow_flag := True\<rparr>]\<rparr>"
  have ok: "memmap_ok t" "memmap_ok ?s2" "memmap_ok ?u"
    using sh j(2) by (auto simp: shared_def memmap_ok_def nth_list_update)
  have ld: "qmem t (elt b (of_nat n)) = ?e" using sh n by (simp add: shared_def)
  have ne: "elt b (of_nat n) \<noteq> elt c (of_nat n)" using slot_inject [OF fr(1,2) n n] fr(3) by simp
  have "page_mask (read_only ?e) = of_nat j * 4096" unfolding read_only_def page_mask_ro by (rule j(1))
  then have "get_physical_memmap (page_mask (read_only ?e)) ?s2 = Some j"
    using get_physical_memmap_frame [OF ok(2) j(2)] by simp
  then have run: "cow_pte (KERN_MEM + b) (KERN_MEM + c) n t = Inr ?u"
    using e ne ld n by (simp add: cow_pte_def present_def read_only_def ldq_table stq_table fr nat_idx Let_def)
  have b: "qmem ?u (elt b (of_nat l)) = (if l = n then read_only ?e else qmem t (elt b (of_nat l)))"
    and c: "qmem ?u (elt c (of_nat l)) = (if l = n then read_only ?e else qmem t (elt c (of_nat l)))" if "l < 512" for l
    using slot_inject [OF fr(1,1) that n] slot_inject [OF fr(1,2) that n] slot_inject [OF fr(2,1) that n]
      slot_inject [OF fr(2,2) that n] fr(3) by auto
  have m: "memmap ?u ! i = (memmap s ! i)
        \<lparr>mm_ref_cnt := mm_ref_cnt (memmap s ! i) + of_nat (card (refs s b (Suc n) i)),
         mm_cow_flag := mm_cow_flag (memmap s ! i) \<or> refs s b (Suc n) i \<noteq> {}\<rparr>" if i: "i < MAX_MEM" for i
  proof -
    have t: "memmap t ! i = (memmap s ! i)
        \<lparr>mm_ref_cnt := mm_ref_cnt (memmap s ! i) + of_nat (card (refs s b n i)),
         mm_cow_flag := mm_cow_flag (memmap s ! i) \<or> refs s b n i \<noteq> {}\<rparr>" using sh i by (simp add: shared_def)
    have "n \<notin> refs s b n i" by (simp add: refs_def)
    then show ?thesis
      using t j e page_addr_inject [OF j(2) i] memmap_okD(1) [OF ok(1)] i
      by (auto simp: refs_Suc nth_list_update ac_simps)
  qed
  have "shared s b c (Suc n) ?u"
    unfolding shared_def
  proof (intro conjI allI impI)
    fix l :: nat assume l: "l < 512"
    show "qmem ?u (elt b (of_nat l)) = (if l < Suc n \<and> present (qmem s (elt b (of_nat l)))
        then read_only (qmem s (elt b (of_nat l))) else qmem s (elt b (of_nat l)))"
      unfolding b [OF l] using sh l e by (auto simp: shared_def less_Suc_eq)
    show "qmem ?u (elt c (of_nat l)) = (if l < Suc n \<and> present (qmem s (elt b (of_nat l)))
        then read_only (qmem s (elt b (of_nat l))) else qmem s (elt c (of_nat l)))"
      unfolding c [OF l] using sh l e by (auto simp: shared_def less_Suc_eq)
  next
    fix a assume "\<forall>l < 512. a \<noteq> elt b (of_nat l) \<and> a \<noteq> elt c (of_nat l)"
    then show "qmem ?u a = qmem s a" using sh n by (simp add: shared_def)
  qed (use ok m in \<open>simp_all\<close>)
  with run show ?thesis by blast
qed

lemma cow_pt_shared:
  assumes "memmap_ok s" "frame b" "frame c" "b \<noteq> c"
    and "\<And>l. l < 512 \<Longrightarrow> present (qmem s (elt b (of_nat l))) \<Longrightarrow>
           \<exists>j < MAX_MEM. page_mask (qmem s (elt b (of_nat l))) = of_nat j * 4096"
  shows "\<exists>t. cow_pt (KERN_MEM + b) (KERN_MEM + c) s = Inr t \<and> shared s b c 512 t"
proof -
  have "\<exists>t. for_loop 512 0 (cow_pte (KERN_MEM + b) (KERN_MEM + c)) s = Inr t \<and> shared s b c (0 + 512) t"
  proof (rule for_loop_inv)
    show "shared s b c 0 s" using assms(1) by (simp add: shared_def)
  next
    fix k t assume k: "k < 0 + 512" "shared s b c k t"
    show "\<exists>u. cow_pte (KERN_MEM + b) (KERN_MEM + c) k t = Inr u \<and> shared s b c (Suc k) u"
    proof (cases "present (qmem s (elt b (of_nat k)))")
      case True
      then obtain j where "j < MAX_MEM" "page_mask (qmem s (elt b (of_nat k))) = of_nat j * 4096"
        using assms(5) [of k] k(1) by auto
      then show ?thesis using k by (intro cow_pte_present [OF k(2) _ assms(2-4) True]) auto
    next
      case False
      then show ?thesis using cow_pte_absent [OF k(2) _ assms(2)] k(1) by auto
    qed
  qed
  then show ?thesis by (simp add: cow_pt_def)
qed

section \<open>Writing to pages that are not tables\<close>

lemma pt_wf_same_tables:
  assumes wf: "pt_wf lev r s" and "memmap_ok t" "page_avail t = page_avail s"
    and tab: "\<And>b k i. lev b = Some k \<Longrightarrow> i < 512 \<Longrightarrow> qmem t (elt b i) = qmem s (elt b i)"
    and free: "\<And>j i. page_avail s j \<Longrightarrow> i < 512 \<Longrightarrow> qmem t (elt (of_nat j * 4096) i) = qmem s (elt (of_nat j * 4096) i)"
  shows "pt_wf lev r t" "lev b = Some (Suc k) \<Longrightarrow> leaf_table t (Suc k) b v = leaf_table s (Suc k) b v"
    "leaf_entry t 4 r v = leaf_entry s 4 r v"
proof -
  note w = pt_wfD [OF wf]
  show "pt_wf lev r t"
  proof (rule pt_wfI)
    fix b k i assume l: "lev b = Some k" "1 < k" "i < 512" and nz: "qmem t (elt b i) \<noteq> 0"
    then show "\<exists>c. qmem t (elt b i) = c OR 7 \<and> lev c = Some (k - 1)"
      unfolding tab [OF l(1,3)] by (intro w(5))
  next
    fix b k i1 b' k' i2
    assume l: "lev b = Some k" "1 < k" "i1 < 512" and l': "lev b' = Some k'" "1 < k'" "i2 < 512"
      and nz: "qmem t (elt b i1) \<noteq> 0" "qmem t (elt b i1) = qmem t (elt b' i2)"
    then show "b = b' \<and> i1 = i2" unfolding tab [OF l(1,3)] tab [OF l'(1,3)] by (intro w(6))
  next
    fix j and i :: u64 assume "page_avail t j" "i < 512"
    then show "qmem t (elt (of_nat j * 4096) i) = 0" using free w(7) assms(3) by metis
  qed (use assms(2,3) w(2,4) in auto)
  have lt: "leaf_table t (Suc k) b v = leaf_table s (Suc k) b v" if "lev b = Some (Suc k)" for b k v
    using that
  proof (induction k arbitrary: b)
    case (Suc k)
    have eq: "qmem t (elt b (idx v (Suc (Suc k)))) = qmem s (elt b (idx v (Suc (Suc k))))"
      using tab [OF Suc.prems] by simp
    show ?case
    proof (cases "qmem s (elt b (idx v (Suc (Suc k)))) = 0")
      case False
      obtain c where "qmem s (elt b (idx v (Suc (Suc k)))) = c OR 7" "lev c = Some (Suc k)" "table_of (c OR 7) - KERN_MEM = c"
        by (rule child_table [OF wf Suc.prems False])
      with Suc.IH eq show ?thesis by (simp add: Let_def)
    qed (simp add: eq)
  qed simp
  then show "lev b = Some (Suc k) \<Longrightarrow> leaf_table t (Suc k) b v = leaf_table s (Suc k) b v" by blast
  have r: "lev r = Some (Suc 3)" using w(2) by simp
  show "leaf_entry t 4 r v = leaf_entry s 4 r v"
  proof (cases "leaf_table s 4 r v")
    case None
    then show ?thesis using lt [OF r, of v] by (simp add: leaf_entry_def)
  next
    case (Some c)
    then have "lev c = Some (Suc 0)" using leaf_table_level [OF wf r, of v c] by simp
    then show ?thesis using lt [OF r, of v] Some tab by (simp add: leaf_entry_def)
  qed
qed

text \<open>Copying a page.\<close>

lemma copy_page_ok:
  assumes "frame a" "frame b" "a \<noteq> b"
  shows "(\<forall>l < 512. qmem (copy_page (KERN_MEM + a) (KERN_MEM + b) s) (elt a (of_nat l)) = qmem s (elt b (of_nat l))) \<and>
         (\<forall>x. (\<forall>l < 512. x \<noteq> elt a (of_nat l)) \<longrightarrow> qmem (copy_page (KERN_MEM + a) (KERN_MEM + b) s) x = qmem s x) \<and>
         memmap (copy_page (KERN_MEM + a) (KERN_MEM + b) s) = memmap s"
proof -
  let ?f = "\<lambda>j s. stq (elt (KERN_MEM + a) (of_nat j)) (ldq (elt (KERN_MEM + b) (of_nat j)) s) s"
  have "(\<forall>l < n. qmem (fold ?f [0..<n] s) (elt a (of_nat l)) = qmem s (elt b (of_nat l))) \<and>
        (\<forall>x. (\<forall>l < n. x \<noteq> elt a (of_nat l)) \<longrightarrow> qmem (fold ?f [0..<n] s) x = qmem s x) \<and>
        memmap (fold ?f [0..<n] s) = memmap s" if "n \<le> 512" for n
    using that
  proof (induction n)
    case (Suc n)
    let ?t = "fold ?f [0..<n] s"
    have n: "n < 512" using Suc.prems by simp
    have "elt b (of_nat n) \<noteq> elt a (of_nat l)" if "l < n" for l
      using slot_inject [OF assms(2,1) n, of l] that n assms(3) by auto
    then have src: "qmem ?t (elt b (of_nat n)) = qmem s (elt b (of_nat n))" using Suc by auto
    have step: "fold ?f [0..<Suc n] s = ?t\<lparr>qmem := (qmem ?t)(elt a (of_nat n) := qmem s (elt b (of_nat n)))\<rparr>"
      using n by (simp add: ldq_table stq_table assms nat_idx src)
    have ne: "elt a (of_nat l) \<noteq> elt a (of_nat n)" if "l < n" for l
      using slot_inject [OF assms(1,1), of l n] that n by auto
    show ?case unfolding step using Suc.IH n ne by (auto simp: less_Suc_eq)
  qed simp
  from this [of 512] show ?thesis by (simp add: copy_page_def)
qed

lemma copy_page_wf:
  assumes wf: "pt_wf lev r s" and a: "frame a" "lev a = None" "a \<notin> free_addrs s" and b: "frame b" "a \<noteq> b"
  shows "pt_wf lev r (copy_page (KERN_MEM + a) (KERN_MEM + b) s)"
    "leaf_entry (copy_page (KERN_MEM + a) (KERN_MEM + b) s) 4 r v = leaf_entry s 4 r v"
    "leaf_table (copy_page (KERN_MEM + a) (KERN_MEM + b) s) 4 r v = leaf_table s 4 r v"
proof -
  let ?t = "copy_page (KERN_MEM + a) (KERN_MEM + b) s"
  note cp = copy_page_ok [OF a(1) b, of s]
  have keep: "qmem ?t (elt c i) = qmem s (elt c i)" if "frame c" "c \<noteq> a" "i < 512" for c i
  proof -
    have "elt c i \<noteq> elt a (of_nat l)" if "l < 512" for l
      using elt_inject [OF \<open>frame c\<close> a(1) \<open>i < 512\<close> nat_idx [OF that]] \<open>c \<noteq> a\<close> by simp
    then show ?thesis using cp by blast
  qed
  have ok: "memmap_ok ?t" "page_avail ?t = page_avail s"
    using cp pt_wfD(1) [OF wf] by (auto simp: memmap_ok_def page_avail_def fun_eq_iff)
  have tab: "qmem ?t (elt c i) = qmem s (elt c i)" if "lev c = Some k" "i < 512" for c k i
    using that pt_wfD(3) [OF wf] a(2) by (intro keep) auto
  have free: "qmem ?t (elt (of_nat j * 4096) i) = qmem s (elt (of_nat j * 4096) i)" if "page_avail s j" "i < 512" for j i
    using that a(3) avail_frame [OF that(1)] by (intro keep) (auto simp: free_addrs_def)
  note res = pt_wf_same_tables [OF wf ok tab free]
  show "pt_wf lev r ?t" by (rule res(1))
  show "leaf_entry ?t 4 r v = leaf_entry s 4 r v" by (rule res(3))
  show "leaf_table ?t 4 r v = leaf_table s 4 r v" using res(2) [where b = r and k = 3 and v = v] pt_wfD(2) [OF wf] by simp
qed

section \<open>The copying write fault\<close>

lemma map_kernel_one:
  assumes "pt_wf lev r s" "leaf_table s 4 r (page_mask v) = Some c" "frame p" "page_mask v \<noteq> 0"
  shows "map_kernel (KERN_MEM + r) v p PAGE_SIZE s =
           Inr (stq (elt (KERN_MEM + c) (idx (page_mask v) (Suc 0))) (p OR 7) s)"
proof -
  have rl: "page_roundless_4096 a = page_mask a" for a
    by (simp add: page_roundless_4096_def page_mask_eq)
  have "page_roundoff_4096 4096 = 4096" by (simp add: page_roundoff_4096_def)
  moreover have "map_kernel_loop (KERN_MEM + r) (page_mask v) p 4096 4096 u = Inr u" for u
    by (subst map_kernel_loop.simps) simp
  moreover have "map_kernel_loop (KERN_MEM + r) (page_mask v) p 4096 0 s =
      map_kernel_loop (KERN_MEM + r) (page_mask v) p 4096 4096
        (stq (elt (KERN_MEM + c) (idx (page_mask v) (Suc 0))) (p OR 7) s)"
    using walk_pages_same [OF assms(1,2)] by (subst map_kernel_loop.simps) simp
  ultimately show ?thesis using assms(3,4) by (simp add: map_kernel_def rl page_mask_frame)
qed

lemma vpn_page_mask: "vpn (page_mask v) = vpn v"
proof (rule bit_word_eqI)
  have m: "(0xFFFFFFFFFFFFF000 :: u64) = NOT (mask 12)" by (simp add: mask_eq_exp_minus_1)
  fix n assume "n < LENGTH(64)"
  then show "bit (vpn (page_mask v)) n = bit (vpn v) n"
    unfolding vpn_def page_mask_def m by (auto simp: bit_simps)
qed

text \<open>Where \<^verbatim>\<open>look_pages\<close> finds an entry.\<close>

lemma look_pages_slot:
  assumes wf: "pt_wf lev r s" and tab: "leaf_table s 4 r v = Some c" and nz: "look_pages (KERN_MEM + r) v s \<noteq> 0"
  shows "look_pages (KERN_MEM + r) v s = elt (KERN_MEM + c) (idx v (Suc 0))"
proof -
  have r: "lev r = Some (Suc (Suc (Suc (Suc 0))))" "frame r" using pt_wfD(2,3) [OF wf] by auto
  have n: "4 = Suc (Suc (Suc (Suc 0)))" "3 = Suc (Suc (Suc 0))" "2 = Suc (Suc 0)" by simp_all
  note tab' = tab [unfolded n leaf_table.simps Let_def]
  let ?e4 = "qmem s (elt r (idx v (Suc (Suc (Suc (Suc 0))))))"
  have "?e4 \<noteq> 0" using tab' by (auto split: if_splits)
  then obtain a where a: "?e4 = a OR 7" "lev a = Some (Suc (Suc (Suc 0)))" "frame a"
    "table_of (a OR 7) - KERN_MEM = a" by (rule child_table [OF wf r(1)])
  let ?e3 = "qmem s (elt a (idx v (Suc (Suc (Suc 0)))))"
  have "?e3 \<noteq> 0" using tab' a by (auto split: if_splits)
  then obtain b where b: "?e3 = b OR 7" "lev b = Some (Suc (Suc 0))" "frame b"
    "table_of (b OR 7) - KERN_MEM = b" by (rule child_table [OF wf a(2)])
  let ?e2 = "qmem s (elt b (idx v (Suc (Suc 0))))"
  have "?e2 \<noteq> 0" using tab' a b by (auto split: if_splits)
  then obtain d where d: "?e2 = d OR 7" "frame d" "table_of (d OR 7) - KERN_MEM = d"
    by (rule child_table [OF wf b(2)])
  have "d = c" using tab' a b d \<open>?e4 \<noteq> 0\<close> \<open>?e3 \<noteq> 0\<close> \<open>?e2 \<noteq> 0\<close> by simp
  then show ?thesis
    using r a b d nz
    by (auto simp: look_pages_def addr_res_idx n ldq_table table_of_frame entry_nonzero Let_def split: if_splits)
qed

end
