(* ===== verification/PhysMem_Claims.thy ===== *)
theory PhysMem_Claims
  imports PhysMem
begin

text \<open>
  The properties of physical page management, and the concrete page array of a booted
  kernel they are instantiated with.
\<close>

section \<open>Helpers\<close>

lemma page_count_small: "unat sz < 2 ^ 40 \<Longrightarrow> page_count sz = int (unat sz div 4096) + (if sz mod 4096 > 0 then 1 else 0)"
proof -
  assume a: "unat sz < 2 ^ 40"
  have q: "unat (sz div 4096) = unat sz div 4096" by (simp add: unat_div)
  with a have lt: "unat (sz div 4096) < 2 ^ 28" by simp
  then have "take_bit 32 (unat (sz div 4096)) = unat (sz div 4096)"
    by (intro take_bit_nat_eq_self) simp
  then have u: "unat (ucast (sz div 4096) :: u32) = unat (sz div 4096)"
    by (simp add: unsigned_ucast_eq)
  have "sint (ucast (sz div 4096) :: u32) = int (unat (ucast (sz div 4096) :: u32))"
    using lt u by (intro sint_small_u32) simp
  then have "sint (ucast (sz div 4096) :: u32) = int (unat (sz div 4096))" by (simp add: u)
  then show ?thesis by (simp add: page_count_def q)
qed

lemma ceil_div_4096: "(x + 4095) div 4096 = x div 4096 + (if x mod 4096 > 0 then 1 else 0 :: nat)"
  using ceil_div [of 4096 x] by simp

text \<open>The page array after \<^verbatim>\<open>init_memmap\<close> with the first \<open>n\<close> pages in use.\<close>

definition kmem0 :: kmem where
  "kmem0 = \<lparr>memmap = replicate MAX_MEM \<lparr>mm_addr = 0, mm_res_flag = 0, mm_ref_cnt = 0, mm_cow_flag = False\<rparr>,
     qmem = (\<lambda>_. 0), pml4e = 0, cr3_addr = 0\<rparr>"

definition kmem_boot :: "nat \<Rightarrow> kmem" where
  "kmem_boot n = init_memmap (of_nat n * 4096) kmem0"

lemma kmem0_length: "length (memmap kmem0) = MAX_MEM"
  by (simp add: kmem0_def)

lemma kmem_boot_nth: "i < MAX_MEM \<Longrightarrow> memmap (kmem_boot n) ! i = boot_entry (of_nat n * 4096) i"
  by (simp add: kmem_boot_def init_memmap_eq kmem0_length)

lemma kmem_boot_ok: "0 < n \<Longrightarrow> n < MAX_MEM \<Longrightarrow> memmap_ok (kmem_boot n)"
  unfolding kmem_boot_def
  by (rule init_memmap_ok) (simp_all add: kmem0_length word_less_nat_alt page_addr_unat)

lemma kmem_boot_avail: "n < MAX_MEM \<Longrightarrow> page_avail (kmem_boot n) i \<longleftrightarrow> n \<le> i \<and> i < MAX_MEM"
  by (auto simp: page_avail_def kmem_boot_nth boot_entry_def word_less_nat_alt page_addr_unat
      split: if_splits)

lemma set_avail_avail:
  "memmap_ok s \<Longrightarrow> j < MAX_MEM \<Longrightarrow> page_avail (set_avail j s) k \<longleftrightarrow> page_avail s k \<or> k = j"
  by (auto simp: page_avail_def set_avail_def nth_list_update memmap_okD(1))

section \<open>Properties\<close>

text \<open>
  \<^verbatim>\<open>init_memmap\<close> describes page \<open>i\<close> in entry \<open>i\<close>, marks exactly the pages below
  \<^verbatim>\<open>physfree\<close> as used with one reference, and no page as copy-on-write.
\<close>

theorem init_memmap_correct:
  assumes "length (memmap s) = MAX_MEM" "i < MAX_MEM"
  shows "mm_addr (memmap (init_memmap physfree s) ! i) = of_nat i * 4096 \<and>
         (mm_res_flag (memmap (init_memmap physfree s) ! i) = BUSY \<longleftrightarrow> of_nat i * 4096 < physfree) \<and>
         mm_ref_cnt (memmap (init_memmap physfree s) ! i) = (if of_nat i * 4096 < physfree then 1 else 0) \<and>
         \<not> mm_cow_flag (memmap (init_memmap physfree s) ! i) \<and>
         length (memmap (init_memmap physfree s)) = MAX_MEM"
  using assms by (simp add: init_memmap_eq boot_entry_def)

theorem init_memmap_correct_witness:
  "mm_res_flag (memmap (init_memmap 0x3000 kmem0) ! 2) = BUSY \<and>
   mm_res_flag (memmap (init_memmap 0x3000 kmem0) ! 3) \<noteq> BUSY"
  using init_memmap_correct [OF kmem0_length, of 2 "0x3000"]
    init_memmap_correct [OF kmem0_length, of 3 "0x3000"] by simp

text \<open>
  C12. \<^verbatim>\<open>mem_allocate\<close> is first fit: it returns the lowest free page, page-aligned and never
  page \<open>0\<close>, marks that page used with one more reference, and leaves every other entry and
  all memory contents alone; it answers \<open>0\<close>, changing nothing, exactly when no page is free.
\<close>

theorem mem_allocate_first_fit:
  assumes "memmap_ok s"
  shows "memmap_ok (snd (mem_allocate s)) \<and> qmem (snd (mem_allocate s)) = qmem s \<and>
         (if \<exists>i. page_avail s i
          then \<exists>j. page_avail s j \<and> (\<forall>k < j. \<not> page_avail s k) \<and> 0 < j \<and>
                 mem_allocate s = (of_nat j * 4096, take_page j s) \<and>
                 mm_ref_cnt (memmap (snd (mem_allocate s)) ! j) = mm_ref_cnt (memmap s ! j) + 1 \<and>
                 (\<forall>k. page_avail (snd (mem_allocate s)) k \<longleftrightarrow> page_avail s k \<and> k \<noteq> j)
          else mem_allocate s = (0, s))"
using assms
proof (cases rule: mem_allocate_cases)
  case full
  then show ?thesis using assms by simp
next
  case (page j)
  then show ?thesis
    using assms take_page_nth [OF assms page(4) page(4)] take_page_avail [OF assms page(4)]
    by (auto simp: take_page_ok)
qed

theorem mem_allocate_first_fit_witness:
  "\<exists>j. page_avail (kmem_boot 3) j \<and> mem_allocate (kmem_boot 3) = (of_nat j * 4096, take_page j (kmem_boot 3))"
proof -
  have "\<exists>i. page_avail (kmem_boot 3) i" by (rule exI [of _ 3]) (simp add: kmem_boot_avail)
  then show ?thesis using mem_allocate_first_fit [OF kmem_boot_ok [of 3]] by auto
qed

text \<open>
  C13. Successive calls of \<^verbatim>\<open>mem_allocate\<close> hand out pairwise different free pages as long as
  enough pages are free, and only \<open>0\<close> once none is.
\<close>

theorem mem_allocate_no_double:
  assumes "memmap_ok s"
  shows "(n \<le> card (free_addrs s) \<longrightarrow>
            distinct (fst (alloc_n mem_allocate n s)) \<and>
            set (fst (alloc_n mem_allocate n s)) \<subseteq> free_addrs s \<and> 0 \<notin> set (fst (alloc_n mem_allocate n s)) \<and>
            free_addrs (snd (alloc_n mem_allocate n s)) = free_addrs s - set (fst (alloc_n mem_allocate n s))) \<and>
         (free_addrs s = {} \<longrightarrow> alloc_n mem_allocate n s = (replicate n 0, s))"
  using pa.alloc_n_distinct [OF assms] pa.alloc_n_exhausted [OF assms] pa.free_nonzero [OF assms] by blast

theorem mem_allocate_no_double_witness:
  "distinct (fst (alloc_n mem_allocate 2 (kmem_boot 3)))"
proof -
  have ok: "memmap_ok (kmem_boot 3)" by (simp add: kmem_boot_ok)
  have "of_nat i * 4096 \<in> free_addrs (kmem_boot 3)" if "i = 3 \<or> i = 4" for i
    using that unfolding free_addrs_def by (intro imageI) (auto simp: kmem_boot_avail)
  then have "{of_nat 3 * 4096, of_nat 4 * 4096} \<subseteq> free_addrs (kmem_boot 3)" by blast
  then have "card {of_nat 3 * 4096 :: u64, of_nat 4 * 4096} \<le> card (free_addrs (kmem_boot 3))"
    using pa.free_finite [OF ok] by (intro card_mono)
  then show ?thesis using mem_allocate_no_double [OF ok, of 2] by simp
qed

text \<open>
  \<^verbatim>\<open>kmalloc\<close> returns a contiguous block whenever the lowest free pages are contiguous: it
  takes exactly the \<open>n\<close> pages needed for the size, starting at the returned address.
\<close>

theorem kmalloc_contiguous:
  assumes "memmap_ok s" "0 < sz" "unat sz < 2 ^ 40"
    and "n = (unat sz + 4095) div 4096"
    and "\<forall>k. j \<le> k \<and> k < j + n \<longrightarrow> page_avail s k" and "\<forall>k < j. \<not> page_avail s k"
  shows "fst (kmalloc sz s) = KERN_MEM + of_nat j * 4096 \<and>
         (\<forall>k. page_avail (snd (kmalloc sz s)) k \<longleftrightarrow> page_avail s k \<and> \<not> (j \<le> k \<and> k < j + n))"
proof -
  have pos: "0 < unat sz" using assms(2) by (simp add: word_less_nat_alt)
  have "(0 < sz mod 4096) = (0 < unat sz mod 4096)" by (simp add: word_less_nat_alt unat_mod)
  then have "page_count sz = int n"
    using page_count_small [OF assms(3)] assms(4) by (simp add: ceil_div_4096)
  moreover have "n \<noteq> 0" using assms(4) pos by (simp add: div_eq_0_iff)
  then obtain m where n: "n = Suc m" by (cases n) simp_all
  ultimately have cnt: "nat (page_count sz - 1) = m" by simp
  have run: "fst (alloc_n mem_allocate n s) = map (\<lambda>k. of_nat k * 4096) [j..<j + n]"
    "\<forall>k. page_avail (snd (alloc_n mem_allocate n s)) k \<longleftrightarrow> page_avail s k \<and> \<not> (j \<le> k \<and> k < j + n)"
    using alloc_run [OF assms(1), of j n] assms(5,6) by auto
  have "fst (mem_allocate s) = of_nat j * 4096"
    using run(1) n by (simp add: Let_def case_prod_beta upt_conv_Cons del: upt_Suc)
  moreover have "snd (kmalloc sz s) = snd (alloc_n mem_allocate n s)"
    using assms(2) cnt n by (simp add: kmalloc_def Let_def case_prod_beta)
  ultimately show ?thesis
    using run(2) assms(2) by (simp add: kmalloc_def Let_def case_prod_beta)
qed

theorem kmalloc_contiguous_witness:
  "fst (kmalloc 5000 (kmem_boot 3)) = KERN_MEM + of_nat 3 * 4096 \<and> \<not> page_avail (snd (kmalloc 5000 (kmem_boot 3))) 4"
proof -
  have run: "\<forall>k. 3 \<le> k \<and> k < 3 + 2 \<longrightarrow> page_avail (kmem_boot 3) k" "\<forall>k < 3. \<not> page_avail (kmem_boot 3) k"
    by (auto simp: kmem_boot_avail)
  have ok: "memmap_ok (kmem_boot 3)" by (simp add: kmem_boot_ok)
  have "(0 :: u64) < 5000" "unat (5000 :: u64) < 2 ^ 40" "2 = (unat (5000 :: u64) + 4095) div 4096"
    by simp_all
  from kmalloc_contiguous [OF ok this run] show ?thesis by auto
qed

text \<open>
  \<^verbatim>\<open>kmalloc\<close> never answers \<^verbatim>\<open>NULL\<close> for a positive size, not even when no page is left:
  then it returns \<^verbatim>\<open>KERN_MEM\<close>, the address of the used page \<open>0\<close>.  The callers' null checks
  cannot detect exhaustion.
\<close>

theorem kmalloc_never_null:
  assumes "memmap_ok s" "0 < sz"
  shows "fst (kmalloc sz s) \<noteq> 0 \<and> (free_addrs s = {} \<longrightarrow> fst (kmalloc sz s) = KERN_MEM)"
using assms(1)
proof (cases rule: mem_allocate_cases)
  case full
  then show ?thesis using assms(2) by (simp add: kmalloc_def Let_def case_prod_beta)
next
  case (page j)
  then have "free_addrs s \<noteq> {}" by (auto simp: free_addrs_def)
  with page assms(2) kern_page_nonzero [of j] show ?thesis
    by (simp add: kmalloc_def Let_def case_prod_beta)
qed

theorem kmalloc_never_null_witness:
  "fst (kmalloc 4096 (kmem_boot 3)) \<noteq> 0"
  using kmalloc_never_null [OF kmem_boot_ok [of 3], of 4096] by simp

text \<open>
  When the two lowest free pages are not adjacent, a two-page \<^verbatim>\<open>kmalloc\<close> returns a block
  whose second page is in use already: contiguity is assumed and not checked.
\<close>

theorem kmalloc_fragmented:
  assumes "memmap_ok s" "page_avail s j" "page_avail s k" "Suc j < k"
    and "\<forall>i < k. i \<noteq> j \<longrightarrow> \<not> page_avail s i"
  shows "fst (kmalloc 8192 s) = KERN_MEM + of_nat j * 4096 \<and> \<not> page_avail s (Suc j) \<and>
         memmap (snd (kmalloc 8192 s)) ! Suc j = memmap s ! Suc j \<and>
         \<not> page_avail (snd (kmalloc 8192 s)) k"
proof -
  have lt: "j < MAX_MEM" "k < MAX_MEM" "Suc j < MAX_MEM" using assms(2-4) by (auto simp: page_avail_def)
  have a1: "mem_allocate s = (of_nat j * 4096, take_page j s)"
    using assms by (intro mem_allocate_first) auto
  have ok: "memmap_ok (take_page j s)" using assms(1) lt by (simp add: take_page_ok)
  have a2: "mem_allocate (take_page j s) = (of_nat k * 4096, take_page k (take_page j s))"
    using assms lt by (intro mem_allocate_first ok) (auto simp: take_page_avail)
  have "page_count 8192 = 2" using page_count_small [of 8192] by simp
  then have "nat (page_count 8192 - 1) = Suc 0" by simp
  then have km: "kmalloc 8192 s = (KERN_MEM + of_nat j * 4096, take_page k (take_page j s))"
    by (simp add: kmalloc_def a1 a2)
  have "memmap (take_page k (take_page j s)) ! Suc j = memmap s ! Suc j"
    using assms lt by (simp add: take_page_def)
  moreover have "\<not> page_avail (take_page k (take_page j s)) k"
    using ok lt by (simp add: take_page_avail)
  moreover have "\<not> page_avail s (Suc j)" using assms(4,5) by auto
  ultimately show ?thesis by (simp add: km)
qed

theorem kmalloc_fragmented_witness:
  "fst (kmalloc 8192 (set_avail 3 (kmem_boot 6))) = KERN_MEM + of_nat 3 * 4096 \<and>
   \<not> page_avail (set_avail 3 (kmem_boot 6)) 4"
  using kmalloc_fragmented [OF set_avail_ok [OF kmem_boot_ok [of 6], of 3], of 3 6]
  by (simp add: set_avail_avail kmem_boot_ok kmem_boot_avail)

text \<open>
  \<^verbatim>\<open>mem_free\<close> of a page address marks exactly that page free and keeps the array well
  formed, but leaves its reference count: the page comes back from the next allocation with
  a count of one more than it had when it was freed.
\<close>

theorem mem_free_keeps_ref_cnt:
  assumes "memmap_ok s" "25 \<le> j" "j < MAX_MEM" "\<forall>k < j. \<not> page_avail s k"
  shows "\<exists>s1. mem_free (of_nat j * 4096) s = Inr s1 \<and> memmap_ok s1 \<and>
           (\<forall>k. page_avail s1 k \<longleftrightarrow> page_avail s k \<or> k = j) \<and>
           fst (mem_allocate s1) = of_nat j * 4096 \<and>
           mm_ref_cnt (memmap (snd (mem_allocate s1)) ! j) = mm_ref_cnt (memmap s ! j) + 1"
proof -
  let ?s = "set_avail j s"
  have ok: "memmap_ok ?s" using assms by (intro set_avail_ok) auto
  have av: "page_avail ?s k \<longleftrightarrow> page_avail s k \<or> k = j" for k
    using assms by (intro set_avail_avail)
  have "mem_allocate ?s = (of_nat j * 4096, take_page j ?s)"
    using assms av by (intro mem_allocate_first ok) auto
  then show ?thesis
    using mem_free_page [OF assms(1-3)] ok av take_page_nth [OF ok assms(3) assms(3)] assms(1,3)
    by (simp add: set_avail_def memmap_okD(1))
qed

theorem mem_free_keeps_ref_cnt_witness:
  "\<exists>s1. mem_free (of_nat 25 * 4096) (kmem_boot 30) = Inr s1 \<and> mm_ref_cnt (memmap (snd (mem_allocate s1)) ! 25) = 2"
proof -
  have "mm_ref_cnt (memmap (kmem_boot 30) ! 25) = 1"
    by (simp add: kmem_boot_nth boot_entry_def word_less_nat_alt)
  then show ?thesis
    using mem_free_keeps_ref_cnt [OF kmem_boot_ok [of 30], of 25] by (auto simp: kmem_boot_avail)
qed

text \<open>
  \<^verbatim>\<open>mem_free\<close> called with a page table entry, flag bits included, as \<^verbatim>\<open>page_insert\<close>,
  \<^verbatim>\<open>sys_brk\<close> and \<^verbatim>\<open>page_fault\<close> do, frees nothing: no entry matches an unaligned address.
\<close>

theorem mem_free_entry_leaks:
  assumes "memmap_ok s" "pte AND PAGE_PRESENT \<noteq> 0" "mem_free pte s = Inr s'"
  shows "s' = s"
  using mem_free_unaligned [OF assms(1) present_unaligned [OF assms(2)]] assms(3)
  by (auto split: if_splits)

theorem mem_free_entry_leaks_witness:
  "mem_free 0x1b007 (kmem_boot 30) = Inr (kmem_boot 30)"
proof -
  have ok: "memmap_ok (kmem_boot 30)" by (simp add: kmem_boot_ok)
  obtain s' where s': "mem_free 0x1b007 (kmem_boot 30) = Inr s'"
    by (auto simp: mem_free_def Let_def)
  with mem_free_entry_leaks [OF ok, of "0x1b007" s'] show ?thesis by simp
qed

text \<open>
  \<^verbatim>\<open>page_roundless_4096\<close> clears the page offset.  \<^verbatim>\<open>page_roundoff_4096\<close> yields \<open>0\<close> or the
  least page boundary at or above its argument; for an unaligned argument it yields \<open>0\<close>
  from the last page below \<^verbatim>\<open>END_LIMIT\<close> on.
\<close>

theorem page_rounding:
  "page_roundless_4096 a = page_mask a \<and>
   page_roundoff_4096 a =
     (if a mod 4096 = 0 then a
      else if page_mask a + 4096 < END_LIMIT then page_mask a + 4096 else 0)"
proof -
  have up: "a + (4096 - a mod 4096) = page_mask a + 4096" by (simp add: page_mask_eq)
  have "page_roundless_4096 a = page_mask a"
    by (simp add: page_roundless_4096_def page_mask_eq)
  moreover have "page_roundoff_4096 a =
     (if a mod 4096 = 0 then a
      else if page_mask a + 4096 < END_LIMIT then page_mask a + 4096 else 0)"
    unfolding page_roundoff_4096_def Let_def up by (simp only: not_less [symmetric] if_not_P split: if_split) simp
  ultimately show ?thesis by simp
qed

end
