(* ===== verification/Paging_Claims.thy ===== *)
theory Paging_Claims
  imports Paging_Boot PhysMem_Claims
begin

text \<open>
  The properties of the page tables, and a concrete empty address space they are instantiated with.
\<close>

section \<open>A concrete address space\<close>

text \<open>Page \<open>2\<close> is the root table; pages \<open>3\<close> and up are free; memory is zero.\<close>

abbreviation (input) root2 :: u64 where "root2 \<equiv> of_nat 2 * 4096"

lemma kmem_boot_qmem: "qmem (kmem_boot n) a = 0"
  by (simp add: kmem_boot_def init_memmap_def kmem0_def)

lemma boot_root: "pt_wf [root2 \<mapsto> 4] root2 (kmem_boot 3)" "leaf_entry (kmem_boot 3) 4 root2 v = 0"
  using fresh_root [OF kmem_boot_ok [of 3], of 2] by (simp_all add: kmem_boot_qmem kmem_boot_avail)

lemma boot_room: "500 \<le> card (free_addrs (kmem_boot 3))"
proof -
  have "510 \<le> card (free_addrs (init_memmap (of_nat 3 * 4096) kmem0))"
    by (rule init_room) (simp_all add: kmem0_length)
  then show ?thesis by (simp add: kmem_boot_def)
qed

section \<open>Properties\<close>

text \<open>
  C14. Insert and lookup: after \<^verbatim>\<open>page_insert\<close> succeeds, \<^verbatim>\<open>look_pages\<close> finds the new entry
  for every address of that page, and for every other page what it found before; the tables stay
  well formed.  It succeeds when three pages are free and a replaced present entry lies within
  the page array.
\<close>

theorem page_insert_lookup:
  assumes "pt_wf lev r s" "3 \<le> card (free_addrs s)"
    and "\<And>e. pte_of (KERN_MEM + r) v s = Some e \<Longrightarrow> e AND PAGE_PRESENT \<noteq> 0 \<Longrightarrow>
           unat ((e - INITIAL_MEM) div 4096) < MAX_MEM"
  shows "\<exists>t lev'. page_insert (KERN_MEM + r) v p s = Inr t \<and> pt_wf lev' r t \<and>
           (\<forall>w. pte_of (KERN_MEM + r) w t =
              (if vpn w = vpn v then Some (p OR PAGE_PERM) else pte_of (KERN_MEM + r) w s))"
proof -
  have old: "leaf_entry s 4 r v AND PAGE_PRESENT \<noteq> 0 \<longrightarrow> unat ((leaf_entry s 4 r v - INITIAL_MEM) div 4096) < MAX_MEM"
    using assms(3) pte_of_leaf [OF assms(1), of v] by (auto split: if_splits)
  have room: "0 + 3 \<le> card (free_addrs s)" using assms(2) by simp
  show ?thesis
  proof (rule page_insert_ok [OF assms(1) room old, of p])
    fix lev' t
    assume t: "page_insert (KERN_MEM + r) v p s = Inr t" "pt_wf lev' r t"
      "\<And>w. leaf_entry t 4 r w = (if vpn w = vpn v then p OR 7 else leaf_entry s 4 r w)"
    then show ?thesis
      by (intro exI [of _ t] exI [of _ lev']) (simp add: pte_of_leaf [OF t(2)] pte_of_leaf [OF assms(1)] entry_nonzero)
  qed
qed

theorem page_insert_lookup_witness:
  "\<exists>t. page_insert (KERN_MEM + root2) 0x400000 0x5000 (kmem_boot 3) = Inr t \<and>
     pte_of (KERN_MEM + root2) 0x400123 t = Some 0x5007 \<and> pte_of (KERN_MEM + root2) 0x401000 t = None"
proof -
  have n: "pte_of (KERN_MEM + root2) w (kmem_boot 3) = None" for w
    using pte_of_leaf [OF boot_root(1)] boot_root(2) by simp
  obtain t where t: "page_insert (KERN_MEM + root2) 0x400000 0x5000 (kmem_boot 3) = Inr t"
    "\<And>w. pte_of (KERN_MEM + root2) w t = (if vpn w = vpn 0x400000 then Some (0x5000 OR PAGE_PERM)
        else pte_of (KERN_MEM + root2) w (kmem_boot 3))"
    using page_insert_lookup [OF boot_root(1), of "0x400000" "0x5000"] boot_room n by auto
  have "vpn 0x400123 = vpn 0x400000" "vpn 0x401000 \<noteq> vpn 0x400000" by (simp_all add: vpn_def)
  with t(1) t(2) [of "0x400123"] t(2) [of "0x401000"] n [of "0x401000"] show ?thesis
    by (intro exI [of _ t]) simp
qed

text \<open>
  Walking is transparent: \<^verbatim>\<open>walk_pages\<close> may add empty tables, but no lookup changes, the
  tables stay well formed, and the slot it returns holds the address's current entry.
\<close>

theorem walk_pages_transparent:
  assumes "pt_wf lev r s" "3 \<le> card (free_addrs s)"
  shows "\<exists>pte t lev'. walk_pages (KERN_MEM + r) v s = (pte, t) \<and> pt_wf lev' r t \<and>
           (\<forall>w. pte_of (KERN_MEM + r) w t = pte_of (KERN_MEM + r) w s) \<and>
           (ldq pte t \<noteq> 0 \<longrightarrow> pte_of (KERN_MEM + r) v s = Some (ldq pte t)) \<and>
           (ldq pte t = 0 \<longrightarrow> pte_of (KERN_MEM + r) v s = None)"
proof -
  have room: "0 + 3 \<le> card (free_addrs s)" using assms(2) by simp
  obtain c lev' t where w: "walk_pages (KERN_MEM + r) v s = (elt (KERN_MEM + c) (idx v (Suc 0)), t)"
    "pt_wf lev' r t" "lev' c = Some (Suc 0)" "leaf_table t 4 r v = Some c" "frame c" "extends r s t"
    by (rule walk_pages_ok [OF assms(1) room])
  have le: "leaf_entry t 4 r u = leaf_entry s 4 r u" for u using w(6) by (simp add: extends_def)
  show ?thesis
    using w(1,2) leaf_entry_wr(4) [OF w(1-6)]
    by (intro exI [of _ "elt (KERN_MEM + c) (idx v (Suc 0))"] exI [of _ t] exI [of _ lev'])
      (simp add: pte_of_leaf [OF w(2)] pte_of_leaf [OF assms(1)] le)
qed

theorem walk_pages_transparent_witness:
  "\<exists>pte t. walk_pages (KERN_MEM + root2) 0x400000 (kmem_boot 3) = (pte, t) \<and>
     (\<forall>w. pte_of (KERN_MEM + root2) w t = pte_of (KERN_MEM + root2) w (kmem_boot 3))"
  using walk_pages_transparent [OF boot_root(1), of "0x400000"] boot_room by auto

text \<open>
  \<^verbatim>\<open>map_kernel\<close> maps a run of \<open>n\<close> pages linearly: page \<open>i\<close> of the virtual range gets page \<open>i\<close>
  of the physical range, every other lookup is unchanged, provided the tables missing for the
  range can be allocated.
\<close>

theorem map_kernel_linear:
  assumes "pt_plan r (pages (page_mask logical) n) s" "page_mask logical \<noteq> 0"
    and "unat (page_roundoff_4096 sz) = n * 4096" "n < 2 ^ 19"
  shows "\<exists>t. map_kernel (KERN_MEM + r) logical phys sz s = Inr t \<and>
           (\<forall>i < n. pte_of (KERN_MEM + r) (page_mask logical + 4096 * of_nat i) t =
              Some ((page_mask phys + 4096 * of_nat i) OR PAGE_PERM)) \<and>
           (\<forall>w. (\<forall>i < n. vpn w \<noteq> vpn (page_mask logical + 4096 * of_nat i)) \<longrightarrow>
              pte_of (KERN_MEM + r) w t = pte_of (KERN_MEM + r) w s)"
proof -
  have plan: "pt_plan r (pages (page_mask logical) n @ []) s" using assms(1) by simp
  obtain t where t: "map_kernel (KERN_MEM + r) logical phys sz s = Inr t" "pt_plan r [] t"
    "\<And>i. i < n \<Longrightarrow> leaf_entry t 4 r (page_mask logical + 4096 * of_nat i) = (page_mask phys + 4096 * of_nat i) OR 7"
    "\<And>w. (\<And>i. i < n \<Longrightarrow> vpn w \<noteq> vpn (page_mask logical + 4096 * of_nat i)) \<Longrightarrow> leaf_entry t 4 r w = leaf_entry s 4 r w"
    using map_kernel_ok [OF plan assms(2-4)] by blast
  obtain lev where lev: "pt_wf lev r s" using assms(1) by (auto simp: pt_plan_def)
  obtain lev' where lev': "pt_wf lev' r t" using t(2) by (auto simp: pt_plan_def)
  show ?thesis
    using t(1,3,4) by (intro exI [of _ t]) (simp add: pte_of_leaf [OF lev] pte_of_leaf [OF lev'] entry_nonzero)
qed

theorem map_kernel_linear_witness:
  "\<exists>t. map_kernel (KERN_MEM + root2) 0x400000 0x5000 4096 (kmem_boot 3) = Inr t \<and>
     pte_of (KERN_MEM + root2) 0x400000 t = Some 0x5007"
proof -
  have m: "page_mask 0x400000 = 0x400000" "page_mask 0x5000 = 0x5000" by (simp_all add: page_mask_def)
  have "card (missing root2 (pages 0x400000 1) (kmem_boot 3)) \<le> card (block ` set (pages 0x400000 1))"
    unfolding missing_def by (rule card_mono) auto
  then have "pt_plan root2 (pages 0x400000 1) (kmem_boot 3)"
    using boot_root(1) boot_room unfolding pt_plan_def by (intro exI [of _ "[root2 \<mapsto> 4]"]) simp
  then show ?thesis
    using map_kernel_linear [of root2 "0x400000" 1 "kmem_boot 3" 4096 "0x5000"]
    unfolding m by (auto simp: page_roundoff_4096_def)
qed

text \<open>
  \<^verbatim>\<open>kmalloc_user_space\<close> maps every page of an unmapped range, each to a page that was free,
  no two to the same one, and leaves all other lookups alone.
\<close>

theorem kmalloc_user_space_fresh:
  assumes "pt_wf lev r s" "page_count sz = int n" "4 * n \<le> card (free_addrs s)" "n \<le> 2 ^ 36"
    and "\<And>i. i < n \<Longrightarrow> pte_of (KERN_MEM + r) (v + 4096 * of_nat i) s = None"
  shows "\<exists>t f. kmalloc_user_space (KERN_MEM + r) v sz s = Inr t \<and>
           (\<forall>i < n. f i \<in> free_addrs s \<and> pte_of (KERN_MEM + r) (v + 4096 * of_nat i) t = Some (f i OR PAGE_PERM)) \<and>
           inj_on f {..<n} \<and>
           (\<forall>w. (\<forall>i < n. vpn w \<noteq> vpn (v + 4096 * of_nat i)) \<longrightarrow>
              pte_of (KERN_MEM + r) w t = pte_of (KERN_MEM + r) w s)"
proof -
  obtain t f where t: "map_range (user_body r) n v s = Inr t"
    "\<forall>i < n. f i \<in> free_addrs s \<and> pte_of (KERN_MEM + r) (v + 4096 * of_nat i) t = Some (f i OR 7)"
    "inj_on f {..<n}"
    "\<forall>w. (\<forall>i < n. vpn w \<noteq> vpn (v + 4096 * of_nat i)) \<longrightarrow> pte_of (KERN_MEM + r) w t = pte_of (KERN_MEM + r) w s"
    using user_range_fresh [OF assms(1,3,4,5)] by blast
  moreover have "kmalloc_user_space (KERN_MEM + r) v sz s = Inr t"
    using t(1) assms(2) by (simp add: kmalloc_user_space_def kmalloc_user_loop_range)
  ultimately show ?thesis by (intro exI [of _ t] exI [of _ f]) simp
qed

theorem kmalloc_user_space_fresh_witness:
  "\<exists>t a. kmalloc_user_space (KERN_MEM + root2) 0xeffff000 4096 (kmem_boot 3) = Inr t \<and>
     a \<in> free_addrs (kmem_boot 3) \<and> pte_of (KERN_MEM + root2) 0xeffff000 t = Some (a OR PAGE_PERM)"
proof -
  have "page_count 4096 = int 1" using page_count_small [of 4096] by simp
  moreover have "pte_of (KERN_MEM + root2) w (kmem_boot 3) = None" for w
    using pte_of_leaf [OF boot_root(1)] boot_root(2) by simp
  ultimately show ?thesis
    using kmalloc_user_space_fresh [OF boot_root(1), of 4096 1 "0xeffff000"] boot_room by auto
qed

text \<open>
  C15. The kernel's address space: when the memory above \<^verbatim>\<open>physfree\<close> is zero, \<^verbatim>\<open>mem_init\<close>
  succeeds and maps \<^verbatim>\<open>KERN_MEM + x\<close> to \<open>x\<close> for all memory from \<^verbatim>\<open>physbase\<close> to
  \<^verbatim>\<open>END_LIMIT\<close> and for the two pages of video memory, and no other address of that window.
\<close>

theorem mem_init_maps_kernel:
  assumes "length (memmap s) = MAX_MEM" "0 < physfree" "physfree \<le> 32000 * 4096" "pb \<le> 32766"
    and "\<And>k i. k < MAX_MEM \<Longrightarrow> physfree \<le> of_nat k * 4096 \<Longrightarrow> i < 512 \<Longrightarrow> qmem s (elt (of_nat k * 4096) i) = 0"
  shows "\<exists>t. mem_init (of_nat pb * 4096) physfree s = Inr t \<and> pml4e t = KERN_MEM + cr3_addr t \<and>
           (\<forall>x < 2 ^ 27. pte_of (pml4e t) (KERN_MEM + of_nat x) t =
              (if mapped pb x then Some (page_mask (of_nat x) OR PAGE_PERM) else None))"
proof -
  obtain t lev where t: "mem_init (of_nat pb * 4096) physfree s = Inr t" "pml4e t = KERN_MEM + cr3_addr t"
    "pt_wf lev (cr3_addr t) t" "\<And>x. x < 2 ^ 27 \<Longrightarrow> leaf_entry t 4 (cr3_addr t) (KERN_MEM + of_nat x) =
              (if mapped pb x then page_mask (of_nat x) OR 7 else 0)"
    using mem_init_ok [OF assms(1-3,5,4)] by blast
  then show ?thesis
    by (intro exI [of _ t]) (simp add: pte_of_leaf [OF t(3)] entry_nonzero)
qed

theorem mem_init_maps_kernel_witness:
  "\<exists>t. mem_init (of_nat 512 * 4096) 0x300000 kmem0 = Inr t \<and>
     pte_of (pml4e t) (KERN_MEM + of_nat 0x201234) t = Some 0x201007"
proof -
  have "\<exists>t. mem_init (of_nat 512 * 4096) 0x300000 kmem0 = Inr t \<and> pml4e t = KERN_MEM + cr3_addr t \<and>
      (\<forall>x < 2 ^ 27. pte_of (pml4e t) (KERN_MEM + of_nat x) t =
              (if mapped 512 x then Some (page_mask (of_nat x) OR PAGE_PERM) else None))"
    by (rule mem_init_maps_kernel) (simp_all add: kmem0_def)
  then obtain t where t: "mem_init (of_nat 512 * 4096) 0x300000 kmem0 = Inr t"
    "\<forall>x < 2 ^ 27. pte_of (pml4e t) (KERN_MEM + of_nat x) t =
        (if mapped 512 x then Some (page_mask (of_nat x) OR PAGE_PERM) else None)" by blast
  from t(2) [rule_format, of "0x201234"] t(1) show ?thesis
    by (intro exI [of _ t]) (simp add: mapped_def page_mask_def)
qed

text \<open>
  New tables are not cleared: when the page taken for a missing table still has contents, a
  walk one level down leaves them in place, so stale words become entries of the new table.
\<close>

theorem walk_level_keeps_stale:
  assumes "memmap_ok s" "page_avail s j" "\<And>k. k < j \<Longrightarrow> \<not> page_avail s k"
    and "frame b" "i < 512" "qmem s (elt b i) = 0" "b \<noteq> of_nat j * 4096"
  shows "\<exists>t. walk_level (KERN_MEM + b) i s = (KERN_MEM + of_nat j * 4096, t) \<and>
           (\<forall>i' < 512. ldq (elt (KERN_MEM + of_nat j * 4096) i') t = qmem s (elt (of_nat j * 4096) i'))"
proof -
  let ?a = "of_nat j * 4096 :: u64"
  have fa: "frame ?a" by (rule avail_frame [OF assms(2)])
  have jm: "j < MAX_MEM" using assms(2) by (simp add: page_avail_def)
  have "0 < j" using assms(2) memmap_okD(3) [OF assms(1)] by (cases j) auto
  then have nz: "?a \<noteq> 0" using page_addr_inject [of j 0] jm by simp
  have "walk_level (KERN_MEM + b) i s = (KERN_MEM + ?a, enter_table b i j s)"
    using assms(4-6) nz fa mem_allocate_first [OF assms(1-3)]
    by (simp add: walk_level_def ldq_table stq_table enter_table_def table_of_frame)
  moreover have "ldq (elt (KERN_MEM + ?a) i') (enter_table b i j s) = qmem s (elt ?a i')" if "i' < 512" for i'
    using that assms(7) elt_inject [OF fa assms(4) that assms(5)] by (simp add: ldq_table [OF fa that])
  ultimately show ?thesis by blast
qed

theorem walk_level_keeps_stale_witness:
  "\<exists>t. walk_level (KERN_MEM + root2) 0 ((kmem_boot 3)\<lparr>qmem := (qmem (kmem_boot 3))(elt (of_nat 3 * 4096) 5 := 0xdead)\<rparr>)
        = (KERN_MEM + of_nat 3 * 4096, t) \<and> ldq (elt (KERN_MEM + of_nat 3 * 4096) 5) t = 0xdead"
proof -
  let ?s = "(kmem_boot 3)\<lparr>qmem := (qmem (kmem_boot 3))(elt (of_nat 3 * 4096) 5 := 0xdead)\<rparr>"
  have "memmap_ok ?s" "page_avail ?s = page_avail (kmem_boot 3)"
    using kmem_boot_ok [of 3] by (auto simp: memmap_ok_def page_avail_def fun_eq_iff)
  moreover have "frame root2" unfolding frame_def by (intro exI [of _ 2]) simp
  ultimately obtain t where t: "walk_level (KERN_MEM + root2) 0 ?s = (KERN_MEM + of_nat 3 * 4096, t)"
    "\<forall>i' < 512. ldq (elt (KERN_MEM + of_nat 3 * 4096) i') t = qmem ?s (elt (of_nat 3 * 4096) i')"
    using walk_level_keeps_stale [of ?s 3 root2 0] by (auto simp: kmem_boot_avail kmem_boot_qmem elt_def)
  from t(2) [rule_format, of 5] t(1) show ?thesis by simp
qed

end
