(* ===== verification/Cow_Claims.thy ===== *)
theory Cow_Claims
  imports Cow_Props Paging_Claims Sched_Props
begin

text \<open>
  The properties of copy on write and of page faults, with a kernel state they are instantiated
  with: the address space of page 2 with one shared page.
\<close>

section \<open>The copying fault on memory\<close>

lemma dec_ref_wf:
  assumes wf: "pt_wf lev r m" and i: "i < MAX_MEM"
    and m1_def: "m1 = m\<lparr>memmap := (memmap m)[i := (memmap m ! i)\<lparr>mm_ref_cnt := x\<rparr>]\<rparr>"
  shows "pt_wf lev r m1" "\<And>v. leaf_entry m1 4 r v = leaf_entry m 4 r v"
    "leaf_table m1 4 r v = leaf_table m 4 r v" "page_avail m1 = page_avail m"
proof -
  have ok: "memmap_ok m1" "page_avail m1 = page_avail m"
    using pt_wfD(1) [OF wf] i by (auto simp: m1_def memmap_ok_def page_avail_def fun_eq_iff nth_list_update)
  have q: "qmem m1 = qmem m" by (simp add: m1_def)
  note res = pt_wf_same_tables [OF wf ok]
  show "pt_wf lev r m1" by (rule res(1)) (simp_all add: q)
  show "leaf_entry m1 4 r v = leaf_entry m 4 r v" for v by (rule res(3)) (simp_all add: q)
  show "leaf_table m1 4 r v = leaf_table m 4 r v"
    using res(2) [where b = r and k = 3 and v = v] pt_wfD(2) [OF wf] by (simp add: q)
  show "page_avail m1 = page_avail m" by (rule ok)
qed

lemma cow_fault_copy:
  assumes wf: "pt_wf lev r m" and e: "leaf_entry m 4 r v = e" "e \<noteq> 0"
    and i: "i < MAX_MEM" "\<not> page_avail m i" "lev (of_nat i * 4096) = None"
    and cnt: "mm_ref_cnt (memmap m ! i) \<noteq> 1" and free: "free_addrs m \<noteq> {}" and v: "page_mask v \<noteq> 0"
  shows "\<exists>m' lev' j. cow_fault (KERN_MEM + r) v pte (of_nat i * 4096) i m = Inr m' \<and> page_avail m j \<and> pt_wf lev' r m' \<and>
           (\<forall>w. leaf_entry m' 4 r w = (if vpn w = vpn v then (of_nat j * 4096) OR 7 else leaf_entry m 4 r w)) \<and>
           (\<forall>l < 512. qmem m' (elt (of_nat j * 4096) (of_nat l)) = qmem m (elt (of_nat i * 4096) (of_nat l))) \<and>
           (\<forall>l < 512. qmem m' (elt (of_nat i * 4096) (of_nat l)) = qmem m (elt (of_nat i * 4096) (of_nat l))) \<and>
           mm_ref_cnt (memmap m' ! i) = mm_ref_cnt (memmap m ! i) - 1 \<and>
           mm_ref_cnt (memmap m' ! j) = mm_ref_cnt (memmap m ! j) + 1"
proof -
  define m1 where "m1 = m\<lparr>memmap := (memmap m)[i := (memmap m ! i)\<lparr>mm_ref_cnt := mm_ref_cnt (memmap m ! i) - 1\<rparr>]\<rparr>"
  note m1 = dec_ref_wf [OF wf i(1) m1_def]
  note ok1 = pt_wfD(1) [OF m1(1)]
  have ne: "free_addrs m1 \<noteq> {}" using free m1(4) by (simp add: free_addrs_def)
  obtain j where j: "page_avail m1 j" "mem_allocate m1 = (of_nat j * 4096, take_page j m1)" "j < MAX_MEM"
    using ne by (cases rule: mem_allocate_cases [OF ok1]) (auto simp: free_addrs_def)
  let ?a = "of_nat j * 4096 :: u64" and ?b = "of_nat i * 4096 :: u64" and ?m2 = "take_page j m1"
  have pos: "0 < card (free_addrs m1)" using ne pa.free_finite [OF ok1] by (simp add: card_gt_0_iff)
  have m2: "pt_wf lev r ?m2" "leaf_entry ?m2 4 r w = leaf_entry m 4 r w" "free_addrs ?m2 = free_addrs m1 - {?a}" for w
    using alloc_wf [OF m1(1) pos] j(2) m1(2) by simp_all
  have fa: "frame ?a" and fb: "frame ?b" using avail_frame [OF j(1)] i(1) by (auto simp: frame_def)
  have ab: "?a \<noteq> ?b" using page_addr_inject [OF j(3) i(1)] j(1) i(2) m1(4) by auto
  have la: "lev ?a = None" by (rule avail_not_table [OF m1(1) j(1)])
  define m3 where "m3 = copy_page (KERN_MEM + ?a) (KERN_MEM + ?b) ?m2"
  have "?a \<notin> free_addrs ?m2" by (simp add: m2(3))
  note m3 = copy_page_wf [OF m2(1) fa la this fb ab, folded m3_def]
  note cp = copy_page_ok [OF fa fb ab, of ?m2, folded m3_def]
  have le3: "leaf_entry m3 4 r w = leaf_entry m 4 r w" for w using m3(2) m2(2) by simp
  obtain c where c: "leaf_table m3 4 r v = Some c"
    using le3 [of v] e by (cases "leaf_table m3 4 r v") (auto simp: leaf_entry_def)
  have cm: "leaf_table m3 4 r (page_mask v) = Some c" using leaf_table_vpn [OF vpn_page_mask] c by simp
  have lc: "lev c = Some (Suc 0)"
    using leaf_table_level [OF m3(1), of r 3 v c] pt_wfD(2) [OF m3(1)] c by simp
  have fc: "frame c" by (rule pt_wfD(3) [OF m3(1) lc])
  let ?i = "idx (page_mask v) (Suc 0)"
  define m' where "m' = m3\<lparr>qmem := (qmem m3)(elt c ?i := ?a OR 7)\<rparr>"
  have "cow_fault (KERN_MEM + r) v pte ?b i m = map_kernel (KERN_MEM + r) v ?a PAGE_SIZE m3"
    using cnt j(2) by (simp add: cow_fault_def m1_def [symmetric] m3_def add.commute)
  also have "\<dots> = Inr m'"
    using map_kernel_one [OF m3(1) cm fa v] stq_table [OF fc idx_less] by (simp add: m'_def)
  finally have run: "cow_fault (KERN_MEM + r) v pte ?b i m = Inr m'" .
  have wf': "pt_wf lev r m'" unfolding m'_def by (rule leaf_write_wf [OF m3(1) lc idx_less])
  have le': "leaf_entry m' 4 r w = (if vpn w = vpn v then ?a OR 7 else leaf_entry m 4 r w)" for w
    using leaf_write_entry [OF m3(1) cm, of "?a OR 7" w] le3 by (simp add: m'_def vpn_page_mask)
  have out: "qmem m' (elt b (of_nat l)) = qmem m3 (elt b (of_nat l))" if "l < 512" "frame b" "lev b = None" for b l
  proof -
    have "b \<noteq> c" using that(3) lc by auto
    then show ?thesis using elt_inject [OF that(2) fc nat_idx [OF that(1)] idx_less] by (simp add: m'_def)
  qed
  have q2: "qmem ?m2 = qmem m" by (simp add: m1_def)
  have copied: "qmem m' (elt ?a (of_nat l)) = qmem m (elt ?b (of_nat l))" if "l < 512" for l
    using out [OF that fa la] cp that q2 by simp
  have kept: "qmem m' (elt ?b (of_nat l)) = qmem m (elt ?b (of_nat l))" if "l < 512" for l
  proof -
    have "elt ?b (of_nat l) \<noteq> elt ?a (of_nat l')" if "l' < 512" for l'
      using slot_inject [OF fb fa \<open>l < 512\<close> that] ab by simp
    then show ?thesis using out [OF that fb i(3)] cp q2 by simp
  qed
  have mm: "memmap m' = memmap ?m2" using cp by (simp add: m'_def)
  have ij: "i \<noteq> j" using ab by auto
  have "mm_ref_cnt (memmap m' ! i) = mm_ref_cnt (memmap m ! i) - 1" "mm_ref_cnt (memmap m' ! j) = mm_ref_cnt (memmap m ! j) + 1"
    using take_page_nth [OF ok1 j(3) i(1)] take_page_nth [OF ok1 j(3) j(3)] ij memmap_okD(1) [OF pt_wfD(1) [OF wf]] i(1)
    by (simp_all add: mm) (simp_all add: m1_def)
  moreover have "page_avail m j" using j(1) m1(4) by simp
  ultimately show ?thesis using run wf' le' copied kept by blast
qed

section \<open>A concrete shared page\<close>

text \<open>
  Pages 2 to 5 are the tables of an address space that maps the address 4096 read-only to page 6,
  which has two references.
\<close>

definition lev_shared :: "u64 \<rightharpoonup> nat" where
  "lev_shared = [0x2000 \<mapsto> 4, 0x3000 \<mapsto> 3, 0x4000 \<mapsto> 2, 0x5000 \<mapsto> 1]"

definition mem_shared :: kmem where
  "mem_shared = (kmem_boot 7)\<lparr>
     memmap := (memmap (kmem_boot 7))[6 := (memmap (kmem_boot 7) ! 6)\<lparr>mm_ref_cnt := 2, mm_cow_flag := True\<rparr>],
     qmem := (\<lambda>_. 0)(0x2000 := 0x3007, 0x3000 := 0x4007, 0x4000 := 0x5007, 0x5008 := 0x6005)\<rparr>"

definition kernel_shared :: kernel where
  "kernel_shared = \<lparr>k_sched = boot0\<lparr>tasks := \<lambda>_. blank_task\<lparr>t_pml4e_addr := KERN_MEM + 0x2000\<rparr>\<rparr>,
     k_mem = mem_shared, vmas = \<lambda>_. \<lparr>vm_start = 0, vm_end = 0, vm_mmsz = 0, vm_file = 0, vm_offset = 0, vm_next = 0\<rparr>,
     mms = \<lambda>_. \<lparr>vma_addr = 0, mm_cnt = 0\<rparr>, avail_pid = 0,
     k_tty = tty0, k_clock = clock0, tarfs_ind = tab0\<rparr>"

lemma small_frame: "j < MAX_MEM \<Longrightarrow> frame (of_nat j * 4096)"
  by (auto simp: frame_def)

lemma shared_frames: "frame 0x2000" "frame 0x3000" "frame 0x4000" "frame 0x5000" "frame 0x6000"
  using small_frame [of 2] small_frame [of 3] small_frame [of 4] small_frame [of 5] small_frame [of 6] by simp_all

lemma mem_shared_avail: "page_avail mem_shared k \<longleftrightarrow> 7 \<le> k \<and> k < MAX_MEM"
  using kmem_boot_avail [of 7 k] memmap_okD(1) [OF kmem_boot_ok [of 7]]
  by (auto simp: mem_shared_def page_avail_def nth_list_update)

lemma mem_shared_ok: "memmap_ok mem_shared"
  using kmem_boot_ok [of 7] by (auto simp: mem_shared_def memmap_ok_def nth_list_update)

lemma mem_shared_entry:
  assumes "frame b" "i < 512"
  shows "qmem mem_shared (elt b i) =
    (if b = 0x2000 \<and> i = 0 then 0x3007 else if b = 0x3000 \<and> i = 0 then 0x4007
     else if b = 0x4000 \<and> i = 0 then 0x5007 else if b = 0x5000 \<and> i = 1 then 0x6005 else 0)"
proof -
  have z: "elt 0x2000 0 = 0x2000" "elt 0x3000 0 = 0x3000" "elt 0x4000 0 = 0x4000" "elt 0x5000 1 = 0x5008"
    by (simp_all add: elt_def)
  have i: "elt b i = 0x2000 \<longleftrightarrow> b = 0x2000 \<and> i = 0" "elt b i = 0x3000 \<longleftrightarrow> b = 0x3000 \<and> i = 0"
    "elt b i = 0x4000 \<longleftrightarrow> b = 0x4000 \<and> i = 0" "elt b i = 0x5008 \<longleftrightarrow> b = 0x5000 \<and> i = 1"
    using elt_inject [OF assms(1) shared_frames(1) assms(2), of 0] elt_inject [OF assms(1) shared_frames(2) assms(2), of 0]
      elt_inject [OF assms(1) shared_frames(3) assms(2), of 0] elt_inject [OF assms(1) shared_frames(4) assms(2), of 1]
    by (simp_all add: z)
  show ?thesis by (auto simp: mem_shared_def i z)
qed

lemma mem_shared_wf: "pt_wf lev_shared 0x2000 mem_shared"
proof (rule pt_wfI)
  fix b k assume "lev_shared b = Some k"
  then have "b \<in> {of_nat 2 * 4096, of_nat 3 * 4096, of_nat 4 * 4096, of_nat 5 * 4096}"
    by (auto simp: lev_shared_def split: if_splits)
  then have "\<exists>j \<in> {2, 3, 4, 5}. b = of_nat j * 4096" by (simp only: bex_simps insert_iff empty_iff)
  then obtain j where "j \<in> {2, 3, 4, 5}" "b = of_nat j * 4096" by blast
  moreover from this(1) have "j < 7" by auto
  ultimately show "\<exists>j < MAX_MEM. b = of_nat j * 4096 \<and> \<not> page_avail mem_shared j"
    by (intro exI [of _ j]) (simp add: mem_shared_avail)
next
  fix b k i assume "lev_shared b = Some k" "1 < k" "i < 512" "qmem mem_shared (elt b i) \<noteq> 0"
  moreover have "frame b" using \<open>lev_shared b = Some k\<close> shared_frames by (auto simp: lev_shared_def split: if_splits)
  ultimately show "\<exists>c. qmem mem_shared (elt b i) = c OR 7 \<and> lev_shared c = Some (k - 1)"
    by (auto simp: mem_shared_entry lev_shared_def split: if_splits
        intro: exI [of _ "0x3000"] exI [of _ "0x4000"] exI [of _ "0x5000"])
next
  fix b k i b' k' i'
  assume "lev_shared b = Some k" "i < 512" "lev_shared b' = Some k'" "i' < 512"
    "qmem mem_shared (elt b i) \<noteq> 0" "qmem mem_shared (elt b i) = qmem mem_shared (elt b' i')"
  moreover have "frame b" "frame b'"
    using calculation(1,3) shared_frames by (auto simp: lev_shared_def split: if_splits)
  ultimately show "b = b' \<and> i = i'" by (auto simp: mem_shared_entry split: if_splits)
next
  fix j and i :: u64 assume j: "page_avail mem_shared j" "i < 512"
  have "of_nat j * 4096 \<noteq> (of_nat n * 4096 :: u64)" if "n < 7" for n
    using that j(1) page_addr_inject [of j n] by (auto simp: mem_shared_avail)
  from this [of 2] this [of 3] this [of 4] this [of 5] mem_shared_entry [OF avail_frame [OF j(1)] j(2)]
  show "qmem mem_shared (elt (of_nat j * 4096) i) = 0" by simp
qed (simp_all add: mem_shared_ok lev_shared_def)

lemma mem_shared_leaf: "leaf_entry mem_shared 4 0x2000 0x1000 = 0x6005"
proof -
  have i: "idx 0x1000 (Suc 0) = 1" "idx 0x1000 (Suc (Suc 0)) = 0" "idx 0x1000 (Suc (Suc (Suc 0))) = 0"
    "idx 0x1000 (Suc (Suc (Suc (Suc 0)))) = 0" by (simp_all add: idx_def addr_res_def)
  have t: "table_of 0x3007 = KERN_MEM + 0x3000" "table_of 0x4007 = KERN_MEM + 0x4000" "table_of 0x5007 = KERN_MEM + 0x5000"
    by (simp_all add: table_of_def page_mask_def)
  have four: "4 = Suc (Suc (Suc (Suc 0)))" by simp
  show ?thesis
    unfolding leaf_entry_def four by (simp add: Let_def i t mem_shared_entry shared_frames)
qed

lemma mem_shared_page6: "memmap mem_shared ! 6 = (memmap (kmem_boot 7) ! 6)\<lparr>mm_ref_cnt := 2, mm_cow_flag := True\<rparr>"
  using memmap_okD(1) [OF kmem_boot_ok [of 7]] by (simp add: mem_shared_def)

lemma mem_shared_free: "free_addrs mem_shared \<noteq> {}"
  unfolding free_addrs_def using mem_shared_avail [of 7] by auto

lemma mem_shared_pte: "pte_of (KERN_MEM + 0x2000) 0x1000 mem_shared = Some 0x6005"
  using pte_of_leaf [OF mem_shared_wf, of "0x1000"] mem_shared_leaf by simp

section \<open>Properties\<close>

text \<open>
  C19. Sharing a leaf table on fork: the innermost loop of \<^verbatim>\<open>cow_walk_pages\<close> leaves parent and
  child with the same entry for every present page, without the write permission; entries that
  are not present stay as they were; every page gets one more reference for each entry that
  points to it and is marked copy-on-write; no other memory changes.
\<close>

theorem cow_shares_leaf_table:
  assumes "memmap_ok s" "frame b" "frame c" "b \<noteq> c"
    and "\<And>l. l < 512 \<Longrightarrow> present (qmem s (elt b (of_nat l))) \<Longrightarrow>
           \<exists>j < MAX_MEM. page_mask (qmem s (elt b (of_nat l))) = of_nat j * 4096"
  shows "\<exists>t. cow_pt (KERN_MEM + b) (KERN_MEM + c) s = Inr t \<and>
           (\<forall>l < 512. present (qmem s (elt b (of_nat l))) \<longrightarrow>
              qmem t (elt b (of_nat l)) = read_only (qmem s (elt b (of_nat l))) \<and>
              qmem t (elt c (of_nat l)) = qmem t (elt b (of_nat l))) \<and>
           (\<forall>l < 512. \<not> present (qmem s (elt b (of_nat l))) \<longrightarrow>
              qmem t (elt b (of_nat l)) = qmem s (elt b (of_nat l)) \<and>
              qmem t (elt c (of_nat l)) = qmem s (elt c (of_nat l))) \<and>
           (\<forall>j < MAX_MEM. mm_ref_cnt (memmap t ! j) = mm_ref_cnt (memmap s ! j) + of_nat (card (refs s b 512 j)) \<and>
              (mm_cow_flag (memmap t ! j) \<longleftrightarrow> mm_cow_flag (memmap s ! j) \<or> refs s b 512 j \<noteq> {}) \<and>
              mm_res_flag (memmap t ! j) = mm_res_flag (memmap s ! j)) \<and>
           (\<forall>a. (\<forall>l < 512. a \<noteq> elt b (of_nat l) \<and> a \<noteq> elt c (of_nat l)) \<longrightarrow> qmem t a = qmem s a)"
  using cow_pt_shared [OF assms] by (auto simp: shared_def)

theorem cow_shares_leaf_table_witness:
  "\<exists>t. cow_pt (KERN_MEM + 0x5000) (KERN_MEM + 0x6000) mem_shared = Inr t \<and> qmem t (elt 0x6000 (of_nat 1)) = 0x6005"
proof -
  have pr: "present (qmem mem_shared (elt 0x5000 (of_nat l))) \<Longrightarrow>
      \<exists>j < MAX_MEM. page_mask (qmem mem_shared (elt 0x5000 (of_nat l))) = of_nat j * 4096" if "l < 512" for l
  proof -
    assume "present (qmem mem_shared (elt 0x5000 (of_nat l)))"
    then have "qmem mem_shared (elt 0x5000 (of_nat l)) = 0x6005"
      using mem_shared_entry [OF shared_frames(4) nat_idx [OF that]] by (auto simp: present_def split: if_splits)
    then show ?thesis by (intro exI [of _ 6]) (simp add: page_mask_def)
  qed
  have e: "qmem mem_shared (elt 0x5000 (of_nat 1)) = 0x6005"
    using mem_shared_entry [OF shared_frames(4), of 1] by simp
  have "\<exists>t. cow_pt (KERN_MEM + 0x5000) (KERN_MEM + 0x6000) mem_shared = Inr t \<and>
     (\<forall>l < 512. present (qmem mem_shared (elt 0x5000 (of_nat l))) \<longrightarrow>
        qmem t (elt 0x5000 (of_nat l)) = read_only (qmem mem_shared (elt 0x5000 (of_nat l))) \<and>
        qmem t (elt 0x6000 (of_nat l)) = qmem t (elt 0x5000 (of_nat l)))"
    using cow_shares_leaf_table [OF mem_shared_ok shared_frames(4,5) _ pr] by auto
  then obtain t where t: "cow_pt (KERN_MEM + 0x5000) (KERN_MEM + 0x6000) mem_shared = Inr t"
    "\<forall>l < 512. present (qmem mem_shared (elt 0x5000 (of_nat l))) \<longrightarrow>
        qmem t (elt 0x5000 (of_nat l)) = read_only (qmem mem_shared (elt 0x5000 (of_nat l))) \<and>
        qmem t (elt 0x6000 (of_nat l)) = qmem t (elt 0x5000 (of_nat l))" by blast
  have "present 0x6005" "read_only 0x6005 = 0x6005" by (simp_all add: present_def read_only_def)
  with t(2) [rule_format, of 1] e have "qmem t (elt 0x6000 (of_nat 1)) = 0x6005" by simp
  with t(1) show ?thesis by blast
qed

text \<open>
  C18. A write to a shared page: the faulting process gets its own copy.  The page fault handler
  takes a free page, copies all 512 quadwords, maps the copy writable at the faulting page and at
  no other, leaves the shared page's contents alone and gives up one reference to it.
\<close>

theorem cow_write_fault:
  assumes "pt_wf lev r (k_mem k)" "t_pml4e_addr (cur_task k) = KERN_MEM + r"
    and "err AND PAGE_PRESENT \<noteq> 0" "err AND PAGE_WRITE \<noteq> 0" "page_mask v \<noteq> 0"
    and "pte_of (KERN_MEM + r) v (k_mem k) = Some e" "page_mask e = of_nat i * 4096" "i < MAX_MEM"
    and "\<not> page_avail (k_mem k) i" "lev (of_nat i * 4096) = None"
    and "mm_cow_flag (memmap (k_mem k) ! i)" "mm_ref_cnt (memmap (k_mem k) ! i) \<noteq> 1" "free_addrs (k_mem k) \<noteq> {}"
  shows "\<exists>m j. page_fault err v k = Inr (Ret 0, set_mem m k) \<and> page_avail (k_mem k) j \<and>
           (\<forall>w. pte_of (KERN_MEM + r) w m =
              (if vpn w = vpn v then Some ((of_nat j * 4096) OR PAGE_PERM) else pte_of (KERN_MEM + r) w (k_mem k))) \<and>
           (\<forall>l < 512. qmem m (elt (of_nat j * 4096) (of_nat l)) = qmem (k_mem k) (elt (of_nat i * 4096) (of_nat l))) \<and>
           (\<forall>l < 512. qmem m (elt (of_nat i * 4096) (of_nat l)) = qmem (k_mem k) (elt (of_nat i * 4096) (of_nat l))) \<and>
           mm_ref_cnt (memmap m ! i) = mm_ref_cnt (memmap (k_mem k) ! i) - 1"
proof -
  let ?m = "k_mem k" and ?p = "look_pages (KERN_MEM + r) v (k_mem k)"
  have le: "leaf_entry ?m 4 r v = e" "e \<noteq> 0"
    using assms(6) pte_of_leaf [OF assms(1), of v] by (auto split: if_splits)
  have p: "?p \<noteq> 0" "ldq ?p ?m = e" using look_pages_spec [OF assms(1), of v] le by auto
  obtain m lev' j where m: "cow_fault (KERN_MEM + r) v ?p (of_nat i * 4096) i ?m = Inr m" "page_avail ?m j" "pt_wf lev' r m"
    "\<forall>w. leaf_entry m 4 r w = (if vpn w = vpn v then (of_nat j * 4096) OR 7 else leaf_entry ?m 4 r w)"
    "\<forall>l < 512. qmem m (elt (of_nat j * 4096) (of_nat l)) = qmem ?m (elt (of_nat i * 4096) (of_nat l))"
    "\<forall>l < 512. qmem m (elt (of_nat i * 4096) (of_nat l)) = qmem ?m (elt (of_nat i * 4096) (of_nat l))"
    "mm_ref_cnt (memmap m ! i) = mm_ref_cnt (memmap ?m ! i) - 1"
    using cow_fault_copy [OF assms(1) le assms(8,9,10,12,13,5), of ?p] by blast
  have "page_fault err v k = Inr (Ret 0, set_mem m k)"
    using assms(2-4,7,11) p m(1) get_physical_memmap_frame [OF pt_wfD(1) [OF assms(1)] assms(8)]
    by (simp add: page_fault_def Let_def)
  then show ?thesis
    using m by (intro exI [of _ m] exI [of _ j]) (simp add: pte_of_leaf [OF m(3)] pte_of_leaf [OF assms(1)] entry_nonzero)
qed

theorem cow_write_fault_witness:
  "\<exists>m j. page_fault 3 0x1000 kernel_shared = Inr (Ret 0, set_mem m kernel_shared) \<and>
     pte_of (KERN_MEM + 0x2000) 0x1000 m = Some ((of_nat j * 4096) OR PAGE_PERM) \<and> mm_ref_cnt (memmap m ! 6) = 1"
proof -
  have k: "k_mem kernel_shared = mem_shared" by (simp add: kernel_shared_def)
  have "t_pml4e_addr (cur_task kernel_shared) = KERN_MEM + 0x2000" by (simp add: kernel_shared_def cur_task_def)
  moreover have "pt_wf lev_shared 0x2000 (k_mem kernel_shared)" "pte_of (KERN_MEM + 0x2000) 0x1000 (k_mem kernel_shared) = Some 0x6005"
    "free_addrs (k_mem kernel_shared) \<noteq> {}"
    unfolding k by (rule mem_shared_wf mem_shared_pte mem_shared_free)+
  moreover have "page_mask 0x1000 \<noteq> 0" "page_mask 0x6005 = of_nat 6 * 4096" by (simp_all add: page_mask_def)
  moreover have "\<not> page_avail (k_mem kernel_shared) 6" "lev_shared (of_nat 6 * 4096) = None"
    by (simp_all add: k mem_shared_avail lev_shared_def)
  moreover have "mm_cow_flag (memmap (k_mem kernel_shared) ! 6)" "mm_ref_cnt (memmap (k_mem kernel_shared) ! 6) = 2"
    by (simp_all add: k mem_shared_page6)
  ultimately obtain m j where "page_fault 3 0x1000 kernel_shared = Inr (Ret 0, set_mem m kernel_shared)"
    "\<forall>w. pte_of (KERN_MEM + 0x2000) w m = (if vpn w = vpn 0x1000 then Some ((of_nat j * 4096) OR PAGE_PERM)
        else pte_of (KERN_MEM + 0x2000) w (k_mem kernel_shared))"
    "mm_ref_cnt (memmap m ! 6) = mm_ref_cnt (memmap (k_mem kernel_shared) ! 6) - 1"
    using cow_write_fault [of lev_shared "0x2000" kernel_shared 3 "0x1000" "0x6005" 6] by auto
  then show ?thesis
    using \<open>mm_ref_cnt (memmap (k_mem kernel_shared) ! 6) = 2\<close> by (intro exI [of _ m] exI [of _ j]) simp
qed

text \<open>
  The last owner of a shared page: with one reference left a write fault only restores the
  write permission of the faulting page's entry; no page is taken and no other lookup changes.
\<close>

theorem cow_last_owner:
  assumes "pt_wf lev r (k_mem k)" "t_pml4e_addr (cur_task k) = KERN_MEM + r"
    and "err AND PAGE_PRESENT \<noteq> 0" "err AND PAGE_WRITE \<noteq> 0"
    and "pte_of (KERN_MEM + r) v (k_mem k) = Some e" "page_mask e = of_nat i * 4096" "i < MAX_MEM"
    and "mm_cow_flag (memmap (k_mem k) ! i)" "mm_ref_cnt (memmap (k_mem k) ! i) = 1"
  shows "\<exists>m. page_fault err v k = Inr (Ret 0, set_mem m k) \<and> memmap m = memmap (k_mem k) \<and>
           (\<forall>w. pte_of (KERN_MEM + r) w m =
              (if vpn w = vpn v then Some ((of_nat i * 4096) OR PAGE_PERM) else pte_of (KERN_MEM + r) w (k_mem k)))"
proof -
  let ?m = "k_mem k" and ?p = "look_pages (KERN_MEM + r) v (k_mem k)"
  have le: "leaf_entry ?m 4 r v = e" "e \<noteq> 0"
    using assms(5) pte_of_leaf [OF assms(1), of v] by (auto split: if_splits)
  have p: "?p \<noteq> 0" "ldq ?p ?m = e" using look_pages_spec [OF assms(1), of v] le by auto
  have run: "page_fault err v k = Inr (Ret 0, set_mem (stq ?p ((of_nat i * 4096) OR 7) ?m) k)"
    using assms(2-4,6,8,9) p get_physical_memmap_frame [OF pt_wfD(1) [OF assms(1)] assms(7)]
    by (simp add: page_fault_def cow_fault_def Let_def)
  obtain c where c: "leaf_table ?m 4 r v = Some c"
    using le by (cases "leaf_table ?m 4 r v") (auto simp: leaf_entry_def)
  have lc: "lev c = Some (Suc 0)"
    using leaf_table_level [OF assms(1), of r 3 v c] pt_wfD(2) [OF assms(1)] c by simp
  have fc: "frame c" by (rule pt_wfD(3) [OF assms(1) lc])
  note wr = leaf_entry_wr(1,2) [OF walk_pages_same [OF assms(1) c] assms(1) lc c fc extends_refl, where x = "(of_nat i * 4096) OR 7"]
  have pp: "?p = elt (KERN_MEM + c) (idx v (Suc 0))" by (rule look_pages_slot [OF assms(1) c p(1)])
  have "memmap (stq ?p ((of_nat i * 4096) OR 7) ?m) = memmap ?m" by (simp add: stq_def)
  moreover have "pte_of (KERN_MEM + r) w (stq ?p ((of_nat i * 4096) OR 7) ?m) =
      (if vpn w = vpn v then Some ((of_nat i * 4096) OR 7) else pte_of (KERN_MEM + r) w ?m)" for w
    unfolding pp using wr(2) [of w] by (simp add: pte_of_leaf [OF wr(1)] pte_of_leaf [OF assms(1)] entry_nonzero)
  ultimately show ?thesis using run by (intro exI [of _ "stq ?p ((of_nat i * 4096) OR 7) ?m"]) blast
qed

text \<open>
  C20. Demand paging: a fault on an unmapped page of an address from \<^verbatim>\<open>INITIAL_MEM\<close> on maps a
  free page there, writable by the user, and changes no other lookup.  The new page is not
  cleared.
\<close>

theorem page_fault_demand:
  assumes "pt_wf lev r (k_mem k)" "t_pml4e_addr (cur_task k) = KERN_MEM + r"
    and "err AND PAGE_PRESENT = 0" "INITIAL_MEM \<le> v" "4 \<le> card (free_addrs (k_mem k))"
  shows "\<exists>m a. page_fault err v k = Inr (Ret (-1), set_mem m k) \<and> a \<in> free_addrs (k_mem k) \<and>
           (\<forall>w. pte_of (KERN_MEM + r) w m =
              (if vpn w = vpn v then Some (a OR PAGE_PERM) else pte_of (KERN_MEM + r) w (k_mem k)))"
proof -
  let ?m = "k_mem k"
  have room: "1 + 3 \<le> card (free_addrs ?m)" using assms(5) by simp
  obtain c lev' t where w: "walk_pages (KERN_MEM + r) v ?m = (elt (KERN_MEM + c) (idx v (Suc 0)), t)"
    "pt_wf lev' r t" "lev' c = Some (Suc 0)" "leaf_table t 4 r v = Some c" "frame c" "extends r ?m t"
    "1 \<le> card (free_addrs t)"
    by (rule walk_pages_ok [OF assms(1) room])
  have pos: "0 < card (free_addrs t)" using w(7) by simp
  let ?a = "fst (mem_allocate t)" and ?u = "snd (mem_allocate t)"
  have al: "pt_wf lev' r ?u" "?a \<in> free_addrs t" "leaf_entry ?u 4 r x = leaf_entry t 4 r x" for x
    using alloc_wf [OF w(2) pos] by simp_all
  have lt: "leaf_table ?u 4 r v = Some c"
    using w(4) leaf_table_mono [of t ?u 3 r v c] by simp
  note wr = leaf_entry_wr(1,2) [OF walk_pages_same [OF al(1) lt] al(1) w(3) lt w(5) extends_refl, where x = "?a OR 7"]
  let ?m' = "stq (elt (KERN_MEM + c) (idx v (Suc 0))) (?a OR 7) ?u"
  have "page_fault err v k = Inr (Ret (-1), set_mem ?m' k)"
    using assms(2,3) w(1) leD [OF assms(4)] by (simp add: page_fault_def Let_def case_prod_beta)
  moreover have "?a \<in> free_addrs ?m" using al(2) w(6) by (auto simp: extends_def)
  moreover have "pte_of (KERN_MEM + r) x ?m' = (if vpn x = vpn v then Some (?a OR 7) else pte_of (KERN_MEM + r) x ?m)" for x
    using wr(2) [of x] al(3) [of x] w(6)
    by (simp add: pte_of_leaf [OF wr(1)] pte_of_leaf [OF assms(1)] entry_nonzero extends_def)
  ultimately show ?thesis by blast
qed

text \<open>The same state with one reference to the shared page, and the empty address space of page 2.\<close>

definition kernel_owned :: kernel where
  "kernel_owned = kernel_shared\<lparr>k_mem := mem_shared\<lparr>memmap :=
     (memmap mem_shared)[6 := (memmap mem_shared ! 6)\<lparr>mm_ref_cnt := 1\<rparr>]\<rparr>\<rparr>"

definition kernel_empty :: kernel where
  "kernel_empty = kernel_shared\<lparr>k_mem := kmem_boot 3\<rparr>"

theorem cow_last_owner_witness:
  "\<exists>m. page_fault 3 0x1000 kernel_owned = Inr (Ret 0, set_mem m kernel_owned) \<and>
     pte_of (KERN_MEM + 0x2000) 0x1000 m = Some 0x6007"
proof -
  have km: "k_mem kernel_owned = mem_shared\<lparr>memmap := (memmap mem_shared)[6 := (memmap mem_shared ! 6)\<lparr>mm_ref_cnt := 1\<rparr>]\<rparr>"
    by (simp add: kernel_owned_def)
  have six: "(6 :: nat) < MAX_MEM" by simp
  note d = dec_ref_wf [OF mem_shared_wf six km]
  have "leaf_entry (k_mem kernel_owned) 4 0x2000 0x1000 = 0x6005" by (simp only: d(2) mem_shared_leaf)
  then have "pte_of (KERN_MEM + 0x2000) 0x1000 (k_mem kernel_owned) = Some 0x6005" using pte_of_leaf [OF d(1), of "0x1000"] by simp
  moreover have "t_pml4e_addr (cur_task kernel_owned) = KERN_MEM + 0x2000"
    by (simp add: kernel_owned_def kernel_shared_def cur_task_def)
  moreover have "page_mask 0x6005 = of_nat 6 * 4096" by (simp add: page_mask_def)
  moreover have "mm_cow_flag (memmap (k_mem kernel_owned) ! 6)" "mm_ref_cnt (memmap (k_mem kernel_owned) ! 6) = 1"
    using memmap_okD(1) [OF mem_shared_ok] by (simp_all add: km mem_shared_page6)
  ultimately obtain m where m: "page_fault 3 0x1000 kernel_owned = Inr (Ret 0, set_mem m kernel_owned)"
    "\<forall>w. pte_of (KERN_MEM + 0x2000) w m = (if vpn w = vpn 0x1000 then Some ((of_nat 6 * 4096) OR PAGE_PERM)
        else pte_of (KERN_MEM + 0x2000) w (k_mem kernel_owned))"
    using cow_last_owner [OF d(1), of 3 "0x1000" "0x6005" 6] by auto
  from m(2) [rule_format, of "0x1000"] m(1) show ?thesis by (intro exI [of _ m]) simp
qed

theorem page_fault_demand_witness:
  "\<exists>m a. page_fault 4 0x400000 kernel_empty = Inr (Ret (-1), set_mem m kernel_empty) \<and>
     pte_of (KERN_MEM + root2) 0x400000 m = Some (a OR PAGE_PERM)"
proof -
  have "pt_wf [root2 \<mapsto> 4] root2 (k_mem kernel_empty)" "4 \<le> card (free_addrs (k_mem kernel_empty))"
    using boot_root(1) boot_room by (simp_all add: kernel_empty_def)
  moreover have "t_pml4e_addr (cur_task kernel_empty) = KERN_MEM + root2"
    by (simp add: kernel_empty_def kernel_shared_def cur_task_def)
  ultimately obtain m a where m: "page_fault 4 0x400000 kernel_empty = Inr (Ret (-1), set_mem m kernel_empty)"
    "\<forall>w. pte_of (KERN_MEM + root2) w m = (if vpn w = vpn 0x400000 then Some (a OR PAGE_PERM)
        else pte_of (KERN_MEM + root2) w (k_mem kernel_empty))"
    using page_fault_demand [of "[root2 \<mapsto> 4]" root2 kernel_empty 4 "0x400000"] by auto
  from m(2) [rule_format, of "0x400000"] m(1) show ?thesis by auto
qed

end
