(* ===== verification/Console_Props.thy ===== *)
theory Console_Props
  imports Console CString_Props
begin

text \<open>
  An abstract terminal, a cursor and a grid of characters, and the refinement of it by the
  console code; numbers printed by \<^verbatim>\<open>i_printf\<close> as strings of digits.
\<close>

section \<open>The abstract terminal\<close>

record terminal =
  col :: int
  row :: int
  grid :: "nat \<Rightarrow> nat \<Rightarrow> u8"

definition scroll_up :: "(nat \<Rightarrow> nat \<Rightarrow> u8) \<Rightarrow> nat \<Rightarrow> nat \<Rightarrow> u8" where
  "scroll_up g x y = (if x < 80 \<and> y < 19 then g x (y + 1) else if x < 80 \<and> y = 19 then 32 else g x y)"

definition feed :: "terminal \<Rightarrow> terminal" where
  "feed t = (if row t + 1 \<ge> 20 then t\<lparr>col := 0, row := 19, grid := scroll_up (grid t)\<rparr>
             else t\<lparr>col := 0, row := row t + 1\<rparr>)"

definition show_char :: "u8 \<Rightarrow> terminal \<Rightarrow> terminal" where
  "show_char ch t =
     (if col t \<ge> 80 then feed t
      else t\<lparr>col := col t + 1,
             grid := (if 0 \<le> col t then (grid t)(nat (col t) := (grid t (nat (col t)))(nat (row t) := ch)) else grid t)\<rparr>)"

definition type_char :: "u8 \<Rightarrow> terminal \<Rightarrow> terminal" where
  "type_char ch t =
     (if ch = 8 then let t' = show_char 32 (t\<lparr>col := col t - 1\<rparr>) in t'\<lparr>col := col t' - 1\<rparr>
      else if ch = 10 then feed t
      else if ch = 9 then t\<lparr>col := col t + 8\<rparr>
      else if ch = 13 then t\<lparr>col := 0\<rparr>
      else show_char ch t)"

section \<open>Representation\<close>

definition abs_con :: "console \<Rightarrow> terminal" where
  "abs_con c = \<lparr>col = csr_x c, row = csr_y c,
     grid = (\<lambda>x y. if x < 80 \<and> y < 25 then vid c ! (2 * (x + 80 * y)) else 0)\<rparr>"

lemma abs_con_cursor [simp]:
  "abs_con (c\<lparr>csr_x := x\<rparr>) = (abs_con c)\<lparr>col := x\<rparr>" "abs_con (c\<lparr>csr_y := y\<rparr>) = (abs_con c)\<lparr>row := y\<rparr>"
  "col (abs_con c) = csr_x c" "row (abs_con c) = csr_y c"
  by (simp_all add: abs_con_def fun_eq_iff)

text \<open>The cursor is within \<open>n\<close> columns of the origin and on one of the 25 rows.\<close>

definition con_ok :: "nat \<Rightarrow> console \<Rightarrow> bool" where
  "con_ok n c \<longleftrightarrow> length (vid c) = 8192 \<and> 0 \<le> csr_y c \<and> csr_y c < 25 \<and> \<bar>csr_x c\<bar> \<le> int n \<and> 80 \<le> n"

lemma con_ok_mono: "con_ok n c \<Longrightarrow> n \<le> m \<Longrightarrow> con_ok m c"
  by (auto simp: con_ok_def)

section \<open>Memory effects\<close>

lemma put_cell_ok:
  "p + 1 < length (vid c) \<Longrightarrow> put_cell p ch c = Inr (c\<lparr>vid := (vid c)[p := ch, p + 1 := 7]\<rparr>)"
  by (simp add: put_cell_def put_byte_def)

lemma reset_loop_ok:
  "p + 2 * n \<le> length (vid c) \<Longrightarrow>
   \<exists>v. reset_loop n p c = Inr (c\<lparr>vid := v\<rparr>) \<and> length v = length (vid c) \<and>
     (\<forall>k < length v. v ! k = (if p \<le> k \<and> k < p + 2 * n then if even (k - p) then 32 else 7 else vid c ! k))"
proof (induction n arbitrary: p c)
  case (Suc n)
  let ?c = "c\<lparr>vid := (vid c)[p := 32, p + 1 := 7]\<rparr>"
  have "p + 2 + 2 * n \<le> length (vid ?c)" using Suc.prems by simp
  from Suc.IH [OF this] obtain v where v: "reset_loop n (p + 2) ?c = Inr (?c\<lparr>vid := v\<rparr>)" "length v = length (vid c)"
    "\<forall>k < length v. v ! k = (if p + 2 \<le> k \<and> k < p + 2 + 2 * n then if even (k - (p + 2)) then 32 else 7 else vid ?c ! k)"
    by auto
  have cell: "put_cell p 32 c = Inr ?c" using Suc.prems by (simp add: put_cell_ok)
  have "v ! k = (if p \<le> k \<and> k < p + 2 * Suc n then if even (k - p) then 32 else 7 else vid c ! k)"
    if "k < length v" for k
  proof -
    consider "k < p" | "k = p" | "k = p + 1" | "p + 2 \<le> k" by linarith
    then show ?thesis
    proof cases
      case 4
      then have "even (k - (p + 2)) = even (k - p)" by simp
      with 4 v(3) that show ?thesis by (simp add: nth_list_update)
    qed (use v that Suc.prems in \<open>simp_all add: nth_list_update\<close>)
  qed
  then show ?case using v(1,2) cell by (intro exI [of _ v]) simp
next
  case 0
  then show ?case by (intro exI [of _ "vid c"]) auto
qed

lemma scroll_loop_ok:
  "p + 2 * n + 160 \<le> length (vid c) \<Longrightarrow>
   \<exists>v. scroll_loop n p c = Inr (c\<lparr>vid := v\<rparr>) \<and> length v = length (vid c) \<and>
     (\<forall>k < length v. v ! k = (if p \<le> k \<and> k < p + 2 * n then if even (k - p) then vid c ! (k + 160) else 7 else vid c ! k))"
proof (induction n arbitrary: p c)
  case (Suc n)
  let ?b = "vid c ! (p + 160)"
  let ?c = "c\<lparr>vid := (vid c)[p := ?b, p + 1 := 7]\<rparr>"
  have "p + 2 + 2 * n + 160 \<le> length (vid ?c)" using Suc.prems by simp
  from Suc.IH [OF this] obtain v where v: "scroll_loop n (p + 2) ?c = Inr (?c\<lparr>vid := v\<rparr>)" "length v = length (vid c)"
    "\<forall>k < length v. v ! k = (if p + 2 \<le> k \<and> k < p + 2 + 2 * n
        then if even (k - (p + 2)) then vid ?c ! (k + 160) else 7 else vid ?c ! k)"
    by auto
  have cell: "put_cell p ?b c = Inr ?c" using Suc.prems by (simp add: put_cell_ok)
  have "v ! k = (if p \<le> k \<and> k < p + 2 * Suc n then if even (k - p) then vid c ! (k + 160) else 7 else vid c ! k)"
    if "k < length v" for k
  proof -
    consider "k < p" | "k = p" | "k = p + 1" | "p + 2 \<le> k" by linarith
    then show ?thesis
    proof cases
      case 4
      then have "even (k - (p + 2)) = even (k - p)" by simp
      with 4 v(3) that show ?thesis by (simp add: nth_list_update)
    qed (use v that Suc.prems in \<open>simp_all add: nth_list_update\<close>)
  qed
  then show ?case using v(1,2) cell Suc.prems by (intro exI [of _ v]) simp
next
  case 0
  then show ?case by (intro exI [of _ "vid c"]) auto
qed

section \<open>Refinement\<close>

lemma window_scroll_ok:
  assumes "length (vid c) = 8192"
  shows "\<exists>v. window_scroll c = Inr (c\<lparr>vid := v, csr_x := 0, csr_y := 19\<rparr>) \<and> length v = 8192 \<and>
     (\<forall>x y. x < 80 \<longrightarrow> y < 25 \<longrightarrow> v ! (2 * (x + 80 * y)) =
        (if y < 19 then vid c ! (2 * (x + 80 * (y + 1))) else if y = 19 then 32 else vid c ! (2 * (x + 80 * y))))"
proof -
  obtain v where v: "scroll_loop 1520 0 c = Inr (c\<lparr>vid := v\<rparr>)" "length v = 8192"
    "\<forall>k < 8192. v ! k = (if k < 3040 then if even k then vid c ! (k + 160) else 7 else vid c ! k)"
    using scroll_loop_ok [of 0 1520 c] assms by auto
  obtain w where w: "reset_loop 80 3040 (c\<lparr>vid := v\<rparr>) = Inr (c\<lparr>vid := w\<rparr>)" "length w = 8192"
    "\<forall>k < 8192. w ! k = (if 3040 \<le> k \<and> k < 3200 then if even (k - 3040) then 32 else 7 else v ! k)"
    using reset_loop_ok [of 3040 80 "c\<lparr>vid := v\<rparr>"] v(2) by auto
  have "w ! (2 * (x + 80 * y)) =
      (if y < 19 then vid c ! (2 * (x + 80 * (y + 1))) else if y = 19 then 32 else vid c ! (2 * (x + 80 * y)))"
    if "x < 80" "y < 25" for x y
  proof -
    let ?k = "2 * (x + 80 * y)"
    have k: "?k < 8192" using that by simp
    consider "y < 19" | "y = 19" | "19 < y" by linarith
    then show ?thesis
    proof cases
      case 1
      then have "?k < 3040" "?k + 160 = 2 * (x + 80 * (y + 1))" using that by simp_all
      then show ?thesis using 1 w(3) [rule_format, OF k] v(3) [rule_format, OF k] by (simp add: add_ac)
    next
      case 2
      then have "3040 \<le> ?k" "?k < 3200" "?k - 3040 = 2 * x" using that by simp_all
      then show ?thesis using 2 w(3) [rule_format, OF k] by auto
    next
      case 3
      then have "3200 \<le> ?k" by simp
      then show ?thesis using 3 w(3) [rule_format, OF k] v(3) [rule_format, OF k] by auto
    qed
  qed
  moreover have "window_scroll c = Inr (c\<lparr>vid := w, csr_x := 0, csr_y := 19\<rparr>)"
    using v(1) w(1) by (simp add: window_scroll_def)
  ultimately show ?thesis using w(2) by blast
qed

lemma new_line_ok:
  assumes "con_ok n c"
  shows "\<exists>c'. new_line c = Inr c' \<and> abs_con c' = feed (abs_con c) \<and> con_ok n c' \<and> csr_x c' = 0"
proof -
  have y: "ck (csr_y c + 1) = Inr (csr_y c + 1)" and n: "80 \<le> n" "length (vid c) = 8192" "0 \<le> csr_y c"
    using assms by (auto simp: con_ok_def intro!: ck_in)
  show ?thesis
  proof (cases "csr_y c + 1 \<ge> 20")
    case True
    let ?c = "c\<lparr>csr_x := 0, csr_y := csr_y c + 1\<rparr>"
    obtain v where v: "window_scroll ?c = Inr (?c\<lparr>vid := v, csr_x := 0, csr_y := 19\<rparr>)" "length v = 8192"
      "\<forall>x y. x < 80 \<longrightarrow> y < 25 \<longrightarrow> v ! (2 * (x + 80 * y)) =
        (if y < 19 then vid c ! (2 * (x + 80 * (y + 1))) else if y = 19 then 32 else vid c ! (2 * (x + 80 * y)))"
      using window_scroll_ok [of ?c] n by auto
    have "v ! (2 * (x + 1520)) = 32" if "x < 80" for x using v(3) [rule_format, of x 19] that by simp
    then have "abs_con (?c\<lparr>vid := v, csr_x := 0, csr_y := 19\<rparr>) = feed (abs_con c)"
      using True by (simp add: abs_con_def feed_def scroll_up_def fun_eq_iff v(3) [rule_format] del: mult_Suc_right distrib_left_numeral)
    then show ?thesis using True v(1,2) y n by (simp add: new_line_def Let_def con_ok_def)
  next
    case False
    then show ?thesis using y n by (auto simp: new_line_def Let_def con_ok_def feed_def)
  qed
qed

lemma cell_inject:
  assumes "i < 80" "k < (80 :: nat)"
  shows "2 * (i + 80 * j) = 2 * (k + 80 * l) \<longleftrightarrow> i = k \<and> j = l"
proof
  assume "2 * (i + 80 * j) = 2 * (k + 80 * l)"
  then have eq: "i + 80 * j = k + 80 * l" by simp
  then have "(i + 80 * j) mod 80 = (k + 80 * l) mod 80" by (rule arg_cong)
  then have "i = k" using assms by (simp only: mod_mult_self2 mod_less)
  with eq show "i = k \<and> j = l" by simp
qed simp

lemma c_plain_ok:
  assumes "con_ok n c" "n < 2 ^ 30"
  shows "\<exists>c'. c_plain ch c = Inr c' \<and> abs_con c' = show_char ch (abs_con c) \<and> con_ok (n + 1) c' \<and>
           csr_x c' = (if csr_x c \<ge> 80 then 0 else csr_x c + 1)"
proof (cases "csr_x c \<ge> 80")
  case True
  moreover obtain c' where "new_line c = Inr c'" "abs_con c' = feed (abs_con c)" "con_ok n c'" "csr_x c' = 0"
    using new_line_ok [OF assms(1)] by blast
  moreover have "con_ok (n + 1) c'" using \<open>con_ok n c'\<close> con_ok_mono by simp
  moreover have "show_char ch (abs_con c) = feed (abs_con c)" using True by (simp add: show_char_def abs_con_def)
  ultimately show ?thesis by (simp add: c_plain_def)
next
  case False
  have len: "length (vid c) = 8192" "0 \<le> csr_y c" "csr_y c < 25" "\<bar>csr_x c\<bar> \<le> int n" "80 \<le> n"
    using assms(1) by (auto simp: con_ok_def)
  then have x: "ck (csr_x c + 1) = Inr (csr_x c + 1)" using assms(2) by (intro ck_in) auto
  show ?thesis
  proof (cases "0 \<le> csr_x c")
    case neg: False
    then show ?thesis using False x len by (auto simp: c_plain_def show_char_def con_ok_def)
  next
    case pos: True
    define p where "p = 2 * nat (csr_x c + csr_y c * 80)"
    have p: "p = 2 * (nat (csr_x c) + 80 * nat (csr_y c))" "p < 4000" "nat (csr_x c) < 80" "nat (csr_y c) < 25"
      using pos False len unfolding p_def by (auto simp: nat_add_distrib nat_mult_distrib)
    let ?c = "c\<lparr>vid := (vid c)[p := ch, p + 1 := 7]\<rparr>"
    have "put_cell p ch c = Inr ?c" using p(2) len by (simp add: put_cell_ok)
    then have run: "c_plain ch c = Inr (?c\<lparr>csr_x := csr_x c + 1\<rparr>)"
      using pos False len x by (simp add: c_plain_def p_def [symmetric])
    have "vid ?c ! (2 * (i + 80 * j)) = (if i = nat (csr_x c) \<and> j = nat (csr_y c) then ch else vid c ! (2 * (i + 80 * j)))"
      if "i < 80" "j < 25" for i j
    proof -
      have "even p" "even (2 * (i + 80 * j))" using p(1) by simp_all
      then have "2 * (i + 80 * j) \<noteq> p + 1" by (metis even_plus_one_iff)
      moreover have "2 * (i + 80 * j) = p \<longleftrightarrow> i = nat (csr_x c) \<and> j = nat (csr_y c)"
        unfolding p(1) using p(3) that(1) cell_inject by simp
      ultimately show ?thesis using p(2) len by (auto simp: nth_list_update)
    qed
    then have "abs_con (?c\<lparr>csr_x := csr_x c + 1\<rparr>) = show_char ch (abs_con c)"
      using pos False p(3,4) by (auto simp: abs_con_def show_char_def fun_eq_iff)
    then show ?thesis using run False len by (auto simp: con_ok_def)
  qed
qed

lemma c_printf_ok:
  assumes "con_ok n c" "n < 2 ^ 29"
  shows "\<exists>c'. c_printf ch c = Inr c' \<and> abs_con c' = type_char ch (abs_con c) \<and> con_ok (n + 8) c'"
proof -
  have n: "\<bar>csr_x c\<bar> \<le> int n" "80 \<le> n" using assms(1) by (auto simp: con_ok_def)
  consider "ch = 8" | "ch = 10" | "ch = 9" | "ch = 13" | "ch \<notin> {8, 9, 10, 13}" by blast
  then show ?thesis
  proof cases
    case 1
    let ?c = "c\<lparr>csr_x := csr_x c - 1\<rparr>"
    have ok: "con_ok (n + 1) ?c" using assms(1) by (auto simp: con_ok_def)
    have "n + 1 < 2 ^ 30" using assms(2) by simp
    from c_plain_ok [OF ok this] obtain c' where c': "c_plain 32 ?c = Inr c'" "abs_con c' = show_char 32 (abs_con ?c)"
      "con_ok (n + 1 + 1) c'" by blast
    then have b: "\<bar>csr_x c'\<bar> \<le> int n + 2" by (auto simp: con_ok_def)
    have "ck (csr_x c - 1) = Inr (csr_x c - 1)" "ck (csr_x c' - 1) = Inr (csr_x c' - 1)"
      using n b assms(2) by (auto intro!: ck_in)
    then have "c_printf ch c = Inr (c'\<lparr>csr_x := csr_x c' - 1\<rparr>)" using 1 c'(1) by (simp add: c_printf_def)
    moreover have "abs_con (c'\<lparr>csr_x := csr_x c' - 1\<rparr>) = type_char ch (abs_con c)"
      using 1 c'(2) abs_con_cursor(3) [of c'] by (simp add: type_char_def Let_def)
    moreover have "con_ok (n + 8) (c'\<lparr>csr_x := csr_x c' - 1\<rparr>)" using c'(3) by (auto simp: con_ok_def)
    ultimately show ?thesis by blast
  next
    case 2
    then obtain c' where "c_printf ch c = Inr c'" "abs_con c' = type_char ch (abs_con c)" "con_ok n c'"
      using new_line_ok [OF assms(1)] by (auto simp: c_printf_def type_char_def)
    moreover from this(3) have "con_ok (n + 8) c'" by (rule con_ok_mono) simp
    ultimately show ?thesis by blast
  next
    case 3
    have "ck (csr_x c + 8) = Inr (csr_x c + 8)" using n assms(2) by (auto intro!: ck_in)
    then show ?thesis using 3 assms(1) by (auto simp: c_printf_def type_char_def con_ok_def)
  next
    case 4
    then show ?thesis using assms(1) by (auto simp: c_printf_def type_char_def con_ok_def)
  next
    case 5
    have "n < 2 ^ 30" using assms(2) by simp
    from c_plain_ok [OF assms(1) this, of ch] obtain c' where "c_plain ch c = Inr c'"
      "abs_con c' = show_char ch (abs_con c)" "con_ok (n + 1) c'" by blast
    moreover from this(3) have "con_ok (n + 8) c'" by (rule con_ok_mono) simp
    ultimately show ?thesis using 5 by (simp add: c_printf_def type_char_def)
  qed
qed

section \<open>Strings\<close>

lemma s_printf_ok:
  assumes "con_ok n c" "n + 8 * length s < 2 ^ 29" "0 \<notin> set s"
  shows "\<exists>c'. s_printf (s @ 0 # r) c = Inr c' \<and> abs_con c' = fold type_char s (abs_con c) \<and> con_ok (n + 8 * length s) c'"
  using assms
proof (induction s arbitrary: n c)
  case (Cons ch s)
  then obtain c1 where c1: "c_printf ch c = Inr c1" "abs_con c1 = type_char ch (abs_con c)" "con_ok (n + 8) c1"
    using c_printf_ok [of n c ch] by auto
  have "n + 8 + 8 * length s < 2 ^ 29" "0 \<notin> set s" using Cons.prems by auto
  from Cons.IH [OF c1(3) this] obtain c' where "s_printf (s @ 0 # r) c1 = Inr c'"
    "abs_con c' = fold type_char s (abs_con c1)" "con_ok (n + 8 + 8 * length s) c'" by blast
  then show ?case using c1(1,2) Cons.prems(3) by (auto simp: add_ac)
qed simp

lemma printk_plain:
  "0 \<notin> set s \<Longrightarrow> 37 \<notin> set s \<Longrightarrow>
   printk_loop (s @ 0 # r) as n c = bindr (s_printf (s @ 0 # r) c) (\<lambda>c'. Inr (n + length s, c'))"
proof (induction s arbitrary: n c)
  case (Cons a s)
  then have "printk_loop (s @ 0 # r) as (Suc n) = (\<lambda>c. bindr (s_printf (s @ 0 # r) c) (\<lambda>c'. Inr (Suc n + length s, c')))"
    by (intro ext) simp
  with Cons.prems show ?case by (simp add: bindr_assoc)
qed simp

section \<open>Numbers\<close>

text \<open>The stored form of a digit.\<close>

definition arr_digit :: "nat \<Rightarrow> int" where
  "arr_digit d = (if d > 9 then int d + 39 else int d)"

lemma arr_digit_char: "d < 16 \<Longrightarrow> to_char (arr_digit d + 48) = dchar d"
  by (auto simp: arr_digit_def dchar_def to_char_def)

lemma num_digits_ok:
  assumes "2 \<le> base" "i + length (digits base num) \<le> length arr"
  shows "num_digits num base i arr =
      Inr (i + length (digits base num), take i arr @ map arr_digit (digits base num) @ drop (i + length (digits base num)) arr)"
  using assms(2)
proof (induction num arbitrary: i arr rule: less_induct)
  case (less n)
  show ?case
  proof (cases "n = 0")
    case True
    then show ?thesis by (simp add: num_digits.simps)
  next
    case False
    let ?d = "n mod base" and ?ds = "digits base (n div base)"
    have ds: "digits base n = ?d # ?ds" using False assms(1) digits_pos by simp
    have "n div base < n" using False assms(1) by simp
    from less.IH [OF this, of "i + 1" "arr[i := arr_digit ?d]"]
    have "num_digits (n div base) base (i + 1) (arr[i := arr_digit ?d]) =
        Inr (i + 1 + length ?ds, take (i + 1) (arr[i := arr_digit ?d]) @ map arr_digit ?ds @ drop (i + 1 + length ?ds) (arr[i := arr_digit ?d]))"
      using less.prems by (simp add: ds)
    moreover have "take (i + 1) (arr[i := arr_digit ?d]) = take i arr @ [arr_digit ?d]"
      using less.prems by (simp add: take_Suc_conv_app_nth ds)
    moreover have "num_digits n base i arr = bindr (wr arr i (arr_digit ?d)) (num_digits (n div base) base (i + 1))"
      using False assms(1) by (subst num_digits.simps) (simp add: Let_def arr_digit_def)
    moreover have "wr arr i (arr_digit ?d) = Inr (arr[i := arr_digit ?d])" using less.prems by (simp add: ds)
    ultimately show ?thesis by (simp add: ds)
  qed
qed

lemma digits_last: "2 \<le> b \<Longrightarrow> 0 < n \<Longrightarrow> last (digits b n) \<noteq> 0"
proof (induction n rule: less_induct)
  case (less n)
  have d: "digits b n = n mod b # digits b (n div b)" using less.prems by (simp add: digits_pos)
  show ?case
  proof (cases "n div b = 0")
    case True
    then show ?thesis using less.prems d by (simp add: div_eq_0_iff)
  next
    case False
    then have "last (digits b (n div b)) \<noteq> 0" using less.prems by (intro less.IH) simp_all
    then show ?thesis using False less.prems digits_nonempty [of b "n div b"] unfolding d by simp
  qed
qed

lemma undigits_less: "(\<And>d. d \<in> set ds \<Longrightarrow> d < b) \<Longrightarrow> undigits b ds < b ^ length ds"
proof (induction ds)
  case (Cons d ds)
  then have "undigits b ds + 1 \<le> b ^ length ds" "d < b" by (simp_all add: Suc_leI)
  then have "b * (undigits b ds + 1) \<le> b * b ^ length ds" by (intro mult_left_mono) simp_all
  with \<open>d < b\<close> show ?case by simp
qed simp

lemma digits_length_ge: "2 \<le> b \<Longrightarrow> b ^ k \<le> n \<Longrightarrow> k < length (digits b n)"
proof (rule ccontr)
  assume a: "2 \<le> b" "b ^ k \<le> n" "\<not> k < length (digits b n)"
  have "n < b ^ length (digits b n)" using undigits_less [of "digits b n" b] digits_less [OF a(1)] undigits_digits [OF a(1)] by simp
  also have "\<dots> \<le> b ^ k" using a by (intro power_increasing) simp_all
  finally show False using a(2) by simp
qed

lemma print_digits_rest:
  assumes "\<And>j. j \<le> i \<Longrightarrow> arr ! j = arr_digit (ds ! j)" "i < length arr" "i < length ds" "\<And>d. d \<in> set ds \<Longrightarrow> d < 16"
  shows "print_digits i True arr c = s_printf (map dchar (rev (take (i + 1) ds)) @ [0]) c"
  using assms
proof (induction i arbitrary: c)
  case 0
  then have d: "take 1 ds = [ds ! 0]" "arr ! 0 = arr_digit (ds ! 0)" "ds ! 0 < 16" by (simp_all add: take_Suc_conv_app_nth)
  have "s_printf [0] = Inr" by (intro ext) simp
  with d show ?case using 0 dchar_sep [of "ds ! 0"] by (simp add: print_digits.simps [of 0] arr_digit_char bindr_assoc)
next
  case (Suc i)
  have IH: "print_digits i True arr = (\<lambda>c. s_printf (map dchar (rev (take (i + 1) ds)) @ [0]) c)"
    using Suc.IH Suc.prems by (intro ext) simp
  have d: "take (Suc i + 1) ds = take (i + 1) ds @ [ds ! Suc i]" "ds ! Suc i < 16"
    using Suc.prems by (simp_all add: take_Suc_conv_app_nth)
  then show ?case using Suc.prems dchar_sep [of "ds ! Suc i"] IH
    by (simp add: print_digits.simps [of "Suc i"] arr_digit_char bindr_assoc)
qed

text \<open>The decimal or hexadecimal text of a number.\<close>

definition num_text :: "nat \<Rightarrow> nat \<Rightarrow> u8 list" where
  "num_text base n = (if n = 0 then [48] else map dchar (rev (digits base n)))"

lemma i_printf_ok:
  assumes "base = 10 \<or> base = 16" "length (digits base (unat num)) < 20"
  shows "i_printf num base False c = s_printf (num_text base (unat num) @ [0]) c"
proof (cases "num = 0")
  case True
  then show ?thesis by (cases "c_printf 48 c") (simp_all add: i_printf_def num_text_def to_char_def)
next
  case False
  let ?ds = "digits base (unat num)" and ?L = "length (digits base (unat num))"
  let ?arr = "map arr_digit ?ds @ replicate (20 - ?L) 0"
  have b: "2 \<le> base" "base \<le> 16" using assms(1) by auto
  have pos: "0 < unat num" using False by (simp add: unsigned_eq_0_iff zero_less_iff_neq_zero)
  then obtain l where l: "?L = Suc l" using digits_nonempty [OF b(1)] by (metis length_0_conv not0_implies_Suc)
  have small: "d < 16" if "d \<in> set ?ds" for d using digits_less [OF b(1) that] b(2) by simp
  have "num_digits (unat num) base 0 (replicate 20 0) = Inr (?L, ?arr)"
    using num_digits_ok [of base 0 "unat num" "replicate 20 0"] b(1) assms(2) by (simp add: drop_replicate)
  then have run: "i_printf num base False c = print_digits ?L False ?arr c"
    using False by (simp add: i_printf_def)
  have top: "?arr ! l = arr_digit (?ds ! l)" "?ds ! l \<noteq> 0"
    using digits_last [OF b(1) pos] l last_conv_nth [of ?ds] digits_nonempty [OF b(1) pos] by (auto simp: nth_append)
  have "print_digits ?L False ?arr c = print_digits l False ?arr c"
    using assms(2) l by (subst print_digits.simps) (simp add: nth_append)
  also have "\<dots> = print_digits l True ?arr c"
    using top assms(2) l by (subst (1 2) print_digits.simps) (simp add: arr_digit_def nth_append)
  also have "\<dots> = s_printf (map dchar (rev (take (l + 1) ?ds)) @ [0]) c"
    using assms(2) l small by (intro print_digits_rest) (auto simp: nth_append)
  finally show ?thesis using run pos l by (simp add: num_text_def)
qed

lemma i_printf_20:
  assumes "10 ^ 19 \<le> unat num"
  shows "i_printf num 10 False c = Inl Out_of_bounds"
proof -
  let ?ds = "digits 10 (unat num)"
  have "unat num < 10 ^ 20" using unsigned_less [of num, where ?'a = nat] by simp
  then have L: "length ?ds = 20" using digits_length [of 10 "unat num" 20] digits_length_ge [OF _ assms] by simp
  then have "num_digits (unat num) 10 0 (replicate 20 0) = Inr (20, map arr_digit ?ds)"
    using num_digits_ok [of 10 0 "unat num" "replicate 20 0"] by simp
  moreover have "num \<noteq> 0" using assms by auto
  ultimately show ?thesis using L by (simp add: i_printf_def print_digits.simps [of 20])
qed

end
