(* ===== verification/Console_Claims.thy ===== *)
theory Console_Claims
  imports Console_Props
begin

text \<open>The properties of the console.\<close>

section \<open>Lemmas\<close>

lemma blank_screen: "con_ok 80 (console_init (replicate 8192 0))"
  by (simp add: con_ok_def console_init_def)

lemma scast_nonneg:
  assumes "0 \<le> sint (n :: u32)"
  shows "unat (scast n :: u64) = unat n" "unat n < 2 ^ 31"
proof -
  have "\<not> bit (uint n) 31" using assms by (simp add: sint_uint)
  then have "even (uint n div 2 ^ 31)" by (simp add: bit_iff_odd)
  moreover have "uint n div 2 ^ 31 < 2" using uint_lt2p [of n] by (simp add: div_less_iff_less_mult)
  moreover have "0 \<le> uint n div 2 ^ 31" using pos_imp_zdiv_nonneg_iff [of "2 ^ 31" "uint n"] by simp
  ultimately have "uint n div 2 ^ 31 = 0" by (metis dvd_imp_le linorder_not_less order_le_less zdvd_imp_le)
  then have u: "uint n < 2 ^ 31" by (auto simp: zdiv_eq_0_iff)
  then have "nat (uint n) < nat (2 ^ 31)" by (simp only: nat_less_eq_zless uint_ge_0)
  then show small: "unat n < 2 ^ 31" by (simp only: unat_eq_nat_uint nat_power_eq nat_numeral zero_le_numeral)
  have "sint n = uint n" using sint_small_u32 [OF small] by simp
  then have "uint (scast n :: u64) = uint n mod 2 ^ 64" by (simp only: scast_eq uint_word_of_int len_num0 len_bit0 len_num1) simp
  then have "uint (scast n :: u64) = uint n" using u uint_ge_0 [of n] by simp
  then show "unat (scast n :: u64) = unat n" by (simp only: unat_eq_nat_uint)
qed

section \<open>Properties\<close>

text \<open>
  C26. The console refines a terminal: a format string without conversions prints completely, its
  length is returned, and cursor and screen change as if its characters were typed on the
  terminal of \<^const>\<open>type_char\<close>, scrolling included.
\<close>

theorem printk_refines_terminal:
  assumes "con_ok n c" "n + 8 * length s < 2 ^ 29" "0 \<notin> set s" "37 \<notin> set s"
  shows "\<exists>c'. printk (s @ [0]) as c = Inr (length s, c') \<and> abs_con c' = fold type_char s (abs_con c) \<and>
           con_ok (n + 8 * length s) c'"
  using s_printf_ok [OF assms(1-3), of "[]"] printk_plain [OF assms(3,4), of "[]" as 0 c]
  by (auto simp: printk_def)

theorem printk_refines_terminal_witness:
  "\<exists>c'. printk [104, 105, 10, 0] [] (console_init (replicate 8192 0)) = Inr (3, c') \<and>
     grid (abs_con c') 1 0 = 105 \<and> csr_y c' = 1"
proof -
  obtain c' where c': "printk ([104, 105, 10] @ [0]) [] (console_init (replicate 8192 0)) = Inr (3, c')"
    "abs_con c' = fold type_char [104, 105, 10] (abs_con (console_init (replicate 8192 0)))"
    using printk_refines_terminal [OF blank_screen, of "[104, 105, 10]" "[]"] by auto
  from c'(2) have "grid (abs_con c') 1 0 = 105" "row (abs_con c') = 1"
    by (simp_all add: type_char_def show_char_def feed_def console_init_def abs_con_def)
  with c'(1) show ?thesis by simp
qed

text \<open>
  \<^verbatim>\<open>%d\<close> and \<^verbatim>\<open>%x\<close> on a number that is not negative print its digits, most significant first and
  without leading zeros.
\<close>

theorem printk_number:
  assumes "0 \<le> sint n" "(f, base) = (100, 10) \<or> (f, base) = (120, 16)"
  shows "printk [37, f, 0] [Int_arg n] c = bindr (s_printf (num_text base (unat n) @ [0]) c) (\<lambda>c'. Inr (1, c'))"
proof -
  note n = scast_nonneg [OF assms(1)]
  have "10 ^ 10 < (10 :: nat) ^ 19" by (rule power_strict_increasing) simp_all
  have b: "base = 10 \<or> base = 16" using assms(2) by auto
  have "unat n < base ^ 19" using n(2) b by (auto simp: less_trans)
  then have "length (digits base (unat n)) \<le> 19" using b by (intro digits_length) auto
  then have "i_printf (scast n) base False c = s_printf (num_text base (unat n) @ [0]) c"
    using i_printf_ok [of base "scast n"] b n(1) by simp
  then show ?thesis
    using assms by (auto simp: printk_def conversion_def print_signed_def bindr_assoc)
qed

theorem printk_number_witness:
  "printk [37, 100, 0] [Int_arg 42] (console_init (replicate 8192 0)) =
     bindr (s_printf [52, 50, 0] (console_init (replicate 8192 0))) (\<lambda>c'. Inr (1, c'))"
proof -
  have "sint (42 :: u32) = 42" by simp
  moreover have "num_text 10 42 = [52, 50]" by (simp add: num_text_def digits_pos dchar_def to_char_def)
  ultimately show ?thesis using printk_number [of 42 100 10 "console_init (replicate 8192 0)"] by simp
qed

text \<open>
  \<^verbatim>\<open>%d\<close> on a negative number reads past the digit array: the argument is sign-extended to 64 bits
  and printed as unsigned, which takes all 20 places, and the printing loop starts one above.
\<close>

theorem printk_negative:
  assumes "con_ok n c" "n < 2 ^ 29" "sint k < 0"
  shows "printk (37 # 100 # fmt) (Int_arg k # as) c = Inl Out_of_bounds"
proof -
  obtain c1 where c1: "c_printf 45 c = Inr c1" using c_printf_ok [OF assms(1,2)] by blast
  have "uint (scast k :: u64) = (sint k) mod 2 ^ 64" by (simp add: signed_def uint_word_of_int)
  also have "\<dots> = sint k + 2 ^ 64"
    using assms(3) sint_ge [of k] by (intro int_mod_pos_eq [where q = "- 1"]) simp_all
  finally have "uint (scast k :: u64) = sint k + 2 ^ 64" .
  then have "10 ^ 19 \<le> uint (scast k :: u64)" using sint_ge [of k] by simp
  then have "nat (10 ^ 19) \<le> nat (uint (scast k :: u64))" by (rule nat_mono)
  then have "10 ^ 19 \<le> unat (scast k :: u64)" by (simp only: unat_eq_nat_uint nat_power_eq nat_numeral zero_le_numeral)
  then show ?thesis
    using i_printf_20 [of "scast k"] c1 assms(3) by (simp add: printk_def conversion_def print_signed_def)
qed

theorem printk_negative_witness:
  "printk [37, 100, 0] [Int_arg (- 1)] (console_init (replicate 8192 0)) = Inl Out_of_bounds"
  using printk_negative [OF blank_screen, of "- 1" "[0]" "[]"] by simp

text \<open>
  A character that arrives when the line is full is lost: at column 80 nothing is drawn, and the
  cursor moves to the start of the next line.
\<close>

theorem full_line_drops_char:
  assumes "con_ok n c" "csr_x c = 80" "csr_y c < 19" "ch \<notin> {0, 8, 9, 10, 13}"
  shows "c_printf ch c = Inr (c\<lparr>csr_x := 0, csr_y := csr_y c + 1\<rparr>)"
  using assms by (simp add: c_printf_def c_plain_def new_line_def con_ok_def Let_def)

theorem full_line_drops_char_witness:
  "c_printf 65 (gotoxy 80 3 (console_init (replicate 8192 0))) = Inr (gotoxy 0 4 (console_init (replicate 8192 0)))"
  using full_line_drops_char [of 80 "gotoxy 80 3 (console_init (replicate 8192 0))" 65]
  by (simp add: con_ok_def console_init_def gotoxy_def)

end
