(* ===== verification/Keyboard_Claims.thy ===== *)
theory Keyboard_Claims
  imports Keyboard Console_Claims
begin

text \<open>Lemmas on single key presses, and the properties of the line reader.\<close>

section \<open>Key presses\<close>

definition key_char :: "bool \<Rightarrow> u8 \<Rightarrow> u8" where
  "key_char sh code =
     (if sh then Keyboard_character_set_shift else keyborard_character_set_normal) ! unat code"

text \<open>A press code that is neither Shift nor Backspace and gives a character other than end of line.\<close>

definition text_key :: "bool \<Rightarrow> u8 \<Rightarrow> bool" where
  "text_key sh code \<longleftrightarrow> unat code < 128 \<and> code \<notin> {14, 28, 0x2A} \<and> key_char sh code \<notin> {0, 10}"

text \<open>
  The line editor the driver implements, on the scan codes of presses and releases: the cells typed
  so far, the position in them, and whether a Shift is pending.  A release changes nothing, not even
  that of Shift; Shift is used up by the next key; Backspace steps back and leaves the cell as it is;
  any other key sets the cell at the position.  There is no result when Backspace comes at the
  start, or a key when 511 cells are filled.
\<close>

fun edit :: "u8 \<Rightarrow> u8 list \<times> nat \<times> bool \<Rightarrow> (u8 list \<times> nat \<times> bool) option" where
  "edit code (cells, p, sh) =
     (if 128 \<le> unat code then Some (cells, p, sh)
      else if code = 0x2A then Some (cells, p, True)
      else if code = 14 then (if p = 0 then None else Some (cells, p - 1, False))
      else if p < 511 then Some (take p cells @ key_char sh code # drop (p + 1) cells, p + 1, False)
      else None)"

fun edits :: "u8 list \<Rightarrow> u8 list \<times> nat \<times> bool \<Rightarrow> (u8 list \<times> nat \<times> bool) option" where
  "edits [] e = Some e"
| "edits (code # codes) e = Option.bind (edit code e) (edits codes)"

text \<open>The state of the driver while a line is read, for a state of the editor.\<close>

fun reading :: "nat \<Rightarrow> u8 list \<times> nat \<times> bool \<Rightarrow> tty \<Rightarrow> bool" where
  "reading n (cells, p, sh) s \<longleftrightarrow> con_ok n (con s) \<and> kbuffer s = cells @ replicate (512 - length cells) 0 \<and>
     length cells \<le> 511 \<and> p \<le> length cells \<and> kb_count s = int p \<and> scan_flag s \<and> shift_key s = (if sh then 1 else 0)"

lemma charset_length [simp]:
  "length keyborard_character_set_normal = 128" "length Keyboard_character_set_shift = 128"
  by (simp_all add: keyborard_character_set_normal_def Keyboard_character_set_shift_def)

lemma press_bit: "unat (code :: u8) < 128 \<Longrightarrow> code AND 0x80 = 0"
proof (rule bit_eqI)
  fix i assume "unat code < 128"
  then have "unat (code mod 128) = unat code" by (simp add: unat_mod)
  then have "take_bit 7 code = code" by (simp add: take_bit_eq_mod word_unat_eq_iff)
  then have "\<not> bit code 7" using bit_take_bit_iff [of 7 code 7] by simp
  moreover have "bit (2 ^ 7 :: u8) i \<longleftrightarrow> i = 7" by (auto simp only: bit_exp_iff) simp_all
  ultimately show "bit (code AND 0x80) i = bit 0 i" by (auto simp: bit_and_iff)
qed

lemma ucast_char [simp]: "(ucast (ucast (ch :: u8) :: u32) :: u8) = ch"
  by transfer simp

lemma tty_echo:
  assumes "con_ok n (con s)" "n < 2 ^ 29"
  shows "\<exists>c. tty_printk [37, 99, 0] [Int_arg (ucast (ch :: u8))] s = Inr (1, s\<lparr>con := c\<rparr>) \<and> con_ok (n + 8) c"
    and "\<exists>c. tty_printk [10, 0] [] s = Inr (1, s\<lparr>con := c\<rparr>) \<and> con_ok (n + 8) c"
  using c_printf_ok [OF assms, of ch] c_printf_ok [OF assms, of 10]
  by (auto simp: tty_printk_def printk_def conversion_def)

lemma release_bit:
  assumes "128 \<le> unat (code :: u8)"
  shows "code AND 0x80 \<noteq> 0" "code \<noteq> 28" "code \<noteq> 0x2A"
proof -
  have "unat code div 128 = 1" using assms unsigned_less [of code, where ?'a = nat] by (simp add: div_nat_eqI)
  then have "bit (unat code) 7" by (simp add: bit_iff_odd)
  then have "bit code 7" by (simp add: bit_unsigned_iff)
  then have "bit (code AND 0x80) 7" by (simp add: bit_and_iff)
  then show "code AND 0x80 \<noteq> 0" by auto
qed (use assms in auto)

lemma press_key:
  assumes "unat code < 128" "code \<noteq> 28" "code \<noteq> 0x2A" "reading n (cells, p, sh) s"
    and "tty_printk [37, 99, 0] [Int_arg (ucast (key_char sh code))] s = Inr (1, s\<lparr>con := c\<rparr>)" "key_char sh code \<noteq> 10"
    and "(if code = 14 then bindr (ck (kb_count s - 1)) (\<lambda>n. Inr (s\<lparr>con := c, kb_count := n\<rparr>))
          else kb_store (key_char sh code) (s\<lparr>con := c\<rparr>)) = Inr s'" "shift_key s' = shift_key s"
  shows "kb_handler code s = Inr (outportb 0x20 0x20 (s'\<lparr>shift_key := 0\<rparr>))"
proof -
  have "rd (if sh then Keyboard_character_set_shift else keyborard_character_set_normal) (unat code) = Inr (key_char sh code)"
    using assms(1) by (simp add: key_char_def)
  then have "kb_key (if sh then Keyboard_character_set_shift else keyborard_character_set_normal) code s = Inr s'"
    using assms(4-7) by (auto simp: kb_key_def)
  then have "kb_handler code s = Inr (outportb 0x20 0x20 (if sh then s'\<lparr>shift_key := 0\<rparr> else s'))"
    using assms(2-4) press_bit [OF assms(1)] by (cases sh) (auto simp: kb_handler_def Let_def)
  moreover have "s'\<lparr>shift_key := 0\<rparr> = s'" if "\<not> sh" using that assms(4,8) by (cases s') simp
  ultimately show ?thesis by (cases sh) simp_all
qed

lemma only_enter:
  assumes "unat code < 128" "code \<noteq> 28"
  shows "key_char sh code \<noteq> 10"
proof -
  have "\<forall>i \<in> set [0..<128]. i = 28 \<or> keyborard_character_set_normal ! i \<noteq> 10 \<and> Keyboard_character_set_shift ! i \<noteq> 10"
    by code_simp
  moreover have "unat code \<noteq> 28" using assms(2) by (simp add: word_unat_eq_iff)
  ultimately show ?thesis using assms(1) by (auto simp: key_char_def)
qed

lemma edit_step:
  assumes "reading n e s" "n < 2 ^ 29" "code \<noteq> 28" "edit code e = Some e'"
  shows "\<exists>s'. kb_handler code s = Inr s' \<and> reading (n + 8) e' s'"
proof -
  obtain cells p sh where e: "e = (cells, p, sh)" by (cases e)
  note r = assms(1) [unfolded e]
  have more: "con_ok (n + 8) (con s)" using r con_ok_mono by auto
  consider "128 \<le> unat code" | "unat code < 128" "code = 0x2A" | "unat code < 128" "code \<noteq> 0x2A" by linarith
  then show ?thesis
  proof cases
    case 1
    then show ?thesis using release_bit [OF 1] r more assms(4) e by (auto simp: kb_handler_def outportb_def)
  next
    case 2
    then show ?thesis using r more assms(4) e by (auto simp: kb_handler_def outportb_def)
  next
    case 3
    let ?ch = "key_char sh code"
    obtain c where c: "tty_printk [37, 99, 0] [Int_arg (ucast ?ch)] s = Inr (1, s\<lparr>con := c\<rparr>)" "con_ok (n + 8) c"
      using tty_echo(1) [of n s ?ch] r assms(2) by auto
    note key = press_key [OF 3(1) assms(3) 3(2) r c(1) only_enter [OF 3(1) assms(3)]]
    show ?thesis
    proof (cases "code = 14")
      case True
      then have "kb_handler code s = Inr (outportb 0x20 0x20 (s\<lparr>con := c, kb_count := int p - 1, shift_key := 0\<rparr>))"
        using key [of "s\<lparr>con := c, kb_count := int p - 1\<rparr>"] r assms(4) e by (auto split: if_splits)
      then show ?thesis using True 3 r c(2) assms(4) e by (auto simp: outportb_def split: if_splits)
    next
      case False
      then have p: "p < 511" "e' = (take p cells @ ?ch # drop (p + 1) cells, p + 1, False)"
        using 3 assms(4) e by (auto split: if_splits)
      have b: "(kbuffer s)[p := ?ch] = take p cells @ ?ch # drop (p + 1) cells @ replicate (512 - length (take p cells @ ?ch # drop (p + 1) cells)) 0"
        using r p(1) by (cases "p < length cells") (auto simp: list_update_append upd_conv_take_nth_drop nat_diff_split
            numeral_eq_Suc Suc_diff_le simp flip: replicate_Suc)
      have "kb_store ?ch (s\<lparr>con := c\<rparr>) = Inr (s\<lparr>con := c, kbuffer := (kbuffer s)[p := ?ch], kb_count := int p + 1\<rparr>)"
        using r p(1) by (simp add: kb_store_def)
      with key [of "s\<lparr>con := c, kbuffer := (kbuffer s)[p := ?ch], kb_count := int p + 1\<rparr>"] False
      have "kb_handler code s = Inr (outportb 0x20 0x20 (s\<lparr>con := c, kbuffer := (kbuffer s)[p := ?ch], kb_count := int p + 1, shift_key := 0\<rparr>))"
        by simp
      then show ?thesis using p r c(2) b by (auto simp: outportb_def)
    qed
  qed
qed

lemma edits_run:
  "reading n e s \<Longrightarrow> n + 8 * length codes \<le> 2 ^ 29 \<Longrightarrow> 28 \<notin> set codes \<Longrightarrow> edits codes e = Some e' \<Longrightarrow>
   \<exists>s'. await_line (codes @ rest) s = await_line rest s' \<and> reading (n + 8 * length codes) e' s'"
proof (induction codes arbitrary: n e s)
  case (Cons code codes)
  obtain e1 where e1: "edit code e = Some e1" "edits codes e1 = Some e'"
    using Cons.prems(4) by (auto split: bind_splits)
  obtain s1 where s1: "kb_handler code s = Inr s1" "reading (n + 8) e1 s1"
    using edit_step [OF Cons.prems(1) _ _ e1(1)] Cons.prems(2,3) by auto
  have "await_line (code # codes @ rest) s = await_line (codes @ rest) s1"
    using Cons.prems(1) s1(1) by (cases e) (simp add: await_line.simps [of "code # _"])
  then show ?case using Cons.IH [OF s1(2) _ _ e1(2)] Cons.prems(2,3) by (auto simp: add.assoc)
qed auto

lemma press_enter:
  assumes "reading n (cells, p, sh) s" "n < 2 ^ 29"
  shows "\<exists>s'. kb_handler 28 s = Inr s' \<and> \<not> scan_flag s' \<and> kbuffer s' = kbuffer s \<and> con_ok (n + 8) (con s')"
proof -
  let ?s = "s\<lparr>scan_flag := False\<rparr>"
  obtain c where c: "tty_printk [10, 0] [] ?s = Inr (1, ?s\<lparr>con := c\<rparr>)" "con_ok (n + 8) c"
    using tty_echo(2) [of n ?s] assms by auto
  have "keyborard_character_set_normal ! 28 = 10" "Keyboard_character_set_shift ! 28 = 10"
    by (simp_all add: keyborard_character_set_normal_def Keyboard_character_set_shift_def)
  then have "kb_key keyborard_character_set_normal 28 ?s = Inr (?s\<lparr>con := c\<rparr>)"
    "kb_key Keyboard_character_set_shift 28 ?s = Inr (?s\<lparr>con := c\<rparr>)" using c(1) by (simp_all add: kb_key_def)
  then show ?thesis using assms(1) c(2) by (auto simp: kb_handler_def outportb_def)
qed

lemma scank_copy_ok:
  "0 \<notin> set cs \<Longrightarrow> kb = xs @ cs @ 0 # r \<Longrightarrow> length xs + length cs \<le> length buf \<Longrightarrow>
   scank_copy (length xs) kb buf = Inr (length xs + length cs, take (length xs) buf @ cs @ drop (length xs + length cs) buf)"
proof (induction cs arbitrary: xs buf)
  case Nil
  then show ?case by (simp add: scank_copy.simps)
next
  case (Cons c cs)
  let ?buf = "buf[length xs := c]"
  have "scank_copy (length xs) kb buf = scank_copy (length (xs @ [c])) kb ?buf"
    using Cons.prems by (subst scank_copy.simps) simp
  also have "\<dots> = Inr (length (xs @ [c]) + length cs, take (length (xs @ [c])) ?buf @ cs @ drop (length (xs @ [c]) + length cs) ?buf)"
    using Cons.prems by (intro Cons.IH) simp_all
  also have "take (length (xs @ [c])) ?buf = take (length xs) buf @ [c]"
    using Cons.prems by (simp add: take_Suc_conv_app_nth)
  finally show ?case by simp
qed

lemma clear_kbuffer_ok: "length (kbuffer s) = 512 \<Longrightarrow> clear_kbuffer s = Inr (s\<lparr>kbuffer := replicate 512 0\<rparr>)"
  by (simp add: clear_kbuffer_def memset_loop_ok)

lemma takeWhile_pad: "\<exists>r. cells @ 0 # zs = takeWhile (\<lambda>c. c \<noteq> 0) cells @ (0 :: u8) # r"
  by (induction cells) auto

lemma scank_finish:
  assumes "length (kbuffer s) = 512" "length cells \<le> 511" "cs = takeWhile (\<lambda>c. c \<noteq> 0) cells" "length cs < length buf"
    and "await_line codes (s\<lparr>kbuffer := replicate 512 0, scan_flag := True, kb_count := 0\<rparr>) = Inr (rest, u)"
    and "kbuffer u = cells @ replicate (512 - length cells) 0"
  shows "scank buf codes s = Inr (length cs, cs @ 0 # drop (length cs + 1) buf, rest, u\<lparr>kbuffer := replicate 512 0\<rparr>)"
proof -
  have "kbuffer u = cells @ 0 # replicate (511 - length cells) 0"
    using assms(2,6) by (simp add: replicate_Suc [symmetric] del: replicate_Suc)
  then obtain r where r: "kbuffer u = [] @ cs @ 0 # r"
    using takeWhile_pad [of cells "replicate (511 - length cells) 0"] assms(3) by auto
  have "0 \<notin> set cs" using assms(3) by (auto dest: set_takeWhileD)
  from scank_copy_ok [OF this r, of buf]
  have copy: "scank_copy 0 (kbuffer u) buf = Inr (length cs, cs @ drop (length cs) buf)" using assms(4) by simp
  have "wr (cs @ drop (length cs) buf) (length cs) 0 = Inr (cs @ 0 # drop (length cs + 1) buf)"
    using assms(4) by (simp add: list_update_append Cons_nth_drop_Suc [symmetric])
  moreover have "length (kbuffer u) = 512" using assms(2,6) by simp
  ultimately show ?thesis using assms(1,5) copy by (simp add: scank_def clear_kbuffer_ok)
qed

lemma await_enter:
  assumes "reading n (cells, p, sh) t" "n < 2 ^ 29"
  shows "\<exists>u. await_line (28 # rest) t = Inr (rest, u) \<and> kbuffer u = kbuffer t"
  using press_enter [OF assms] assms(1)
  by (auto simp: await_line.simps [of "28 # _"] await_line.simps [of rest])

text \<open>Without Shift and Backspace the cells are the characters of the pressed keys.\<close>

lemma edits_plain:
  "edits codes (cells, length cells, False) = Some (cells', p, sh) \<Longrightarrow> 14 \<notin> set codes \<Longrightarrow> 0x2A \<notin> set codes \<Longrightarrow>
   cells' = cells @ map (key_char False) (filter (\<lambda>c. unat c < 128) codes)"
proof (induction codes arbitrary: cells)
  case (Cons code codes)
  show ?case
  proof (cases "128 \<le> unat code")
    case True
    then show ?thesis using Cons by auto
  next
    case False
    then have "edits codes (cells @ [key_char False code], length (cells @ [key_char False code]), False) = Some (cells', p, sh)"
      using Cons.prems by (auto split: if_splits)
    from Cons.IH [OF this] show ?thesis using Cons.prems(2,3) False by auto
  qed
qed auto

section \<open>Properties\<close>

text \<open>
  C27. Reading a line: whatever keys are pressed and released before the first Enter, \<^verbatim>\<open>scank\<close>
  returns what the line editor \<open>edits\<close> makes of them, up to the first cell that is zero, terminated,
  and leaves the later codes.  This holds whenever the editor has a result and the line fits the
  caller's buffer.  The editor is the driver's own one: a Shift
  counts for the next key only, also when it is held down, and Backspace does not erase the cell it steps back to.
  Without Shift and Backspace the line consists of the characters of the keys pressed.
\<close>

theorem scank_reads_line:
  assumes "con_ok n (con s)" "n + 8 * length codes < 2 ^ 29" "length (kbuffer s) = 512" "shift_key s = (if sh then 1 else 0)"
    and "28 \<notin> set codes" "edits codes ([], 0, sh) = Some (cells, p, sh')"
    and "line = takeWhile (\<lambda>c. c \<noteq> 0) cells" "length line < length buf"
  shows "(\<exists>s'. scank buf (codes @ 28 # rest) s = Inr (length line, line @ 0 # drop (length line + 1) buf, rest, s')) \<and>
    (\<not> sh \<and> 14 \<notin> set codes \<and> 0x2A \<notin> set codes \<longrightarrow> cells = map (key_char False) (filter (\<lambda>c. unat c < 128) codes))"
proof -
  let ?s = "s\<lparr>kbuffer := replicate 512 0, scan_flag := True, kb_count := 0\<rparr>"
  have "reading n ([], 0, sh) ?s" using assms(1,4) by simp
  then obtain t where t: "await_line (codes @ 28 # rest) ?s = await_line (28 # rest) t"
    "reading (n + 8 * length codes) (cells, p, sh') t"
    using edits_run [OF _ _ assms(5,6), where rest = "28 # rest"] assms(2) by fastforce
  then obtain u where u: "await_line (codes @ 28 # rest) ?s = Inr (rest, u)" "kbuffer u = cells @ replicate (512 - length cells) 0"
    "length cells \<le> 511"
    using await_enter [OF t(2) assms(2), of rest] by auto
  then show ?thesis
    using scank_finish [OF assms(3) u(3) assms(7,8) u(1,2)] edits_plain [of codes "[]" cells p sh'] assms(6) by auto
qed

text \<open>
  Shift, h, its release, i, its release, the release of Shift, Backspace, Enter: the line is \<open>Hi\<close>.
\<close>

theorem scank_reads_line_witness:
  "\<exists>s'. scank [1, 1, 1, 1] ([0x2A, 35, 163, 23, 151, 0xAA, 14, 142] @ 28 # [156]) tty0 = Inr (2, [72, 105, 0, 1], [156], s')"
proof -
  have "edits [0x2A, 35, 163, 23, 151, 0xAA, 14, 142] ([], 0, False) = Some ([72, 105], 1, False)"
    by (simp add: key_char_def keyborard_character_set_normal_def Keyboard_character_set_shift_def)
  from scank_reads_line [of 80 tty0 _ False, OF _ _ _ _ _ this refl, of "[1, 1, 1, 1]" "[156]"]
  show ?thesis using blank_screen by (simp add: tty0_def) (simp add: numeral_2_eq_2)
qed

text \<open>
  A backspace on an empty line makes the index negative; the next character is stored in front
  of the buffer.
\<close>

theorem backspace_underflow:
  assumes "con_ok n (con s)" "n < 2 ^ 28" "length (kbuffer s) = 512" "shift_key s = 0" "text_key False c"
  shows "scank buf (14 # c # rest) s = Inl Out_of_bounds"
proof -
  let ?s = "s\<lparr>kbuffer := replicate 512 0, scan_flag := True, kb_count := 0\<rparr>"
  have s: "con_ok n (con ?s)" "n < 2 ^ 29" using assms(1,2) by simp_all
  obtain c1 where c1: "tty_printk [37, 99, 0] [Int_arg (ucast (8 :: u8))] ?s = Inr (1, ?s\<lparr>con := c1\<rparr>)" "con_ok (n + 8) c1"
    using tty_echo(1) [OF s] by blast
  have "keyborard_character_set_normal ! 14 = 8" by (simp add: keyborard_character_set_normal_def)
  then have "kb_key keyborard_character_set_normal 14 ?s = Inr (?s\<lparr>con := c1, kb_count := -1\<rparr>)"
    using c1(1) by (simp add: kb_key_def)
  then have one: "kb_handler 14 ?s = Inr (outportb 0x20 0x20 (?s\<lparr>con := c1, kb_count := -1\<rparr>))"
    using assms(4) by (simp add: kb_handler_def)
  let ?t = "outportb 0x20 0x20 (?s\<lparr>con := c1, kb_count := -1\<rparr>)"
  have code: "unat c < 128" "c \<noteq> 14" "c \<noteq> 28" "c \<noteq> 0x2A" "key_char False c \<noteq> 10"
    using assms(5) by (auto simp: text_key_def)
  have t: "con_ok (n + 8) (con ?t)" "n + 8 < 2 ^ 29" using c1(2) assms(2) by (simp_all add: outportb_def)
  obtain c2 where "tty_printk [37, 99, 0] [Int_arg (ucast (key_char False c))] ?t = Inr (1, ?t\<lparr>con := c2\<rparr>)"
    using tty_echo(1) [OF t] by blast
  then have "kb_handler c ?t = Inl Out_of_bounds"
    using code press_bit [OF code(1)] assms(4)
    by (simp add: kb_handler_def kb_key_def Let_def key_char_def kb_store_def outportb_def)
  then have "await_line (14 # c # rest) ?s = Inl Out_of_bounds"
    using one by (simp add: await_line.simps [of "14 # _"] await_line.simps [of "c # _"] outportb_def)
  then show ?thesis using assms(3) by (simp add: scank_def clear_kbuffer_ok)
qed

theorem backspace_underflow_witness: "scank [1, 1] [14, 23, 28] tty0 = Inl Out_of_bounds"
  using backspace_underflow [of 80 tty0 23 "[1, 1]" "[28]"] blank_screen
  by (simp add: tty0_def text_key_def key_char_def keyborard_character_set_normal_def)

end
