(* ===== verification/Timer_Claims.thy ===== *)
theory Timer_Claims
  imports Timer Cow_Claims Keyboard_Claims Sched_Claims
begin

text \<open>The properties of the clock interrupt.\<close>

section \<open>Lemmas\<close>

definition two_digits :: "int \<Rightarrow> u8 list" where
  "two_digits n = [to_char (n div 10 + 48), to_char (n mod 10 + 48)]"

lemma fillTimer_ok:
  assumes "0 \<le> n" "n < 60" "p + 1 < length s"
  shows "fillTimer p n s = Inr (take p s @ two_digits n @ drop (p + 2) s)"
proof -
  have upd: "s[p := a, p + 1 := b] = take p s @ [a, b] @ drop (p + 2) s" for a b
    using assms(3) by (simp add: list_update_append upd_conv_take_nth_drop take_Suc_conv_app_nth)
  show ?thesis
  proof (cases "n \<le> 9")
    case True
    then have "n div 10 = 0" "n mod 10 = n" using assms(1) by simp_all
    then have "two_digits n = [48, to_char (n + 48)]" by (simp add: two_digits_def to_char_def)
    then show ?thesis using True assms(3) upd by (simp add: fillTimer_def)
  next
    case False
    then show ?thesis using assms(3) upd by (simp add: fillTimer_def two_digits_def)
  qed
qed

definition clock_text :: "int \<Rightarrow> u8 list" where
  "clock_text t = two_digits (t div 3600 mod 24) @ [58, 58] @ two_digits (t mod 3600 div 60) @ [58, 58] @ two_digits (t mod 60)"

lemma clock_text_length: "length (clock_text t) = 10"
  by (simp add: clock_text_def two_digits_def)

lemma time_string_ok:
  assumes "tm_hours c = t div 3600 mod 24" "tm_mins c = t mod 3600 div 60" "tm_secs c = t mod 60" "10 < length junk"
  shows "time_string c junk = Inr (clock_text t @ 0 # drop 11 junk)"
proof -
  obtain a0 a1 a2 a3 a4 a5 a6 a7 a8 a9 a10 xs where junk: "junk = [a0, a1, a2, a3, a4, a5, a6, a7, a8, a9, a10] @ xs"
  proof -
    define ys where "ys = take 11 junk"
    have "length ys = 11" using assms(4) by (simp add: ys_def)
    then obtain a0 a1 a2 a3 a4 a5 a6 a7 a8 a9 a10 where "ys = [a0, a1, a2, a3, a4, a5, a6, a7, a8, a9, a10]"
      by (auto simp: numeral_eq_Suc length_Suc_conv)
    moreover have "junk = ys @ drop 11 junk" by (simp add: ys_def)
    ultimately show thesis using that by metis
  qed
  have r: "0 \<le> t div 3600 mod 24" "t div 3600 mod 24 < 60" "0 \<le> t mod 3600 div 60" "t mod 3600 div 60 < 60"
    "0 \<le> t mod 60" "t mod 60 < 60"
    using pos_mod_bound [of 24 "t div 3600"] pos_mod_bound [of 3600 t] pos_mod_sign [of 3600 t]
    by (simp_all add: div_less_iff_less_mult pos_imp_zdiv_nonneg_iff)
  have f: "fillTimer 0 (tm_hours c) s = Inr (two_digits (t div 3600 mod 24) @ drop 2 s)"
    "fillTimer 4 (tm_mins c) s = Inr (take 4 s @ two_digits (t mod 3600 div 60) @ drop 6 s)"
    "fillTimer 8 (tm_secs c) s = Inr (take 8 s @ two_digits (t mod 60) @ drop 10 s)" if "10 < length s" for s
    using that assms(1-3) r by (simp_all add: fillTimer_ok numeral_2_eq_2)
  have d: "drop 11 junk = xs" by (simp add: junk)
  show ?thesis unfolding d unfolding time_string_def junk clock_text_def
    by (simp add: f two_digits_def)
qed

lemma digit_char:
  assumes "0 \<le> d" "d < 10"
  shows "to_char (d + 48) \<notin> {0, 8, 9, 10, 13}"
proof -
  have "d = 0 \<or> d = 1 \<or> d = 2 \<or> d = 3 \<or> d = 4 \<or> d = 5 \<or> d = 6 \<or> d = 7 \<or> d = 8 \<or> d = 9"
    using assms by presburger
  then show ?thesis by (auto simp: to_char_def)
qed

lemma two_digits_plain: "0 \<le> n \<Longrightarrow> n < 60 \<Longrightarrow> c \<in> set (two_digits n) \<Longrightarrow> c \<notin> {0, 8, 9, 10, 13}"
  using digit_char [of "n div 10"] digit_char [of "n mod 10"] zdiv_mono1 [of n 59 10]
  by (auto simp: two_digits_def pos_imp_zdiv_nonneg_iff)

lemma time_parts:
  "0 \<le> t div 3600 mod 24" "t div 3600 mod 24 < 60" "0 \<le> t mod 3600 div 60" "t mod 3600 div 60 < 60" "0 \<le> t mod 60" "t mod 60 < 60"
  "t div 3600 mod 24 * 3600 + t mod 3600 div 60 * 60 + t mod 60 = t mod 86400" for t :: int
proof -
  show "0 \<le> t div 3600 mod 24" "t div 3600 mod 24 < 60" "0 \<le> t mod 3600 div 60" "t mod 3600 div 60 < 60" "0 \<le> t mod 60" "t mod 60 < 60"
    using pos_mod_bound [of 24 "t div 3600"] pos_mod_bound [of 3600 t] pos_mod_sign [of 3600 t]
    by (simp_all add: div_less_iff_less_mult pos_imp_zdiv_nonneg_iff)
  have "t mod 86400 = t div 3600 mod 24 * 3600 + t mod 3600" using zmod_zmult2_eq [of 24 t 3600] by simp
  also have "t mod 3600 = t mod 3600 div 60 * 60 + t mod 3600 mod 60" by simp
  also have "t mod 3600 mod 60 = t mod 60" by (rule mod_mod_cancel) simp
  finally show "t div 3600 mod 24 * 3600 + t mod 3600 div 60 * 60 + t mod 60 = t mod 86400" by simp
qed

lemma clock_text_plain: "c \<in> set (clock_text t) \<Longrightarrow> c \<notin> {0, 8, 9, 10, 13}"
  using two_digits_plain [OF time_parts(1,2) [of t]] two_digits_plain [OF time_parts(3,4) [of t]] two_digits_plain [OF time_parts(5,6) [of t]]
  by (auto simp: clock_text_def)

text \<open>Plain characters that fit the line change just their cells.\<close>

lemma type_text:
  "(\<And>c. c \<in> set cs \<Longrightarrow> c \<notin> {0, 8, 9, 10, 13}) \<Longrightarrow> 0 \<le> col u \<Longrightarrow> col u + int (length cs) \<le> 80 \<Longrightarrow>
   fold type_char cs u = u\<lparr>col := col u + int (length cs),
     grid := (\<lambda>x y. if y = nat (row u) \<and> nat (col u) \<le> x \<and> x < nat (col u) + length cs then cs ! (x - nat (col u)) else grid u x y)\<rparr>"
proof (induction cs arbitrary: u)
  case (Cons c cs)
  let ?u = "u\<lparr>col := col u + 1, grid := (grid u)(nat (col u) := (grid u (nat (col u)))(nat (row u) := c))\<rparr>"
  have c: "type_char c u = ?u" using Cons.prems by (auto simp: type_char_def show_char_def)
  have n: "nat (col u + 1) = Suc (nat (col u))" using Cons.prems(2) by simp
  have "fold type_char cs ?u = ?u\<lparr>col := col ?u + int (length cs), grid := (\<lambda>x y. if y = nat (row ?u) \<and> nat (col ?u) \<le> x \<and>
      x < nat (col ?u) + length cs then cs ! (x - nat (col ?u)) else grid ?u x y)\<rparr>"
    using Cons.prems by (intro Cons.IH) auto
  then show ?case
    by (auto simp: c n fun_eq_iff nth_Cons' not_less_eq_eq Suc_diff_Suc intro!: terminal.equality)
qed (auto intro!: terminal.equality simp: fun_eq_iff)

section \<open>The display\<close>

definition with_clock :: "int \<Rightarrow> terminal \<Rightarrow> terminal" where
  "with_clock t u = u\<lparr>grid := (\<lambda>x y. if y = 22 \<and> 66 \<le> x \<and> x < 76 then clock_text t ! (x - 66) else grid u x y)\<rparr>"

lemma show_time_ok:
  assumes "tm_hours c = t div 3600 mod 24" "tm_mins c = t mod 3600 div 60" "tm_secs c = t mod 60" "10 < length junk"
    and "con_ok n (con s)" "n < 2 ^ 28"
  shows "\<exists>d. show_time c junk s = Inr (s\<lparr>con := d\<rparr>) \<and> abs_con d = with_clock t (abs_con (con s)) \<and> con_ok n d"
proof -
  have g: "con_ok n (gotoxy 66 22 (con s))" using assms(5) by (auto simp: con_ok_def gotoxy_def)
  have z: "0 \<notin> set (clock_text t)" using clock_text_plain by blast
  obtain d where d: "s_printf (clock_text t @ 0 # drop 11 junk) (gotoxy 66 22 (con s)) = Inr d"
    "abs_con d = fold type_char (clock_text t) (abs_con (gotoxy 66 22 (con s)))" "con_ok (n + 8 * 10) d"
    using s_printf_ok [OF g _ z, of "drop 11 junk"] assms(6) by (auto simp: clock_text_length)
  let ?d = "gotoxy (csr_x (con s)) (csr_y (con s)) d"
  have run: "show_time c junk s = Inr (s\<lparr>con := ?d\<rparr>)"
    using time_string_ok [OF assms(1-4)] d(1)
    by (simp add: show_time_def tty_printk_def printk_def conversion_def Let_def getcsr_x_def getcsr_y_def)
  have "fold type_char (clock_text t) (abs_con (gotoxy 66 22 (con s))) =
      (with_clock t (abs_con (con s)))\<lparr>col := 76, row := 22\<rparr>"
    using type_text [of "clock_text t" "abs_con (gotoxy 66 22 (con s))"] clock_text_plain [of _ t]
    by (auto simp: clock_text_length gotoxy_def with_clock_def fun_eq_iff intro!: terminal.equality)
  then have "abs_con ?d = with_clock t (abs_con (con s))"
    using d(2) by (auto simp: gotoxy_def with_clock_def intro!: terminal.equality)
  moreover have "con_ok n ?d" using d(3) assms(5) by (auto simp: con_ok_def gotoxy_def)
  ultimately show ?thesis using run by blast
qed

text \<open>What a tick needs to be able to show the time.\<close>

definition clock_ready :: "u8 list \<Rightarrow> kernel \<Rightarrow> bool" where
  "clock_ready junk k \<longleftrightarrow> con_ok (2 ^ 27) (con (k_tty k)) \<and> 0 \<le> tm_time (k_clock k) \<and> tm_time (k_clock k) < 2 ^ 31 - 1 \<and> 10 < length junk"

lemma tick_display_ok:
  assumes "clock_ready junk k" "t = tm_time (k_clock k) + 1" "tm_counter (k_clock k) mod 100 = 0"
  shows "\<exists>c d. tick_display junk k = Inr (k\<lparr>k_clock := c, k_tty := (k_tty k)\<lparr>con := d\<rparr>\<rparr>) \<and>
           tm_counter c = tm_counter (k_clock k) \<and> tm_time c = t \<and> tm_hours c * 3600 + tm_mins c * 60 + tm_secs c = t mod 86400 \<and>
           abs_con d = with_clock t (abs_con (con (k_tty k)))"
proof -
  let ?c = "(k_clock k)\<lparr>tm_time := t, tm_hours := t div 3600 mod 24, tm_mins := (t - t div 3600 * 3600) div 60, tm_secs := t mod 60\<rparr>"
  have m: "t - t div 3600 * 3600 = t mod 3600" by (rule minus_div_mult_eq_mod)
  have run: "tick_clock (k_clock k) = Inr ?c" using assms(1,2) by (simp add: tick_clock_def clock_ready_def)
  obtain d where "show_time ?c junk (k_tty k) = Inr ((k_tty k)\<lparr>con := d\<rparr>)" "abs_con d = with_clock t (abs_con (con (k_tty k)))"
    using show_time_ok [of ?c t junk "2 ^ 27" "k_tty k"] assms(1) by (auto simp: clock_ready_def m)
  then show ?thesis
    using run assms(3) time_parts(7) [of t] by (intro exI [of _ ?c] exI [of _ d]) (simp add: tick_display_def m)
qed

section \<open>Properties\<close>

text \<open>
  C29. The clock: whenever the tick makes the counter a multiple of 100, the time \<open>t\<close> in seconds advances
  by one, and on the screen exactly the ten cells from column 66 of row 22 change, to \<^verbatim>\<open>HH::MM::SS\<close>
  of \<open>t\<close> modulo a day; the cursor is put back.  On other ticks time and screen stay.  The memory
  behind the array \<^verbatim>\<open>str_time[10]\<close> must have a byte for the terminator, and the scheduler's
  part of the interrupt must return.
\<close>

theorem clock_shows_time:
  assumes "clock_ready junk k" "n = tm_counter (k_clock k) + 1" "n mod 18 = 0 \<longrightarrow> awake (k_sched k) \<noteq> None" "t = tm_time (k_clock k) + 1"
  shows "\<exists>r k'. call_timer junk k = Inr (r, k') \<and> tm_counter (k_clock k') = n \<and>
           (if n mod 100 = 0
            then tm_time (k_clock k') = t \<and>
              tm_hours (k_clock k') * 3600 + tm_mins (k_clock k') * 60 + tm_secs (k_clock k') = t mod 86400 \<and>
              abs_con (con (k_tty k')) = with_clock t (abs_con (con (k_tty k)))
            else tm_time (k_clock k') = tm_time (k_clock k) \<and> con (k_tty k') = con (k_tty k))"
proof -
  let ?k = "k\<lparr>k_clock := (k_clock k)\<lparr>tm_counter := n\<rparr>\<rparr>"
  have sched: "\<exists>r k2. tick_sched k1 = Inr (r, k2) \<and> k_clock k2 = k_clock k1 \<and> k_tty k2 = k_tty k1"
    if "tm_counter (k_clock k1) = n" "k_sched k1 = k_sched k" for k1
    using assms(3) that by (cases "schedule (the (awake (k_sched k)))") (auto simp: tick_sched_def)
  have run: "call_timer junk k = bindr (tick_display junk ?k) (\<lambda>k1. tick_sched (k1\<lparr>k_tty := outportb 0x20 0x20 (k_tty k1)\<rparr>))"
    by (simp add: call_timer_def assms(2))
  show ?thesis
  proof (cases "n mod 100 = 0")
    case True
    obtain c d where "tick_display junk ?k = Inr (?k\<lparr>k_clock := c, k_tty := (k_tty ?k)\<lparr>con := d\<rparr>\<rparr>)"
      "tm_counter c = n" "tm_time c = t" "tm_hours c * 3600 + tm_mins c * 60 + tm_secs c = t mod 86400"
      "abs_con d = with_clock t (abs_con (con (k_tty k)))"
      using tick_display_ok [of junk ?k t] assms(1,4) True by (auto simp: clock_ready_def)
    then show ?thesis using True run sched [of "k\<lparr>k_clock := c, k_tty := outportb 0x20 0x20 ((k_tty k)\<lparr>con := d\<rparr>)\<rparr>"]
      by (auto simp: outportb_def)
  next
    case False
    then show ?thesis using run sched [of "?k\<lparr>k_tty := outportb 0x20 0x20 (k_tty k)\<rparr>"]
      by (auto simp: tick_display_def outportb_def)
  qed
qed

theorem clock_shows_time_witness:
  "\<exists>r k'. call_timer (replicate 16 0) (kernel_empty\<lparr>k_clock := clock0\<lparr>tm_counter := 99, tm_time := 3660\<rparr>\<rparr>) = Inr (r, k') \<and>
     map (\<lambda>x. grid (abs_con (con (k_tty k'))) x 22) [66..<76] = [48, 49, 58, 58, 48, 49, 58, 58, 48, 49]"
proof -
  let ?k = "kernel_empty\<lparr>k_clock := clock0\<lparr>tm_counter := 99, tm_time := 3660\<rparr>\<rparr>"
  have "clock_ready (replicate 16 0) ?k"
    using con_ok_mono [OF blank_screen, of "2 ^ 27"]
    by (simp add: clock_ready_def kernel_empty_def kernel_shared_def tty0_def)
  from clock_shows_time [OF this refl _ refl] obtain r k' where k': "call_timer (replicate 16 0) ?k = Inr (r, k')"
    "abs_con (con (k_tty k')) = with_clock 3661 (abs_con (con (k_tty ?k)))"
    by auto
  have "clock_text 3661 = [48, 49, 58, 58, 48, 49, 58, 58, 48, 49]" by (simp add: clock_text_def two_digits_def to_char_def)
  then have "map (\<lambda>x. grid (abs_con (con (k_tty k'))) x 22) [66..<76] = [48, 49, 58, 58, 48, 49, 58, 58, 48, 49]"
    unfolding k'(2) by (simp add: with_clock_def upt_conv_Cons)
  with k'(1) show ?thesis by (intro exI conjI)
qed

text \<open>
  With no byte behind \<^verbatim>\<open>str_time[10]\<close>, which is what the declaration gives, every hundredth tick
  writes its terminator out of bounds.
\<close>

theorem clock_string_overflow:
  assumes "0 \<le> tm_time (k_clock k)" "tm_time (k_clock k) < 2 ^ 31 - 1" "length junk = 10" "(tm_counter (k_clock k) + 1) mod 100 = 0"
  shows "call_timer junk k = Inl Out_of_bounds"
proof -
  define t where "t = tm_time (k_clock k) + 1"
  have m: "t - t div 3600 * 3600 = t mod 3600" by (rule minus_div_mult_eq_mod)
  have f: "\<exists>s'. fillTimer p i s = Inr s' \<and> length s' = length s" if "0 \<le> i" "i < 60" "p + 1 < length s" for p i s
    using fillTimer_ok [OF that] that(3) by (simp add: two_digits_def)
  obtain s1 where s1: "fillTimer 0 (t div 3600 mod 24) junk = Inr s1" "length s1 = 10"
    using f [OF time_parts(1,2), of 0 junk t] assms(3) by auto
  obtain s2 where s2: "fillTimer 4 (t mod 3600 div 60) (s1[2 := 58, 3 := 58]) = Inr s2" "length s2 = 10"
    using f [OF time_parts(3,4), of 4 "s1[2 := 58, 3 := 58]" t] s1(2) by auto
  obtain s3 where s3: "fillTimer 8 (t mod 60) (s2[6 := 58, 7 := 58]) = Inr s3" "length s3 = 10"
    using f [OF time_parts(5,6), of 8 "s2[6 := 58, 7 := 58]" t] s2(2) by auto
  have "ck t = Inr t" unfolding t_def using assms(1,2) by (intro ck_in) auto
  then show ?thesis
    using s1 s2 s3 assms(4)
    by (simp add: call_timer_def tick_display_def tick_clock_def show_time_def time_string_def t_def [symmetric] m)
qed

theorem clock_string_overflow_witness:
  "call_timer (replicate 10 0) (kernel_empty\<lparr>k_clock := clock0\<lparr>tm_counter := 99\<rparr>\<rparr>) = Inl Out_of_bounds"
  using clock_string_overflow [of "kernel_empty\<lparr>k_clock := clock0\<lparr>tm_counter := 99\<rparr>\<rparr>" "replicate 10 0"] by (simp add: clock0_def)

text \<open>
  C30. Preemption: on every 18th tick the clock interrupt acknowledges the interrupt controller and switches to the next
  runnable task; while a line is being read the current task keeps running.  This holds with any
  tasks waiting, and on full seconds, when the time can be shown; but with more than one task waiting, one of
  them a sleeper whose time is up, the interrupt never returns.
\<close>

theorem call_timer_preempts:
  assumes "sched_ok (k_sched k) rs ws" "rs \<noteq> []" "\<not> t_is_sleep (tasks (k_sched k) (list_entry (runQueue (k_sched k))))"
    and "n = tm_counter (k_clock k) + 1" "n mod 18 = 0" "n mod 100 = 0 \<longrightarrow> clock_ready junk k"
  shows "if 1 < length ws \<and> (\<exists>t \<in> set ws. t_is_sleep (tasks (k_sched k) t) \<and> sint (t_sleep_time (tasks (k_sched k) t) - 1) \<le> 0)
         then call_timer junk k = Inl No_return
         else \<exists>r k'. call_timer junk k = Inr (r, k') \<and> ports (k_tty k') = ports (k_tty k) @ [(0x20, 0x20)] \<and>
           (if scan_flag (k_tty k)
            then r = Ret () \<and> getCurrentTask (k_sched k') = getCurrentTask (k_sched k) \<and> sched_ok (k_sched k') rs ws
            else r = Switch \<and> getCurrentTask (k_sched k') = hd rs \<and> sched_ok (k_sched k') (tl rs @ [hd rs]) ws)"
proof -
  let ?s = "k_sched k"
  have q: "queues ?s rs ws" using assms(1) by (simp add: sched_ok_def)
  note aw = awake_spec [OF q, unfolded head_awake_def wakes_def, OF assms(3)]
  let ?k = "k\<lparr>k_clock := (k_clock k)\<lparr>tm_counter := n\<rparr>\<rparr>"
  obtain c d where disp: "tick_display junk ?k = Inr (k\<lparr>k_clock := c, k_tty := (k_tty k)\<lparr>con := d\<rparr>\<rparr>)" "tm_counter c = n"
  proof (cases "n mod 100 = 0")
    case True
    then show thesis using tick_display_ok [of junk ?k, OF _ refl] assms(6) that by (auto simp: clock_ready_def)
  next
    case False
    then show thesis using that [of "con (k_tty k)" "(k_clock k)\<lparr>tm_counter := n\<rparr>"] by (simp add: tick_display_def)
  qed
  let ?k1 = "k\<lparr>k_clock := c, k_tty := outportb 0x20 0x20 ((k_tty k)\<lparr>con := d\<rparr>)\<rparr>"
  have run: "call_timer junk k = tick_sched ?k1" using disp(1) by (simp add: call_timer_def assms(4))
  show ?thesis
  proof (cases "1 < length ws \<and> (\<exists>t \<in> set ws. t_is_sleep (tasks ?s t) \<and> sint (t_sleep_time (tasks ?s t) - 1) \<le> 0)")
    case True
    then show ?thesis using run aw disp(2) assms(5) by (simp add: tick_sched_def)
  next
    case False
    then obtain s' where s': "awake ?s = Some s'" "queues s' rs ws" "num_task s' = num_task ?s"
      using aw q by (auto split: if_splits)
    note sw = schedule_switch [OF s'(2) assms(2)]
    have rot: "rotate1 rs = tl rs @ [hd rs]" using assms(2) by (cases rs) auto
    have "num_task (snd (schedule s')) = num_task ?s"
      by (simp add: s'(3) schedule_def Let_def sys_yield_def upd_lists_def)
    then have ok: "sched_ok (snd (schedule s')) (tl rs @ [hd rs]) ws" "sched_ok s' rs ws"
      using sw(2) s' assms(1,2) by (cases rs; simp add: sched_ok_def rot)+
    have cur: "getCurrentTask (snd (schedule s')) = hd rs" "getCurrentTask s' = getCurrentTask ?s"
      using current_last [OF sw(2)] current_last [OF s'(2)] current_last [OF q] assms(2) by (simp_all add: rot)
    obtain s2 where s2: "schedule s' = (Switch, s2)" using sw(1) by (metis prod.collapse)
    have "tick_sched ?k1 = (if scan_flag (k_tty k) then Inr (Ret (), ?k1\<lparr>k_sched := s'\<rparr>) else Inr (Switch, ?k1\<lparr>k_sched := s2\<rparr>))"
      using s'(1) s2 disp(2) assms(5) by (simp add: tick_sched_def outportb_def)
    then show ?thesis unfolding if_not_P [OF False] run using s2 ok cur by (auto simp: outportb_def)
  qed
qed

text \<open>Nobody waits in \<open>boot2\<close>; two tasks wait in \<open>asleep2\<close>, one of them a sleeper that is due.\<close>

theorem call_timer_preempts_witness:
  "(\<exists>k'. call_timer [] (kernel_empty\<lparr>k_sched := boot2, k_clock := clock0\<lparr>tm_counter := 17\<rparr>\<rparr>) = Inr (Switch, k') \<and>
     getCurrentTask (k_sched k') = 0x100000) \<and>
   call_timer [] (kernel_empty\<lparr>k_sched := asleep2, k_clock := clock0\<lparr>tm_counter := 17\<rparr>\<rparr>) = Inl No_return"
proof -
  let ?k = "\<lambda>s. kernel_empty\<lparr>k_sched := s, k_clock := clock0\<lparr>tm_counter := 17\<rparr>\<rparr>"
  have "\<not> scan_flag (k_tty kernel_empty)" by (simp add: kernel_empty_def kernel_shared_def tty0_def)
  then show ?thesis
    using call_timer_preempts [of "?k boot2" "[0x100000, 0x200000]" "[]" 18 "[]"] boot2_ok
      call_timer_preempts [of "?k asleep2" "[0x200000]" "[0x100000, 0x300000]" 18 "[]"] asleep2_ok boot2_head
    by auto
qed

end
