(* ===== verification/Interrupts.thy ===== *)
theory Interrupts
  imports Timer
begin

text \<open>
  The tables that connect the processor to the kernel: the interrupt descriptor table
  (\<^verbatim>\<open>sys/idt.c\<close>, \<^verbatim>\<open>sys/isrs.c\<close>, \<^verbatim>\<open>sys/irq.c\<close>), the segment descriptors (\<^verbatim>\<open>sys/gdt.c\<close>), and the
  exception handler.  The addresses of the handlers' assembly entry points are chosen by the
  linker: they are the argument \<open>adr\<close>.
\<close>

section \<open>Interrupt gates\<close>

record idt_entry =
  base_lo :: u16
  idt_sel :: u16
  always0 :: u8
  idt_flags :: u8
  base_mid :: u16
  base_high :: u32
  idt_reserved :: u32

text \<open>The static table is zero.\<close>

definition idt_zero :: "idt_entry list" where
  "idt_zero = replicate 256 \<lparr>base_lo = 0, idt_sel = 0, always0 = 0, idt_flags = 0, base_mid = 0, base_high = 0, idt_reserved = 0\<rparr>"

definition idt_set_gate :: "int \<Rightarrow> u64 \<Rightarrow> u16 \<Rightarrow> u8 \<Rightarrow> idt_entry list \<Rightarrow> idt_entry list res" where
  "idt_set_gate num base s fl idt =
     (if num < 0 then Inl Out_of_bounds
      else bindr (rd idt (nat num)) (\<lambda>e.
        wr idt (nat num) (e\<lparr>base_lo := ucast (base AND 0xFFFF), base_mid := ucast (drop_bit 16 base AND 0xFFFF),
          base_high := ucast (drop_bit 32 base AND 0xFFFFFFFF), idt_sel := s, always0 := 0, idt_flags := fl\<rparr>)))"

text \<open>The entry points.\<close>

datatype handler = Handler_isr nat | Handler_irq0 | Handler_irq1 | Handler_idt80 | Handler_idt128

text \<open>A list of calls \<^verbatim>\<open>idt_set_gate(n, &h, 0x08, f)\<close>.\<close>

fun set_gates :: "(handler \<Rightarrow> u64) \<Rightarrow> (int \<times> handler \<times> u8) list \<Rightarrow> idt_entry list \<Rightarrow> idt_entry list res" where
  "set_gates adr [] idt = Inr idt"
| "set_gates adr ((n, h, f) # gs) idt = bindr (idt_set_gate n (adr h) 0x08 f idt) (set_gates adr gs)"

text \<open>The calls of \<^verbatim>\<open>isrs_install\<close>; 13 and 14 are set twice.\<close>

definition isrs_install :: "(handler \<Rightarrow> u64) \<Rightarrow> idt_entry list \<Rightarrow> idt_entry list res" where
  "isrs_install adr = set_gates adr
     (map (\<lambda>n. (int n, Handler_isr n, 0x8E)) ([0..<15] @ [13, 14] @ [15..<32]))"

definition irq_install :: "(handler \<Rightarrow> u64) \<Rightarrow> idt_entry list \<Rightarrow> idt_entry list res" where
  "irq_install adr = set_gates adr
     [(32, Handler_irq0, 0x8E), (33, Handler_irq1, 0x8E), (80, Handler_idt80, 0xEE), (128, Handler_idt128, 0xEE)]"

section \<open>The interrupt controllers\<close>

definition irq_remap :: "tty \<Rightarrow> tty" where
  "irq_remap s = fold (\<lambda>(p, v). outportb p v)
     [(0x20, 0x11), (0xA0, 0x11), (0x21, 0x20), (0xA1, 0x28), (0x21, 0x04), (0xA1, 0x02), (0x21, 0x01), (0xA1, 0x01),
      (0x21, 0x0), (0xA1, 0x0)] s"

text \<open>\<^verbatim>\<open>irq_routines\<close>: function pointers, \<^verbatim>\<open>NULL\<close> is \<open>None\<close>.\<close>

datatype routine = Timer_handler | Other_routine ptr

definition irq_install_handler :: "nat \<Rightarrow> routine \<Rightarrow> routine option list \<Rightarrow> routine option list res" where
  "irq_install_handler irq h rs = wr rs irq (Some h)"

definition irq_uninstall_handler :: "nat \<Rightarrow> routine option list \<Rightarrow> routine option list res" where
  "irq_uninstall_handler irq rs = wr rs irq None"

record intr =
  idt :: "idt_entry list"
  idtp_limit :: nat
  irq_routines :: "routine option list"
  i_tty :: tty

definition timer_install :: "intr \<Rightarrow> intr res" where
  "timer_install s =
     bindr (irq_install_handler 0 Timer_handler (irq_routines s)) (\<lambda>rs.
       Inr (s\<lparr>irq_routines := rs, i_tty := timer_set (i_tty s)\<rparr>))"

text \<open>\<^verbatim>\<open>reload_idt\<close>; an entry has 16 bytes.  The base of the table and the load of the register follow.\<close>

definition reload_idt :: "(handler \<Rightarrow> u64) \<Rightarrow> intr \<Rightarrow> intr res" where
  "reload_idt adr s =
     bindr (isrs_install adr (idt s)) (\<lambda>t1.
       bindr (irq_install adr t1) (\<lambda>t2.
         timer_install (s\<lparr>idtp_limit := 16 * 256 - 1, idt := t2, i_tty := irq_remap (i_tty s)\<rparr>)))"

section \<open>Segment descriptors\<close>

definition gdt_init :: "u64 list" where
  "gdt_init =
     (let cs = 0x00180000000000; ds = 0x00100000000000; dpl3 = 0x00600000000000; p = 0x00800000000000;
          l = 0x20000000000000; w = 0x00020000000000
      in [0, cs OR p OR l, ds OR p OR w, cs OR p OR dpl3 OR l, ds OR p OR w OR dpl3, 0, 0] @ replicate 25 0)"

text \<open>Storing the low \<open>n\<close> bits of \<open>v\<close> in the bit field at offset \<open>off\<close>.\<close>

definition set_bits :: "nat \<Rightarrow> nat \<Rightarrow> u64 \<Rightarrow> u64 \<Rightarrow> u64" where
  "set_bits off n v x = (x AND NOT (push_bit off (mask n))) OR push_bit off (v AND mask n)"

definition get_bits :: "nat \<Rightarrow> nat \<Rightarrow> u64 \<Rightarrow> u64" where
  "get_bits off n x = drop_bit off x AND mask n"

text \<open>
  The task state segment's descriptor, entries 5 and 6: the fields of
  \<^verbatim>\<open>struct sys_segment_descriptor\<close> from the lowest bit on.  The 40 bits of \<^verbatim>\<open>sd_hibase\<close> start at
  bit 56, so 8 of them are in entry 5 and 32 in entry 6; \<^verbatim>\<open>sizeof(struct tss_t)\<close> is 56.
\<close>

definition setup_tss :: "u64 \<Rightarrow> u64 list \<Rightarrow> u64 list res" where
  "setup_tss tss gdt =
     bindr (rd gdt 5) (\<lambda>lo. bindr (rd gdt 6) (\<lambda>hi.
       let hb = drop_bit 24 tss;
           lo' = set_bits 56 8 hb (set_bits 55 1 0 (set_bits 48 4 0 (set_bits 47 1 1 (set_bits 45 2 0
                   (set_bits 40 5 9 (set_bits 16 24 tss (set_bits 0 16 (56 - 1) lo)))))));
           hi' = set_bits 0 32 (drop_bit 8 hb) hi
       in Inr (gdt[5 := lo', 6 := hi'])))"

section \<open>Exceptions\<close>

definition msg :: "string \<Rightarrow> u8 list" where
  "msg s = map (\<lambda>c. of_char c) s @ [0]"

definition exception_messages :: "u8 list list" where
  "exception_messages = map msg
     ([''Division By Zero'', ''Debug'', ''Non Maskable Interrupt'', ''Breakpoint'', ''Into Detected Overflow'',
       ''Out of Bounds'', ''Invalid Opcode'', ''No Coprocessor'', ''Double Fault'', ''Coprocessor Segment Overrun'',
       ''Bad TSS'', ''Segment Not Present'', ''Stack Fault'', ''General Protection Fault'', ''Page Fault'',
       ''Unknown Interrupt'', ''Coprocessor Fault'', ''Alignment Check'', ''Machine Check''] @ replicate 13 ''Reserved'')"

text \<open>A handler that ends in \<^verbatim>\<open>for (;;);\<close> leaves the machine halted in a state.\<close>

datatype fault_result = Handled "int outcome" kernel | Halted kernel

definition fault_handler :: "u64 \<Rightarrow> u64 \<Rightarrow> u64 \<Rightarrow> kernel \<Rightarrow> fault_result res" where
  "fault_handler r err_code cr2 k =
     (if r = 14 then bindr (page_fault err_code cr2 k) (\<lambda>(x, k'). Inr (Handled x k'))
      else if r < 32 then
        bindr (rd exception_messages (unat r)) (\<lambda>m.
          bindr (tty_printk (msg (''%s'' @ [CHR 0x0A])) [Str_arg m] (k_tty k)) (\<lambda>(n, t1).
            bindr (tty_printk (msg (''Exception. System Halted!'' @ [CHR 0x0A])) [] t1) (\<lambda>(n', t2).
              Inr (Halted (k\<lparr>k_tty := t2\<rparr>)))))
      else Inr (Handled (Ret 0) k))"

end
