(* ===== verification/Interrupts_Claims.thy ===== *)
theory Interrupts_Claims
  imports Interrupts
begin

text \<open>The properties of the descriptor tables and of the exception handler.\<close>

section \<open>Bit fields\<close>

lemma bit_set_bits:
  "bit (set_bits off n v x) i \<longleftrightarrow> i < 64 \<and> (if off \<le> i \<and> i < off + n then bit v (i - off) else bit x i)"
  by (auto simp: set_bits_def bit_simps)

lemma bit_get_bits: "bit (get_bits off n x) i \<longleftrightarrow> off + i < 64 \<and> i < n \<and> bit x (off + i)"
  by (auto simp: get_bits_def bit_simps dest: bit_imp_le_length)

lemma get_set_same: "off + n \<le> 64 \<Longrightarrow> get_bits off n (set_bits off n v x) = v AND mask n"
  by (rule bit_word_eqI) (auto simp: bit_get_bits bit_set_bits bit_simps)

lemma get_set_other:
  "off' + n' \<le> off \<or> off + n \<le> off' \<Longrightarrow> get_bits off' n' (set_bits off n v x) = get_bits off' n' x"
  by (rule bit_word_eqI) (auto simp: bit_get_bits bit_set_bits)

section \<open>Gates\<close>

text \<open>The address the processor reads from a gate.\<close>

definition gate_base :: "idt_entry \<Rightarrow> u64" where
  "gate_base e = ucast (base_lo e) OR push_bit 16 (ucast (base_mid e)) OR push_bit 32 (ucast (base_high e))"

definition gate :: "u64 \<Rightarrow> u8 \<Rightarrow> idt_entry \<Rightarrow> idt_entry" where
  "gate base f e = e\<lparr>base_lo := ucast (base AND 0xFFFF), base_mid := ucast (drop_bit 16 base AND 0xFFFF),
     base_high := ucast (drop_bit 32 base AND 0xFFFFFFFF), idt_sel := 0x08, always0 := 0, idt_flags := f\<rparr>"

lemma masks: "(0xFFFF :: u64) = mask 16" "(0xFFFFFFFF :: u64) = mask 32"
  by (simp_all add: mask_eq_exp_minus_1)

lemma gate_base_gate [simp]: "gate_base (gate base f e) = base"
proof (rule bit_word_eqI)
  fix i assume "i < LENGTH(64)"
  then show "bit (gate_base (gate base f e)) i = bit base i"
    by (cases "i < 32") (auto simp: gate_base_def gate_def masks bit_simps)
qed

lemma gate_fields [simp]: "idt_flags (gate b f e) = f" "idt_sel (gate b f e) = 8" "gate b f (gate b f e) = gate b f e"
  by (simp_all add: gate_def)

lemma idt_set_gate_eq:
  "0 \<le> n \<Longrightarrow> nat n < length t \<Longrightarrow> idt_set_gate n b 0x08 f t = Inr (t[nat n := gate b f (t ! nat n)])"
  by (simp add: idt_set_gate_def gate_def)

text \<open>A list of gates, each vector with one handler, sets those entries and no other.\<close>

lemma set_gates_ok:
  assumes "\<And>n h f. (n, h, f) \<in> set gs \<Longrightarrow> 0 \<le> n \<and> nat n < length t \<and> tab (nat n) = (h, f)"
  shows "\<exists>t'. set_gates adr gs t = Inr t' \<and> length t' = length t \<and>
           (\<forall>v < length t. t' ! v = (if int v \<in> fst ` set gs then gate (adr (fst (tab v))) (snd (tab v)) (t ! v) else t ! v))"
  using assms
proof (induction gs arbitrary: t)
  case (Cons g gs)
  obtain n h f where g: "g = (n, h, f)" by (cases g)
  have n: "0 \<le> n" "nat n < length t" "tab (nat n) = (h, f)" using Cons.prems [of n h f] g by simp_all
  let ?t = "t[nat n := gate (adr h) f (t ! nat n)]"
  obtain t' where t': "set_gates adr gs ?t = Inr t'" "length t' = length t"
    "\<forall>v < length t. t' ! v = (if int v \<in> fst ` set gs then gate (adr (fst (tab v))) (snd (tab v)) (?t ! v) else ?t ! v)"
    using Cons.IH [of ?t] Cons.prems by auto
  have "t' ! v = (if int v \<in> fst ` set (g # gs) then gate (adr (fst (tab v))) (snd (tab v)) (t ! v) else t ! v)"
    if "v < length t" for v
    using t'(3) that n g by (cases "v = nat n") auto
  then show ?case using t'(1,2) n g by (auto simp: idt_set_gate_eq)
qed simp

section \<open>The whole table\<close>

definition vector :: "nat \<Rightarrow> handler \<times> u8" where
  "vector v = (if v < 32 then (Handler_isr v, 0x8E) else if v = 32 then (Handler_irq0, 0x8E)
     else if v = 33 then (Handler_irq1, 0x8E) else if v = 80 then (Handler_idt80, 0xEE) else (Handler_idt128, 0xEE))"

definition vectors :: "nat set" where
  "vectors = {..<34} \<union> {80, 128}"

lemma isrs_install_ok:
  assumes "length t = 256"
  shows "\<exists>t'. isrs_install adr t = Inr t' \<and> length t' = 256 \<and>
           (\<forall>v < 256. t' ! v = (if v < 32 then gate (adr (fst (vector v))) (snd (vector v)) (t ! v) else t ! v))"
proof -
  let ?gs = "map (\<lambda>n. (int n, Handler_isr n, 0x8E)) ([0..<15] @ [13, 14] @ [15..<32]) :: (int \<times> handler \<times> u8) list"
  have "set ([0..<15] @ [13, 14] @ [15..<32]) = {..<32::nat}" by (auto simp del: upt_rec_numeral)
  then have img: "fst ` set ?gs = int ` {..<32}" by (simp only: set_map image_image fst_conv)
  have dom: "int v \<in> fst ` set ?gs \<longleftrightarrow> v < 32" for v unfolding img by auto
  have "0 \<le> n \<and> nat n < length t \<and> vector (nat n) = (h, f)" if "(n, h, f) \<in> set ?gs" for n h f
    using that assms by (auto simp: vector_def simp del: upt_rec_numeral)
  from set_gates_ok [of ?gs t vector adr, OF this] show ?thesis
    unfolding isrs_install_def dom assms .
qed

lemma irq_install_ok:
  assumes "length t = 256"
  shows "\<exists>t'. irq_install adr t = Inr t' \<and> length t' = 256 \<and>
           (\<forall>v < 256. t' ! v = (if v \<in> {32, 33, 80, 128} then gate (adr (fst (vector v))) (snd (vector v)) (t ! v) else t ! v))"
proof -
  let ?gs = "[(32, Handler_irq0, 0x8E), (33, Handler_irq1, 0x8E), (80, Handler_idt80, 0xEE), (128, Handler_idt128, 0xEE)]
    :: (int \<times> handler \<times> u8) list"
  have dom: "int v \<in> fst ` set ?gs \<longleftrightarrow> v \<in> {32, 33, 80, 128}" for v by auto
  have "0 \<le> n \<and> nat n < length t \<and> vector (nat n) = (h, f)" if "(n, h, f) \<in> set ?gs" for n h f
    using that assms by (auto simp: vector_def)
  from set_gates_ok [of ?gs t vector adr, OF this] show ?thesis
    unfolding irq_install_def dom assms .
qed

lemma reload_idt_ok:
  assumes "length (idt s) = 256" "irq_routines s \<noteq> []"
  shows "\<exists>t. reload_idt adr s = Inr (s\<lparr>idt := t, idtp_limit := 4095, irq_routines := (irq_routines s)[0 := Some Timer_handler],
             i_tty := timer_set (irq_remap (i_tty s))\<rparr>) \<and>
           (\<forall>v < 256. t ! v = (if v \<in> vectors then gate (adr (fst (vector v))) (snd (vector v)) (idt s ! v) else idt s ! v))"
proof -
  obtain t1 where t1: "isrs_install adr (idt s) = Inr t1" "length t1 = 256"
    "\<forall>v < 256. t1 ! v = (if v < 32 then gate (adr (fst (vector v))) (snd (vector v)) (idt s ! v) else idt s ! v)"
    using isrs_install_ok [OF assms(1)] by blast
  obtain t2 where t2: "irq_install adr t1 = Inr t2"
    "\<forall>v < 256. t2 ! v = (if v \<in> {32, 33, 80, 128} then gate (adr (fst (vector v))) (snd (vector v)) (t1 ! v) else t1 ! v)"
    using irq_install_ok [OF t1(2)] by blast
  have "t2 ! v = (if v \<in> vectors then gate (adr (fst (vector v))) (snd (vector v)) (idt s ! v) else idt s ! v)" if "v < 256" for v
  proof (cases "v < 32")
    case True
    then show ?thesis using t1(3) t2(2) that by (simp add: vectors_def)
  next
    case False
    then have "v \<in> vectors \<longleftrightarrow> v \<in> {32, 33, 80, 128}" by (auto simp: vectors_def)
    then show ?thesis using t1(3) t2(2) that False by simp
  qed
  then show ?thesis using t1(1) t2(1) assms(2)
    by (intro exI [of _ t2]) (simp add: reload_idt_def timer_install_def irq_install_handler_def)
qed

text \<open>
  C40. \<^verbatim>\<open>reload_idt\<close> on the zero table leaves exactly the vectors 0 to 33, 80 and 128 present; each gate
  holds the address of its entry point and the kernel's code segment; and user code can raise
  exactly 80 and 128, the system call vectors, by an instruction.
\<close>

theorem reload_idt_gates:
  assumes "idt s = idt_zero" "length (irq_routines s) = 16"
  shows "\<exists>s'. reload_idt adr s = Inr s' \<and>
           (\<forall>v \<in> vectors. gate_base (idt s' ! v) = adr (fst (vector v)) \<and> idt_sel (idt s' ! v) = 8) \<and>
           {v. v < 256 \<and> idt_flags (idt s' ! v) AND 0x80 \<noteq> 0} = vectors \<and>
           {v. v < 256 \<and> idt_flags (idt s' ! v) AND 0xE0 = 0xE0} = {80, 128}"
proof -
  have len: "length (idt s) = 256" "irq_routines s \<noteq> []" using assms by (auto simp: idt_zero_def)
  obtain t where t: "reload_idt adr s = Inr (s\<lparr>idt := t, idtp_limit := 4095, irq_routines := (irq_routines s)[0 := Some Timer_handler],
             i_tty := timer_set (irq_remap (i_tty s))\<rparr>)"
    "\<forall>v < 256. t ! v = (if v \<in> vectors then gate (adr (fst (vector v))) (snd (vector v)) (idt s ! v) else idt s ! v)"
    using reload_idt_ok [OF len] by blast
  have sub: "v \<in> vectors \<Longrightarrow> v < 256" for v by (auto simp: vectors_def)
  have fl: "idt_flags (t ! v) = (if v \<in> vectors then snd (vector v) else 0)" if "v < 256" for v
    using t(2) that assms(1) by (simp add: idt_zero_def)
  have vs: "snd (vector v) = (if v = 80 \<or> v = 128 then 0xEE else 0x8E)" if "v \<in> vectors" for v
    using that by (auto simp: vector_def vectors_def)
  have "{v. v < 256 \<and> idt_flags (t ! v) AND 0x80 \<noteq> 0} = vectors"
    using sub by (auto simp: fl vs split: if_splits)
  moreover have "{v. v < 256 \<and> idt_flags (t ! v) AND 0xE0 = 0xE0} = {80, 128}"
    by (auto simp: fl vs vectors_def split: if_splits)
  ultimately show ?thesis using t sub by auto
qed

theorem reload_idt_gates_witness:
  "\<exists>s'. reload_idt (\<lambda>_. 0xFFFFFFFF80201234) \<lparr>idt = idt_zero, idtp_limit = 0, irq_routines = replicate 16 None, i_tty = tty0\<rparr> = Inr s' \<and>
     gate_base (idt s' ! 128) = 0xFFFFFFFF80201234"
  using reload_idt_gates [of "\<lparr>idt = idt_zero, idtp_limit = 0, irq_routines = replicate 16 None, i_tty = tty0\<rparr>" "\<lambda>_. 0xFFFFFFFF80201234"]
  by (auto simp: vectors_def)

section \<open>The task state segment\<close>

text \<open>
  \<^verbatim>\<open>setup_tss\<close> writes a present, ring 0 descriptor whose two base fields together are the address
  of \<^verbatim>\<open>tss\<close> and whose limit is the size of the structure less one, and keeps the code and data segments.
\<close>

theorem setup_tss_descriptor:
  "\<exists>g. setup_tss tss gdt_init = Inr g \<and> take 5 g = take 5 gdt_init \<and>
     (get_bits 16 24 (g ! 5) OR push_bit 24 (get_bits 56 8 (g ! 5)) OR push_bit 32 (get_bits 0 32 (g ! 6))) = tss \<and>
     get_bits 0 16 (g ! 5) = 55 \<and> get_bits 40 8 (g ! 5) = 0x89"
proof -
  have len: "length gdt_init = 32" "gdt_init ! 5 = 0" "gdt_init ! 6 = 0" by (simp_all add: gdt_init_def Let_def)
  define lo where "lo = set_bits 56 8 (drop_bit 24 tss) (set_bits 55 1 0 (set_bits 48 4 0 (set_bits 47 1 1 (set_bits 45 2 0
                   (set_bits 40 5 9 (set_bits 16 24 tss (set_bits 0 16 (56 - 1) 0)))))))"
  define hi where "hi = set_bits 0 32 (drop_bit 8 (drop_bit 24 tss)) 0"
  have eq: "setup_tss tss gdt_init = Inr (gdt_init[5 := lo, 6 := hi])"
    using len by (simp add: setup_tss_def Let_def lo_def hi_def)
  have base: "get_bits 16 24 lo OR push_bit 24 (get_bits 56 8 lo) OR push_bit 32 (get_bits 0 32 hi) = tss"
  proof (rule bit_word_eqI)
    fix i assume "i < LENGTH(64)"
    then show "bit (get_bits 16 24 lo OR push_bit 24 (get_bits 56 8 lo) OR push_bit 32 (get_bits 0 32 hi)) i = bit tss i"
      by (cases "i < 32") (auto simp: lo_def hi_def get_set_same get_set_other bit_simps)
  qed
  have limit: "get_bits 0 16 lo = 55"
    by (simp add: lo_def get_set_same get_set_other mask_eq_exp_minus_1)
  have acc: "get_bits 40 8 lo = 0x89"
  proof -
    have "get_bits 40 8 lo = get_bits 40 5 lo OR push_bit 5 (get_bits 45 2 lo) OR push_bit 7 (get_bits 47 1 lo)"
    proof (rule bit_word_eqI)
      fix i assume "i < LENGTH(64)"
      consider "i < 5" | "5 \<le> i" "i < 7" | "i = 7" | "8 \<le> i" by linarith
      then show "bit (get_bits 40 8 lo) i = bit (get_bits 40 5 lo OR push_bit 5 (get_bits 45 2 lo) OR push_bit 7 (get_bits 47 1 lo)) i"
        by cases (auto simp: bit_get_bits bit_simps)
    qed
    then show ?thesis by (simp add: lo_def get_set_same get_set_other mask_eq_exp_minus_1)
  qed
  show ?thesis using eq base limit acc len by simp
qed

section \<open>Exceptions\<close>

text \<open>
  The exception handler passes a page fault on to \<^verbatim>\<open>page_fault\<close> with the error code, and every
  other exception halts the machine.
\<close>

theorem fault_handler_dispatch:
  "fault_handler 14 e a k = bindr (page_fault e a k) (\<lambda>(x, k'). Inr (Handled x k'))"
  "r \<noteq> 14 \<Longrightarrow> r < 32 \<Longrightarrow> fault_handler r e a k \<noteq> Inr (Handled x k')"
  by (auto simp: fault_handler_def bindr_eq_Inr split: prod.splits)

end
