(* ===== verification/Mem_Intf.thy ===== *)
theory Mem_Intf
  imports Prelude
begin

text \<open>
  Byte-wise memory routines over a load and a store operation, and the contract under which
  they copy, fill and read strings: a store succeeds on the addresses of a region, is seen by the
  next load there, and disturbs no other address of the region.
\<close>

section \<open>The routines\<close>

text \<open>\<open>n\<close> times \<^verbatim>\<open>*d++ = *s++\<close>.\<close>

fun mem_copy :: "(u64 \<Rightarrow> 'm \<Rightarrow> u8 res) \<Rightarrow> (u64 \<Rightarrow> u8 \<Rightarrow> 'm \<Rightarrow> 'm res) \<Rightarrow> nat \<Rightarrow> u64 \<Rightarrow> u64 \<Rightarrow> 'm \<Rightarrow> 'm res" where
  "mem_copy ld st 0 d s m = Inr m"
| "mem_copy ld st (Suc n) d s m =
     bindr (ld s m) (\<lambda>c. bindr (st d c m) (mem_copy ld st n (d + 1) (s + 1)))"

text \<open>\<open>n\<close> times \<^verbatim>\<open>*d++ = v\<close>.\<close>

fun mem_fill :: "(u64 \<Rightarrow> u8 \<Rightarrow> 'm \<Rightarrow> 'm res) \<Rightarrow> nat \<Rightarrow> u64 \<Rightarrow> u8 \<Rightarrow> 'm \<Rightarrow> 'm res" where
  "mem_fill st 0 d v m = Inr m"
| "mem_fill st (Suc n) d v m = bindr (st d v m) (mem_fill st n (d + 1) v)"

text \<open>The bytes of a list stored one after the other.\<close>

fun mem_store :: "(u64 \<Rightarrow> u8 \<Rightarrow> 'm \<Rightarrow> 'm res) \<Rightarrow> u64 \<Rightarrow> u8 list \<Rightarrow> 'm \<Rightarrow> 'm res" where
  "mem_store st d [] m = Inr m"
| "mem_store st d (c # cs) m = bindr (st d c m) (mem_store st (d + 1) cs)"

text \<open>\<open>n\<close> bytes read from an address.\<close>

fun mem_load :: "(u64 \<Rightarrow> 'm \<Rightarrow> u8 res) \<Rightarrow> nat \<Rightarrow> u64 \<Rightarrow> 'm \<Rightarrow> u8 list res" where
  "mem_load ld 0 a m = Inr []"
| "mem_load ld (Suc n) a m = bindr (ld a m) (\<lambda>c. bindr (mem_load ld n (a + 1) m) (\<lambda>cs. Inr (c # cs)))"

text \<open>The string at an address with its terminator; reading need not end.\<close>

partial_function (option) mem_str :: "(u64 \<Rightarrow> 'm \<Rightarrow> u8 res) \<Rightarrow> u64 \<Rightarrow> 'm \<Rightarrow> u8 list res option" where
  "mem_str ld a m =
     (case ld a m of Inl e \<Rightarrow> Some (Inl e)
      | Inr c \<Rightarrow> if c = 0 then Some (Inr [0])
                 else Option.bind (mem_str ld (a + 1) m) (\<lambda>r. Some (bindr r (\<lambda>cs. Inr (c # cs)))))"

definition read_str :: "(u64 \<Rightarrow> 'm \<Rightarrow> u8 res) \<Rightarrow> u64 \<Rightarrow> 'm \<Rightarrow> u8 list res" where
  "read_str ld a m = bindr (of_option (mem_str ld a m)) (\<lambda>r. r)"

section \<open>The contract\<close>

text \<open>The addresses \<open>a, a + 1, ..., a + n - 1\<close>.\<close>

definition span :: "u64 \<Rightarrow> nat \<Rightarrow> u64 set" where
  "span a n = (\<lambda>i. a + of_nat i) ` {..<n}"

lemma span_0 [simp]: "span a 0 = {}"
  by (simp add: span_def)

lemma span_Suc: "span a (Suc n) = insert a (span (a + 1) n)"
  by (auto simp: span_def image_iff lessThan_Suc_eq_insert_0 add_ac)

lemma span_mem: "i < n \<Longrightarrow> a + of_nat i \<in> span a n"
  by (auto simp: span_def)

locale byte_mem =
  fixes ld :: "u64 \<Rightarrow> 'm \<Rightarrow> u8 res" and st :: "u64 \<Rightarrow> u8 \<Rightarrow> 'm \<Rightarrow> 'm res"
    and good :: "'m \<Rightarrow> bool" and region :: "u64 set"
  assumes load: "good m \<Longrightarrow> a \<in> region \<Longrightarrow> \<exists>x. ld a m = Inr x"
    and store: "good m \<Longrightarrow> a \<in> region \<Longrightarrow>
      \<exists>m'. st a x m = Inr m' \<and> good m' \<and> (\<forall>b \<in> region. ld b m' = (if b = a then Inr x else ld b m))"
begin

text \<open>What the memory holds in the region.\<close>

definition byte :: "u64 \<Rightarrow> 'm \<Rightarrow> u8" where
  "byte a m = (case ld a m of Inl _ \<Rightarrow> 0 | Inr x \<Rightarrow> x)"

lemma ld_byte: "good m \<Longrightarrow> a \<in> region \<Longrightarrow> ld a m = Inr (byte a m)"
  using load by (force simp: byte_def)

lemma st_byte:
  "good m \<Longrightarrow> a \<in> region \<Longrightarrow>
   \<exists>m'. st a x m = Inr m' \<and> good m' \<and> (\<forall>b \<in> region. byte b m' = (if b = a then x else byte b m))"
  using store [of m a x] by (auto simp: byte_def split: if_splits)

lemma mem_fill_ok:
  assumes "good m" "span d n \<subseteq> region" "n \<le> 2 ^ 63"
  shows "\<exists>m'. mem_fill st n d v m = Inr m' \<and> good m' \<and>
           (\<forall>b \<in> region. byte b m' = (if b \<in> span d n then v else byte b m))"
  using assms
proof (induction n arbitrary: d m)
  case (Suc n)
  then obtain m1 where m1: "st d v m = Inr m1" "good m1" "\<forall>b \<in> region. byte b m1 = (if b = d then v else byte b m)"
    using st_byte [of m d v] by (auto simp: span_Suc)
  obtain m' where m': "mem_fill st n (d + 1) v m1 = Inr m'" "good m'"
    "\<forall>b \<in> region. byte b m' = (if b \<in> span (d + 1) n then v else byte b m1)"
    using Suc.IH [OF m1(2), of "d + 1"] Suc.prems by (auto simp: span_Suc)
  then show ?case using m1 by (auto simp: span_Suc)
qed auto

lemma mem_store_ok:
  assumes "good m" "span d (length cs) \<subseteq> region" "length cs \<le> 2 ^ 63"
  shows "\<exists>m'. mem_store st d cs m = Inr m' \<and> good m' \<and>
           (\<forall>i < length cs. byte (d + of_nat i) m' = cs ! i) \<and>
           (\<forall>b \<in> region - span d (length cs). byte b m' = byte b m)"
  using assms
proof (induction cs arbitrary: d m)
  case (Cons c cs)
  then obtain m1 where m1: "st d c m = Inr m1" "good m1" "\<forall>b \<in> region. byte b m1 = (if b = d then c else byte b m)"
    using st_byte [of m d c] by (auto simp: span_Suc)
  obtain m' where m': "mem_store st (d + 1) cs m1 = Inr m'" "good m'"
    "\<forall>i < length cs. byte (d + 1 + of_nat i) m' = cs ! i"
    "\<forall>b \<in> region - span (d + 1) (length cs). byte b m' = byte b m1"
    using Cons.IH [OF m1(2), of "d + 1"] Cons.prems by (auto simp: span_Suc)
  have "d \<notin> span (d + 1) (length cs)"
  proof
    assume "d \<in> span (d + 1) (length cs)"
    then obtain i where i: "i < length cs" "d = d + 1 + of_nat i" by (auto simp: span_def)
    then have "(of_nat (Suc i) :: u64) = 0" by (simp add: add_ac)
    then have "unat (of_nat (Suc i) :: u64) = 0" by simp
    moreover have "unat (of_nat (Suc i) :: u64) = Suc i" using i(1) Cons.prems(3) by (intro unat_of_nat_u64) simp
    ultimately show False by simp
  qed
  then have d: "byte d m' = c" using m'(4) m1(3) Cons.prems(2) by (simp add: span_Suc)
  have "byte (d + of_nat i) m' = (c # cs) ! i" if "i < length (c # cs)" for i
    using that d m'(3) [rule_format, of "i - 1"] by (cases i) (simp_all add: add_ac)
  then show ?case using m1 m' by (intro exI [of _ m']) (auto simp: span_Suc)
qed auto

text \<open>Copying between disjoint spans stores what the source holds.\<close>

lemma mem_copy_store:
  assumes "good m" "span d n \<subseteq> region" "span s n \<subseteq> region" "span d n \<inter> span s n = {}" "n \<le> 2 ^ 63"
  shows "mem_copy ld st n d s m = mem_store st d (map (\<lambda>i. byte (s + of_nat i) m) [0..<n]) m"
  using assms
proof (induction n arbitrary: d s m)
  case (Suc n)
  then obtain m1 where m1: "st d (byte s m) m = Inr m1" "good m1"
    "\<forall>b \<in> region. byte b m1 = (if b = d then byte s m else byte b m)"
    using st_byte [of m d "byte s m"] by (auto simp: span_Suc)
  have s: "ld s m = Inr (byte s m)" using Suc.prems ld_byte by (simp add: span_Suc)
  have "map (\<lambda>i. byte (s + 1 + of_nat i) m1) [0..<n] = map (\<lambda>i. byte (s + of_nat i) m) [1..<Suc n]"
  proof (rule nth_equalityI)
    fix i assume "i < length (map (\<lambda>i. byte (s + 1 + of_nat i) m1) [0..<n])"
    then have i: "i < n" by simp
    then have "s + 1 + of_nat i \<in> span (s + 1) n" by (rule span_mem)
    then have "s + 1 + of_nat i \<in> region" "s + 1 + of_nat i \<noteq> d"
      using Suc.prems(3,4) by (auto simp: span_Suc)
    then show "map (\<lambda>i. byte (s + 1 + of_nat i) m1) [0..<n] ! i = map (\<lambda>i. byte (s + of_nat i) m) [1..<Suc n] ! i"
      using m1(3) i by (simp add: add_ac del: upt_Suc)
  qed (simp del: upt_Suc)
  moreover have "mem_copy ld st n (d + 1) (s + 1) m1 = mem_store st (d + 1) (map (\<lambda>i. byte (s + 1 + of_nat i) m1) [0..<n]) m1"
    using Suc.prems m1(2) by (intro Suc.IH) (auto simp: span_Suc)
  ultimately show ?case using m1(1) s by (simp add: upt_conv_Cons del: upt_Suc)
qed simp

lemma mem_str_ok:
  assumes "good m" "span a (Suc (length cs)) \<subseteq> region" "0 \<notin> set cs"
    and "\<And>i. i < length cs \<Longrightarrow> byte (a + of_nat i) m = cs ! i" "byte (a + of_nat (length cs)) m = 0"
  shows "mem_str ld a m = Some (Inr (cs @ [0]))"
  using assms
proof (induction cs arbitrary: a)
  case Nil
  then show ?case using ld_byte [of m a] by (subst mem_str.simps) (simp add: span_Suc)
next
  case (Cons c cs)
  have "byte a m = c" using Cons.prems(4) [of 0] by simp
  then have "ld a m = Inr c" using Cons.prems(1,2) ld_byte [of m a] by (simp add: span_Suc)
  moreover have "mem_str ld (a + 1) m = Some (Inr (cs @ [0]))"
  proof (rule Cons.IH)
    show "byte (a + 1 + of_nat i) m = cs ! i" if "i < length cs" for i
      using Cons.prems(4) [of "Suc i"] that by (simp add: add_ac)
  qed (use Cons.prems in \<open>auto simp: span_Suc add_ac\<close>)
  ultimately show ?case using Cons.prems(3) by (subst mem_str.simps) simp
qed

end

end
