(* ===== verification/VMem.thy ===== *)
theory VMem
  imports Kernel Mem_Intf
begin

text \<open>
  Byte accesses to virtual memory, as the processor performs them for the kernel: addresses from
  \<^verbatim>\<open>KERN_MEM\<close> on are the kernel's window on physical memory, the others go through the page
  tables of the current address space.  The kernel's own accesses ignore the write bit.  An
  address that is not mapped is an error.  A physical byte is a byte of its quadword.
\<close>

section \<open>Bytes of a quadword\<close>

definition get_byte :: "u64 \<Rightarrow> nat \<Rightarrow> u8" where
  "get_byte q i = ucast (drop_bit (8 * i) q)"

definition set_byte :: "u64 \<Rightarrow> nat \<Rightarrow> u8 \<Rightarrow> u64" where
  "set_byte q i x = (q AND NOT (push_bit (8 * i) 0xFF)) OR push_bit (8 * i) (ucast x)"

text \<open>The quadword of a physical address, and the byte's place in it.\<close>

definition quad :: "u64 \<Rightarrow> u64" where
  "quad p = p - p mod 8"

definition lane :: "u64 \<Rightarrow> nat" where
  "lane p = unat (p mod 8)"

section \<open>Loads and stores\<close>

definition translate :: "ptr \<Rightarrow> u64 \<Rightarrow> kmem \<Rightarrow> u64 option" where
  "translate pml4 v m =
     (if KERN_MEM \<le> v then Some (kphys v)
      else let p = look_pages pml4 v m
           in if p = 0 \<or> ldq p m AND PAGE_PRESENT = 0 then None
              else Some (page_mask (ldq p m) + v mod 4096))"

definition ldb :: "ptr \<Rightarrow> u64 \<Rightarrow> kmem \<Rightarrow> u8 res" where
  "ldb pml4 v m =
     (case translate pml4 v m of None \<Rightarrow> Inl Out_of_bounds
      | Some p \<Rightarrow> Inr (get_byte (qmem m (quad p)) (lane p)))"

definition stb :: "ptr \<Rightarrow> u64 \<Rightarrow> u8 \<Rightarrow> kmem \<Rightarrow> kmem res" where
  "stb pml4 v x m =
     (case translate pml4 v m of None \<Rightarrow> Inl Out_of_bounds
      | Some p \<Rightarrow> Inr (m\<lparr>qmem := (qmem m)(quad p := set_byte (qmem m (quad p)) (lane p) x)\<rparr>))"

end
