(* ===== verification/UserHeap.thy ===== *)
theory UserHeap
  imports Kernel
begin

text \<open>
  The user heap and the list of memory areas, \<^verbatim>\<open>sys/malloc.c\<close>: \<^verbatim>\<open>allocate_vma\<close> and
  \<^verbatim>\<open>sys_brk\<close>.
\<close>

section \<open>Memory areas\<close>

abbreviation (input) sizeof_vma :: u64 where "sizeof_vma \<equiv> 56"

text \<open>The last area of a list; the loop ends only if the list does.\<close>

partial_function (option) vma_tail :: "(ptr \<Rightarrow> vm_struct) \<Rightarrow> ptr \<Rightarrow> ptr option" where
  "vma_tail vs tail =
     (if vm_next (vs tail) = 0 then Some tail else vma_tail vs (vm_next (vs tail)))"

text \<open>\<^verbatim>\<open>allocate_vma\<close> on the list whose head is field \<^verbatim>\<open>vma_addr\<close> of the \<^verbatim>\<open>mm_struct\<close> at \<open>mm\<close>.\<close>

definition allocate_vma :: "ptr \<Rightarrow> kernel \<Rightarrow> (ptr \<times> kernel) res" where
  "allocate_vma mm k =
     (if vma_addr (mms k mm) = 0 then
        let (p, m) = mem_allocate (k_mem k);
            v = KERN_MEM + p
        in Inr (v, (set_mem m k)\<lparr>mms := (mms k)(mm := (mms k mm)\<lparr>vma_addr := v\<rparr>)\<rparr>)
      else
        bindr (of_option (vma_tail (vmas k) (vma_addr (mms k mm)))) (\<lambda>tail.
          let v = sizeof_vma + tail
          in Inr (v, k\<lparr>vmas := (vmas k)(tail := (vmas k tail)\<lparr>vm_next := v\<rparr>)\<rparr>)))"

section \<open>\<^verbatim>\<open>sys_brk\<close>\<close>

text \<open>
  The allocation loop.  It carries the memory and \<^verbatim>\<open>heap.rem_size\<close>, which grows by a page
  each time.
\<close>

fun brk_loop :: "nat \<Rightarrow> ptr \<Rightarrow> u64 \<Rightarrow> kmem \<Rightarrow> u64 \<Rightarrow> (kmem \<times> u64) res" where
  "brk_loop 0 pml4 logical m remsz = Inr (m, remsz)"
| "brk_loop (Suc n) pml4 logical m remsz =
     (let (physical, m1) = mem_allocate m;
          (pte, m2) = walk_pages pml4 logical m1
      in bindr (if ldq pte m2 AND PAGE_PRESENT \<noteq> 0 then mem_free (ldq pte m2) m2 else Inr m2) (\<lambda>m3.
           brk_loop n pml4 (logical + 4096) (stq pte (physical OR PAGE_PERM) m3) (remsz + 4096)))"

text \<open>The number of pages: the remainder is taken of the whole size, not of the missing part.\<close>

definition brk_pages :: "u64 \<Rightarrow> u64 \<Rightarrow> u64" where
  "brk_pages sz remsz =
     (let less_mem = sz - remsz
      in less_mem div 4096 + (if sz mod 4096 > 0 then 1 else 0))"

definition set_heap :: "ptr \<Rightarrow> u64 \<Rightarrow> u64 \<Rightarrow> kernel \<Rightarrow> kernel" where
  "set_heap p bump remsz =
     set_task p (\<lambda>t. t\<lparr>t_heap := (t_heap t)\<lparr>bump_ptr := bump, rem_size := remsz\<rparr>\<rparr>)"

definition sys_brk :: "u64 \<Rightarrow> kernel \<Rightarrow> (u64 \<times> kernel) res" where
  "sys_brk bump_addr k =
     (let p = getCurrentTask (k_sched k);
          proc = tasks (k_sched k) p;
          bump = bump_ptr (t_heap proc);
          remsz = rem_size (t_heap proc)
      in if bump_addr = 0 then Inr (bump, k)
         else
           let sz = bump_addr - bump
           in if sz > 0 then
                if remsz > sz then Inr (bump, set_heap p (bump + sz) (remsz - sz) k)
                else
                  bindr (brk_loop (unat (brk_pages sz remsz)) (t_pml4e_addr proc) (bump + remsz) (k_mem k) remsz)
                    (\<lambda>(m, rem'). Inr (bump, set_heap p (bump + sz) (rem' - sz) (set_mem m k)))
              else Inr (0, k))"

end
