(* ===== verification/Process.thy ===== *)
theory Process
  imports VMem UserHeap
begin

text \<open>
  Creating processes: \<^verbatim>\<open>sys/process.c\<close>, \<^verbatim>\<open>sys/elf.c\<close>, \<^verbatim>\<open>sys/fork.c\<close>, and the saving of the
  registers on entry to a system call (\<^verbatim>\<open>sys/irq.s\<close>).  A new task structure is cleared by
  \<^verbatim>\<open>memset\<close>; loads of the page table register are part of the address space that the memory
  accesses below name.
\<close>

section \<open>A cleared task structure\<close>

definition zero_file :: File where
  "zero_file = \<lparr>f_path = replicate 32 0, f_offset = 0, f_offset_read = 0, f_file_size = 0, f_flags = 0, f_seek = 0\<rparr>"

definition zero_task :: task_struct where
  "zero_task = \<lparr>t_state = 0, t_pid = 0, t_ppid = 0, t_dir_path = replicate DIR_LEN 0, t_bin_name = replicate BINARY_LEN 0,
     t_is_sleep = False, t_sleep_time = 0, t_stack = 0, t_kstack = \<lambda>_. 0, t_kernel_rsp = 0, t_cr3_address = 0,
     t_pml4e_addr = 0, t_entry_pt = 0, t_fd = replicate 25 zero_file, t_dup_arr = replicate 25 0, t_fd_cnt = 0,
     t_heap_vma = 0, t_heap = \<lparr>bump_ptr = 0, rem_size = 0, end_addr = 0\<rparr>, t_mm = 0\<rparr>"

text \<open>\<^verbatim>\<open>memset(p, 0, 10*4096)\<close> on a block that holds a task structure: the structure, its list
  node and the ten pages.\<close>

definition clear_task :: "ptr \<Rightarrow> kernel \<Rightarrow> kernel" where
  "clear_task p k =
     (let s = k_sched k;
          h = set_prv (node p) 0 (set_nxt (node p) 0 (nodes s));
          m = fold (\<lambda>i. zero_page (p + 4096 * of_nat i)) [0..<10] (k_mem k)
      in k\<lparr>k_sched := s\<lparr>nodes := h, tasks := (tasks s)(p := zero_task)\<rparr>, k_mem := m\<rparr>)"

text \<open>A new top-level table: cleared, and with the kernel's entry.\<close>

definition new_pml4 :: "kernel \<Rightarrow> u64 \<times> kernel" where
  "new_pml4 k =
     (let (page_addr, m) = mem_allocate (k_mem k);
          p = KERN_MEM + page_addr;
          m1 = zero_page p m
      in (page_addr, set_mem (stq (elt p 511) (ldq (elt (pml4e m1) 511) m1) m1) k))"

definition new_mm :: "kernel \<Rightarrow> ptr \<times> kernel" where
  "new_mm k =
     (let (a, m) = mem_allocate (k_mem k); p = KERN_MEM + a
      in (p, (set_mem m k)\<lparr>mms := (mms k)(p := \<lparr>vma_addr = 0, mm_cnt = 0\<rparr>)\<rparr>))"

section \<open>Loading a program\<close>

definition ld_field :: "nat \<Rightarrow> ptr \<Rightarrow> u64 \<Rightarrow> kmem \<Rightarrow> nat res" where
  "ld_field n pml4 a m = bindr (mem_load (ldb pml4) n a m) (\<lambda>bs. Inr (le_val bs))"

record pheader =
  p_type :: nat
  p_offset :: u64
  p_vaddr :: u64
  p_filesz :: u64
  p_memsz :: u64

text \<open>A program header, at its packed offsets.\<close>

definition ld_pheader :: "ptr \<Rightarrow> u64 \<Rightarrow> kmem \<Rightarrow> pheader res" where
  "ld_pheader pml4 a m =
     bindr (ld_field 4 pml4 a m) (\<lambda>ty. bindr (ld_field 8 pml4 (a + 8) m) (\<lambda>off.
       bindr (ld_field 8 pml4 (a + 16) m) (\<lambda>va. bindr (ld_field 8 pml4 (a + 32) m) (\<lambda>fs.
         bindr (ld_field 8 pml4 (a + 40) m) (\<lambda>ms.
           Inr \<lparr>p_type = ty, p_offset = of_nat off, p_vaddr = of_nat va, p_filesz = of_nat fs, p_memsz = of_nat ms\<rparr>)))))"

definition set_vma :: "ptr \<Rightarrow> (vm_struct \<Rightarrow> vm_struct) \<Rightarrow> kernel \<Rightarrow> kernel" where
  "set_vma v f k = k\<lparr>vmas := (vmas k)(v := f (vmas k v))\<rparr>"

text \<open>One loadable segment of the program at \<open>elf\<close>, for the task \<open>t\<close>.\<close>

definition load_segment :: "ptr \<Rightarrow> u64 \<Rightarrow> pheader \<Rightarrow> kernel \<Rightarrow> kstep" where
  "load_segment t elf ph k =
     (let tk = tasks (k_sched k) t; pml4 = t_pml4e_addr tk
      in and_then (allocate pml4 (p_vaddr ph) (sint (ucast (p_memsz ph) :: u32)) k) (\<lambda>k1.
           bindr (mem_fill (stb pml4) (unat (p_memsz ph)) (p_vaddr ph) 0 (k_mem k1)) (\<lambda>m1.
             bindr (mem_copy (ldb pml4) (stb pml4) (unat (ucast (p_filesz ph) :: u32)) (p_vaddr ph) (elf + p_offset ph) m1) (\<lambda>m2.
               bindr (allocate_vma (t_mm tk) (set_mem m2 k1)) (\<lambda>(v, k2).
                 Inr (Ret 0, set_vma v (\<lambda>vm. vm\<lparr>vm_start := p_vaddr ph, vm_end := p_vaddr ph + p_memsz ph,
                   vm_mmsz := p_memsz ph, vm_next := 0, vm_file := elf, vm_offset := p_offset ph\<rparr>) k2))))))"

text \<open>
  The headers of the file are read at addresses of the kernel's window, which every page table maps to the same memory;
  the model reads them through the new task's table throughout and does not track the reloads of \<^verbatim>\<open>cr3\<close> around the copying.
\<close>

fun elf_loop :: "nat \<Rightarrow> ptr \<Rightarrow> u64 \<Rightarrow> u64 \<Rightarrow> kernel \<Rightarrow> kstep" where
  "elf_loop 0 t elf ph1 k = Inr (Ret 0, k)"
| "elf_loop (Suc n) t elf ph1 k =
     bindr (ld_pheader (t_pml4e_addr (tasks (k_sched k) t)) ph1 (k_mem k)) (\<lambda>ph.
       if p_type ph = 1 then and_then (load_segment t elf ph k) (elf_loop n t elf (ph1 + 56))
       else elf_loop n t elf (ph1 + 56) k)"

definition elf_load :: "ptr \<Rightarrow> u8 list \<Rightarrow> kernel \<Rightarrow> kstep" where
  "elf_load t file_name k =
     bindr (check_file file_name (tarfs_ind k)) (\<lambda>elf.
       if elf \<noteq> 0 then
         let pml4 = t_pml4e_addr (tasks (k_sched k) t)
         in bindr (ld_field 8 pml4 (elf + 32) (k_mem k)) (\<lambda>phoff.
              bindr (ld_field 2 pml4 (elf + 56) (k_mem k)) (\<lambda>phnum.
                and_then (elf_loop phnum t elf (elf + of_nat phoff) k) (\<lambda>k1.
                  bindr (ld_field 8 pml4 (elf + 24) (k_mem k1)) (\<lambda>entry.
                    Inr (Ret 0, set_task t (\<lambda>x. x\<lparr>t_entry_pt := of_nat entry\<rparr>) k1)))))
       else Inr (Ret 0, k))"

section \<open>\<^verbatim>\<open>create_process\<close>\<close>

text \<open>The directory of a program: everything before the last slash that is not the first character.\<close>

fun dir_loop :: "nat \<Rightarrow> u8 list \<Rightarrow> u8 list \<Rightarrow> u8 list res" where
  "dir_loop 0 bin dir = Inr dir"
| "dir_loop (Suc i) bin dir =
     (if i = 0 then Inr dir
      else bindr (rd bin i) (\<lambda>c. if c = 47 then strncpy dir bin (int i) else dir_loop i bin dir))"

definition entry_frame :: "u64 \<Rightarrow> (nat \<Rightarrow> u64) \<Rightarrow> (nat \<Rightarrow> u64)" where
  "entry_frame rip st = st(506 := rip, 507 := 0x1b, 508 := 0x246, 509 := STACK_MEM_TOP - 8, 510 := 0x23)"

text \<open>
  Task structure, top-level table and area list come from the page allocator without a test for its failure.  The typed heaps
  of the model keep them apart also when all three are frame 0; with enough free pages they are different pages.
\<close>

definition create_process :: "u8 list \<Rightarrow> kernel \<Rightarrow> (ptr outcome \<times> kernel) res" where
  "create_process bin k =
     (let (p, m) = kmalloc (10 * 4096) (k_mem k);
          k1 = clear_task p (set_mem m k);
          (page_addr, k2) = new_pml4 k1;
          pid = avail_pid k2 + 1;
          k3 = (set_task p (\<lambda>t. t\<lparr>t_cr3_address := page_addr, t_pid := pid, t_pml4e_addr := KERN_MEM + page_addr\<rparr>) k2)
                 \<lparr>avail_pid := pid\<rparr>;
          (mm, k4) = new_mm k3
      in bindr (strcpy (t_bin_name zero_task) bin) (\<lambda>name.
           bindr (strlen bin) (\<lambda>len. bindr (dir_loop len bin (t_dir_path zero_task)) (\<lambda>dir.
             let k5 = set_task p (\<lambda>t. t\<lparr>t_mm := mm, t_heap := (t_heap t)\<lparr>bump_ptr := BUMP_PTR\<rparr>, t_bin_name := name,
                        t_is_sleep := False, t_sleep_time := 0, t_dup_arr := map of_nat [0..<25], t_fd_cnt := 2,
                        t_dir_path := dir, t_stack := STACK_MEM_TOP\<rparr>) k4
             in bindr (kmalloc_user_space (KERN_MEM + page_addr) (STACK_MEM_TOP - 8 * USER_STACK_SIZE) (8 * USER_STACK_SIZE) (k_mem k5)) (\<lambda>m6.
                  bindr (elf_load p bin (set_mem m6 k5)) (\<lambda>(r, k7).
                    case r of
                      Switch \<Rightarrow> Inr (Switch, k7)
                    | Ret _ \<Rightarrow> Inr (Ret p, set_task p (\<lambda>t. t\<lparr>t_kstack := entry_frame (t_entry_pt t) (t_kstack t),
                                 t_kernel_rsp := kstack_addr p STACK_OFFSET\<rparr>) k7)))))))"

text \<open>\<^verbatim>\<open>init_process\<close> resumes the current task, after \<^verbatim>\<open>mov $0x2b,%ax\<close> for the load of the task register
  has overwritten the low half word of the popped \<^verbatim>\<open>rax\<close>.\<close>

definition init_process :: "sched \<Rightarrow> sched" where
  "init_process s =
     (let p = getCurrentTask s; tk = tasks s p;
          c = (cpu s)\<lparr>c_cr3 := t_cr3_address tk, c_tss_rsp0 := kstack_addr p (KERNEL_STACK_SIZE - 1)\<rparr>;
          c1 = resume_frame (t_kstack tk) (kstack_slot p (t_kernel_rsp tk)) c;
          rax = (regs c1 RAX AND NOT 0xFFFF) OR 0x2B
      in s\<lparr>currentTask := p, cpu := c1\<lparr>regs := (regs c1)(RAX := rax)\<rparr>\<rparr>)"

section \<open>Copying descriptors\<close>

text \<open>For \<^verbatim>\<open>i = 0, ..., fd_cnt\<close>: the offset and the path.\<close>

fun copy_fds :: "nat \<Rightarrow> nat \<Rightarrow> File list \<Rightarrow> File list \<Rightarrow> File list res" where
  "copy_fds 0 i from to = Inr to"
| "copy_fds (Suc n) i from to =
     bindr (rd from i) (\<lambda>f. bindr (rd to i) (\<lambda>g. bindr (strcpy (f_path g) (f_path f)) (\<lambda>path.
       copy_fds n (i + 1) from (to[i := g\<lparr>f_offset := f_offset f, f_path := path\<rparr>]))))"

definition fd_table :: "task_struct \<Rightarrow> File list \<Rightarrow> File list res" where
  "fd_table p to = copy_fds (nat (sint (t_fd_cnt p) + 1)) 0 (t_fd p) to"

section \<open>\<^verbatim>\<open>sys_execve\<close>\<close>

definition sys_execve :: "u8 list \<Rightarrow> kernel \<Rightarrow> kstep" where
  "sys_execve filename k =
     bindr (check_file filename (tarfs_ind k)) (\<lambda>f.
       if f = 0 then Inr (Ret (-1), k)
       else bindr (create_process filename k) (\<lambda>(r, k1).
         case r of
           Switch \<Rightarrow> Inr (Switch, k1)
         | Ret c \<Rightarrow>
             let parent = getCurrentTask (k_sched k1); pt = tasks (k_sched k1) parent;
                 k2 = (set_task c (\<lambda>t. t\<lparr>t_pid := t_pid pt, t_ppid := t_ppid pt\<rparr>) k1)\<lparr>avail_pid := avail_pid k1 - 1\<rparr>;
                 k3 = set_task parent (\<lambda>t. t\<lparr>t_ppid := 0\<rparr>) k2;
                 ct = tasks (k_sched k3) c
             in bindr (strcpy (t_dir_path ct) (t_dir_path pt)) (\<lambda>dir.
                  bindr (fd_table pt (t_fd ct)) (\<lambda>fds.
                    let k4 = set_task c (\<lambda>t. t\<lparr>t_fd_cnt := t_fd_cnt pt, t_dir_path := dir, t_fd := fds, t_dup_arr := t_dup_arr pt\<rparr>) k3;
                        s5 = snd (addTasktoQueueHead c (k_sched k4))
                    in and_then (k_exit (k4\<lparr>k_sched := s5\<rparr>)) (\<lambda>k6. Inr (Ret 0, k6))))))"

section \<open>\<^verbatim>\<open>sys_fork\<close>\<close>

text \<open>Copying the list of memory areas; the new area's \<^verbatim>\<open>vm_next\<close> is not written.\<close>

partial_function (option) copy_vmas :: "ptr \<Rightarrow> ptr \<Rightarrow> kernel \<Rightarrow> kernel res option" where
  "copy_vmas mm p_vm k =
     (if p_vm = 0 then Some (Inr k)
      else case allocate_vma mm k of
             Inl e \<Rightarrow> Some (Inl e)
           | Inr (c, k1) \<Rightarrow>
               let k2 = set_vma c (\<lambda>v. v\<lparr>vm_start := vm_start (vmas k1 p_vm), vm_end := vm_end (vmas k1 p_vm),
                          vm_mmsz := vm_mmsz (vmas k1 p_vm), vm_file := vm_file (vmas k1 p_vm), vm_offset := vm_offset (vmas k1 p_vm)\<rparr>) k1
               in copy_vmas mm (vm_next (vmas k2 p_vm)) k2)"

text \<open>
  The child's kernel stack: the parent's saved registers, moved down by one slot to make room for
  \<^verbatim>\<open>rax\<close>, which is zero; then the frame of the interrupt with new flags.
\<close>

definition fork_frame :: "(nat \<Rightarrow> u64) \<Rightarrow> (nat \<Rightarrow> u64) \<Rightarrow> (nat \<Rightarrow> u64)" where
  "fork_frame parent child =
     (let st = fold (\<lambda>i st. st(i := parent (i + 1))) [STACK_OFFSET..<STACK_OFFSET + NUM_REGISTERS_SAVED + 1] child
      in st(505 := 0, 506 := parent 506, 507 := parent 507, 508 := 0x200286, 509 := parent 509, 510 := parent 510))"

definition sys_fork :: "kernel \<Rightarrow> (int \<times> kernel) res" where
  "sys_fork k =
     (let pproc = getCurrentTask (k_sched k);
          (cproc, m) = kmalloc (10 * 4096) (k_mem k);
          k1 = clear_task cproc (set_mem m k)
      in if cproc \<noteq> 0 then
           let (page_addr, k2) = new_pml4 k1;
               k3 = k2\<lparr>k_sched := snd (addTasktoQueueHead cproc (k_sched k2))\<rparr>;
               pid = avail_pid k3 + 1;
               k4 = (set_task cproc (\<lambda>t. t\<lparr>t_cr3_address := page_addr, t_ppid := t_pid (tasks (k_sched k3) pproc), t_pid := pid,
                       t_pml4e_addr := KERN_MEM + page_addr\<rparr>) k3)\<lparr>avail_pid := pid\<rparr>;
               k5 = set_mem (snd (cow_walk_pages (t_pml4e_addr (tasks (k_sched k4) pproc)) (KERN_MEM + page_addr) (k_mem k4))) k4;
               (mm, k6) = new_mm k5;
               pt = tasks (k_sched k6) pproc; ct = tasks (k_sched k6) cproc
           in bindr (strcpy (t_bin_name ct) (t_bin_name pt)) (\<lambda>name. bindr (strcpy (t_dir_path ct) (t_dir_path pt)) (\<lambda>dir.
                let k7 = set_task cproc (\<lambda>t. t\<lparr>t_mm := mm, t_bin_name := name, t_dir_path := dir, t_is_sleep := False,
                           t_sleep_time := 0, t_stack := STACK_MEM_TOP\<rparr>) k6
                in bindr (bindr (of_option (copy_vmas mm (vma_addr (mms k7 (t_mm pt))) k7)) (\<lambda>r. r)) (\<lambda>k8.
                     bindr (fd_table pt (t_fd ct)) (\<lambda>fds.
                       Inr (int (unat pid), set_task cproc (\<lambda>t. t\<lparr>t_entry_pt := t_entry_pt pt, t_fd_cnt := t_fd_cnt pt, t_fd := fds,
                         t_dup_arr := map of_nat [0..<25],
                         t_heap := (t_heap t)\<lparr>bump_ptr := page_roundoff_4096 (bump_ptr (t_heap pt))\<rparr>,
                         t_kstack := fork_frame (t_kstack pt) (t_kstack t),
                         t_kernel_rsp := kstack_addr cproc STACK_OFFSET\<rparr>) k8)))))
         else Inr (0, k1))"

section \<open>Entering a system call\<close>

text \<open>
  On \<^verbatim>\<open>int $128\<close> the processor pushes its frame from the top of the kernel stack (\<^verbatim>\<open>tss.rsp0\<close> is
  \<^verbatim>\<open>&kstack[511]\<close>) and \<^verbatim>\<open>handler_idt128\<close> pushes fourteen registers, \<^verbatim>\<open>rax\<close> not among them; the
  call of \<^verbatim>\<open>syscall_handler\<close> pushes its return address.
\<close>

definition push_order :: "reg list" where
  "push_order = [RBX, RCX, RDX, RSI, RDI, RBP, R8, R9, R10, R11, R12, R13, R14, R15]"

fun push_regs :: "reg list \<Rightarrow> (reg \<Rightarrow> u64) \<Rightarrow> nat \<Rightarrow> (nat \<Rightarrow> u64) \<Rightarrow> (nat \<Rightarrow> u64)" where
  "push_regs [] rf i st = st"
| "push_regs (r # rs) rf i st = push_regs rs rf (i - 1) (st(i - 1 := rf r))"

definition enter_syscall :: "cpu \<Rightarrow> u64 \<Rightarrow> (nat \<Rightarrow> u64) \<Rightarrow> (nat \<Rightarrow> u64)" where
  "enter_syscall c ret st =
     (push_regs push_order (regs c) 506
        (st(510 := c_ss c, 509 := c_rsp c, 508 := c_rflags c, 507 := c_cs c, 506 := c_rip c)))(491 := ret)"

end
