(* ===== verification/Fork_Props.thy ===== *)
theory Fork_Props
  imports Process Cow_Props
begin

text \<open>Copying the list of memory areas of a process.\<close>

section \<open>Lists of areas\<close>

definition area :: "vm_struct \<Rightarrow> u64 \<times> u64 \<times> u64 \<times> u64 \<times> u64" where
  "area v = (vm_start v, vm_end v, vm_mmsz v, vm_file v, vm_offset v)"

fun chain :: "(ptr \<Rightarrow> vm_struct) \<Rightarrow> ptr \<Rightarrow> ptr list \<Rightarrow> bool" where
  "chain vs p [] \<longleftrightarrow> p = 0"
| "chain vs p (x # xs) \<longleftrightarrow> p = x \<and> x \<noteq> 0 \<and> chain vs (vm_next (vs x)) xs"

lemma chain_cong: "(\<And>x. x \<in> set xs \<Longrightarrow> vm_next (vs' x) = vm_next (vs x)) \<Longrightarrow> chain vs' p xs = chain vs p xs"
  by (induction xs arbitrary: p) auto

lemma chain_tail: "chain vs p (xs @ [x]) \<Longrightarrow> vma_tail vs p = Some x"
proof (induction xs arbitrary: p)
  case Nil
  then show ?case by (subst vma_tail.simps) simp
next
  case (Cons y ys)
  then have y: "p = y" "chain vs (vm_next (vs y)) (ys @ [x])" by simp_all
  then have "vm_next (vs y) \<noteq> 0" by (cases ys) auto
  then show ?case using y Cons.IH by (subst vma_tail.simps) simp
qed

lemma chain_extend:
  assumes "chain vs p (xs @ [x])" "c \<noteq> 0" "x \<notin> set xs" "vm_next (vs c) = 0" "c \<noteq> x" "c \<notin> set xs"
  shows "chain (vs(x := (vs x)\<lparr>vm_next := c\<rparr>)) p (xs @ [x, c])"
  using assms
proof (induction xs arbitrary: p)
  case (Cons y ys)
  then show ?case by auto
qed auto

section \<open>The copy\<close>

text \<open>The \<open>j\<close>-th area of the list that starts at \<open>v\<close>.\<close>

definition slot :: "ptr \<Rightarrow> nat \<Rightarrow> ptr" where
  "slot v j = v + 56 * of_nat j"

lemma slot_Suc: "slot v (Suc j) = 56 + slot v j"
  by (simp add: slot_def algebra_simps)

lemma area_slot_inject:
  assumes "i < 2 ^ 32" "j < 2 ^ 32"
  shows "slot v i = slot v j \<longleftrightarrow> i = j"
proof
  assume "slot v i = slot v j"
  then have "unat (of_nat 56 * of_nat i :: u64) = unat (of_nat 56 * of_nat j :: u64)" by (simp add: slot_def)
  moreover have "unat (of_nat 56 * of_nat n :: u64) = 56 * n" if "n < 2 ^ 32" for n
    using unat_times_u64 [of 56 "of_nat n"] that by simp
  ultimately show "i = j" using assms by simp
qed simp

text \<open>Copying behind a list that has one area already.\<close>

lemma copy_vmas_run:
  assumes "vma_addr (mms k mm) = v" "chain (vmas k) v (map (slot v) [0..<Suc i])" "chain (vmas k) p ps"
    and "Suc i + length ps < 2 ^ 32"
    and "\<And>j. j < Suc i + length ps \<Longrightarrow> slot v j \<noteq> 0 \<and> slot v j \<notin> set ps"
    and "\<And>j. i < j \<Longrightarrow> j < Suc i + length ps \<Longrightarrow> vm_next (vmas k (slot v j)) = 0"
  shows "\<exists>vs. copy_vmas mm p k = Some (Inr (k\<lparr>vmas := vs\<rparr>)) \<and>
           chain vs v (map (slot v) [0..<Suc i + length ps]) \<and>
           (\<forall>j < length ps. area (vs (slot v (Suc i + j))) = area (vmas k (ps ! j))) \<and>
           (\<forall>j \<le> i. area (vs (slot v j)) = area (vmas k (slot v j))) \<and>
           (\<forall>q. q \<notin> slot v ` {..<Suc i + length ps} \<longrightarrow> vs q = vmas k q)"
  using assms
proof (induction ps arbitrary: i p k)
  case Nil
  then show ?case by (intro exI [of _ "vmas k"]) (simp add: copy_vmas.simps)
next
  case (Cons x xs)
  let ?c = "slot v (Suc i)" and ?t = "slot v i"
  have x: "p = x" "x \<noteq> 0" "chain (vmas k) (vm_next (vmas k x)) xs" using Cons.prems(3) by simp_all
  have v: "v \<noteq> 0" using Cons.prems(5) [of 0] by (simp add: slot_def)
  have tail: "vma_tail (vmas k) v = Some ?t" using Cons.prems(2) by (simp add: chain_tail)
  have inj: "slot v a = slot v b \<longleftrightarrow> a = b" if "a \<le> Suc i + length xs" "b \<le> Suc i + length xs" for a b
    using that Cons.prems(4) by (intro area_slot_inject) simp_all
  define k1 where "k1 = k\<lparr>vmas := (vmas k)(?t := (vmas k ?t)\<lparr>vm_next := ?c\<rparr>)\<rparr>"
  define k2 where "k2 = set_vma ?c (\<lambda>u. u\<lparr>vm_start := vm_start (vmas k1 x), vm_end := vm_end (vmas k1 x),
      vm_mmsz := vm_mmsz (vmas k1 x), vm_file := vm_file (vmas k1 x), vm_offset := vm_offset (vmas k1 x)\<rparr>) k1"
  have ne: "?c \<noteq> ?t" "x \<noteq> ?t" "x \<noteq> ?c" using inj [of "Suc i" i] Cons.prems(5) [of i] Cons.prems(5) [of "Suc i"] by auto
  have alloc: "allocate_vma mm k = Inr (?c, k1)"
    using Cons.prems(1) v tail by (simp add: allocate_vma_def k1_def slot_Suc Let_def)
  have nx: "vm_next (vmas k2 q) = (if q = ?t then ?c else vm_next (vmas k q))" for q
    by (auto simp: k2_def k1_def set_vma_def)
  have ar: "area (vmas k2 q) = (if q = ?c then area (vmas k x) else area (vmas k q))" for q
    using ne by (auto simp: k2_def k1_def set_vma_def area_def)
  have step: "copy_vmas mm p k = copy_vmas mm (vm_next (vmas k x)) k2"
    using alloc x(1,2) nx [of x] ne(2) by (subst copy_vmas.simps) (simp add: k2_def [symmetric] Let_def)
  have c2: "chain (vmas k2) v (map (slot v) [0..<Suc (Suc i)])"
  proof -
    have v1: "vmas k1 = (vmas k)(?t := (vmas k ?t)\<lparr>vm_next := ?c\<rparr>)" by (simp add: k1_def)
    have "chain (vmas k1) v (map (slot v) [0..<i] @ [?t, ?c])"
      unfolding v1
    proof (rule chain_extend)
      show "?t \<notin> set (map (slot v) [0..<i])" "?c \<notin> set (map (slot v) [0..<i])" using inj by auto
    qed (use Cons.prems(2) Cons.prems(5) [of "Suc i"] Cons.prems(6) [of "Suc i"] ne in simp_all)
    moreover have "chain (vmas k2) v xs = chain (vmas k1) v xs" for xs
      by (rule chain_cong) (simp add: k2_def set_vma_def)
    ultimately show ?thesis by simp
  qed
  have "chain (vmas k2) (vm_next (vmas k x)) xs = chain (vmas k) (vm_next (vmas k x)) xs"
    using Cons.prems(5) [of i] by (intro chain_cong) (auto simp: nx)
  moreover have "vma_addr (mms k2 mm) = v" using Cons.prems(1) by (simp add: k2_def k1_def set_vma_def)
  moreover have "vm_next (vmas k2 (slot v j)) = 0" if "Suc i < j" "j < Suc (Suc i) + length xs" for j
    using Cons.prems(6) [of j] that inj [of j i] by (simp add: nx)
  ultimately obtain vs where vs: "copy_vmas mm (vm_next (vmas k x)) k2 = Some (Inr (k2\<lparr>vmas := vs\<rparr>))"
    "chain vs v (map (slot v) [0..<Suc (Suc i) + length xs])"
    "\<forall>j < length xs. area (vs (slot v (Suc (Suc i) + j))) = area (vmas k2 (xs ! j))"
    "\<forall>j \<le> Suc i. area (vs (slot v j)) = area (vmas k2 (slot v j))"
    "\<forall>q. q \<notin> slot v ` {..<Suc (Suc i) + length xs} \<longrightarrow> vs q = vmas k2 q"
    using Cons.IH [of k2 "Suc i" "vm_next (vmas k x)"] c2 x(3) Cons.prems(4,5) by auto
  have eq: "k2\<lparr>vmas := vs\<rparr> = k\<lparr>vmas := vs\<rparr>" by (simp add: k2_def k1_def set_vma_def)
  have "area (vs (slot v (Suc i + j))) = area (vmas k ((x # xs) ! j))" if "j < length (x # xs)" for j
  proof (cases j)
    case 0
    then show ?thesis using vs(4) [rule_format, of "Suc i"] by (simp add: ar)
  next
    case (Suc l)
    then have "xs ! l \<in> set (x # xs)" using that by simp
    then have "xs ! l \<noteq> ?c" using Cons.prems(5) [of "Suc i"] by (metis less_add_same_cancel1 list.size(4) zero_less_Suc add_Suc_right)
    then show ?thesis using Suc that vs(3) [rule_format, of l] by (simp add: ar)
  qed
  moreover have "area (vs (slot v j)) = area (vmas k (slot v j))" if "j \<le> i" for j
    using vs(4) [rule_format, of j] that inj [of j "Suc i"] by (simp add: ar)
  moreover have "vs q = vmas k q" if "q \<notin> slot v ` {..<Suc i + length (x # xs)}" for q
  proof -
    have "q \<noteq> ?c" "q \<noteq> ?t" using that by auto
    then show ?thesis using vs(5) [rule_format, of q] that by (simp add: k2_def k1_def set_vma_def)
  qed
  ultimately show ?case using step vs(1,2) unfolding eq by (intro exI [of _ vs]) simp
qed

end
