(* ===== verification/Files.thy ===== *)
theory Files
  imports VMem
begin

text \<open>
  File descriptors and the calls on them: the second part of \<^verbatim>\<open>sys/tarfs.c\<close> (working directory,
  open, close, directory entries), \<^verbatim>\<open>sys/pipe.c\<close> and \<^verbatim>\<open>sys/iostream.c\<close>.  Pointers from user
  programs are addresses in the current address space.  What an uninitialised local array holds is
  an argument, as is the memory the compiler leaves behind a local array: \<open>junk\<close> is the memory
  from the array's first byte on.
\<close>

section \<open>Access to the current process\<close>

definition cur_pml4 :: "kernel \<Rightarrow> ptr" where
  "cur_pml4 k = t_pml4e_addr (cur_task k)"

definition set_cur :: "(task_struct \<Rightarrow> task_struct) \<Rightarrow> kernel \<Rightarrow> kernel" where
  "set_cur f k = set_task (getCurrentTask (k_sched k)) f k"

definition user_str :: "u64 \<Rightarrow> kernel \<Rightarrow> u8 list res" where
  "user_str a k = read_str (ldb (cur_pml4 k)) a (k_mem k)"

definition user_store :: "u64 \<Rightarrow> u8 list \<Rightarrow> kernel \<Rightarrow> kernel res" where
  "user_store a bs k = bindr (mem_store (stb (cur_pml4 k)) a bs (k_mem k)) (\<lambda>m. Inr (set_mem m k))"

definition user_copy :: "nat \<Rightarrow> u64 \<Rightarrow> u64 \<Rightarrow> kernel \<Rightarrow> kernel res" where
  "user_copy n d s k = bindr (mem_copy (ldb (cur_pml4 k)) (stb (cur_pml4 k)) n d s (k_mem k)) (\<lambda>m. Inr (set_mem m k))"

text \<open>An \<^verbatim>\<open>int\<close> used as an index.\<close>

definition int_idx :: "u32 \<Rightarrow> nat res" where
  "int_idx n = (if sint n < 0 then Inl Out_of_bounds else Inr (nat (sint n)))"

definition upd_fd :: "nat \<Rightarrow> (File \<Rightarrow> File) \<Rightarrow> kernel \<Rightarrow> kernel res" where
  "upd_fd i f k =
     bindr (rd (t_fd (cur_task k)) i) (\<lambda>x. Inr (set_cur (\<lambda>t. t\<lparr>t_fd := (t_fd t)[i := f x]\<rparr>) k))"

definition set_entry :: "nat \<Rightarrow> tarfs \<Rightarrow> kernel \<Rightarrow> kernel" where
  "set_entry i e k = k\<lparr>tarfs_ind := (tarfs_ind k)[i := e]\<rparr>"

section \<open>Working directory\<close>

definition sys_getcwd :: "u64 \<Rightarrow> u64 \<Rightarrow> kernel \<Rightarrow> (u64 \<times> kernel) res" where
  "sys_getcwd dir_name sz k =
     (let dir_path = t_dir_path (cur_task k)
      in bindr (strlen dir_path) (\<lambda>n.
           bindr (user_store dir_name (take n dir_path @ [0]) k) (\<lambda>k'. Inr (dir_name, k'))))"

abbreviation (input) slash :: u8 where "slash \<equiv> 47"
abbreviation (input) dot :: u8 where "dot \<equiv> 46"

text \<open>The inner loop of the case \<^verbatim>\<open>..\<close>: copy while more than one slash is to come.\<close>

fun parent_loop :: "u8 list \<Rightarrow> nat \<Rightarrow> nat \<Rightarrow> u8 list \<Rightarrow> (nat \<times> u8 list) res" where
  "parent_loop [] cnt j new_path = Inr (j, new_path)"
| "parent_loop (c # cs) cnt j new_path =
     (let cnt' = (if c = slash \<and> cnt > 0 then cnt - 1 else cnt)
      in if cnt' > 1 then bindr (wr new_path j c) (parent_loop cs cnt' (j + 1))
         else parent_loop cs cnt' j new_path)"

text \<open>The loop over a path that starts with a dot; \<open>path\<close> includes its terminator.\<close>

function dot_loop :: "u8 list \<Rightarrow> u8 list \<Rightarrow> nat \<Rightarrow> nat \<Rightarrow> nat \<Rightarrow> u8 list \<Rightarrow> u8 list res" where
  "dot_loop path dir_path len i j new_path =
     (if i + 1 < length path then
        if path ! i = dot \<and> (path ! (i + 1) = 0 \<or> path ! (i + 1) = slash) then
          bindr (strcat new_path dir_path) (dot_loop path dir_path len (i + 1) (j + len))
        else if path ! i = dot \<and> path ! (i + 1) = dot \<and> (path ! (i + 2) = 0 \<or> path ! (i + 2) = slash) then
          bindr (parent_loop (take len dir_path) (length (filter (\<lambda>c. c = slash) (take len dir_path))) j new_path)
            (\<lambda>(j', np). dot_loop path dir_path len (i + 3) j' np)
        else bindr (wr new_path j (path ! i)) (dot_loop path dir_path len (i + 1) (j + 1))
      else Inr new_path)"
  by pat_completeness auto
termination
  by (relation "measure (\<lambda>(path, dp, len, i, j, np). length path - i)") auto

declare dot_loop.simps [simp del]

definition chdir_path :: "u8 list \<Rightarrow> u8 list \<Rightarrow> u8 list \<Rightarrow> u8 list res" where
  "chdir_path path dir_path junk =
     bindr (strlen dir_path) (\<lambda>len.
       if path ! 0 = dot then dot_loop path dir_path len 0 0 junk
       else bindr (strcpy junk dir_path) (\<lambda>np.
              if len = 0 then Inl Out_of_bounds
              else bindr (rd np (len - 1)) (\<lambda>c.
                     bindr (if c \<noteq> slash then wr np len slash else Inr np) (\<lambda>np'. strcat np' path))))"

fun chdir_search :: "u8 list \<Rightarrow> int \<Rightarrow> tarfs list \<Rightarrow> bool res" where
  "chdir_search new_path new_len [] = Inr False"
| "chdir_search new_path new_len (e # tab) =
     bindr (strncmp new_path e new_len) (\<lambda>r.
       if r = 0 then bindr (strcmp (typeflag e) [53, 0]) (\<lambda>d.
                       if d = 0 then Inr True else chdir_search new_path new_len tab)
       else chdir_search new_path new_len tab)"

text \<open>\<open>junk\<close> is the array \<^verbatim>\<open>new_path\<close> of 50 bytes before it is written.\<close>

definition sys_chdir :: "u8 list \<Rightarrow> u64 \<Rightarrow> kernel \<Rightarrow> (int \<times> kernel) res" where
  "sys_chdir junk path k =
     bindr (user_str path k) (\<lambda>p.
       bindr (chdir_path p (t_dir_path (cur_task k)) junk) (\<lambda>new_path.
         bindr (strlen new_path) (\<lambda>new_len.
           bindr (chdir_search new_path (int new_len) (take MAX_BIN (tarfs_ind k))) (\<lambda>found.
             if found then
               bindr (strcpy (t_dir_path (cur_task k)) new_path) (\<lambda>dp.
                 Inr (0, set_cur (\<lambda>t. t\<lparr>t_dir_path := dp\<rparr>) k))
             else Inr (-1, k)))))"

section \<open>Open, close and directory entries\<close>

text \<open>The entry that \<^verbatim>\<open>sys_open\<close> takes: the name, or the name and a slash.\<close>

definition open_match :: "u8 list \<Rightarrow> nat \<Rightarrow> tarfs \<Rightarrow> bool res" where
  "open_match file_name len e =
     bindr (strncmp file_name e (int len)) (\<lambda>r.
       if r \<noteq> 0 then Inr False
       else bindr (rd e len) (\<lambda>c.
              if c = slash then bindr (rd e (len + 1)) (\<lambda>d. Inr (d = 0)) else Inr (c = 0)))"

fun open_search :: "u8 list \<Rightarrow> nat \<Rightarrow> nat \<Rightarrow> tarfs list \<Rightarrow> nat option res" where
  "open_search file_name len ind [] = Inr None"
| "open_search file_name len ind (e # tab) =
     bindr (open_match file_name len e) (\<lambda>b.
       if b then Inr (Some ind) else open_search file_name len (ind + 1) tab)"

definition sys_open :: "u64 \<Rightarrow> u32 \<Rightarrow> kernel \<Rightarrow> (int \<times> kernel) res" where
  "sys_open file_name flags k =
     bindr (user_str file_name k) (\<lambda>name.
       bindr (open_search name (length name - 1) 0 (take MAX_BIN (tarfs_ind k))) (\<lambda>r.
         case r of
           None \<Rightarrow>
             bindr (tty_printk [78, 111, 32, 115, 117, 99, 104, 32, 102, 105, 108, 101, 10, 0] [] (k_tty k))
               (\<lambda>(n, t). Inr (0, k\<lparr>k_tty := t\<rparr>))
         | Some ind \<Rightarrow>
             let e = tarfs_ind k ! ind;
                 k1 = set_entry ind (set_ref_cnt (ref_cnt e + 1) e) k;
                 k2 = set_cur (\<lambda>t. t\<lparr>t_fd_cnt := t_fd_cnt t + 1\<rparr>) k1
             in bindr (int_idx (t_fd_cnt (cur_task k2))) (\<lambda>i.
                  bindr (rd (t_fd (cur_task k2)) i) (\<lambda>f.
                    bindr (strcpy (f_path f) (tarfs_ind k2 ! ind)) (\<lambda>path.
                      bindr (upd_fd i (\<lambda>f. f\<lparr>f_offset := bin_start_addr e, f_offset_read := bin_start_addr e,
                               f_file_size := scast (file_size e), f_flags := flags, f_path := path, f_seek := 0\<rparr>) k2)
                        (\<lambda>k3. Inr (int i, k3)))))))"

text \<open>
  \<^verbatim>\<open>struct dirent\<close> takes 280 bytes: \<^verbatim>\<open>d_off\<close> at offset 8, \<^verbatim>\<open>d_reclen\<close> at 16, \<^verbatim>\<open>d_name\<close> at 18.
  The loop carries the number \<open>i\<close> of records written.
\<close>

abbreviation (input) sizeof_dirent :: nat where "sizeof_dirent \<equiv> 280"

definition put_dirent :: "u64 \<Rightarrow> tarfs \<Rightarrow> kernel \<Rightarrow> kernel res" where
  "put_dirent a e k =
     bindr (strlen e) (\<lambda>n.
       bindr (user_store (a + 18) (take n e @ [0]) k) (\<lambda>k1.
         bindr (user_store (a + 8) (le_bytes 8 (unat (bin_start_addr e))) k1)
           (user_store (a + 16) (le_bytes 2 sizeof_dirent))))"

fun getdents_loop :: "u8 list \<Rightarrow> nat \<Rightarrow> u64 \<Rightarrow> nat \<Rightarrow> tarfs list \<Rightarrow> kernel \<Rightarrow> (nat \<times> kernel) res" where
  "getdents_loop path len arr i [] k = Inr (i, k)"
| "getdents_loop path len arr i (e # tab) k =
     bindr (strncmp path e (int len)) (\<lambda>r.
       bindr (if r = 0 then bindr (rd e len) (\<lambda>c. Inr (c \<noteq> 0)) else Inr False) (\<lambda>b.
         if b then
           bindr (strlen e) (\<lambda>n.
             if n > len then bindr (put_dirent (arr + of_nat (sizeof_dirent * i)) e k) (getdents_loop path len arr (i + 1) tab)
             else getdents_loop path len arr i tab k)
         else getdents_loop path len arr i tab k))"

text \<open>The buffer size \<^verbatim>\<open>count\<close> is not used.\<close>

definition sys_getdents :: "u32 \<Rightarrow> u64 \<Rightarrow> u32 \<Rightarrow> kernel \<Rightarrow> (u64 \<times> kernel) res" where
  "sys_getdents x dirp cnt k =
     bindr (int_idx x) (\<lambda>xi. bindr (rd (t_fd (cur_task k)) xi) (\<lambda>f.
       bindr (strlen (f_path f)) (\<lambda>len.
         if len > 0 then
           bindr (getdents_loop (f_path f) len dirp 0 (take MAX_BIN (tarfs_ind k)) k) (\<lambda>(i, k').
             Inr (of_nat (sizeof_dirent * i), k'))
         else Inr (0, k))))"

definition sys_close :: "u32 \<Rightarrow> kernel \<Rightarrow> (int \<times> kernel) res" where
  "sys_close filedes k =
     bindr (int_idx filedes) (\<lambda>i. bindr (rd (t_fd (cur_task k)) i) (\<lambda>f.
       case find (\<lambda>ind. bin_start_addr (tarfs_ind k ! ind) = f_offset f) [0..<MAX_BIN] of
         None \<Rightarrow> Inr (0, k)
       | Some ind \<Rightarrow>
           let e = tarfs_ind k ! ind;
               k1 = set_entry ind (set_ref_cnt (ref_cnt e - 1) e) k
           in bindr (strcpy (f_path f) [32, 0]) (\<lambda>path.
                bindr (upd_fd i (\<lambda>f. f\<lparr>f_offset := 0, f_path := path, f_flags := 0\<rparr>) k1) (\<lambda>k2. Inr (1, k2)))))"

section \<open>Pipes\<close>

definition sys_dup2 :: "u32 \<Rightarrow> u32 \<Rightarrow> kernel \<Rightarrow> (int \<times> kernel) res" where
  "sys_dup2 old_fd new_fd k =
     (let fd_cnt = sint (t_fd_cnt (cur_task k))
      in if sint old_fd > fd_cnt \<or> sint old_fd < 0 then Inr (-1, k)
         else if sint new_fd > fd_cnt \<or> sint new_fd < 0 then Inr (-1, k)
         else bindr (wr (t_dup_arr (cur_task k)) (nat (sint old_fd)) (scast new_fd)) (\<lambda>d.
                Inr (sint new_fd, set_cur (\<lambda>t. t\<lparr>t_dup_arr := d\<rparr>) k)))"

text \<open>\<^verbatim>\<open>"pipe_buffer"\<close>.\<close>

definition pipe_name :: "u8 list" where
  "pipe_name = [112, 105, 112, 101, 95, 98, 117, 102, 102, 101, 114, 0]"

definition pipe_end :: "nat \<Rightarrow> u64 \<Rightarrow> kernel \<Rightarrow> kernel res" where
  "pipe_end i buf k =
     bindr (rd (t_fd (cur_task k)) i) (\<lambda>f.
       bindr (strcpy (f_path f) pipe_name) (\<lambda>path.
         upd_fd i (\<lambda>f. f\<lparr>f_offset := buf, f_path := path\<rparr>) k))"

definition sys_pipe :: "u64 \<Rightarrow> kernel \<Rightarrow> (int \<times> kernel) res" where
  "sys_pipe fd k =
     (let (pipe_buff, m) = kmalloc 4096 (k_mem k); k1 = set_mem m k
      in if pipe_buff \<noteq> 0 then
           let fd1 = t_fd_cnt (cur_task k1) + 1; fd2 = fd1 + 1;
               k2 = set_cur (\<lambda>t. t\<lparr>t_fd_cnt := fd2\<rparr>) k1
           in bindr (user_store fd (le_bytes 4 (unat fd1)) k2) (\<lambda>k3.
                bindr (user_store (fd + 4) (le_bytes 4 (unat fd2)) k3) (\<lambda>k4.
                  bindr (int_idx fd1) (\<lambda>i1. bindr (pipe_end i1 pipe_buff k4) (\<lambda>k5.
                    bindr (int_idx fd2) (\<lambda>i2. bindr (pipe_end i2 pipe_buff k5) (\<lambda>k6.
                      Inr (0, k6)))))))
         else Inr (1, k1))"

section \<open>Reading and writing\<close>

text \<open>The descriptor a number stands for, when it is redirected.\<close>

definition redirected :: "u64 \<Rightarrow> kernel \<Rightarrow> File option res" where
  "redirected fildes k =
     bindr (rd (t_dup_arr (cur_task k)) (unat fildes)) (\<lambda>d.
       if d \<noteq> fildes then bindr (rd (t_fd (cur_task k)) (unat d)) (\<lambda>f. Inr (Some f)) else Inr None)"

text \<open>
  \<open>junk\<close> is the memory from \<^verbatim>\<open>tem_buf\<close> on: the array has \<open>size\<close> elements, and the terminator is
  written at index \<open>size\<close>.
\<close>

definition sys_write :: "u8 list \<Rightarrow> u64 \<Rightarrow> u64 \<Rightarrow> u64 \<Rightarrow> kernel \<Rightarrow> (int \<times> kernel) res" where
  "sys_write junk fildes buf sz k =
     bindr (redirected fildes k) (\<lambda>r.
       case r of
         Some f \<Rightarrow>
           bindr (user_str (f_offset f) k) (\<lambda>s.
             if unat sz \<ge> 2 ^ 31 then Inl Signed_overflow
             else bindr (user_copy (unat sz) (f_offset f + of_nat (length s - 1)) buf k) (\<lambda>k'.
                    Inr (uint sz, k')))
       | None \<Rightarrow>
           if fildes = 1 \<or> fildes = 2 then
             bindr (user_str buf k) (\<lambda>s.
               bindr (strncpy junk s (sint (ucast sz :: u32))) (\<lambda>t.
                 bindr (wr t (unat sz) 0) (\<lambda>t'.
                   bindr (tty_printk t' [] (k_tty k)) (\<lambda>(n, tt). Inr (int n, k\<lparr>k_tty := tt\<rparr>)))))
           else Inr (0, k))"

text \<open>
  Keyboard input arrives as the scan codes \<open>codes\<close>; the codes not used are part of the result.
\<close>

definition sys_read :: "u8 list \<Rightarrow> u8 list \<Rightarrow> u64 \<Rightarrow> u64 \<Rightarrow> u64 \<Rightarrow> kernel \<Rightarrow> (int \<times> u8 list \<times> kernel) res" where
  "sys_read junk codes fildes buf sz k =
     (if sz > 0 then
        bindr (redirected fildes k) (\<lambda>r.
          case r of
            Some f \<Rightarrow>
              bindr (user_str (f_offset f) k) (\<lambda>s.
                let len = length s - 1
                in bindr (user_copy len buf (f_offset f) k) (\<lambda>k1.
                     bindr (user_store (buf + of_nat len) [0] k1) (\<lambda>k2.
                       bindr (user_str (f_offset f) k2) (\<lambda>s'.
                         let len' = length s' - 1
                         in bindr (user_store (f_offset f) (replicate len' 0) k2) (\<lambda>k3.
                              Inr (int len', codes, k3))))))
          | None \<Rightarrow>
              if fildes = 0 then
                bindr (wr junk (unat sz) 0) (\<lambda>tem.
                  bindr (scank tem codes (k_tty k)) (\<lambda>(n, tem1, rest, tt).
                    let len = min n (unat sz); k1 = k\<lparr>k_tty := tt\<rparr>
                    in bindr (strlen tem1) (\<lambda>sl.
                         bindr (user_store buf (take (min len sl) tem1 @ [0]) k1) (\<lambda>k2.
                           bindr (user_store (buf + of_nat len) [0] k2) (\<lambda>k3. Inr (int len, rest, k3))))))
              else if fildes > 2 then
                bindr (rd (t_fd (cur_task k)) (unat fildes)) (\<lambda>f.
                  let src = (if f_seek f = 0 then f_offset_read f else f_seek f)
                  in if f_offset_read f < f_offset f + f_file_size f then
                       if unat sz \<ge> 2 ^ 31 then Inl Signed_overflow
                       else bindr (user_copy (unat sz) buf src k) (\<lambda>k1.
                              bindr (upd_fd (unat fildes) (\<lambda>f. f\<lparr>f_offset_read := f_offset_read f + sz\<rparr>) k1) (\<lambda>k2.
                                bindr (user_store (buf + sz) [0] k2) (\<lambda>k3. Inr (uint sz, codes, k3))))
                     else Inr (0, codes, k))
              else Inr (0, codes, k))
      else Inr (0, codes, k))"

text \<open>\<^verbatim>\<open>SEEK_END\<close> searches the index for the path without a bound.\<close>

fun lseek_find :: "u8 list \<Rightarrow> tarfs list \<Rightarrow> tarfs res" where
  "lseek_find path [] = Inl Out_of_bounds"
| "lseek_find path (e # tab) = bindr (strcmp path e) (\<lambda>r. if r \<noteq> 0 then lseek_find path tab else Inr e)"

definition sys_lseek :: "u32 \<Rightarrow> u64 \<Rightarrow> u32 \<Rightarrow> kernel \<Rightarrow> (u64 \<times> kernel) res" where
  "sys_lseek fildes offset whence k =
     (if whence = 0 \<or> whence = 1 \<or> whence = 2 then
        bindr (int_idx fildes) (\<lambda>i. bindr (rd (t_fd (cur_task k)) i) (\<lambda>f.
          bindr (if whence = 0 then Inr offset
                 else if whence = 1 then Inr (f_seek f + offset)
                 else bindr (lseek_find (f_path f) (tarfs_ind k)) (\<lambda>e. Inr (scast (file_size e) + offset)))
            (\<lambda>s. bindr (upd_fd i (\<lambda>f. f\<lparr>f_seek := s\<rparr>) k) (\<lambda>k'. Inr (s, k')))))
      else Inr (- 1, k))"

end
