(* ===== verification/Syscall.thy ===== *)
theory Syscall
  imports Files Process Timer
begin

text \<open>
  The system call interface: \<^verbatim>\<open>syscall_handler\<close> of \<^verbatim>\<open>sys/syscall.c\<close>, which all calls of user
  programs go through, and \<^verbatim>\<open>sys_ps\<close>'s output.  The handler reads its number from \<^verbatim>\<open>rax\<close> and
  its arguments from \<^verbatim>\<open>rbx\<close>, \<^verbatim>\<open>rsi\<close> and \<^verbatim>\<open>rdx\<close>.  Its result is what it moves to \<^verbatim>\<open>rax\<close>: \<open>None\<close>
  where it leaves the register to the compiler.
\<close>

section \<open>The process list on the screen\<close>

abbreviation (input) ch_tab :: u8 where "ch_tab \<equiv> 9"
abbreviation (input) ch_nl :: u8 where "ch_nl \<equiv> 10"

definition bytes :: "string \<Rightarrow> u8 list" where
  "bytes s = map of_char s"

definition status_text :: "ps_status \<Rightarrow> u8 list" where
  "status_text st = (case st of RUNNING \<Rightarrow> bytes ''RUNNING'' | WAITING \<Rightarrow> bytes ''WAITING'') @ [ch_nl, 0]"

fun print_rows :: "(nat \<times> u16 \<times> u16 \<times> u8 list \<times> ps_status) list \<Rightarrow> tty \<Rightarrow> tty res" where
  "print_rows [] t = Inr t"
| "print_rows ((cnt, ppid, pid, name, st) # rows) t =
     bindr (tty_printk (bytes ''%d.'' @ [ch_tab, ch_tab] @ bytes '' %d'' @ [ch_tab] @ bytes '' %d'' @ [ch_tab] @ bytes '' %s'' @ [ch_tab, 0])
              [Int_arg (of_nat cnt), Int_arg (ucast ppid), Int_arg (ucast pid), Str_arg name] t) (\<lambda>(n1, t1).
       bindr (tty_printk (status_text st) [] t1) (\<lambda>(n2, t2). print_rows rows t2))"

definition print_ps :: "kernel \<Rightarrow> kernel res" where
  "print_ps k =
     bindr (tty_printk (bytes ''S.No.'' @ [ch_tab] @ bytes '' PARENT_PID'' @ [ch_tab] @ bytes '' PID'' @ [ch_tab] @ bytes '' NAME'' @ [ch_tab]
              @ bytes '' STATUS'' @ [ch_nl, 0]) [] (k_tty k)) (\<lambda>(n1, t1).
       bindr (tty_printk (bytes ''====='' @ [ch_tab] @ bytes '' =========='' @ [ch_tab] @ bytes '' ==='' @ [ch_tab] @ bytes '' ===='' @ [ch_tab]
                @ bytes '' ======'' @ [ch_nl, 0]) [] t1) (\<lambda>(n2, t2).
         bindr (of_option (sys_ps (k_sched k))) (\<lambda>rows.
           bindr (print_rows rows t2) (\<lambda>t3. Inr (k\<lparr>k_tty := t3\<rparr>)))))"

section \<open>Dispatch\<close>

text \<open>The numbers of \<^verbatim>\<open>include/sys/syscall.h\<close>.\<close>

abbreviation (input) SYS_read :: u64 where "SYS_read \<equiv> 0"
abbreviation (input) SYS_write :: u64 where "SYS_write \<equiv> 1"
abbreviation (input) SYS_open :: u64 where "SYS_open \<equiv> 2"
abbreviation (input) SYS_close :: u64 where "SYS_close \<equiv> 3"
abbreviation (input) SYS_lseek :: u64 where "SYS_lseek \<equiv> 8"
abbreviation (input) SYS_brk :: u64 where "SYS_brk \<equiv> 12"
abbreviation (input) SYS_pipe :: u64 where "SYS_pipe \<equiv> 22"
abbreviation (input) SYS_dup :: u64 where "SYS_dup \<equiv> 32"
abbreviation (input) SYS_dup2 :: u64 where "SYS_dup2 \<equiv> 33"
abbreviation (input) SYS_nanosleep :: u64 where "SYS_nanosleep \<equiv> 35"
abbreviation (input) SYS_alarm :: u64 where "SYS_alarm \<equiv> 37"
abbreviation (input) SYS_getpid :: u64 where "SYS_getpid \<equiv> 39"
abbreviation (input) SYS_kill :: u64 where "SYS_kill \<equiv> 52"
abbreviation (input) SYS_fork :: u64 where "SYS_fork \<equiv> 57"
abbreviation (input) SYS_execve :: u64 where "SYS_execve \<equiv> 59"
abbreviation (input) SYS_exit :: u64 where "SYS_exit \<equiv> 60"
abbreviation (input) SYS_wait4 :: u64 where "SYS_wait4 \<equiv> 61"
abbreviation (input) SYS_getdents :: u64 where "SYS_getdents \<equiv> 78"
abbreviation (input) SYS_getcwd :: u64 where "SYS_getcwd \<equiv> 79"
abbreviation (input) SYS_chdir :: u64 where "SYS_chdir \<equiv> 80"
abbreviation (input) SYS_ps :: u64 where "SYS_ps \<equiv> 84"
abbreviation (input) SYS_getppid :: u64 where "SYS_getppid \<equiv> 110"

text \<open>
  \<open>junk\<close> is what the stack holds where the calls have uninitialised arrays, \<open>codes\<close> the scan codes the
  keyboard will send; the ones not used are part of the result.
\<close>

type_synonym sys_result = "(u64 option outcome \<times> u8 list \<times> kernel) res"

definition ret_to :: "u8 list \<Rightarrow> ('a \<Rightarrow> u64 option) \<Rightarrow> ('a \<times> kernel) res \<Rightarrow> sys_result" where
  "ret_to codes f m = bindr m (\<lambda>(r, k). Inr (Ret (f r), codes, k))"

definition step_to :: "u8 list \<Rightarrow> (int \<Rightarrow> u64 option) \<Rightarrow> kstep \<Rightarrow> sys_result" where
  "step_to codes f m =
     bindr m (\<lambda>(r, k). Inr (case r of Ret v \<Rightarrow> (Ret (f v), codes, k) | Switch \<Rightarrow> (Switch, codes, k)))"

text \<open>A scheduler call on the kernel state.\<close>

definition on_sched :: "(int outcome \<times> sched) res \<Rightarrow> kernel \<Rightarrow> kstep" where
  "on_sched m k = bindr m (\<lambda>(r, s). Inr (r, k\<lparr>k_sched := s\<rparr>))"

text \<open>A result of type \<^verbatim>\<open>int64_t\<close>, and one kept in an \<^verbatim>\<open>int\<close> on the way.\<close>

definition ret64 :: "int \<Rightarrow> u64 option" where
  "ret64 r = Some (of_int r)"

definition ret32 :: "int \<Rightarrow> u64 option" where
  "ret32 r = Some (scast (of_int r :: u32))"

definition syscall_handler :: "u8 list \<Rightarrow> u8 list \<Rightarrow> u64 \<Rightarrow> u64 \<Rightarrow> u64 \<Rightarrow> u64 \<Rightarrow> kernel \<Rightarrow> sys_result" where
  "syscall_handler junk codes s_cal_no param_1 param_2 param_3 k =
     (if s_cal_no = SYS_exit then step_to codes (\<lambda>_. None) (k_exit k)
      else if s_cal_no = SYS_brk then ret_to codes Some (sys_brk param_1 k)
      else if s_cal_no = SYS_fork then ret_to codes ret64 (sys_fork k)
      else if s_cal_no = SYS_getpid then Inr (Ret (Some (sys_getpid (k_sched k))), codes, k)
      else if s_cal_no = SYS_getppid then Inr (Ret (Some (sys_getppid (k_sched k))), codes, k)
      else if s_cal_no = SYS_execve then bindr (user_str param_1 k) (\<lambda>f. step_to codes ret64 (sys_execve f k))
      else if s_cal_no = SYS_wait4 then step_to codes ret64 (on_sched (of_option (sys_waitpid (ucast param_1) (k_sched k))) k)
      else if s_cal_no = SYS_nanosleep then step_to codes ret64 (on_sched (Inr (sys_sleep param_1 (k_sched k))) k)
      else if s_cal_no = SYS_getcwd then ret_to codes Some (sys_getcwd param_1 param_2 k)
      else if s_cal_no = SYS_chdir then ret_to codes ret32 (sys_chdir junk param_1 k)
      else if s_cal_no = SYS_open then ret_to codes ret64 (sys_open param_1 (ucast param_2) k)
      else if s_cal_no = SYS_ps then bindr (print_ps k) (\<lambda>k'. Inr (Ret None, codes, k'))
      else if s_cal_no = SYS_read then
        bindr (sys_read junk codes param_1 param_2 param_3 k) (\<lambda>(num, rest, k'). Inr (Ret (ret32 num), rest, k'))
      else if s_cal_no = SYS_write then ret_to codes (\<lambda>_. None) (sys_write junk param_1 param_2 param_3 k)
      else if s_cal_no = SYS_lseek then ret_to codes Some (sys_lseek (ucast param_1) param_2 (ucast param_3) k)
      else if s_cal_no = SYS_close then ret_to codes ret64 (sys_close (ucast param_1) k)
      else if s_cal_no = SYS_getdents then ret_to codes Some (sys_getdents (ucast param_1) param_2 (ucast param_3) k)
      else if s_cal_no = SYS_pipe then ret_to codes ret32 (sys_pipe param_1 k)
      else if s_cal_no = SYS_dup2 then ret_to codes ret32 (sys_dup2 (ucast param_1) (ucast param_2) k)
      else Inr (Ret None, codes, k))"

end
