(* ===== verification/Inv_Intf.thy ===== *)
theory Inv_Intf
  imports Process
begin

text \<open>
  Postconditions of kernel computations, and the contract under which loading a program keeps a
  property of the kernel state: a property that printing, ending a task, memory and the
  lists of memory areas do not affect.  \<open>ens P m\<close> says that a computation, if it is defined, ends in \<open>P\<close>.
\<close>

section \<open>Postconditions\<close>

definition ens :: "('a \<Rightarrow> bool) \<Rightarrow> 'a res \<Rightarrow> bool" where
  "ens P m \<longleftrightarrow> (\<forall>x. m = Inr x \<longrightarrow> P x)"

named_theorems ens_rules \<open>postconditions of the operations\<close>

lemma ens_simps [simp]: "ens P (Inl e)" "ens P (Inr x) \<longleftrightarrow> P x" "ens (\<lambda>_. True) m"
  by (simp_all add: ens_def)

lemma ens_bind: "ens Q m \<Longrightarrow> (\<And>x. Q x \<Longrightarrow> ens P (f x)) \<Longrightarrow> ens P (bindr m f)"
  by (cases m) (simp_all add: ens_def)

lemma ens_bind_any: "(\<And>x. ens P (f x)) \<Longrightarrow> ens P (bindr m f)"
  by (cases m) simp_all

lemma ens_bindI: "(\<And>x. m = Inr x \<Longrightarrow> ens P (f x)) \<Longrightarrow> ens P (bindr m f)"
  by (cases m) simp_all

lemma ens_use: "m = Inr x \<Longrightarrow> ens P m \<Longrightarrow> P x"
  by (simp add: ens_def)

lemma ens_case_option:
  "(r = None \<Longrightarrow> ens P a) \<Longrightarrow> (\<And>i. r = Some i \<Longrightarrow> ens P (f i)) \<Longrightarrow> ens P (case r of None \<Rightarrow> a | Some i \<Rightarrow> f i)"
  by (cases r) simp_all

lemma ens_mono: "ens Q m \<Longrightarrow> (\<And>x. Q x \<Longrightarrow> P x) \<Longrightarrow> ens P m"
  by (simp add: ens_def)

section \<open>Invariants of loading\<close>

abbreviation keeps :: "(kernel \<Rightarrow> bool) \<Rightarrow> ('a \<times> kernel) res \<Rightarrow> bool" where
  "keeps K m \<equiv> ens (\<lambda>(r, k'). K k') m"

locale kernel_inv =
  fixes K :: "kernel \<Rightarrow> bool" and p :: ptr
  assumes mem: "K k \<Longrightarrow> K (set_mem m k)"
    and areas: "K k \<Longrightarrow> K (k\<lparr>vmas := v\<rparr>)" "K k \<Longrightarrow> K (k\<lparr>mms := w\<rparr>)"
    and entry: "K k \<Longrightarrow> K (set_task p (\<lambda>t. t\<lparr>t_entry_pt := e\<rparr>) k)"
    and print: "K k \<Longrightarrow> ens K (k_printk fmt as k)"
    and exit: "K k \<Longrightarrow> keeps K (k_exit k)"
begin

lemma keep_OOM: "K k \<Longrightarrow> keeps K (OOM k)"
  unfolding OOM_def by (rule ens_bind [OF print exit])

lemma keep_and_then: "keeps K m \<Longrightarrow> (\<And>k. K k \<Longrightarrow> keeps K (f k)) \<Longrightarrow> keeps K (and_then m f)"
  unfolding and_then_def
  by (rule ens_bind [where Q = "\<lambda>(r, k'). K k'"]) (auto split: outcome.splits)

lemma keep_allocate_loop: "K k \<Longrightarrow> keeps K (allocate_loop pml4 i stop k)"
proof (induction pml4 i stop k rule: allocate_loop.induct)
  case (1 pml4 i stop k)
  show ?case
  proof (cases "i < stop")
    case True
    obtain a m where am: "mem_allocate (k_mem k) = (a, m)" by fastforce
    have oom: "keeps K (allocate_loop pml4 (i + 4096) stop k')" if "a = 0" "K k'" for k'
      using "1.IH"(1) [OF True refl am [symmetric] refl] that by simp
    have ins: "keeps K (allocate_loop pml4 (i + 4096) stop (set_mem m2 (set_mem m k)))" if "a \<noteq> 0" for m2
      using "1.IH"(2) [OF True refl am [symmetric] refl] that "1.prems" by (simp add: mem)
    show ?thesis
      using True am oom ins "1.prems"
      by (subst allocate_loop.simps) (auto simp: Let_def mem intro!: keep_and_then keep_OOM ens_bind_any)
  next
    case False
    then show ?thesis using "1.prems" by (subst allocate_loop.simps) simp
  qed
qed

lemma keep_allocate: "K k \<Longrightarrow> keeps K (allocate pml4 a n k)"
  by (simp add: allocate_def Let_def keep_allocate_loop)

lemma keep_allocate_vma: "K k \<Longrightarrow> keeps K (allocate_vma mm k)"
  by (auto simp: allocate_vma_def Let_def areas mem split: prod.splits intro!: ens_bind_any)

lemma keep_load_segment: "K k \<Longrightarrow> keeps K (load_segment t elf ph k)"
  unfolding load_segment_def Let_def
  by (rule keep_and_then [OF keep_allocate])
    (auto intro!: ens_bindI dest!: ens_use [OF _ keep_allocate_vma] simp: mem areas set_vma_def)

lemma keep_elf_loop: "K k \<Longrightarrow> keeps K (elf_loop n t elf ph1 k)"
proof (induction n arbitrary: ph1 k)
  case (Suc n)
  then show ?case by (auto intro!: ens_bind_any keep_and_then keep_load_segment)
qed simp

lemma keep_elf_load: "K k \<Longrightarrow> keeps K (elf_load p name k)"
  unfolding elf_load_def Let_def
  by (auto intro!: ens_bind_any keep_and_then keep_elf_loop entry)

end

end
