(* ===== verification/Typing.thy ===== *)
theory Typing
  imports Syscall Inv_Intf
begin

text \<open>
  The C types of the kernel's arrays as an invariant.  The model keeps a C array as a list; that
  it has the declared number of elements is what makes \<^const>\<open>rd\<close> and \<^const>\<open>wr\<close> fail exactly where
  the C code leaves the array.
\<close>

section \<open>Arrays keep their length\<close>

lemma ens_wr [ens_rules]: "ens (\<lambda>ys. length ys = length xs) (wr xs i v)"
  by (simp add: wr_def)

lemma ens_copy_loop [ens_rules]: "ens (\<lambda>d'. length d' = length d) (copy_loop n i d j s)"
proof (induction n arbitrary: i d j)
  case (Suc n)
  have "ens (\<lambda>d'. length d' = length d) (copy_loop n (i + 1) d1 (j + 1) s)" if "length d1 = length d" for d1
    using Suc [of d1 "i + 1" "j + 1"] that by simp
  then show ?case by (auto intro!: ens_bindI simp: wr_eq_Inr)
qed simp

lemma ens_strcpy [ens_rules]: "ens (\<lambda>d'. length d' = length d) (strcpy d s)"
  unfolding strcpy_def by (rule ens_bind_any, rule ens_bind [OF ens_copy_loop], rule ens_mono [OF ens_wr]) simp

lemma ens_strncpy [ens_rules]: "ens (\<lambda>d'. length d' = length d) (strncpy d s n)"
  unfolding strncpy_def Let_def by (rule ens_bind_any, rule ens_bind [OF ens_copy_loop], rule ens_mono [OF ens_wr]) simp

lemma ens_memset_loop [ens_rules]: "ens (\<lambda>d'. length d' = length d) (memset_loop n i v d)"
proof (induction n arbitrary: i d)
  case (Suc n)
  have "ens (\<lambda>d'. length d' = length d) (memset_loop n (i + 1) v d1)" if "length d1 = length d" for d1
    using Suc [of d1 "i + 1"] that by simp
  then show ?case by (auto intro!: ens_bindI simp: wr_eq_Inr)
qed simp

section \<open>The screen\<close>

abbreviation same_vid :: "console \<Rightarrow> console \<Rightarrow> bool" where
  "same_vid c c' \<equiv> length (vid c') = length (vid c)"

lemma ens_put_byte: "ens (same_vid c) (put_byte i b c)"
  unfolding put_byte_def by (rule ens_bind [OF ens_wr]) simp

lemma ens_put_cell: "ens (same_vid c) (put_cell p ch c)"
  unfolding put_cell_def by (rule ens_bind [OF ens_put_byte], rule ens_mono [OF ens_put_byte]) simp

lemma ens_reset_loop: "ens (same_vid c) (reset_loop n p c)"
proof (induction n arbitrary: p c)
  case (Suc n)
  show ?case unfolding reset_loop.simps
    by (rule ens_bind [OF ens_put_cell], rule ens_mono [OF Suc]) simp
qed simp

lemma ens_scroll_loop: "ens (same_vid c) (scroll_loop n p c)"
proof (induction n arbitrary: p c)
  case (Suc n)
  show ?case unfolding scroll_loop.simps
    by (rule ens_bind_any, rule ens_bind [OF ens_put_cell], rule ens_mono [OF Suc]) simp
qed simp

lemma ens_window_scroll: "ens (same_vid c) (window_scroll c)"
  unfolding window_scroll_def by (rule ens_bind [OF ens_scroll_loop], rule ens_bind [OF ens_reset_loop]) simp

lemma ens_new_line: "ens (same_vid c) (new_line c)"
  unfolding new_line_def Let_def by (rule ens_bind_any) (auto intro!: ens_mono [OF ens_window_scroll])

lemma ens_c_plain: "ens (same_vid c) (c_plain ch c)"
  unfolding c_plain_def
proof (rule ens_bind [where Q = "same_vid c"])
  show "ens (same_vid c) (if csr_x c \<ge> 0 \<and> csr_x c < 80 \<and> csr_y c \<ge> 0 \<and> csr_y c < 25
            then put_cell (2 * nat (csr_x c + csr_y c * 80)) ch c else Inr c)"
    using ens_put_cell by simp
qed (auto intro!: ens_mono [OF ens_new_line] ens_bind_any)

lemma ens_c_printf: "ens (same_vid c) (c_printf ch c)"
  using ens_new_line [of c] ens_c_plain [of c ch]
  by (auto simp: c_printf_def intro!: ens_bind_any ens_bind [OF ens_c_plain])

lemma ens_s_printf: "ens (same_vid c) (s_printf s c)"
proof (induction s arbitrary: c)
  case (Cons a s)
  show ?case by (auto intro!: ens_bind [OF ens_c_printf] ens_mono [OF Cons])
qed simp

lemma ens_print_digits: "ens (same_vid c) (print_digits i flag ns c)"
proof (induction i arbitrary: flag c)
  case 0
  show ?case
    by (subst print_digits.simps, rule ens_bind_any, rule ens_bind [where Q = "\<lambda>(f, c'). same_vid c c'"])
      (auto intro!: ens_bind [OF ens_c_printf])
next
  case (Suc i)
  show ?case
    by (subst print_digits.simps, rule ens_bind_any, rule ens_bind [where Q = "\<lambda>(f, c'). same_vid c c'"])
      (auto intro!: ens_bind [OF ens_c_printf] ens_mono [OF Suc])
qed

lemma ens_i_printf: "ens (same_vid c) (i_printf num base x c)"
  unfolding i_printf_def
proof (rule ens_bind [where Q = "same_vid c"])
  show "ens (same_vid c) (if x then bindr (c_printf 48 c) (c_printf 120) else Inr c)"
    by (auto intro!: ens_bind [OF ens_c_printf] ens_mono [OF ens_c_printf])
qed (auto intro!: ens_mono [OF ens_c_printf] ens_bind_any ens_mono [OF ens_print_digits])

lemma ens_print_signed: "ens (same_vid c) (print_signed base n c)"
  unfolding print_signed_def
  by (rule ens_bind [where Q = "same_vid c"]) (auto intro!: ens_c_printf ens_mono [OF ens_i_printf])

lemma ens_conversion: "ens (\<lambda>(as', c'). same_vid c c') (conversion f as c)"
  unfolding conversion_def
  by (auto intro!: ens_bind_any ens_bind [OF ens_print_signed] ens_bind [OF ens_s_printf] ens_bind [OF ens_i_printf]
      ens_bind [OF ens_c_printf])

lemma ens_printk_loop: "ens (\<lambda>(n, c'). same_vid c c') (printk_loop fmt as printed c)"
proof (induction "length fmt" arbitrary: fmt as printed c rule: less_induct)
  case less
  show ?case
  proof (cases fmt)
    case (Cons ch fmt1)
    have "ens (\<lambda>(n, c'). same_vid c c') (printk_loop fmt1 as n c1)" if "same_vid c c1" for n c1
      using less [of fmt1 c1 as n] Cons that by simp
    then have plain: "ens (\<lambda>(n, c'). same_vid c c') (bindr (c_printf ch c) (printk_loop fmt1 as (printed + 1)))"
      by (intro ens_bind [OF ens_c_printf])
    have "ens (\<lambda>(n, c'). same_vid c c') (bindr (conversion f as c) (\<lambda>(as', c'). printk_loop fmt2 as' (printed + 1) c'))"
      if "fmt1 = f # fmt2" for f fmt2
    proof (rule ens_bind [OF ens_conversion])
      fix x :: "arg list \<times> console" assume "case x of (as', c') \<Rightarrow> same_vid c c'"
      then show "ens (\<lambda>(n, c'). same_vid c c') (case x of (as', c') \<Rightarrow> printk_loop fmt2 as' (printed + 1) c')"
        using less [of fmt2 "snd x" "fst x" "printed + 1"] Cons that by (cases x) simp
    qed
    then show ?thesis using plain Cons by (cases fmt1) simp_all
  qed simp
qed

section \<open>The terminal\<close>

definition tty_ok :: "tty \<Rightarrow> bool" where
  "tty_ok t \<longleftrightarrow> length (kbuffer t) = 512 \<and> length (vid (con t)) = 8192"

lemma tty_ok_fields [simp]: "tty_ok (t\<lparr>scan_flag := f\<rparr>) = tty_ok t" "tty_ok (t\<lparr>shift_key := x\<rparr>) = tty_ok t"
  "tty_ok (t\<lparr>kb_count := n\<rparr>) = tty_ok t" "tty_ok (outportb p v t) = tty_ok t"
  by (simp_all add: tty_ok_def outportb_def)

lemma ens_tty_printk: "tty_ok t \<Longrightarrow> ens (\<lambda>(n, t'). tty_ok t') (tty_printk fmt as t)"
  unfolding tty_printk_def printk_def
  by (rule ens_bind [OF ens_printk_loop]) (auto simp: tty_ok_def)

lemma ens_kb_store: "tty_ok t \<Longrightarrow> ens tty_ok (kb_store ch t)"
  unfolding kb_store_def by (auto simp: tty_ok_def wr_eq_Inr intro!: ens_bindI)

lemma ens_kb_key: "tty_ok t \<Longrightarrow> ens tty_ok (kb_key cs code t)"
  unfolding kb_key_def
  by (auto intro!: ens_bindI ens_kb_store dest!: ens_use [OF _ ens_tty_printk])

lemma ens_kb_handler: "tty_ok t \<Longrightarrow> ens tty_ok (kb_handler code t)"
  unfolding kb_handler_def Let_def
  by (rule ens_bind [where Q = tty_ok]) (auto intro!: ens_bind [OF ens_kb_key] ens_kb_key)

lemma ens_clear_kbuffer: "tty_ok t \<Longrightarrow> ens tty_ok (clear_kbuffer t)"
  unfolding clear_kbuffer_def by (rule ens_bind [OF ens_memset_loop]) (simp add: tty_ok_def)

lemma ens_await_line: "tty_ok t \<Longrightarrow> ens (\<lambda>(cs, t'). tty_ok t') (await_line codes t)"
proof (induction codes arbitrary: t)
  case Nil
  then show ?case by (subst await_line.simps) simp
next
  case (Cons c cs)
  then show ?case by (subst await_line.simps) (auto intro!: ens_bind [OF ens_kb_handler])
qed

lemma ens_scank: "tty_ok t \<Longrightarrow> ens (\<lambda>(n, b, r, t'). tty_ok t') (scank buf codes t)"
  unfolding scank_def
  by (auto intro!: ens_bindI dest!: ens_use [OF _ ens_clear_kbuffer] ens_use [OF _ ens_await_line])

section \<open>Tasks\<close>

definition file_ok :: "File \<Rightarrow> bool" where
  "file_ok f \<longleftrightarrow> length (f_path f) = 32"

definition task_ok :: "task_struct \<Rightarrow> bool" where
  "task_ok t \<longleftrightarrow> length (t_fd t) = 25 \<and> (\<forall>f \<in> set (t_fd t). file_ok f) \<and> length (t_dup_arr t) = 25 \<and>
     length (t_dir_path t) = DIR_LEN \<and> length (t_bin_name t) = BINARY_LEN"

definition sched_ok_types :: "sched \<Rightarrow> bool" where
  "sched_ok_types s \<longleftrightarrow> (\<forall>p. task_ok (tasks s p))"

lemma sched_types_upd [simp]:
  "sched_ok_types (upd_lists f s) = sched_ok_types s" "sched_ok_types (s\<lparr>num_task := n\<rparr>) = sched_ok_types s"
  "sched_ok_types (s\<lparr>nextTask := p\<rparr>) = sched_ok_types s" "sched_ok_types (s\<lparr>currentTask := p\<rparr>) = sched_ok_types s"
  "sched_ok_types (s\<lparr>cpu := c\<rparr>) = sched_ok_types s"
  by (simp_all add: sched_ok_types_def upd_lists_def)

lemma sched_types_task: "sched_ok_types s \<Longrightarrow> (\<And>t. task_ok t \<Longrightarrow> task_ok (f t)) \<Longrightarrow> sched_ok_types (upd_task p f s)"
  by (simp add: sched_ok_types_def upd_task_def)

lemma schedule_types: "sched_ok_types s \<Longrightarrow> sched_ok_types (snd (schedule s))"
  by (simp add: schedule_def sys_yield_def Let_def)

lemma schedule_ret_types: "sched_ok_types s \<Longrightarrow> sched_ok_types (snd (schedule_ret v s))"
  using schedule_types [of s] by (auto simp: schedule_ret_def split: prod.splits outcome.splits)

lemma awakepid_types: "awakepid pid s = Some s' \<Longrightarrow> sched_ok_types s' = sched_ok_types s"
  by (auto simp: awakepid_def split: if_splits option.splits)

lemma schedule_ret_typesD: "schedule_ret v s = (r, s') \<Longrightarrow> sched_ok_types s \<Longrightarrow> sched_ok_types s'"
  using schedule_ret_types [of s v] by simp

lemma sys_exit_types: "sys_exit s = Some (r, s') \<Longrightarrow> sched_ok_types s \<Longrightarrow> sched_ok_types s'"
  by (auto simp: sys_exit_def Let_def awakepid_types split: option.splits dest!: schedule_ret_typesD)

lemma sys_waitpid_types: "sys_waitpid pid s = Some (r, s') \<Longrightarrow> sched_ok_types s \<Longrightarrow> sched_ok_types s'"
  by (auto simp: sys_waitpid_def Let_def split: option.splits dest!: schedule_ret_typesD)

lemma sys_sleep_types: "sched_ok_types s \<Longrightarrow> sched_ok_types (snd (sys_sleep n s))"
  unfolding sys_sleep_def Let_def
  by (intro schedule_ret_types) (auto intro!: sched_types_task simp: task_ok_def)

lemma add_head_types [simp]: "sched_ok_types (snd (addTasktoQueueHead p s)) = sched_ok_types s"
  by (simp add: addTasktoQueueHead_def)

section \<open>The kernel state\<close>

definition kernel_ok :: "kernel \<Rightarrow> bool" where
  "kernel_ok k \<longleftrightarrow> sched_ok_types (k_sched k) \<and> tty_ok (k_tty k) \<and> length (tarfs_ind k) = MAX_BIN \<and>
     (\<forall>e \<in> set (tarfs_ind k). length e = 125)"

lemma kernel_ok_upd [simp]:
  "kernel_ok (set_mem m k) = kernel_ok k" "kernel_ok (k\<lparr>vmas := v\<rparr>) = kernel_ok k" "kernel_ok (k\<lparr>mms := w\<rparr>) = kernel_ok k"
  "kernel_ok (k\<lparr>avail_pid := a\<rparr>) = kernel_ok k" "kernel_ok (k\<lparr>k_mem := m\<rparr>) = kernel_ok k" "kernel_ok (set_vma p g k) = kernel_ok k"
  by (simp_all add: kernel_ok_def set_mem_def set_vma_def)

lemma kernel_ok_sched: "kernel_ok k \<Longrightarrow> sched_ok_types s \<Longrightarrow> kernel_ok (k\<lparr>k_sched := s\<rparr>)"
  and kernel_ok_tty: "kernel_ok k \<Longrightarrow> tty_ok t \<Longrightarrow> kernel_ok (k\<lparr>k_tty := t\<rparr>)"
  and kernel_okD: "kernel_ok k \<Longrightarrow> sched_ok_types (k_sched k)" "kernel_ok k \<Longrightarrow> tty_ok (k_tty k)"
  by (simp_all add: kernel_ok_def)

lemma kernel_ok_task: "kernel_ok k \<Longrightarrow> (\<And>t. task_ok t \<Longrightarrow> task_ok (f t)) \<Longrightarrow> kernel_ok (set_task p f k)"
  unfolding set_task_def by (intro kernel_ok_sched sched_types_task) (auto dest: kernel_okD)

lemma kernel_ok_cur: "kernel_ok k \<Longrightarrow> (\<And>t. task_ok t \<Longrightarrow> task_ok (f t)) \<Longrightarrow> kernel_ok (set_cur f k)"
  unfolding set_cur_def by (rule kernel_ok_task)

lemma cur_task_ok: "kernel_ok k \<Longrightarrow> task_ok (cur_task k)"
  by (simp add: kernel_ok_def sched_ok_types_def cur_task_def)

lemma task_at_ok: "kernel_ok k \<Longrightarrow> task_ok (tasks (k_sched k) p)"
  by (simp add: kernel_ok_def sched_ok_types_def)

lemma kernel_ok_entry: "kernel_ok k \<Longrightarrow> length e = 125 \<Longrightarrow> kernel_ok (set_entry i e k)"
  using set_update_subset_insert [of "tarfs_ind k" i e] by (auto simp: kernel_ok_def set_entry_def)

abbreviation ens_kernel :: "('a \<times> kernel) res \<Rightarrow> bool" where
  "ens_kernel m \<equiv> ens (\<lambda>(r, k'). kernel_ok k') m"

lemma ens_user_store: "kernel_ok k \<Longrightarrow> ens kernel_ok (user_store a bs k)"
  unfolding user_store_def by (rule ens_bind_any) simp

lemma ens_user_copy: "kernel_ok k \<Longrightarrow> ens kernel_ok (user_copy n d s k)"
  unfolding user_copy_def by (rule ens_bind_any) simp

lemma ens_upd_fd:
  assumes "kernel_ok k" "\<And>f. file_ok f \<Longrightarrow> file_ok (g f)"
  shows "ens kernel_ok (upd_fd i g k)"
proof -
  have "task_ok (t\<lparr>t_fd := (t_fd t)[i := g (t_fd (cur_task k) ! i)]\<rparr>)" if "i < length (t_fd (cur_task k))" "task_ok t" for t
  proof -
    have "file_ok (g (t_fd (cur_task k) ! i))" using cur_task_ok [OF assms(1)] that(1) assms(2) by (simp add: task_ok_def)
    then show ?thesis using that(2) set_update_subset_insert [of "t_fd t" i] by (fastforce simp: task_ok_def)
  qed
  then show ?thesis unfolding upd_fd_def by (auto simp: rd_eq_Inr intro!: ens_bindI kernel_ok_cur assms(1))
qed

section \<open>Exits and memory areas\<close>

lemma ens_k_exit: "kernel_ok k \<Longrightarrow> ens_kernel (k_exit k)"
  using sys_exit_types [of "k_sched k"]
  by (cases "sys_exit (k_sched k)") (auto simp: k_exit_def kernel_okD intro!: kernel_ok_sched)

lemma ens_k_printk: "kernel_ok k \<Longrightarrow> ens kernel_ok (k_printk fmt as k)"
  unfolding k_printk_def by (rule ens_bind [OF ens_tty_printk]) (auto intro: kernel_ok_tty simp: kernel_okD)

interpretation ki: kernel_inv kernel_ok p for p
  by unfold_locales (auto intro: ens_k_printk ens_k_exit kernel_ok_task simp: task_ok_def)

lemmas ens_and_then = ki.keep_and_then and ens_allocate_vma = ki.keep_allocate_vma

lemma ens_sys_brk: "kernel_ok k \<Longrightarrow> ens_kernel (sys_brk a k)"
  by (auto simp: sys_brk_def Let_def set_heap_def task_ok_def intro!: ens_bind_any kernel_ok_task)

section \<open>Files\<close>

lemma ens_sys_getcwd: "kernel_ok k \<Longrightarrow> ens_kernel (sys_getcwd d sz k)"
  by (auto simp: sys_getcwd_def Let_def intro!: ens_bindI dest!: ens_use [OF _ ens_user_store])

lemma ens_sys_chdir: "kernel_ok k \<Longrightarrow> ens_kernel (sys_chdir junk path k)"
  unfolding sys_chdir_def using cur_task_ok [of k]
  by (auto intro!: ens_bindI kernel_ok_cur dest!: ens_use [OF _ ens_strcpy] simp: task_ok_def)

lemma length_le_bytes: "length (le_bytes n v) = n"
  by (induction n arbitrary: v) auto

lemma set_ref_cnt_length: "length e = 125 \<Longrightarrow> length (set_ref_cnt v e) = 125"
  by (simp add: set_ref_cnt_def put_le_def length_le_bytes)

lemma entry_length: "kernel_ok k \<Longrightarrow> i < MAX_BIN \<Longrightarrow> length (tarfs_ind k ! i) = 125"
  by (auto simp: kernel_ok_def)

lemma open_search_bound: "open_search name len ind tab = Inr (Some i) \<Longrightarrow> i < ind + length tab"
proof (induction tab arbitrary: ind)
  case (Cons e tab)
  then show ?case using Cons.IH [of "ind + 1"] by (auto simp: bindr_eq_Inr split: if_splits)
qed simp

text \<open>Filling in a descriptor, as opening, closing and pipes do.\<close>

lemma ens_fill_fd:
  assumes "kernel_ok k" "\<And>p f. length p = 32 \<Longrightarrow> file_ok f \<Longrightarrow> file_ok (g p f)"
  shows "ens kernel_ok (bindr (rd (t_fd (cur_task k)) i) (\<lambda>f. bindr (strcpy (f_path f) s) (\<lambda>p. upd_fd i (g p) k)))"
proof (rule ens_bindI, rule ens_bindI)
  fix f p assume "rd (t_fd (cur_task k)) i = Inr f" "strcpy (f_path f) s = Inr p"
  then have "length p = 32" using ens_use [OF _ ens_strcpy] cur_task_ok [OF assms(1)] by (auto simp: rd_eq_Inr task_ok_def file_ok_def)
  then show "ens kernel_ok (upd_fd i (g p) k)" using assms by (intro ens_upd_fd) auto
qed

lemma ens_fill_ret:
  assumes "kernel_ok k" "\<And>p f. length p = 32 \<Longrightarrow> file_ok f \<Longrightarrow> file_ok (g p f)"
  shows "ens_kernel (bindr (rd (t_fd (cur_task k)) i) (\<lambda>f. bindr (strcpy (f_path f) s) (\<lambda>p. bindr (upd_fd i (g p) k) (\<lambda>k'. Inr (r, k')))))"
proof -
  have "ens_kernel (bindr (bindr (rd (t_fd (cur_task k)) i) (\<lambda>f. bindr (strcpy (f_path f) s) (\<lambda>p. upd_fd i (g p) k))) (\<lambda>k'. Inr (r, k')))"
    by (rule ens_bind [OF ens_fill_fd [OF assms]]) simp_all
  then show ?thesis by (simp add: bindr_assoc)
qed

lemma ens_sys_open: "kernel_ok k \<Longrightarrow> ens_kernel (sys_open name flags k)"
proof -
  assume k: "kernel_ok k"
  have found: "kernel_ok (set_cur (\<lambda>t. t\<lparr>t_fd_cnt := t_fd_cnt t + 1\<rparr>) (set_entry i (set_ref_cnt (ref_cnt (tarfs_ind k ! i) + 1) (tarfs_ind k ! i)) k))"
    if "open_search s n 0 (take MAX_BIN (tarfs_ind k)) = Inr (Some i)" for s n i
    using open_search_bound [OF that] k entry_length [OF k, of i]
    by (intro kernel_ok_cur kernel_ok_entry set_ref_cnt_length) (auto simp: task_ok_def kernel_ok_def)
  have tty: "ens_kernel (bindr (tty_printk s [] (k_tty k)) (\<lambda>(n, t). Inr (0, k\<lparr>k_tty := t\<rparr>)))" for s
    by (rule ens_bind [OF ens_tty_printk]) (auto intro!: kernel_ok_tty simp: k kernel_okD)
  show ?thesis
    unfolding sys_open_def Let_def
    by (rule ens_bindI, rule ens_bindI, rule ens_case_option)
      (auto intro!: tty intro: found ens_bind_any [OF ens_fill_ret] simp: file_ok_def)
qed

lemma ens_sys_close: "kernel_ok k \<Longrightarrow> ens_kernel (sys_close fd k)"
proof -
  assume k: "kernel_ok k"
  have entry: "kernel_ok (set_entry i (set_ref_cnt (ref_cnt (tarfs_ind k ! i) - 1) (tarfs_ind k ! i)) k)"
    if "find P [0..<MAX_BIN] = Some i" for P i
  proof -
    have "i < MAX_BIN" using that by (auto simp: find_Some_iff)
    then show ?thesis using k entry_length [OF k] by (intro kernel_ok_entry set_ref_cnt_length) auto
  qed
  have path: "length p = 32" if "rd (t_fd (cur_task k)) i = Inr f" "strcpy (f_path f) s = Inr p" for p f i s
    using ens_use [OF that(2) ens_strcpy] that(1) cur_task_ok [OF k] by (auto simp: rd_eq_Inr task_ok_def file_ok_def)
  show ?thesis
    unfolding sys_close_def Let_def
  proof (rule ens_bind_any, rule ens_bindI)
    fix i f assume f: "rd (t_fd (cur_task k)) i = Inr f"
    have "ens_kernel (bindr (strcpy (f_path f) [32, 0]) (\<lambda>p. bindr (upd_fd i (\<lambda>f. f\<lparr>f_offset := 0, f_path := p, f_flags := 0\<rparr>) k1) (\<lambda>k2. Inr (1, k2))))"
      if "kernel_ok k1" for k1
    proof (rule ens_bindI)
      fix p assume "strcpy (f_path f) [32, 0] = Inr p"
      then have "length p = 32" by (rule path [OF f])
      then show "ens_kernel (bindr (upd_fd i (\<lambda>f. f\<lparr>f_offset := 0, f_path := p, f_flags := 0\<rparr>) k1) (\<lambda>k2. Inr (1, k2)))"
        using that by (intro ens_bind [OF ens_upd_fd]) (auto simp: file_ok_def)
    qed
    then show "ens_kernel (case find (\<lambda>ind. bin_start_addr (tarfs_ind k ! ind) = f_offset f) [0..<MAX_BIN] of None \<Rightarrow> Inr (0, k)
        | Some ind \<Rightarrow> bindr (strcpy (f_path f) [32, 0]) (\<lambda>p. bindr (upd_fd i (\<lambda>f. f\<lparr>f_offset := 0, f_path := p, f_flags := 0\<rparr>)
            (set_entry ind (set_ref_cnt (ref_cnt (tarfs_ind k ! ind) - 1) (tarfs_ind k ! ind)) k)) (\<lambda>k2. Inr (1, k2))))"
      using entry k by (auto split: option.split simp del: upt_rec_numeral)
  qed
qed

lemma ens_put_dirent: "kernel_ok k \<Longrightarrow> ens kernel_ok (put_dirent a e k)"
  unfolding put_dirent_def
  by (auto intro!: ens_bindI ens_user_store dest!: ens_use [OF _ ens_user_store])

lemma ens_getdents_loop: "kernel_ok k \<Longrightarrow> ens_kernel (getdents_loop path len arr i es k)"
proof (induction es arbitrary: i k)
  case (Cons e es)
  then show ?case by (auto intro!: ens_bindI Cons dest!: ens_use [OF _ ens_put_dirent])
qed simp

lemma ens_sys_getdents: "kernel_ok k \<Longrightarrow> ens_kernel (sys_getdents x d c k)"
  unfolding sys_getdents_def by (auto intro!: ens_bindI dest!: ens_use [OF _ ens_getdents_loop])

lemma ens_sys_dup2: "kernel_ok k \<Longrightarrow> ens_kernel (sys_dup2 a b k)"
  unfolding sys_dup2_def Let_def using cur_task_ok [of k]
  by (auto intro!: ens_bindI kernel_ok_cur simp: task_ok_def wr_eq_Inr)

lemma ens_pipe_end: "kernel_ok k \<Longrightarrow> ens kernel_ok (pipe_end i b k)"
  unfolding pipe_end_def by (rule ens_fill_fd) (auto simp: file_ok_def)

lemma ens_sys_pipe: "kernel_ok k \<Longrightarrow> ens_kernel (sys_pipe fd k)"
proof -
  assume k: "kernel_ok k"
  have "kernel_ok (set_cur (\<lambda>t. t\<lparr>t_fd_cnt := c\<rparr>) (set_mem m k))" for c m
    using k by (intro kernel_ok_cur) (simp_all add: task_ok_def)
  note st = ens_use [OF _ ens_user_store [OF this]]
  show ?thesis unfolding sys_pipe_def Let_def
    by (auto split: prod.splits intro!: ens_bindI dest!: st ens_use [OF _ ens_user_store] ens_use [OF _ ens_pipe_end] simp: k)
qed

lemma ens_sys_write: "kernel_ok k \<Longrightarrow> ens_kernel (sys_write junk fd b n k)"
  unfolding sys_write_def using kernel_okD [of k]
  by (auto split: option.splits intro!: ens_bindI kernel_ok_tty dest!: ens_use [OF _ ens_user_copy] ens_use [OF _ ens_tty_printk])

lemma ens_sys_read: "kernel_ok k \<Longrightarrow> ens (\<lambda>(n, r, k'). kernel_ok k') (sys_read junk codes fd b n k)"
proof -
  assume k: "kernel_ok k"
  note st = ens_use [OF _ ens_user_store]
  have keys: "ens (\<lambda>(n, r, k'). kernel_ok k') (bindr (wr junk (unat n) 0) (\<lambda>tem. bindr (scank tem codes (k_tty k)) (\<lambda>(n', tem1, rest, tt).
      bindr (strlen tem1) (\<lambda>sl. bindr (user_store b (take (min (min n' (unat n)) sl) tem1 @ [0]) (k\<lparr>k_tty := tt\<rparr>)) (\<lambda>k2.
        bindr (user_store (b + of_nat (min n' (unat n))) [0] k2) (\<lambda>k3. Inr (int (min n' (unat n)), rest, k3)))))))"
  proof (rule ens_bind_any, rule ens_bind [OF ens_scank [OF kernel_okD(2) [OF k]]])
    fix x :: "nat \<times> u8 list \<times> u8 list \<times> tty" assume "case x of (n, b, r, t') \<Rightarrow> tty_ok t'"
    then have "kernel_ok (k\<lparr>k_tty := snd (snd (snd x))\<rparr>)" using k by (auto intro!: kernel_ok_tty)
    then show "ens (\<lambda>(n, r, k'). kernel_ok k') (case x of (n', tem1, rest, tt) \<Rightarrow>
      bindr (strlen tem1) (\<lambda>sl. bindr (user_store b (take (min (min n' (unat n)) sl) tem1 @ [0]) (k\<lparr>k_tty := tt\<rparr>)) (\<lambda>k2.
        bindr (user_store (b + of_nat (min n' (unat n))) [0] k2) (\<lambda>k3. Inr (int (min n' (unat n)), rest, k3)))))"
      by (cases x) (auto intro!: ens_bindI dest!: st)
  qed
  have upd: "kernel_ok k2" if "upd_fd i (\<lambda>f. f\<lparr>f_offset_read := f_offset_read f + n\<rparr>) k1 = Inr k2" "kernel_ok k1" for i k1 k2
    using ens_use [OF that(1) ens_upd_fd] that(2) by (simp add: file_ok_def)
  have pipe: "ens (\<lambda>(n, r, k'). kernel_ok k') (bindr (user_copy l d a k) (\<lambda>k1. bindr (user_store d' bs k1) (\<lambda>k2.
      bindr (user_str e k2) (\<lambda>s'. bindr (user_store e (replicate (length s' - 1) 0) k2) (\<lambda>k3. Inr (int (length s' - 1), codes, k3))))))"
    for l d a d' bs e
    by (auto intro!: ens_bindI dest!: ens_use [OF _ ens_user_copy [OF k]] st)
  have regular: "ens (\<lambda>(n, r, k'). kernel_ok k') (bindr (user_copy l d a k) (\<lambda>k1.
      bindr (upd_fd i (\<lambda>f. f\<lparr>f_offset_read := f_offset_read f + n\<rparr>) k1) (\<lambda>k2. bindr (user_store d' [0] k2) (\<lambda>k3. Inr (v, codes, k3)))))"
    for l d a i d' v
    by (auto intro!: ens_bindI dest!: ens_use [OF _ ens_user_copy [OF k]] upd st)
  show ?thesis
  proof (cases "n > 0")
    case True
    show ?thesis
      unfolding sys_read_def Let_def if_P [OF True]
    proof (rule ens_bind_any, rule ens_case_option, goal_cases)
      case 1
      show ?case using keys by (auto simp: regular k intro!: ens_bind_any)
    next
      case (2 r f)
      show ?case by (rule ens_bind_any, rule pipe)
    qed
  qed (simp add: sys_read_def k)
qed

lemma ens_sys_lseek: "kernel_ok k \<Longrightarrow> ens_kernel (sys_lseek fd off w k)"
proof -
  assume k: "kernel_ok k"
  have "kernel_ok k2" if "upd_fd i (\<lambda>f. f\<lparr>f_seek := s\<rparr>) k = Inr k2" for i s k2
    using ens_use [OF that ens_upd_fd] k by (simp add: file_ok_def)
  then show ?thesis unfolding sys_lseek_def by (auto intro!: ens_bindI k)
qed

lemma ens_print_rows: "tty_ok t \<Longrightarrow> ens tty_ok (print_rows rows t)"
proof (induction rows arbitrary: t)
  case (Cons r rows)
  show ?case
    by (cases r) (auto intro!: ens_bindI Cons dest!: ens_use [OF _ ens_tty_printk] simp: Cons.prems)
qed simp

lemma ens_print_ps: "kernel_ok k \<Longrightarrow> ens kernel_ok (print_ps k)"
  unfolding print_ps_def using kernel_okD [of k]
  by (auto intro!: ens_bindI kernel_ok_tty dest!: ens_use [OF _ ens_tty_printk] ens_use [OF _ ens_print_rows])

section \<open>Processes\<close>

lemma zero_task_ok: "task_ok zero_task"
  by (simp add: task_ok_def zero_task_def zero_file_def file_ok_def)

lemma kernel_ok_clear: "kernel_ok k \<Longrightarrow> kernel_ok (clear_task p k)"
  by (simp add: kernel_ok_def clear_task_def Let_def sched_ok_types_def zero_task_ok)

lemma kernel_ok_new: "kernel_ok k \<Longrightarrow> new_pml4 k = (a, k') \<Longrightarrow> kernel_ok k'" "kernel_ok k \<Longrightarrow> new_mm k = (a, k') \<Longrightarrow> kernel_ok k'"
  by (auto simp: new_pml4_def new_mm_def Let_def split: prod.splits)

lemmas ens_elf_load = ki.keep_elf_load

lemma ens_dir_loop: "ens (\<lambda>d'. length d' = length d) (dir_loop n bin d)"
proof (induction n)
  case (Suc n)
  then show ?case using ens_strncpy [of d bin] by (auto intro!: ens_bind_any)
qed simp

lemma ens_copy_fds:
  "(\<forall>f \<in> set to. file_ok f) \<Longrightarrow> ens (\<lambda>to'. length to' = length to \<and> (\<forall>f \<in> set to'. file_ok f)) (copy_fds n i from to)"
proof (induction n arbitrary: i to)
  case (Suc n)
  have ok: "file_ok f" if "rd to i = Inr g" "strcpy (f_path g) s = Inr p" "f \<in> set (to[i := g\<lparr>f_offset := x, f_path := p\<rparr>])"
    for f g x p s
  proof -
    have "length p = 32"
      using Suc.prems that(1) ens_use [OF that(2) ens_strcpy] by (auto simp: rd_eq_Inr file_ok_def)
    then show ?thesis
      using Suc.prems that(3) set_update_subset_insert [of to i "g\<lparr>f_offset := x, f_path := p\<rparr>"] by (auto simp: file_ok_def)
  qed
  show ?case by (auto intro!: ens_bindI ens_mono [OF Suc.IH] intro: ok)
qed simp

lemma ens_fd_table:
  "task_ok t \<Longrightarrow> ens (\<lambda>fds. length fds = 25 \<and> (\<forall>f \<in> set fds. file_ok f)) (fd_table p (t_fd t))"
  unfolding fd_table_def by (rule ens_mono [OF ens_copy_fds]) (auto simp: task_ok_def)

lemma ens_create_process: "kernel_ok k \<Longrightarrow> ens_kernel (create_process bin k)"
proof -
  assume k: "kernel_ok k"
  obtain p m where pm: "kmalloc (10 * 4096) (k_mem k) = (p, m)" by fastforce
  obtain a k2 where k2: "new_pml4 (clear_task p (set_mem m k)) = (a, k2)" by fastforce
  define k3 where "k3 = (set_task p (\<lambda>t. t\<lparr>t_cr3_address := a, t_pid := avail_pid k2 + 1, t_pml4e_addr := KERN_MEM + a\<rparr>) k2)
    \<lparr>avail_pid := avail_pid k2 + 1\<rparr>"
  obtain mm k4 where k4: "new_mm k3 = (mm, k4)" by fastforce
  have "kernel_ok k2" using kernel_ok_new(1) [OF _ k2] kernel_ok_clear k by simp
  then have "kernel_ok k3" unfolding k3_def by (auto intro!: kernel_ok_task simp: task_ok_def)
  then have ok4: "kernel_ok k4" using kernel_ok_new(2) [OF _ k4] by simp
  have ok5: "kernel_ok (set_task p (\<lambda>t. t\<lparr>t_mm := mm, t_heap := (t_heap t)\<lparr>bump_ptr := BUMP_PTR\<rparr>, t_bin_name := name,
      t_is_sleep := False, t_sleep_time := 0, t_dup_arr := map of_nat [0..<25], t_fd_cnt := 2,
      t_dir_path := dir, t_stack := STACK_MEM_TOP\<rparr>) k4)"
    if "strcpy (t_bin_name zero_task) bin = Inr name" "dir_loop len bin (t_dir_path zero_task) = Inr dir" for name dir len
    using ens_use [OF that(1) ens_strcpy] ens_use [OF that(2) ens_dir_loop] zero_task_ok
    by (intro kernel_ok_task [OF ok4]) (simp add: task_ok_def)
  show ?thesis
    unfolding create_process_def Let_def pm k2 prod.case k3_def [symmetric] k4
    by (auto split: outcome.splits intro!: ens_bindI kernel_ok_task dest!: ok5 ens_use [OF _ ens_elf_load] simp: task_ok_def
        simp del: upt_rec_numeral)
qed

lemma ens_sys_execve: "kernel_ok k \<Longrightarrow> ens_kernel (sys_execve name k)"
proof -
  assume k: "kernel_ok k"
  have tail: "ens_kernel (let pt = tasks (k_sched k1) parent;
      k2 = (set_task c (\<lambda>t. t\<lparr>t_pid := t_pid pt, t_ppid := t_ppid pt\<rparr>) k1)\<lparr>avail_pid := avail_pid k1 - 1\<rparr>;
      k3 = set_task parent (\<lambda>t. t\<lparr>t_ppid := 0\<rparr>) k2; ct = tasks (k_sched k3) c
    in bindr (strcpy (t_dir_path ct) (t_dir_path pt)) (\<lambda>dir. bindr (fd_table pt (t_fd ct)) (\<lambda>fds.
      let k4 = set_task c (\<lambda>t. t\<lparr>t_fd_cnt := t_fd_cnt pt, t_dir_path := dir, t_fd := fds, t_dup_arr := t_dup_arr pt\<rparr>) k3;
          s5 = snd (addTasktoQueueHead c (k_sched k4))
      in and_then (k_exit (k4\<lparr>k_sched := s5\<rparr>)) (\<lambda>k6. Inr (Ret 0, k6)))))" if k1: "kernel_ok k1" for c parent k1
  proof -
    define pt where "pt = tasks (k_sched k1) parent"
    define k3 where "k3 = set_task parent (\<lambda>t. t\<lparr>t_ppid := 0\<rparr>)
      ((set_task c (\<lambda>t. t\<lparr>t_pid := t_pid pt, t_ppid := t_ppid pt\<rparr>) k1)\<lparr>avail_pid := avail_pid k1 - 1\<rparr>)"
    have ok3: "kernel_ok k3" unfolding k3_def using k1 by (auto intro!: kernel_ok_task simp: task_ok_def)
    have pt: "task_ok pt" unfolding pt_def by (rule task_at_ok [OF k1])
    define ct where "ct = tasks (k_sched k3) c"
    have ct: "task_ok ct" unfolding ct_def by (rule task_at_ok [OF ok3])
    have ok4: "kernel_ok (set_task c (\<lambda>t. t\<lparr>t_fd_cnt := t_fd_cnt pt, t_dir_path := dir, t_fd := fds, t_dup_arr := t_dup_arr pt\<rparr>) k3)"
      if "strcpy (t_dir_path ct) (t_dir_path pt) = Inr dir" "fd_table pt (t_fd ct) = Inr fds" for dir fds
      using ens_use [OF that(1) ens_strcpy] ens_use [OF that(2) ens_fd_table [OF ct]] ct pt
      by (intro kernel_ok_task [OF ok3]) (auto simp: task_ok_def)
    show ?thesis
      unfolding Let_def pt_def [symmetric] k3_def [symmetric] ct_def [symmetric]
      by (auto intro!: ens_bindI ens_and_then ens_k_exit kernel_ok_sched simp: kernel_okD dest!: ok4)
  qed
  show ?thesis
    unfolding sys_execve_def
    by (rule ens_bind_any, auto intro!: ens_bindI tail [unfolded Let_def] dest!: ens_use [OF _ ens_create_process [OF k]]
        split: outcome.split simp: Let_def k)
qed

lemma copy_vmas_types: "copy_vmas mm p k = Some r \<Longrightarrow> kernel_ok k \<longrightarrow> ens kernel_ok r"
proof (erule copy_vmas.raw_induct [rotated], intro impI, goal_cases)
  case (1 f mm p k r)
  then show ?case
    by (auto simp: Let_def split: if_splits sum.splits dest!: ens_use [OF _ ens_allocate_vma])
qed

lemma ens_copy_vmas: "kernel_ok k \<Longrightarrow> ens kernel_ok (bindr (of_option (copy_vmas mm p k)) (\<lambda>r. r))"
  using copy_vmas_types [of mm p k] by (cases "copy_vmas mm p k") (auto simp: of_option_def)

lemma ens_sys_fork: "kernel_ok k \<Longrightarrow> ens_kernel (sys_fork k)"
proof -
  assume k: "kernel_ok k"
  obtain p m where pm: "kmalloc (10 * 4096) (k_mem k) = (p, m)" by fastforce
  define k1 where "k1 = clear_task p (set_mem m k)"
  have ok1: "kernel_ok k1" unfolding k1_def using k by (simp add: kernel_ok_clear)
  obtain a k2 where k2: "new_pml4 k1 = (a, k2)" by fastforce
  have ok2: "kernel_ok k2" by (rule kernel_ok_new(1) [OF ok1 k2])
  define pp where "pp = getCurrentTask (k_sched k)"
  define k3 where "k3 = k2\<lparr>k_sched := snd (addTasktoQueueHead p (k_sched k2))\<rparr>"
  have ok3: "kernel_ok k3" unfolding k3_def using ok2 by (auto intro!: kernel_ok_sched dest: kernel_okD)
  define k4 where "k4 = (set_task p (\<lambda>t. t\<lparr>t_cr3_address := a, t_ppid := t_pid (tasks (k_sched k3) pp), t_pid := avail_pid k3 + 1,
     t_pml4e_addr := KERN_MEM + a\<rparr>) k3)\<lparr>avail_pid := avail_pid k3 + 1\<rparr>"
  define k5 where "k5 = set_mem (snd (cow_walk_pages (t_pml4e_addr (tasks (k_sched k4) pp)) (KERN_MEM + a) (k_mem k4))) k4"
  have ok5: "kernel_ok k5" unfolding k5_def k4_def using ok3 by (auto intro!: kernel_ok_task simp: task_ok_def)
  obtain mm k6 where k6: "new_mm k5 = (mm, k6)" by fastforce
  have ok6: "kernel_ok k6" by (rule kernel_ok_new(2) [OF ok5 k6])
  define pt ct where "pt = tasks (k_sched k6) pp" and "ct = tasks (k_sched k6) p"
  have tok: "task_ok pt" "task_ok ct" unfolding pt_def ct_def by (rule task_at_ok [OF ok6])+
  have ok7: "kernel_ok (set_task p (\<lambda>t. t\<lparr>t_mm := mm, t_bin_name := name, t_dir_path := dir, t_is_sleep := False,
      t_sleep_time := 0, t_stack := STACK_MEM_TOP\<rparr>) k6)"
    if "strcpy (t_bin_name ct) (t_bin_name pt) = Inr name" "strcpy (t_dir_path ct) (t_dir_path pt) = Inr dir" for name dir
    using ens_use [OF that(1) ens_strcpy] ens_use [OF that(2) ens_strcpy] tok
    by (intro kernel_ok_task [OF ok6]) (auto simp: task_ok_def)
  have ok8: "kernel_ok (set_task p (\<lambda>t. t\<lparr>t_entry_pt := t_entry_pt pt, t_fd_cnt := t_fd_cnt pt, t_fd := fds,
      t_dup_arr := map of_nat [0..<25], t_heap := h t, t_kstack := st t, t_kernel_rsp := r\<rparr>) k8)"
    if "fd_table pt (t_fd ct) = Inr fds" "kernel_ok k8" for fds k8 h st r
    using ens_use [OF that(1) ens_fd_table [OF tok(2)]]
    by (intro kernel_ok_task [OF that(2)]) (auto simp: task_ok_def)
  show ?thesis
    unfolding sys_fork_def Let_def pm prod.case k1_def [symmetric] k2 pp_def [symmetric] k3_def [symmetric]
      k4_def [symmetric] k5_def [symmetric] k6 pt_def [symmetric] ct_def [symmetric]
    using ok1 by (auto intro!: ens_bindI ok8 dest!: ens_use [OF _ ens_copy_vmas [OF ok7]] simp del: upt_rec_numeral)
qed

end
