(* ===== verification/Process_Claims.thy ===== *)
theory Process_Claims
  imports Fork_Props Cow_Claims Typing
begin

text \<open>The properties of process creation.\<close>

section \<open>Saved registers\<close>

lemma pop_frame:
  "regs (resume_frame st 491 c') =
     (regs c')(R15 := st 491, R14 := st 492, R13 := st 493, R12 := st 494, R11 := st 495, R10 := st 496, R9 := st 497, R8 := st 498,
       RBP := st 499, RDI := st 500, RSI := st 501, RDX := st 502, RCX := st 503, RBX := st 504, RAX := st 505)"
  by (simp add: resume_frame_def pop_order_def)

lemma enter_slots:
  "enter_syscall c ret st 491 = ret" "enter_syscall c ret st 492 = regs c R15" "enter_syscall c ret st 493 = regs c R14"
  "enter_syscall c ret st 494 = regs c R13" "enter_syscall c ret st 495 = regs c R12" "enter_syscall c ret st 496 = regs c R11"
  "enter_syscall c ret st 497 = regs c R10" "enter_syscall c ret st 498 = regs c R9" "enter_syscall c ret st 499 = regs c R8"
  "enter_syscall c ret st 500 = regs c RBP" "enter_syscall c ret st 501 = regs c RDI" "enter_syscall c ret st 502 = regs c RSI"
  "enter_syscall c ret st 503 = regs c RDX" "enter_syscall c ret st 504 = regs c RCX" "enter_syscall c ret st 505 = regs c RBX"
  "enter_syscall c ret st 506 = c_rip c" "enter_syscall c ret st 507 = c_cs c" "enter_syscall c ret st 508 = c_rflags c"
  "enter_syscall c ret st 509 = c_rsp c" "enter_syscall c ret st 510 = c_ss c"
  by (simp_all add: enter_syscall_def push_order_def)

lemma fold_upd: "fold (\<lambda>i st. st(i := f i)) [a..<b] st j = (if a \<le> j \<and> j < b then f j else st j)" for st :: "nat \<Rightarrow> 'a"
  by (induction b) (auto simp: le_less_Suc_eq)

lemma all_regs:
  fixes f g :: "reg \<Rightarrow> u64"
  assumes "f RAX = g RAX" "f RBX = g RBX" "f RCX = g RCX" "f RDX = g RDX" "f RSI = g RSI" "f RDI = g RDI" "f RBP = g RBP"
    "f R8 = g R8" "f R9 = g R9" "f R10 = g R10" "f R11 = g R11" "f R12 = g R12" "f R13 = g R13" "f R14 = g R14" "f R15 = g R15"
  shows "f = g"
proof
  fix r show "f r = g r" using assms by (cases r) simp_all
qed

lemma fork_frame_slots:
  "491 \<le> i \<Longrightarrow> i < 505 \<Longrightarrow> fork_frame st st' i = st (i + 1)"
  "fork_frame st st' 505 = 0" "fork_frame st st' 506 = st 506" "fork_frame st st' 507 = st 507"
  "fork_frame st st' 508 = 0x200286" "fork_frame st st' 509 = st 509" "fork_frame st st' 510 = st 510"
  by (simp_all add: fork_frame_def Let_def fold_upd del: upt_rec_numeral)

lemma fork_frame_regs: "regs (resume_frame (fork_frame (enter_syscall c ret st) st') 491 c') = (regs c)(RAX := 0)"
  by (rule all_regs) (simp_all add: pop_frame fork_frame_slots enter_slots)

text \<open>
  C31. The child of a fork: when the parent entered the system call with processor state \<open>c\<close>, the
  frame that \<^verbatim>\<open>sys_fork\<close> builds resumes the child after the call with all of the parent's
  registers, code and stack, except that \<^verbatim>\<open>rax\<close> is 0 and the flags are \<^verbatim>\<open>0x200286\<close>.
\<close>

theorem fork_child_resumes:
  "resume_frame (fork_frame (enter_syscall c ret st) st') STACK_OFFSET c' =
     c'\<lparr>regs := (regs c)(RAX := 0), c_rip := c_rip c, c_cs := c_cs c, c_rflags := 0x200286, c_rsp := c_rsp c, c_ss := c_ss c\<rparr>"
  using fork_frame_regs [of c ret st st' c'] by (simp add: resume_frame_def fork_frame_slots enter_slots)

text \<open>
  A task that blocks inside a system call (\<^verbatim>\<open>sys_waitpid\<close>, \<^verbatim>\<open>sys_sleep\<close>) is resumed with its registers
  shifted: the fourteen registers of the system call entry are popped as fifteen, so that \<^verbatim>\<open>rax\<close>
  gets the caller's \<^verbatim>\<open>rbx\<close>, \<^verbatim>\<open>rbp\<close> its \<^verbatim>\<open>r8\<close>, and \<^verbatim>\<open>r15\<close> a kernel address.
\<close>

theorem blocked_syscall_shifts:
  "regs (resume_frame (enter_syscall c ret st) STACK_OFFSET c') =
     (regs c)(RAX := regs c RBX, RBX := regs c RCX, RCX := regs c RDX, RDX := regs c RSI, RSI := regs c RDI, RDI := regs c RBP,
       RBP := regs c R8, R8 := regs c R9, R9 := regs c R10, R10 := regs c R11, R11 := regs c R12, R12 := regs c R13,
       R13 := regs c R14, R14 := regs c R15, R15 := ret)"
  by (rule all_regs) (simp_all add: pop_frame enter_slots)

section \<open>Memory areas of a child\<close>



section \<open>A new process\<close>

text \<open>Loading a program changes no task but the entry point of its own.\<close>

definition keeps_tasks :: "ptr \<Rightarrow> kernel \<Rightarrow> kernel \<Rightarrow> bool" where
  "keeps_tasks p k k' \<longleftrightarrow> avail_pid k' = avail_pid k \<and>
     (\<exists>e. tasks (k_sched k') = (tasks (k_sched k))(p := (tasks (k_sched k) p)\<lparr>t_entry_pt := e\<rparr>))"

lemma keeps_tasks_same: "avail_pid k' = avail_pid k \<Longrightarrow> tasks (k_sched k') = tasks (k_sched k) \<Longrightarrow> keeps_tasks p k k'"
  unfolding keeps_tasks_def by (auto intro!: exI [of _ "t_entry_pt (tasks (k_sched k) p)"])

lemma keeps_tasks_trans: "keeps_tasks p k k1 \<Longrightarrow> keeps_tasks p k1 k2 \<Longrightarrow> keeps_tasks p k k2"
  by (auto simp: keeps_tasks_def)

lemma schedule_ret_tasks: "tasks (snd (schedule_ret v s)) = tasks s"
  by (auto simp: schedule_ret_def schedule_def sys_yield_def Let_def upd_lists_def split: outcome.splits prod.splits)

lemma awakepid_tasks: "awakepid q s = Some s' \<Longrightarrow> tasks s' = tasks s"
  by (auto simp: awakepid_def upd_lists_def split: if_splits option.splits)

lemma keeps_k_exit: "keeps (keeps_tasks p k) (k_exit k)"
proof -
  have "tasks s' = tasks s" if ex: "sys_exit s = Some (r, s')" for r s s'
  proof -
    obtain s1 where s1: "awakepid (ucast (t_ppid (tasks s (getCurrentTask s)))) s = Some s1"
      using ex by (auto simp: sys_exit_def Let_def split: option.splits)
    have "tasks s' = tasks s1"
      using ex schedule_ret_tasks [of "-1" "(upd_lists (list_del (node (getCurrentTask s))) s1)\<lparr>num_task := num_task s1 - 1\<rparr>"] s1
      by (auto simp: sys_exit_def Let_def upd_lists_def)
    then show ?thesis using awakepid_tasks [OF s1] by simp
  qed
  then show ?thesis by (cases "sys_exit (k_sched k)") (auto simp: k_exit_def intro!: keeps_tasks_same)
qed

interpretation kt: kernel_inv "keeps_tasks p k0" p for p k0
proof unfold_locales
  fix k fmt as
  assume k: "keeps_tasks p k0 k"
  show "ens (keeps_tasks p k0) (k_printk fmt as k)"
    unfolding k_printk_def using k by (intro ens_bind_any) (auto simp: keeps_tasks_def split: prod.split)
  show "keeps (keeps_tasks p k0) (k_exit k)"
    by (rule ens_mono [OF keeps_k_exit]) (auto intro: keeps_tasks_trans [OF k])
qed (auto simp: keeps_tasks_def set_mem_def set_task_def upd_task_def)

lemma memmap_zero_page [simp]: "memmap (zero_page p s) = memmap s"
  by (simp add: zero_page_eq)

lemma memmap_clear_task: "memmap (k_mem (clear_task p k)) = memmap (k_mem k)"
proof -
  have "memmap (fold (\<lambda>i. zero_page (f i)) xs m) = memmap m" for f :: "nat \<Rightarrow> ptr" and xs m
    by (induction xs arbitrary: m) simp_all
  then show ?thesis by (simp add: clear_task_def Let_def del: upt_rec_numeral)
qed

text \<open>The task \<^verbatim>\<open>create_process\<close> leaves, and the allocations its pages come from.\<close>

lemma created_task:
  assumes "create_process bin k = Inr (Ret p, k')" and t_def: "t = tasks (k_sched k') p"
    and c_def: "c = resume_frame (t_kstack t) (kstack_slot p (t_kernel_rsp t)) c0"
  shows "c_rip c = t_entry_pt t \<and> c_cs c = 0x1b \<and> c_ss c = 0x23 \<and> c_rflags c = 0x246 \<and> c_rsp c = STACK_MEM_TOP - 8 \<and>
         (\<forall>r. regs c r = 0) \<and> t_pid t = avail_pid k + 1 \<and> avail_pid k' = avail_pid k + 1 \<and>
         t_pml4e_addr t = KERN_MEM + t_cr3_address t \<and> t_fd_cnt t = 2 \<and> (\<forall>i < 25. t_dup_arr t ! i = of_nat i) \<and>
         (\<forall>q. q \<noteq> p \<longrightarrow> tasks (k_sched k') q = tasks (k_sched k) q) \<and>
         p = fst (kmalloc (10 * 4096) (k_mem k)) \<and>
         (\<exists>m1 m2. memmap m1 = memmap (snd (kmalloc (10 * 4096) (k_mem k))) \<and> memmap m2 = memmap (snd (mem_allocate m1)) \<and>
            t_cr3_address t = fst (mem_allocate m1) \<and> t_mm t = KERN_MEM + fst (mem_allocate m2))"
proof -
  obtain p1 m where pm: "kmalloc (10 * 4096) (k_mem k) = (p1, m)" by fastforce
  obtain a k2 where k2: "new_pml4 (clear_task p1 (set_mem m k)) = (a, k2)" by fastforce
  have t2: "tasks (k_sched k2) = (tasks (k_sched k))(p1 := zero_task)" "avail_pid k2 = avail_pid k"
    using k2 by (auto simp: new_pml4_def clear_task_def set_mem_def Let_def split: prod.splits)
  have a2: "a = fst (mem_allocate (k_mem (clear_task p1 (set_mem m k))))"
    "memmap (k_mem k2) = memmap (snd (mem_allocate (k_mem (clear_task p1 (set_mem m k)))))"
    using k2 by (auto simp: new_pml4_def set_mem_def stq_def Let_def split: prod.splits)
  define k3 where "k3 = (set_task p1 (\<lambda>t. t\<lparr>t_cr3_address := a, t_pid := avail_pid k2 + 1, t_pml4e_addr := KERN_MEM + a\<rparr>) k2)
    \<lparr>avail_pid := avail_pid k2 + 1\<rparr>"
  obtain mm k4 where k4: "new_mm k3 = (mm, k4)" by fastforce
  have t4: "tasks (k_sched k4) = (tasks (k_sched k))(p1 := zero_task\<lparr>t_cr3_address := a, t_pid := avail_pid k + 1, t_pml4e_addr := KERN_MEM + a\<rparr>)"
    "avail_pid k4 = avail_pid k + 1"
    using k4 t2 by (auto simp: new_mm_def k3_def set_mem_def set_task_def upd_task_def Let_def split: prod.splits)
  have mm: "mm = KERN_MEM + fst (mem_allocate (k_mem k2))"
    using k4 by (auto simp: new_mm_def k3_def set_mem_def set_task_def Let_def split: prod.splits)
  obtain name len dir m6 r k7 where r: "elf_load p1 bin (set_mem m6 (set_task p1 (\<lambda>t. t\<lparr>t_mm := mm, t_heap := (t_heap t)\<lparr>bump_ptr := BUMP_PTR\<rparr>,
        t_bin_name := name, t_is_sleep := False, t_sleep_time := 0, t_dup_arr := map of_nat [0..<25], t_fd_cnt := 2,
        t_dir_path := dir, t_stack := STACK_MEM_TOP\<rparr>) k4)) = Inr (r, k7)"
    "p = p1" "k' = set_task p1 (\<lambda>t. t\<lparr>t_kstack := entry_frame (t_entry_pt t) (t_kstack t), t_kernel_rsp := kstack_addr p1 STACK_OFFSET\<rparr>) k7"
    using assms(1) unfolding create_process_def Let_def pm k2 prod.case k3_def [symmetric] k4
    by (auto simp: bindr_eq_Inr split: outcome.splits simp del: upt_rec_numeral) (metis outcome.exhaust)
  have "keeps_tasks p1 (set_mem m6 (set_task p1 (\<lambda>t. t\<lparr>t_mm := mm, t_heap := (t_heap t)\<lparr>bump_ptr := BUMP_PTR\<rparr>,
        t_bin_name := name, t_is_sleep := False, t_sleep_time := 0, t_dup_arr := map of_nat [0..<25], t_fd_cnt := 2,
        t_dir_path := dir, t_stack := STACK_MEM_TOP\<rparr>) k4)) k7"
    using ens_use [OF r(1) kt.keep_elf_load] by (simp add: keeps_tasks_same)
  then obtain e where e: "avail_pid k7 = avail_pid k + 1" "tasks (k_sched k7) = (tasks (k_sched k))(p1 := zero_task\<lparr>t_cr3_address := a, t_pid := avail_pid k + 1,
      t_pml4e_addr := KERN_MEM + a, t_mm := mm, t_heap := (t_heap zero_task)\<lparr>bump_ptr := BUMP_PTR\<rparr>,
      t_bin_name := name, t_is_sleep := False, t_sleep_time := 0, t_dup_arr := map of_nat [0..<25], t_fd_cnt := 2,
      t_dir_path := dir, t_stack := STACK_MEM_TOP, t_entry_pt := e\<rparr>)"
    using t4 by (auto simp: keeps_tasks_def set_mem_def set_task_def upd_task_def simp del: upt_rec_numeral)
  have slot: "kstack_slot p1 (kstack_addr p1 491) = 491" by (rule kstack_slot_addr) simp
  have t: "t_entry_pt t = e" "t_kstack t = entry_frame e (\<lambda>_. 0)" "t_kernel_rsp t = kstack_addr p1 491" "t_pid t = avail_pid k + 1"
    "t_pml4e_addr t = KERN_MEM + a" "t_cr3_address t = a" "t_fd_cnt t = 2" "t_dup_arr t = map of_nat [0..<25]" "t_mm t = mm"
    using e(2) r(2,3) by (simp_all add: t_def set_task_def upd_task_def zero_task_def del: upt_rec_numeral)
  have "regs c r = 0" for r
    by (cases r) (simp_all add: c_def t r(2) slot pop_frame entry_frame_def)
  moreover have "c_rip c = e" "c_cs c = 0x1b" "c_ss c = 0x23" "c_rflags c = 0x246" "c_rsp c = STACK_MEM_TOP - 8"
    by (simp_all add: c_def t r(2) slot resume_frame_def entry_frame_def)
  moreover have "\<exists>m1 m2. memmap m1 = memmap (snd (kmalloc (10 * 4096) (k_mem k))) \<and> memmap m2 = memmap (snd (mem_allocate m1)) \<and>
      t_cr3_address t = fst (mem_allocate m1) \<and> t_mm t = KERN_MEM + fst (mem_allocate m2)"
    unfolding pm using a2 mm memmap_clear_task [of p1 "set_mem m k"]
    by - (rule exI [of _ "k_mem (clear_task p1 (set_mem m k))"], rule exI [of _ "k_mem k2"], simp add: t set_mem_def)
  moreover have "p = fst (kmalloc (10 * 4096) (k_mem k))" unfolding pm r(2) by simp
  ultimately show ?thesis
    using e r(2,3) by (simp add: t set_task_def upd_task_def del: upt_rec_numeral)
qed

end
