(* ===== verification/VMem_Props.thy ===== *)
theory VMem_Props
  imports VMem Cow_Props
begin

text \<open>
  The contract of \<^verbatim>\<open>Mem_Intf\<close> for the byte accesses: a region whose addresses are mapped to
  different bytes of pages that are in use and hold no page table.
\<close>

section \<open>Bytes of a quadword\<close>

lemma bit_set_byte:
  "bit (set_byte q i x) n \<longleftrightarrow> n < 64 \<and> (if 8 * i \<le> n \<and> n < 8 * i + 8 then bit x (n - 8 * i) else bit q n)"
proof -
  have m: "(0xFF :: u64) = mask 8" by (simp add: mask_eq_exp_minus_1)
  have "bit (set_byte q i x) n \<longleftrightarrow>
      (bit q n \<and> n < 64 \<and> \<not> (8 * i \<le> n \<and> n < 64 \<and> n - 8 * i < 8)) \<or> (8 * i \<le> n \<and> n < 64 \<and> n - 8 * i < 64 \<and> bit x (n - 8 * i))"
    unfolding set_byte_def m
    by (simp only: bit_or_iff bit_and_iff bit_not_iff bit_push_bit_iff bit_mask_iff bit_unsigned_iff possible_bit_def) auto
  moreover have "bit x (n - 8 * i) \<Longrightarrow> n - 8 * i < 8" using bit_imp_le_length [of x "n - 8 * i"] by simp
  ultimately show ?thesis by auto
qed

lemma bit_get_byte: "bit (get_byte q i) n \<longleftrightarrow> n < 8 \<and> bit q (8 * i + n)"
  by (auto simp: get_byte_def bit_simps)

lemma get_set_byte:
  assumes "i < 8" "j < 8"
  shows "get_byte (set_byte q i x) j = (if i = j then x else get_byte q j)"
proof (rule bit_eqI)
  fix n
  assume "possible_bit TYPE(u8) n"
  then have n: "n < 8" by (simp add: possible_bit_def)
  have "8 * i \<le> 8 * j + n \<and> 8 * j + n < 8 * i + 8 \<longleftrightarrow> i = j" using n by auto
  then show "bit (get_byte (set_byte q i x) j) n = bit (if i = j then x else get_byte q j) n"
    using n assms by (auto simp: bit_get_byte bit_set_byte)
qed

lemma quad_lane: "quad p = quad q \<Longrightarrow> lane p = lane q \<Longrightarrow> p = q"
proof -
  assume "quad p = quad q" "lane p = lane q"
  moreover from this(2) have "p mod 8 = q mod 8" unfolding lane_def by (rule unat_inject)
  ultimately show ?thesis by (simp add: quad_def)
qed

lemma lane_less [simp]: "lane p < 8"
  by (simp add: lane_def unat_mod)

section \<open>Mapped regions\<close>

text \<open>Page \<open>j\<close> is in use and not a page table.\<close>

definition data_page :: "(u64 \<rightharpoonup> nat) \<Rightarrow> kmem \<Rightarrow> nat \<Rightarrow> bool" where
  "data_page lev m j \<longleftrightarrow> j < MAX_MEM \<and> \<not> page_avail m j \<and> lev (of_nat j * 4096) = None"

definition mem_region :: "(u64 \<rightharpoonup> nat) \<Rightarrow> u64 \<Rightarrow> (u64 \<Rightarrow> u64) \<Rightarrow> u64 set \<Rightarrow> kmem \<Rightarrow> bool" where
  "mem_region lev r f A m \<longleftrightarrow> pt_wf lev r m \<and> inj_on f A \<and>
     (\<forall>a \<in> A. translate (KERN_MEM + r) a m = Some (f a) \<and> (\<exists>j. data_page lev m j \<and> unat (f a) div 4096 = j))"

lemma small_frame': "j < MAX_MEM \<Longrightarrow> frame (of_nat j * 4096)"
  by (auto simp: frame_def)

lemma quad_page:
  assumes "j < MAX_MEM" "unat p div 4096 = j"
  shows "\<exists>i < 512. quad p = elt (of_nat j * 4096) i"
proof -
  let ?i = "unat p mod 4096 div 8"
  have i: "?i < 512" by (simp add: div_less_iff_less_mult)
  have q: "unat (quad p) = unat p - unat p mod 8"
    unfolding quad_def by (subst unat_sub) (simp_all add: unat_mod word_le_nat_alt)
  also have "\<dots> = j * 4096 + 8 * ?i"
  proof -
    define x where "x = unat p"
    have "x = 4096 * (x div 4096) + x mod 4096" "x mod 4096 = 8 * (x mod 4096 div 8) + x mod 4096 mod 8" by simp_all
    moreover have "x mod 4096 mod 8 = x mod 8" by (rule mod_mod_cancel) simp
    ultimately have "x - x mod 8 = 4096 * (x div 4096) + 8 * (x mod 4096 div 8)" by linarith
    then show ?thesis using assms(2) by (simp add: x_def)
  qed
  finally have "unat (quad p) = unat (elt (of_nat j * 4096) (of_nat ?i))"
    using elt_unat [OF small_frame' [OF assms(1)] nat_idx [OF i]] i assms(1) by (simp add: page_addr_unat)
  then have "quad p = elt (of_nat j * 4096) (of_nat ?i)" by (rule unat_inject)
  then show ?thesis using nat_idx [OF i] by blast
qed

lemma region_byte_mem:
  assumes "mem_region lev r f A m" "a \<in> A"
  shows "\<exists>m'. stb (KERN_MEM + r) a x m = Inr m' \<and> mem_region lev r f A m' \<and>
    (\<forall>b \<in> A. ldb (KERN_MEM + r) b m' = (if b = a then Inr x else ldb (KERN_MEM + r) b m)) \<and>
    (\<forall>v. leaf_entry m' 4 r v = leaf_entry m 4 r v) \<and> memmap m' = memmap m"
proof -
  have wf: "pt_wf lev r m" and inj: "inj_on f A" and tr: "\<And>b. b \<in> A \<Longrightarrow> translate (KERN_MEM + r) b m = Some (f b)"
    and pg: "\<And>b. b \<in> A \<Longrightarrow> \<exists>j. data_page lev m j \<and> unat (f b) div 4096 = j"
    using assms(1) by (auto simp: mem_region_def)
  obtain j where j: "data_page lev m j" "unat (f a) div 4096 = j" using pg [OF assms(2)] by blast
  then have jm: "j < MAX_MEM" "\<not> page_avail m j" "lev (of_nat j * 4096) = None" by (auto simp: data_page_def)
  obtain i where i: "i < 512" "quad (f a) = elt (of_nat j * 4096) i" using quad_page [OF jm(1) j(2)] by blast
  let ?m = "m\<lparr>qmem := (qmem m)(quad (f a) := set_byte (qmem m (quad (f a))) (lane (f a)) x)\<rparr>"
  have av: "page_avail ?m = page_avail m" by (simp add: page_avail_def fun_eq_iff)
  have tab: "qmem ?m (elt b k) = qmem m (elt b k)" if "frame b" "b \<noteq> of_nat j * 4096" "k < 512" for b k
    using that i elt_inject [OF that(1) small_frame' [OF jm(1)] that(3) i(1)] by simp
  have same: "pt_wf lev r ?m" "\<And>v. leaf_entry ?m 4 r v = leaf_entry m 4 r v"
  proof -
    have ok: "memmap_ok ?m" using pt_wfD(1) [OF wf] by (simp add: memmap_ok_def)
    have t: "qmem ?m (elt b k) = qmem m (elt b k)" if "lev b = Some l" "k < 512" for b l k
    proof -
      have "b \<noteq> of_nat j * 4096" using that(1) jm(3) by auto
      then show ?thesis by (rule tab [OF pt_wfD(3) [OF wf that(1)] _ that(2)])
    qed
    have fr: "qmem ?m (elt (of_nat l * 4096) k) = qmem m (elt (of_nat l * 4096) k)" if "page_avail m l" "k < 512" for l k
    proof -
      have "l < MAX_MEM" "l \<noteq> j" using that(1) jm(2) by (auto simp: page_avail_def)
      then show ?thesis using tab [OF small_frame' _ that(2), of l] page_addr_inject [of l j] jm(1) by simp
    qed
    show "pt_wf lev r ?m" by (rule pt_wf_same_tables(1) [OF wf ok av t fr])
    show "leaf_entry ?m 4 r v = leaf_entry m 4 r v" for v by (rule pt_wf_same_tables(3) [OF wf ok av t fr])
  qed
  have look: "translate (KERN_MEM + r) v ?m = translate (KERN_MEM + r) v m" for v
  proof -
    have "translate (KERN_MEM + r) v s = (if KERN_MEM \<le> v then Some (kphys v)
        else let e = leaf_entry s 4 r v in if e = 0 \<or> e AND 1 = 0 then None else Some (page_mask e + v mod 4096))"
      if "pt_wf lev r s" for s
      using look_pages_spec [OF that, of v] by (auto simp: translate_def Let_def)
    from this [OF wf] this [OF same(1)] same(2) show ?thesis by simp
  qed
  have "ldb (KERN_MEM + r) b ?m = (if b = a then Inr x else ldb (KERN_MEM + r) b m)" if "b \<in> A" for b
  proof (cases "quad (f b) = quad (f a)")
    case True
    then have "lane (f b) = lane (f a) \<longleftrightarrow> b = a"
      using quad_lane [OF True] inj that assms(2) by (auto dest: inj_onD)
    then show ?thesis using tr [OF that] True by (auto simp: ldb_def look get_set_byte)
  next
    case False
    then show ?thesis using tr [OF that] by (auto simp: ldb_def look)
  qed
  moreover have "stb (KERN_MEM + r) a x m = Inr ?m" using tr [OF assms(2)] by (simp add: stb_def)
  moreover have "mem_region lev r f A ?m"
    using same(1) inj tr pg by (simp add: mem_region_def look data_page_def av)
  moreover have "memmap ?m = memmap m" by simp
  ultimately show ?thesis using same(2) by blast
qed

interpretation vm: byte_mem "ldb (KERN_MEM + r)" "stb (KERN_MEM + r)" "mem_region lev r f A" A for lev r f A
proof
  show "\<exists>x. ldb (KERN_MEM + r) a m = Inr x" if "mem_region lev r f A m" "a \<in> A" for m a
    using that by (auto simp: mem_region_def ldb_def)
qed (use region_byte_mem in blast)

end
