(* ===== verification/Space_Props.thy ===== *)
theory Space_Props
  imports VMem_Props
begin

text \<open>
  The address space of a process that shares no page: every mapped user page has a frame of its
  own, which is in use and no page table.  Beside it the kernel sees a set of other frames
  through its window.  Byte accesses, walks and new mappings keep such a space.
\<close>

section \<open>Private address spaces\<close>

definition user_addr :: "u64 \<Rightarrow> bool" where
  "user_addr v \<longleftrightarrow> v < 2 ^ 47"

definition data_frame :: "(u64 \<rightharpoonup> nat) \<Rightarrow> kmem \<Rightarrow> u64 \<Rightarrow> bool" where
  "data_frame lev m a \<longleftrightarrow> frame a \<and> a \<notin> free_addrs m \<and> lev a = None"

text \<open>The kernel's window on the frames \<open>D\<close>.\<close>

definition win :: "u64 set \<Rightarrow> u64 set" where
  "win D = {v. KERN_MEM \<le> v \<and> page_mask (kphys v) \<in> D}"

text \<open>\<open>L\<close> gives the leaf entries.\<close>

definition reg :: "(u64 \<Rightarrow> u64) \<Rightarrow> u64 set \<Rightarrow> u64 set" where
  "reg L D = {v. user_addr v \<and> L v \<noteq> 0} \<union> win D"

definition space :: "(u64 \<rightharpoonup> nat) \<Rightarrow> u64 \<Rightarrow> u64 set \<Rightarrow> kmem \<Rightarrow> bool" where
  "space lev r D m \<longleftrightarrow> pt_wf lev r m \<and> (\<forall>a \<in> D. data_frame lev m a) \<and>
     (\<forall>v. user_addr v \<and> leaf_entry m 4 r v \<noteq> 0 \<longrightarrow>
        (\<exists>a. leaf_entry m 4 r v = a OR 7 \<and> data_frame lev m a \<and> a \<notin> D)) \<and>
     (\<forall>v w. user_addr v \<and> user_addr w \<and> leaf_entry m 4 r v \<noteq> 0 \<and> leaf_entry m 4 r v = leaf_entry m 4 r w \<longrightarrow>
        vpn v = vpn w)"

lemma spaceD:
  assumes "space lev r D m"
  shows "pt_wf lev r m" "a \<in> D \<Longrightarrow> data_frame lev m a"
    and "user_addr v \<Longrightarrow> leaf_entry m 4 r v \<noteq> 0 \<Longrightarrow>
      \<exists>a. leaf_entry m 4 r v = a OR 7 \<and> data_frame lev m a \<and> a \<notin> D"
    and "user_addr v \<Longrightarrow> user_addr w \<Longrightarrow> leaf_entry m 4 r v \<noteq> 0 \<Longrightarrow> leaf_entry m 4 r v = leaf_entry m 4 r w \<Longrightarrow>
      vpn v = vpn w"
  using assms unfolding space_def by blast+

text \<open>Where an address of the region lies.\<close>

definition phys :: "(u64 \<Rightarrow> u64) \<Rightarrow> u64 \<Rightarrow> u64" where
  "phys L v = (if KERN_MEM \<le> v then kphys v else page_mask (L v) + v mod 4096)"

lemma user_not_kern: "user_addr v \<Longrightarrow> \<not> KERN_MEM \<le> v"
  by (auto simp: user_addr_def word_le_nat_alt word_less_nat_alt)

lemma page_mask_entry: "frame a \<Longrightarrow> page_mask (a OR 7) = a"
proof -
  assume "frame a"
  then obtain j where j: "j < MAX_MEM" "a = of_nat j * 4096" "unat a = j * 4096" by (rule frameE)
  have "a + 7 = of_nat (j * 4096 + 7)" by (simp add: j)
  moreover have "j * 4096 + 7 < 2 ^ 64" using j(1) by simp
  ultimately have "unat (a + 7) = j * 4096 + 7" by (simp only: unat_of_nat_u64)
  then have "unat ((a + 7) mod 4096) = 7" by (simp add: unat_mod)
  then have "(a + 7) mod 4096 = 7" by (intro unat_inject) simp
  then show ?thesis using frame_or_7 [OF \<open>frame a\<close>] by (simp add: page_mask_eq)
qed

lemma frame_off:
  assumes "frame a"
  shows "unat (a + v mod 4096) = unat a + unat v mod 4096" "page_mask (a + v mod 4096) = a"
    "(a + v mod 4096) mod 4096 = v mod 4096"
proof -
  obtain j where j: "j < MAX_MEM" "a = of_nat j * 4096" "unat a = j * 4096" using assms by (rule frameE)
  have vm: "unat (v mod 4096) = unat v mod 4096" by (simp add: unat_mod)
  have lt: "unat v mod 4096 < 4096" by simp
  show u: "unat (a + v mod 4096) = unat a + unat v mod 4096"
    using j(1) lt by (subst unat_add_lem [THEN iffD1]) (simp_all add: vm j(3))
  have "unat ((a + v mod 4096) mod 4096) = unat v mod 4096" unfolding unat_mod u j(3) by simp
  then show m: "(a + v mod 4096) mod 4096 = v mod 4096" by (intro unat_inject) (simp add: vm)
  then show "page_mask (a + v mod 4096) = a" by (simp add: page_mask_eq)
qed

lemma mask_off: "page_mask v + v mod 4096 = v"
  by (simp add: page_mask_eq)

text \<open>The frame of an address of the region, and its offset there.\<close>

lemma reg_frame:
  assumes "space lev r D m" "v \<in> reg (leaf_entry m 4 r) D"
  obtains a where "data_frame lev m a" "phys (leaf_entry m 4 r) v = a + v mod 4096" "a \<in> D \<longleftrightarrow> KERN_MEM \<le> v"
    "\<not> KERN_MEM \<le> v \<Longrightarrow> user_addr v \<and> leaf_entry m 4 r v = a OR 7"
proof (cases "KERN_MEM \<le> v")
  case True
  then have D: "page_mask (kphys v) \<in> D" using assms(2) user_not_kern by (auto simp: reg_def win_def)
  have "(v - KERN_MEM) mod 4096 = v mod 4096"
  proof -
    have "unat (v - KERN_MEM) = unat v - unat KERN_MEM" using True by (simp add: unat_sub)
    moreover have "(unat v - unat KERN_MEM) mod 4096 = unat v mod 4096"
    proof -
      have "unat KERN_MEM \<le> unat v" using True by (simp only: word_le_nat_alt)
      moreover have "unat KERN_MEM = 4096 * 0xffffffff80000" by simp
      ultimately obtain d where d: "unat v = 4096 * 0xffffffff80000 + d" using le_Suc_ex by metis
      then have "unat v mod 4096 = d mod 4096" by (simp only: mod_mult_self4)
      with d show ?thesis by simp
    qed
    ultimately show ?thesis by (intro unat_inject) (simp add: unat_mod)
  qed
  then have "kphys v mod 4096 = v mod 4096" using True by (simp add: kphys_def)
  then have "phys (leaf_entry m 4 r) v = page_mask (kphys v) + v mod 4096"
    using True mask_off [of "kphys v"] by (simp add: phys_def)
  then show thesis using that [OF spaceD(2) [OF assms(1) D]] True D by simp
next
  case False
  then have u: "user_addr v" "leaf_entry m 4 r v \<noteq> 0" using assms(2) by (auto simp: reg_def win_def)
  obtain a where a: "leaf_entry m 4 r v = a OR 7" "data_frame lev m a" "a \<notin> D" using spaceD(3) [OF assms(1) u] by blast
  then have "page_mask (leaf_entry m 4 r v) = a" using page_mask_entry by (simp add: data_frame_def)
  then show thesis using that [OF a(2)] False a u by (simp add: phys_def)
qed

lemma vpn_user:
  assumes "user_addr v" "user_addr w" "vpn v = vpn w" "v mod 4096 = w mod 4096"
  shows "v = w"
proof -
  have "unat x div 4096 mod 2 ^ 36 = unat x div 4096" if "user_addr x" for x
    using that by (simp add: user_addr_def word_less_nat_alt div_less_iff_less_mult)
  then have "unat v div 4096 = unat w div 4096"
    using assms(1-3) unat_vpn [of v] unat_vpn [of w] by simp
  moreover have "unat v mod 4096 = unat w mod 4096"
    using arg_cong [OF assms(4), of unat] by (simp add: unat_mod)
  ultimately have "unat v = unat w" by (metis div_mult_mod_eq)
  then show ?thesis by (rule unat_inject)
qed

lemma translate_leaf:
  assumes "pt_wf lev r m"
  shows "translate (KERN_MEM + r) v m = (if KERN_MEM \<le> v then Some (kphys v)
    else let e = leaf_entry m 4 r v in if e = 0 \<or> e AND 1 = 0 then None else Some (page_mask e + v mod 4096))"
  using look_pages_spec [OF assms, of v] by (auto simp: translate_def Let_def)

lemma data_frame_page: "data_frame lev m a \<longleftrightarrow> (\<exists>j. data_page lev m j \<and> a = of_nat j * 4096)"
proof
  assume "data_frame lev m a"
  then show "\<exists>j. data_page lev m j \<and> a = of_nat j * 4096"
    by (auto simp: data_frame_def frame_def data_page_def free_addrs_def)
next
  assume "\<exists>j. data_page lev m j \<and> a = of_nat j * 4096"
  then obtain j where j: "data_page lev m j" "a = of_nat j * 4096" by blast
  have "a \<notin> free_addrs m"
  proof
    assume "a \<in> free_addrs m"
    then obtain i where "page_avail m i" "of_nat i * 4096 = a" by (auto simp: free_addrs_def)
    then show False using j page_addr_inject [of i j] by (auto simp: data_page_def page_avail_def)
  qed
  with j show "data_frame lev m a" by (auto simp: data_frame_def data_page_def frame_def)
qed

lemma space_region:
  assumes "space lev r D m"
  shows "mem_region lev r (phys (leaf_entry m 4 r)) (reg (leaf_entry m 4 r) D) m"
proof -
  let ?L = "leaf_entry m 4 r"
  have "inj_on (phys ?L) (reg ?L D)"
  proof (rule inj_onI)
    fix v w assume vw: "v \<in> reg ?L D" "w \<in> reg ?L D" "phys ?L v = phys ?L w"
    obtain a where a: "data_frame lev m a" "phys ?L v = a + v mod 4096" "a \<in> D \<longleftrightarrow> KERN_MEM \<le> v"
      "\<not> KERN_MEM \<le> v \<Longrightarrow> user_addr v \<and> ?L v = a OR 7" by (rule reg_frame [OF assms vw(1)]) blast
    obtain b where b: "data_frame lev m b" "phys ?L w = b + w mod 4096" "b \<in> D \<longleftrightarrow> KERN_MEM \<le> w"
      "\<not> KERN_MEM \<le> w \<Longrightarrow> user_addr w \<and> ?L w = b OR 7" by (rule reg_frame [OF assms vw(2)]) blast
    have f: "frame a" "frame b" using a(1) b(1) by (auto simp: data_frame_def)
    have ab: "a = b" "v mod 4096 = w mod 4096"
      using frame_off [OF f(1), of v] frame_off [OF f(2), of w] a(2) b(2) vw(3) by metis+
    show "v = w"
    proof (cases "KERN_MEM \<le> v")
      case True
      then have "KERN_MEM \<le> w" using a(3) b(3) ab by simp
      with True vw(3) show ?thesis by (simp add: phys_def kphys_def)
    next
      case False
      then have "\<not> KERN_MEM \<le> w" using a(3) b(3) ab by simp
      note u = a(4) [OF False] b(4) [OF this]
      then have "vpn v = vpn w" using spaceD(4) [OF assms, of v w] ab entry_nonzero(1) [of a] by simp
      then show ?thesis using vpn_user u ab(2) by blast
    qed
  qed
  moreover have "translate (KERN_MEM + r) v m = Some (phys ?L v) \<and>
      (\<exists>j. data_page lev m j \<and> unat (phys ?L v) div 4096 = j)" if v: "v \<in> reg ?L D" for v
  proof -
    obtain a where a: "data_frame lev m a" "phys ?L v = a + v mod 4096"
      "\<not> KERN_MEM \<le> v \<Longrightarrow> user_addr v \<and> ?L v = a OR 7" by (rule reg_frame [OF assms v]) blast
    obtain j where j: "data_page lev m j" "a = of_nat j * 4096" using a(1) data_frame_page by blast
    then have "j < MAX_MEM" by (simp add: data_page_def)
    then have "unat (phys ?L v) div 4096 = j"
      using frame_off(1) [of a v] a j page_addr_unat [of j] by (simp add: data_frame_def)
    moreover have "translate (KERN_MEM + r) v m = Some (phys ?L v)"
      using a(3) entry_nonzero [of a] translate_leaf [OF spaceD(1) [OF assms], of v] by (auto simp: phys_def Let_def)
    ultimately show ?thesis using j(1) by blast
  qed
  ultimately show ?thesis using spaceD(1) [OF assms] unfolding mem_region_def by blast
qed

section \<open>Byte accesses\<close>

lemma free_addrs_memmap: "memmap m' = memmap m \<Longrightarrow> free_addrs m' = free_addrs m"
  by (simp add: free_addrs_def page_avail_def)

lemma space_same:
  assumes "space lev r D m" "pt_wf lev r m'" "\<And>v. leaf_entry m' 4 r v = leaf_entry m 4 r v"
    and "free_addrs m' = free_addrs m"
  shows "space lev r D m'"
proof -
  have L: "leaf_entry m' 4 r = leaf_entry m 4 r" using assms(3) by blast
  show ?thesis using assms(1,2) unfolding space_def data_frame_def L assms(4) by blast
qed

interpretation sp: byte_mem "ldb (KERN_MEM + r)" "stb (KERN_MEM + r)"
    "\<lambda>m. space lev r D m \<and> leaf_entry m 4 r = L \<and> memmap m = M" "reg L D" for lev r D L M
proof
  fix m a assume m: "space lev r D m \<and> leaf_entry m 4 r = L \<and> memmap m = M" and a: "a \<in> reg L D"
  then have region: "mem_region lev r (phys L) (reg L D) m" using space_region [of lev r D m] by simp
  show "\<exists>x. ldb (KERN_MEM + r) a m = Inr x" by (rule vm.load [OF region a])
  fix x
  obtain m' where m': "stb (KERN_MEM + r) a x m = Inr m'" "mem_region lev r (phys L) (reg L D) m'"
    "\<forall>b \<in> reg L D. ldb (KERN_MEM + r) b m' = (if b = a then Inr x else ldb (KERN_MEM + r) b m)"
    "\<And>v. leaf_entry m' 4 r v = leaf_entry m 4 r v" "memmap m' = memmap m"
    using region_byte_mem [OF region a] by blast
  have "pt_wf lev r m'" using m'(2) by (simp add: mem_region_def)
  then have "space lev r D m'" using space_same [OF _ _ m'(4) free_addrs_memmap [OF m'(5)]] m by blast
  then show "\<exists>m'. stb (KERN_MEM + r) a x m = Inr m' \<and>
      (space lev r D m' \<and> leaf_entry m' 4 r = L \<and> memmap m' = M) \<and>
      (\<forall>b \<in> reg L D. ldb (KERN_MEM + r) b m' = (if b = a then Inr x else ldb (KERN_MEM + r) b m))"
    using m m' by (intro exI [of _ m']) auto
qed

section \<open>New pages\<close>

text \<open>A byte of the region lies in no page table.\<close>

lemma reg_not_slot:
  assumes "space lev r D s" "v \<in> reg (leaf_entry s 4 r) D" "data_frame lev' t (page_mask (phys (leaf_entry s 4 r) v))"
    and "pt_wf lev' r t"
  shows "quad (phys (leaf_entry s 4 r) v) \<notin> slots lev'"
proof -
  let ?p = "phys (leaf_entry s 4 r) v"
  obtain a where a: "data_frame lev s a" "?p = a + v mod 4096" by (rule reg_frame [OF assms(1,2)]) blast
  obtain j where j: "data_page lev s j" "a = of_nat j * 4096" using a(1) data_frame_page by blast
  then have jm: "j < MAX_MEM" by (simp add: data_page_def)
  have f: "frame a" using a(1) by (simp add: data_frame_def)
  have pm: "page_mask ?p = a" using frame_off(2) [OF f] a(2) by simp
  have "unat ?p div 4096 = j" using frame_off(1) [OF f, of v] a(2) j(2) page_addr_unat [OF jm] by simp
  then obtain i where i: "i < 512" "quad ?p = elt a i" using quad_page [OF jm] j(2) by blast
  show ?thesis
  proof
    assume "quad ?p \<in> slots lev'"
    then obtain b k where b: "b \<in> dom lev'" "k < 512" "elt a i = elt b k" using i(2) by (auto simp: slots_def)
    then have "frame b" using pt_wfD(3) [OF assms(4)] by blast
    then have "a = b" using elt_inject [OF f _ i(1) b(2), of b] b(3) by simp
    then show False using assms(3) b(1) pm by (auto simp: data_frame_def)
  qed
qed

lemma data_frame_grows:
  assumes "data_frame lev s a" "grows lev s lev' t"
  shows "data_frame lev' t a"
proof -
  have "lev' a = None" using assms unfolding data_frame_def grows_def by blast
  then show ?thesis using assms unfolding data_frame_def grows_def by blast
qed

lemma ldb_reg:
  assumes "space lev r D m" "v \<in> reg (leaf_entry m 4 r) D"
  shows "ldb (KERN_MEM + r) v m =
    Inr (get_byte (qmem m (quad (phys (leaf_entry m 4 r) v))) (lane (phys (leaf_entry m 4 r) v)))"
  using space_region [OF assms(1)] assms(2) by (simp add: mem_region_def ldb_def)

text \<open>Mapping a new page of its own into the space.\<close>

lemma space_map:
  assumes sp: "space lev r D s" and room: "4 + n \<le> card (free_addrs s)" and v: "user_addr v" "leaf_entry s 4 r v = 0"
  obtains lev' t where "user_body r v s = Inr t" "space lev' r D t" "n \<le> card (free_addrs t)"
    "\<And>w. leaf_entry t 4 r w = (if vpn w = vpn v then fst (mem_allocate s) OR 7 else leaf_entry s 4 r w)"
    "\<And>a. a \<in> reg (leaf_entry s 4 r) D \<Longrightarrow> a \<in> reg (leaf_entry t 4 r) D \<and> ldb (KERN_MEM + r) a t = ldb (KERN_MEM + r) a s"
proof -
  let ?p = "fst (mem_allocate s)" and ?s = "snd (mem_allocate s)" and ?L = "leaf_entry s 4 r"
  note wf = spaceD(1) [OF sp]
  have al: "pt_wf lev r ?s" "?p \<in> free_addrs s" "n + 3 \<le> card (free_addrs ?s)" "free_addrs ?s = free_addrs s - {?p}"
    "\<And>w. leaf_entry ?s 4 r w = ?L w"
    using alloc_wf [OF wf] room by auto
  have old: "leaf_entry ?s 4 r v AND PAGE_PRESENT \<noteq> 0 \<longrightarrow>
      unat ((leaf_entry ?s 4 r v - INITIAL_MEM) div 4096) < MAX_MEM" using al(5) v(2) by simp
  obtain lev' t where t: "page_insert (KERN_MEM + r) v ?p ?s = Inr t" "pt_wf lev' r t"
    "\<And>w. leaf_entry t 4 r w = (if vpn w = vpn v then ?p OR 7 else leaf_entry ?s 4 r w)"
    "n \<le> card (free_addrs t)" "free_addrs t \<subseteq> free_addrs ?s" "grows lev ?s lev' t"
    using page_insert_ok [OF al(1,3) old, of ?p] by metis
  have "lev ?p = None" using al(2) avail_not_table [OF wf] by (auto simp: free_addrs_def)
  then have p: "data_frame lev ?s ?p" using free_addrs_frame [OF al(2)] al(4) by (simp add: data_frame_def)
  have keep: "data_frame lev' t a \<and> a \<noteq> ?p" if "data_frame lev s a" for a
  proof -
    have "data_frame lev ?s a" using that al(4) by (auto simp: data_frame_def)
    then show ?thesis using data_frame_grows [OF _ t(6)] that al(2) by (auto simp: data_frame_def)
  qed
  have Lt: "leaf_entry t 4 r w = (if vpn w = vpn v then ?p OR 7 else ?L w)" for w using t(3) al(5) by simp
  have sp': "space lev' r D t"
    unfolding space_def
  proof (intro conjI ballI allI impI)
    fix w assume w: "user_addr w \<and> leaf_entry t 4 r w \<noteq> 0"
    show "\<exists>a. leaf_entry t 4 r w = a OR 7 \<and> data_frame lev' t a \<and> a \<notin> D"
    proof (cases "vpn w = vpn v")
      case True
      then show ?thesis using Lt data_frame_grows [OF p t(6)] spaceD(2) [OF sp, of ?p] keep [of ?p] by auto
    next
      case False
      then show ?thesis using Lt w spaceD(3) [OF sp, of w] keep by auto
    qed
  next
    fix w x assume wx: "user_addr w \<and> user_addr x \<and> leaf_entry t 4 r w \<noteq> 0 \<and> leaf_entry t 4 r w = leaf_entry t 4 r x"
    have new: "?L y \<noteq> ?p OR 7" if y: "user_addr y" for y
    proof
      assume e: "?L y = ?p OR 7"
      then obtain a where a: "?L y = a OR 7" "data_frame lev s a"
        using spaceD(3) [OF sp y] entry_nonzero(1) [of ?p] by auto
      then have "a = ?p" using e entry_inject free_addrs_frame [OF al(2)] by (simp add: data_frame_def)
      with keep [OF a(2)] show False by simp
    qed
    show "vpn w = vpn x"
      using wx new [of w] new [of x] spaceD(4) [OF sp, of w x] Lt [of w] Lt [of x]
      by (cases "vpn w = vpn v"; cases "vpn x = vpn v") auto
  qed (use t(2) spaceD(2) [OF sp] keep in auto)
  have "a \<in> reg (leaf_entry t 4 r) D \<and> ldb (KERN_MEM + r) a t = ldb (KERN_MEM + r) a s" if a: "a \<in> reg ?L D" for a
  proof -
    have same: "leaf_entry t 4 r a = ?L a" if "user_addr a" "?L a \<noteq> 0"
    proof -
      have "vpn a \<noteq> vpn v" using leaf_entry_vpn [of a v s r] v(2) that(2) by auto
      then show ?thesis using Lt by simp
    qed
    have ph: "phys (leaf_entry t 4 r) a = phys ?L a"
    proof (cases "KERN_MEM \<le> a")
      case False
      then have "user_addr a" "?L a \<noteq> 0" using a by (auto simp: reg_def win_def)
      then show ?thesis using same by (simp add: phys_def)
    qed (simp add: phys_def)
    have at: "a \<in> reg (leaf_entry t 4 r) D" using a same by (auto simp: reg_def)
    obtain b where b: "data_frame lev s b" "phys ?L a = b + a mod 4096" by (rule reg_frame [OF sp a]) blast
    then have "page_mask (phys ?L a) = b" using frame_off(2) by (simp add: data_frame_def)
    then have "quad (phys ?L a) \<notin> slots lev'" using reg_not_slot [OF sp a _ t(2)] keep [OF b(1)] by simp
    then have "qmem t (quad (phys ?L a)) = qmem s (quad (phys ?L a))" using t(6) by (simp add: grows_def)
    then show ?thesis using at ldb_reg [OF sp a] ldb_reg [OF sp' at] ph by simp
  qed
  moreover have "user_body r v s = Inr t" using t(1) by (simp add: user_body_def case_prod_beta)
  ultimately show thesis using that [OF _ sp' t(4) Lt] by blast
qed

end
