(* ===== verification/Load_Props.thy ===== *)
theory Load_Props
  imports Space_Props Process PhysMem_Claims
begin

text \<open>
  Loading a segment into a private address space: \<^verbatim>\<open>allocate\<close> maps the pages, \<^verbatim>\<open>memset\<close> and
  \<^verbatim>\<open>memcpy\<close> fill them, \<^verbatim>\<open>allocate_vma\<close> records the area.
\<close>

section \<open>Mapping a run of pages\<close>

text \<open>
  Room in the private space \<open>r\<close> for the pages \<open>vs\<close> and \<open>x\<close> more, while the bytes of \<open>A\<close> stay
  what \<open>B\<close> says.
\<close>

definition map_room :: "u64 set \<Rightarrow> u64 set \<Rightarrow> (u64 \<Rightarrow> u8 res) \<Rightarrow> nat \<Rightarrow> u64 \<Rightarrow> u64 list \<Rightarrow> kmem \<Rightarrow> bool" where
  "map_room D A B x r vs s \<longleftrightarrow> (\<exists>lev. space lev r D s \<and> 4 * length vs + x \<le> card (free_addrs s) \<and>
     (\<forall>v \<in> set vs. user_addr v) \<and> A \<subseteq> reg (leaf_entry s 4 r) D \<and> (\<forall>a \<in> A. ldb (KERN_MEM + r) a s = B a))"

lemma map_room_step:
  assumes "map_room D A B x r (v # vs) s" "leaf_entry s 4 r v = 0"
  shows "\<exists>t. user_body r v s = Inr t \<and> map_room D A B x r vs t \<and>
           (\<forall>w. leaf_entry t 4 r w = (if vpn w = vpn v then fst (mem_allocate s) OR 7 else leaf_entry s 4 r w))"
proof -
  obtain lev where lev: "space lev r D s" "4 + (4 * length vs + x) \<le> card (free_addrs s)" "user_addr v"
    "\<forall>u \<in> set vs. user_addr u" "A \<subseteq> reg (leaf_entry s 4 r) D" "\<forall>a \<in> A. ldb (KERN_MEM + r) a s = B a"
    using assms(1) by (auto simp: map_room_def)
  obtain lev' t where t: "user_body r v s = Inr t" "space lev' r D t" "4 * length vs + x \<le> card (free_addrs t)"
    "\<And>w. leaf_entry t 4 r w = (if vpn w = vpn v then fst (mem_allocate s) OR 7 else leaf_entry s 4 r w)"
    "\<And>a. a \<in> reg (leaf_entry s 4 r) D \<Longrightarrow> a \<in> reg (leaf_entry t 4 r) D \<and> ldb (KERN_MEM + r) a t = ldb (KERN_MEM + r) a s"
    using space_map [OF lev(1-3) assms(2)] by metis
  have "map_room D A B x r vs t"
    unfolding map_room_def using t(2,3,5) lev(4-6) by (intro exI [of _ lev']) auto
  with t(1,4) show ?thesis by blast
qed

interpretation ks: page_mapper "user_body r" "\<lambda>s. leaf_entry s 4 r" "map_room D A B x r" vpn "\<lambda>e. e = 0"
    "\<lambda>s v. fst (mem_allocate s) OR 7" for D A B x r
  by unfold_locales (use map_room_step vpn_inject in blast)+

lemma map_room_page: "map_room D A B x r (v # vs) s \<Longrightarrow> fst (mem_allocate s) \<noteq> 0"
proof -
  assume "map_room D A B x r (v # vs) s"
  then obtain lev where lev: "pt_wf lev r s" "0 < card (free_addrs s)" by (auto simp: map_room_def space_def)
  then have "fst (mem_allocate s) \<in> free_addrs s" using alloc_wf by blast
  then obtain j where j: "page_avail s j" "fst (mem_allocate s) = of_nat j * 4096" by (auto simp: free_addrs_def)
  then have "j < MAX_MEM" "j \<noteq> 0" using pt_wfD(1) [OF lev(1)] by (auto simp: page_avail_def memmap_ok_def intro!: gr0I)
  then show ?thesis using j(2) page_addr_inject [of j 0] by auto
qed

text \<open>While pages are left the loop of \<^verbatim>\<open>allocate\<close> maps one page after the other.\<close>

lemma allocate_loop_range:
  assumes "map_room D A B x r (pages (of_nat i) n @ ws) (k_mem k)" "n \<le> 2 ^ 36"
    and "\<And>j. j < n \<Longrightarrow> leaf_entry (k_mem k) 4 r (of_nat i + 4096 * of_nat j) = 0"
  shows "allocate_loop (KERN_MEM + r) i (i + 4096 * n) k =
    bindr (map_range (user_body r) n (of_nat i) (k_mem k)) (\<lambda>m. Inr (Ret 0, set_mem m k))"
  using assms
proof (induction n arbitrary: i k)
  case 0
  then show ?case by (simp add: allocate_loop.simps set_mem_def)
next
  case (Suc n)
  obtain t where t: "user_body r (of_nat i) (k_mem k) = Inr t"
    "map_room D A B x r (of_nat i # pages (of_nat i + 4096) n @ ws) (k_mem k)"
    "map_room D A B x r (pages (of_nat i + 4096) n @ ws) t"
    "\<And>j. j < n \<Longrightarrow> leaf_entry t 4 r (of_nat i + 4096 + 4096 * of_nat j) = 0"
    by (rule ks.ins_step [OF Suc.prems]) blast+
  have i: "of_nat (i + 4096) = (of_nat i + 4096 :: u64)" by simp
  let ?p = "fst (mem_allocate (k_mem k))" and ?m = "snd (mem_allocate (k_mem k))"
  have ins: "page_insert (KERN_MEM + r) (of_nat i) ?p ?m = Inr t"
    using t(1) by (simp add: user_body_def case_prod_beta)
  have "allocate_loop (KERN_MEM + r) i (i + 4096 * Suc n) k =
      allocate_loop (KERN_MEM + r) (i + 4096) (i + 4096 * Suc n) (set_mem t (set_mem ?m k))"
    using map_room_page [OF t(2)] ins by (subst allocate_loop.simps) (simp add: Let_def case_prod_beta)
  also have "\<dots> = allocate_loop (KERN_MEM + r) (i + 4096) (i + 4096 + 4096 * n) (set_mem t k)"
    by (simp add: set_mem_def add.assoc)
  also have "\<dots> = bindr (map_range (user_body r) n (of_nat (i + 4096)) t) (\<lambda>m. Inr (Ret 0, set_mem m (set_mem t k)))"
    using Suc.IH [of "i + 4096" "set_mem t k", unfolded i] t(3,4) Suc.prems(2) by (simp add: set_mem_def)
  finally show ?case using t(1) by (simp add: set_mem_def)
qed

text \<open>The bounds of \<^verbatim>\<open>allocate\<close>, below the limit of the rounding.\<close>

lemma mod_unat_0: "a mod 4096 = 0 \<longleftrightarrow> unat a mod 4096 = 0" for a :: u64
proof -
  have "unat (a mod 4096) = unat a mod 4096" by (simp add: unat_mod)
  then show ?thesis by (metis unat_inject unat_0)
qed

lemma roundoff_nat:
  assumes "unat a + 4095 < 0x7ffe000"
  shows "unat (page_roundoff_4096 a) = 4096 * ((unat a + 4095) div 4096)"
proof -
  define x where "x = unat a"
  have am: "unat (a mod 4096) = x mod 4096" by (simp add: unat_mod x_def)
  show ?thesis
  proof (cases "x mod 4096 = 0")
    case True
    then have "4096 * ((x + 4095) div 4096) = x" using div_mult_mod_eq [of x 4096] by (simp add: ceil_div_4096)
    then show ?thesis using True by (simp add: page_roundoff_4096_def x_def mod_unat_0)
  next
    case False
    have lt: "x mod 4096 < 4096" by simp
    have "unat (4096 - a mod 4096) = 4096 - x mod 4096"
      using am lt by (subst unat_sub) (simp_all add: word_le_nat_alt)
    then have u: "unat (a + (4096 - a mod 4096)) = x + (4096 - x mod 4096)"
      using assms lt by (subst unat_add_lem [THEN iffD1]) (simp_all add: x_def)
    have "4096 * ((x + 4095) div 4096) = 4096 * (x div 4096) + 4096" using False by (simp add: ceil_div_4096)
    then have c: "x + (4096 - x mod 4096) = 4096 * ((x + 4095) div 4096)"
      using mult_div_mod_eq [of 4096 x] lt by linarith
    have "\<not> END_LIMIT \<le> a + (4096 - a mod 4096)"
      using u assms False by (simp add: word_le_nat_alt x_def)
    then show ?thesis using False u c by (simp add: page_roundoff_4096_def Let_def x_def mod_unat_0)
  qed
qed

text \<open>The first page of a segment, and the number of its pages.\<close>

definition seg_page :: "u64 \<Rightarrow> nat" where
  "seg_page va = unat va div 4096"

definition seg_pages :: "u64 \<Rightarrow> nat \<Rightarrow> nat" where
  "seg_pages va ms = (unat va + ms + 4095) div 4096 - unat va div 4096"

lemma allocate_bounds:
  assumes "unat va + ms + 4095 < 0x7ffe000"
  shows "allocate pml4 va (int ms) k =
    allocate_loop pml4 (4096 * seg_page va) (4096 * seg_page va + 4096 * seg_pages va ms) k"
proof -
  define x where "x = unat va"
  have "unat (va + of_nat ms) = x + ms"
    using assms by (subst unat_add_lem [THEN iffD1]) (simp_all add: x_def unat_of_nat_u64)
  then have stop: "unat (page_roundoff_4096 (va + of_nat ms)) = 4096 * ((x + ms + 4095) div 4096)"
    using roundoff_nat [of "va + of_nat ms"] assms by (simp add: x_def)
  have start: "unat (if va mod 4096 \<noteq> 0 then page_roundoff_4096 va - 4096 else va) = 4096 * (x div 4096)"
  proof (cases "va mod 4096 = 0")
    case True
    then show ?thesis using div_mult_mod_eq [of x 4096] by (simp add: x_def mod_unat_0)
  next
    case False
    then have e: "(x + 4095) div 4096 = x div 4096 + 1" by (simp add: mod_unat_0 x_def ceil_div_4096)
    have "unat (page_roundoff_4096 va) = 4096 * (x div 4096 + 1)" using roundoff_nat [of va] assms e by (simp add: x_def)
    then have "unat (page_roundoff_4096 va - 4096) = 4096 * (x div 4096)"
      by (subst unat_sub) (simp_all add: word_le_nat_alt)
    then show ?thesis using False by simp
  qed
  have "4096 * seg_page va + 4096 * seg_pages va ms = 4096 * ((x + ms + 4095) div 4096)"
  proof -
    have "x div 4096 \<le> (x + ms + 4095) div 4096" by (rule div_le_mono) simp
    then show ?thesis by (simp add: seg_page_def seg_pages_def x_def)
  qed
  then show ?thesis using start stop by (simp add: allocate_def seg_page_def x_def)
qed

section \<open>Filling the pages\<close>

lemma span_inject:
  assumes "i < n" "j < n" "n \<le> 2 ^ 63" "a + of_nat i = a + (of_nat j :: u64)"
  shows "i = j"
proof -
  have "unat (of_nat i :: u64) = i" "unat (of_nat j :: u64) = j" using assms(1-3) by (simp_all add: unat_of_nat_u64)
  moreover have "(of_nat i :: u64) = of_nat j" using assms(4) by simp
  ultimately show ?thesis by metis
qed

lemma load_bytes:
  assumes sp: "space lev r D m" and to: "\<And>b. b \<in> span va ms \<Longrightarrow> user_addr b \<and> leaf_entry m 4 r b \<noteq> 0"
    and fr: "span src fs \<subseteq> win D" and sz: "fs \<le> ms" "ms \<le> 2 ^ 63"
  obtains m2 m3 where "mem_fill (stb (KERN_MEM + r)) ms va 0 m = Inr m2"
    "mem_copy (ldb (KERN_MEM + r)) (stb (KERN_MEM + r)) fs va src m2 = Inr m3"
    "space lev r D m3" "leaf_entry m3 4 r = leaf_entry m 4 r" "memmap m3 = memmap m"
    "\<And>i. i < ms \<Longrightarrow> ldb (KERN_MEM + r) (va + of_nat i) m3 =
       (if i < fs then ldb (KERN_MEM + r) (src + of_nat i) m else Inr 0)"
    "\<And>b. b \<in> reg (leaf_entry m 4 r) D \<Longrightarrow> b \<notin> span va ms \<Longrightarrow> ldb (KERN_MEM + r) b m3 = ldb (KERN_MEM + r) b m"
proof -
  let ?L = "leaf_entry m 4 r" and ?A = "reg (leaf_entry m 4 r) D"
  let ?good = "\<lambda>m'. space lev r D m' \<and> leaf_entry m' 4 r = ?L \<and> memmap m' = memmap m"
  have g: "?good m" using sp by simp
  have d: "span va ms \<subseteq> ?A" and src: "span src fs \<subseteq> ?A" using to fr by (auto simp: reg_def)
  have sub: "span va fs \<subseteq> span va ms" using sz(1) by (auto simp: span_def)
  have disj: "b \<notin> span va ms" if "b \<in> span src fs" for b
    using that to [of b] fr user_not_kern [of b] by (auto simp: win_def)
  obtain m2 where m2: "mem_fill (stb (KERN_MEM + r)) ms va 0 m = Inr m2" "?good m2"
    "\<forall>b \<in> ?A. sp.byte r b m2 = (if b \<in> span va ms then 0 else sp.byte r b m)"
    using sp.mem_fill_ok [OF g d sz(2), of 0] by blast
  let ?cs = "map (\<lambda>i. sp.byte r (src + of_nat i) m2) [0..<fs]"
  have cp: "mem_copy (ldb (KERN_MEM + r)) (stb (KERN_MEM + r)) fs va src m2 = mem_store (stb (KERN_MEM + r)) va ?cs m2"
    using sp.mem_copy_store [OF m2(2) _ src] sub d disj sz by auto
  obtain m3 where m3: "mem_store (stb (KERN_MEM + r)) va ?cs m2 = Inr m3" "?good m3"
    "\<forall>i < fs. sp.byte r (va + of_nat i) m3 = ?cs ! i" "\<forall>b \<in> ?A - span va fs. sp.byte r b m3 = sp.byte r b m2"
    using sp.mem_store_ok [OF m2(2), of va ?cs] sub d sz by auto
  note ld = sp.ld_byte [OF g] sp.ld_byte [OF m2(2)] sp.ld_byte [OF m3(2)]
  have "ldb (KERN_MEM + r) (va + of_nat i) m3 = (if i < fs then ldb (KERN_MEM + r) (src + of_nat i) m else Inr 0)"
    if i: "i < ms" for i
  proof -
    have v: "va + of_nat i \<in> span va ms" "va + of_nat i \<in> ?A" using span_mem [OF i] d by auto
    show ?thesis
    proof (cases "i < fs")
      case True
      then have s: "src + of_nat i \<in> ?A" "src + of_nat i \<notin> span va ms" using span_mem [OF True, of src] src disj by auto
      have "sp.byte r (va + of_nat i) m3 = sp.byte r (src + of_nat i) m" using m3(3) m2(3) s True by simp
      then show ?thesis using ld(1) [OF s(1)] ld(3) [OF v(2)] True by simp
    next
      case False
      have "va + of_nat i \<notin> span va fs"
      proof
        assume "va + of_nat i \<in> span va fs"
        then obtain j where "j < fs" "va + of_nat i = va + of_nat j" by (auto simp: span_def)
        then show False using span_inject [OF i _ sz(2), of j va] sz(1) False by simp
      qed
      then have "sp.byte r (va + of_nat i) m3 = 0" using m3(4) m2(3) v by simp
      then show ?thesis using ld(3) [OF v(2)] False by simp
    qed
  qed
  moreover have "ldb (KERN_MEM + r) b m3 = ldb (KERN_MEM + r) b m" if b: "b \<in> ?A" "b \<notin> span va ms" for b
  proof -
    have "b \<in> ?A - span va fs" using b sub by blast
    then have "sp.byte r b m3 = sp.byte r b m" using m3(4) m2(3) b by simp
    then show ?thesis using ld(1,3) [OF b(1)] by simp
  qed
  ultimately show thesis using that [OF m2(1)] cp m3(1,2) by simp
qed

section \<open>The pages of a segment\<close>

definition seg_addr :: "u64 \<Rightarrow> nat \<Rightarrow> u64" where
  "seg_addr va j = of_nat (4096 * seg_page va) + 4096 * of_nat j"

lemma seg_addr_unat:
  assumes "4096 * (seg_page va + j) < 2 ^ 47"
  shows "unat (seg_addr va j) = 4096 * (seg_page va + j)" "user_addr (seg_addr va j)"
proof -
  have "seg_addr va j = of_nat (4096 * (seg_page va + j))" by (simp add: seg_addr_def algebra_simps)
  moreover have "4096 * (seg_page va + j) < 2 ^ 64" using assms by simp
  ultimately show u: "unat (seg_addr va j) = 4096 * (seg_page va + j)" by (simp only: unat_of_nat_u64)
  then show "user_addr (seg_addr va j)" using assms by (simp add: user_addr_def word_less_nat_alt)
qed

text \<open>Every byte of a segment lies in one of its pages.\<close>

lemma seg_span:
  assumes "unat va + ms + 4095 < 0x7ffe000" "b \<in> span va ms"
  obtains j where "j < seg_pages va ms" "user_addr b" "vpn b = vpn (seg_addr va j)"
proof -
  obtain i where i: "i < ms" "b = va + of_nat i" using assms(2) by (auto simp: span_def)
  have u: "unat b = unat va + i"
    using i assms(1) by (simp add: i(2)) (subst unat_add_lem [THEN iffD1], simp_all add: unat_of_nat_u64)
  let ?j = "unat b div 4096 - seg_page va"
  have le: "seg_page va \<le> unat b div 4096" unfolding seg_page_def u by (rule div_le_mono) simp
  have "unat b + 1 \<le> unat va + ms" using u i(1) by simp
  then have "(unat b + 4096) div 4096 \<le> (unat va + ms + 4095) div 4096" by (intro div_le_mono) simp
  moreover have "(unat b + 4096) div 4096 = unat b div 4096 + 1" by (simp only: div_add_self2 zero_neq_numeral not_False_eq_True)
  ultimately have j: "?j < seg_pages va ms" using le unfolding seg_pages_def seg_page_def by linarith
  have bd: "4096 * (seg_page va + ?j) \<le> unat b" using le by simp
  also have "\<dots> < 0x7ffe000" using u i assms(1) by simp
  finally have "unat (seg_addr va ?j) = 4096 * (unat b div 4096)" using seg_addr_unat(1) [of va ?j] le by simp
  then have "unat (vpn b) = unat (vpn (seg_addr va ?j))" by (simp add: unat_vpn)
  then have "vpn b = vpn (seg_addr va ?j)" by (rule unat_inject)
  moreover have "user_addr b" using u i assms(1) by (simp add: user_addr_def word_less_nat_alt)
  ultimately show thesis using that j by blast
qed

lemma seg_pages_user:
  assumes "unat va + ms + 4095 < 0x7ffe000" "j < seg_pages va ms"
  shows "unat (seg_addr va j) < 0x7ffe000" "user_addr (seg_addr va j)"
proof -
  define y where "y = (unat va + ms + 4095) div 4096"
  have "seg_page va + j < y" using assms(2) by (simp add: seg_pages_def seg_page_def y_def)
  then have "4096 * (seg_page va + j) < 4096 * y" by simp
  also have "4096 * y \<le> unat va + ms + 4095" unfolding y_def by simp
  also note assms(1)
  finally have "4096 * (seg_page va + j) < 0x7ffe000" .
  then show "unat (seg_addr va j) < 0x7ffe000" "user_addr (seg_addr va j)"
    using seg_addr_unat [of va j] by simp_all
qed

section \<open>The list of areas\<close>

definition vma_list :: "ptr \<Rightarrow> kernel \<Rightarrow> bool" where
  "vma_list mm k \<longleftrightarrow> vma_addr (mms k mm) = 0 \<or> vma_tail (vmas k) (vma_addr (mms k mm)) \<noteq> None"

text \<open>An area hung behind the last one is the last.\<close>

lemma vma_tail_append:
  assumes "vma_tail vs h = Some tail" "vm_next (vs' v) = 0" "vm_next (vs' tail) = v \<or> v = tail"
    and "\<And>x. x \<noteq> v \<Longrightarrow> x \<noteq> tail \<Longrightarrow> vs' x = vs x"
  shows "vma_tail vs' h = Some v \<or> v = 0 \<and> vma_tail vs' h = Some tail"
proof -
  let ?P = "\<lambda>vs h tail. (\<forall>x. x \<noteq> v \<longrightarrow> x \<noteq> tail \<longrightarrow> vs' x = vs x) \<longrightarrow>
    vm_next (vs' tail) = v \<or> v = tail \<longrightarrow> vma_tail vs' h = Some v \<or> v = 0 \<and> vma_tail vs' h = Some tail"
  have end_v: "vma_tail vs' v = Some v" using assms(2) by (subst vma_tail.simps) simp
  have step: "?P vs h tail"
    if ih: "\<And>vs h tail. f vs h = Some tail \<Longrightarrow> ?P vs h tail"
      and run: "(if vm_next (vs h) = 0 then Some h else f vs (vm_next (vs h))) = Some tail" for f vs h tail
  proof (intro impI)
    assume same: "\<forall>x. x \<noteq> v \<longrightarrow> x \<noteq> tail \<longrightarrow> vs' x = vs x" and nx: "vm_next (vs' tail) = v \<or> v = tail"
    consider "h = v" | "h = tail" "tail \<noteq> v" | "h \<noteq> v" "h \<noteq> tail" by blast
    then show "vma_tail vs' h = Some v \<or> v = 0 \<and> vma_tail vs' h = Some tail"
    proof cases
      case 1
      then show ?thesis using end_v by simp
    next
      case 2
      then show ?thesis using end_v nx vma_tail.simps [of vs' tail] by auto
    next
      case 3
      then have n: "f vs (vm_next (vs h)) = Some tail" "vm_next (vs h) \<noteq> 0" using run by (auto split: if_splits)
      then have "vma_tail vs' (vm_next (vs h)) = Some v \<or> v = 0 \<and> vma_tail vs' (vm_next (vs h)) = Some tail"
        using ih same nx by blast
      moreover have "vma_tail vs' h = vma_tail vs' (vm_next (vs h))"
        using same [rule_format, of h] 3 n(2) by (subst vma_tail.simps) simp
      ultimately show ?thesis by simp
    qed
  qed
  have "?P vs h tail" by (rule vma_tail.raw_induct [where P = ?P, OF _ assms(1)], rule step)
  then show ?thesis using assms(3,4) by blast
qed

lemma space_alloc:
  assumes sp: "space lev r D m" and room: "Suc x \<le> card (free_addrs m)"
  shows "space lev r D (snd (mem_allocate m))" "x \<le> card (free_addrs (snd (mem_allocate m)))"
    "leaf_entry (snd (mem_allocate m)) 4 r v = leaf_entry m 4 r v"
    "a \<in> reg (leaf_entry m 4 r) D \<Longrightarrow> ldb (KERN_MEM + r) a (snd (mem_allocate m)) = ldb (KERN_MEM + r) a m"
proof -
  let ?m = "snd (mem_allocate m)"
  have al: "pt_wf lev r ?m" "card (free_addrs ?m) = card (free_addrs m) - 1" "free_addrs ?m \<subseteq> free_addrs m"
    and le: "\<And>v. leaf_entry ?m 4 r v = leaf_entry m 4 r v"
    using alloc_wf [OF spaceD(1) [OF sp]] room by auto
  have L: "leaf_entry ?m 4 r = leaf_entry m 4 r" using le by blast
  show "leaf_entry ?m 4 r v = leaf_entry m 4 r v" by (rule le)
  show "x \<le> card (free_addrs ?m)" using al(2) room by simp
  have "data_frame lev ?m b" if "data_frame lev m b" for b using that al(3) by (auto simp: data_frame_def)
  then show sp': "space lev r D ?m" using sp al(1) unfolding space_def L by blast
  show "ldb (KERN_MEM + r) a ?m = ldb (KERN_MEM + r) a m" if "a \<in> reg (leaf_entry m 4 r) D"
    using ldb_reg [OF sp that] ldb_reg [OF sp', of a] that L by simp
qed

lemma allocate_vma_ok:
  assumes l: "vma_list mm k" and sp: "space lev r D (k_mem k)" and room: "Suc x \<le> card (free_addrs (k_mem k))"
  obtains v k2 where "allocate_vma mm k = Inr (v, k2)" "space lev r D (k_mem k2)" "x \<le> card (free_addrs (k_mem k2))"
    "leaf_entry (k_mem k2) 4 r = leaf_entry (k_mem k) 4 r" "k_sched k2 = k_sched k" "tarfs_ind k2 = tarfs_ind k"
    "\<And>a. a \<in> reg (leaf_entry (k_mem k) 4 r) D \<Longrightarrow> ldb (KERN_MEM + r) a (k_mem k2) = ldb (KERN_MEM + r) a (k_mem k)"
    "\<And>f :: vm_struct \<Rightarrow> vm_struct. vm_next (f (vmas k2 v)) = 0 \<Longrightarrow> vma_list mm (set_vma v f k2) \<and>
       (v \<noteq> 0 \<longrightarrow> vma_tail (vmas (set_vma v f k2)) (vma_addr (mms k2 mm)) = Some v)"
proof (cases "vma_addr (mms k mm) = 0")
  case True
  let ?m = "snd (mem_allocate (k_mem k))" and ?v = "KERN_MEM + fst (mem_allocate (k_mem k))"
  let ?k = "(set_mem ?m k)\<lparr>mms := (mms k)(mm := (mms k mm)\<lparr>vma_addr := ?v\<rparr>)\<rparr>"
  have "allocate_vma mm k = Inr (?v, ?k)" using True by (simp add: allocate_vma_def case_prod_beta Let_def)
  then show thesis
  proof (rule that)
    show "leaf_entry (k_mem ?k) 4 r = leaf_entry (k_mem k) 4 r" using space_alloc(3) [OF sp room] by (auto simp: set_mem_def)
    fix f :: "vm_struct \<Rightarrow> vm_struct" assume "vm_next (f (vmas ?k ?v)) = 0"
    then have "vma_tail (vmas (set_vma ?v f ?k)) ?v = Some ?v" by (subst vma_tail.simps) (simp add: set_vma_def)
    then show "vma_list mm (set_vma ?v f ?k) \<and>
        (?v \<noteq> 0 \<longrightarrow> vma_tail (vmas (set_vma ?v f ?k)) (vma_addr (mms ?k mm)) = Some ?v)"
      by (simp add: vma_list_def set_vma_def)
  qed (use space_alloc [OF sp room] in \<open>simp_all add: set_mem_def\<close>)
next
  case False
  then obtain tail where tail: "vma_tail (vmas k) (vma_addr (mms k mm)) = Some tail" using l by (auto simp: vma_list_def)
  let ?v = "sizeof_vma + tail"
  let ?k = "k\<lparr>vmas := (vmas k)(tail := (vmas k tail)\<lparr>vm_next := ?v\<rparr>)\<rparr>"
  have "allocate_vma mm k = Inr (?v, ?k)" using False tail by (simp add: allocate_vma_def of_option_def Let_def)
  then show thesis
  proof (rule that)
    fix f :: "vm_struct \<Rightarrow> vm_struct" assume "vm_next (f (vmas ?k ?v)) = 0"
    then have "vma_tail (vmas (set_vma ?v f ?k)) (vma_addr (mms k mm)) = Some ?v \<or>
        ?v = 0 \<and> vma_tail (vmas (set_vma ?v f ?k)) (vma_addr (mms k mm)) = Some tail"
      using tail by (intro vma_tail_append [of "vmas k"]) (simp_all add: set_vma_def)
    then show "vma_list mm (set_vma ?v f ?k) \<and>
        (?v \<noteq> 0 \<longrightarrow> vma_tail (vmas (set_vma ?v f ?k)) (vma_addr (mms ?k mm)) = Some ?v)"
      by (auto simp: vma_list_def set_vma_def)
  qed (use sp room in simp_all)
qed

section \<open>One segment\<close>

text \<open>
  A segment of the program at \<open>elf\<close> that can be loaded: it ends below the limit of the rounding, has
  no more bytes in the file than in memory, and its bytes in the file are in the kernel's window.
\<close>

definition seg_ok :: "u64 set \<Rightarrow> u64 \<Rightarrow> pheader \<Rightarrow> bool" where
  "seg_ok D elf ph \<longleftrightarrow> unat (p_vaddr ph) + unat (p_memsz ph) + 4095 < 0x7ffe000 \<and> p_filesz ph \<le> p_memsz ph \<and>
     span (elf + p_offset ph) (unat (p_filesz ph)) \<subseteq> win D"

definition ph_pages :: "pheader \<Rightarrow> nat" where
  "ph_pages ph = seg_pages (p_vaddr ph) (unat (p_memsz ph))"

definition ph_addr :: "pheader \<Rightarrow> nat \<Rightarrow> u64" where
  "ph_addr ph = seg_addr (p_vaddr ph)"

definition ph_span :: "pheader \<Rightarrow> u64 set" where
  "ph_span ph = span (p_vaddr ph) (unat (p_memsz ph))"

lemma seg_okD:
  assumes "seg_ok D elf ph"
  shows "unat (p_vaddr ph) + unat (p_memsz ph) + 4095 < 0x7ffe000" "unat (p_filesz ph) \<le> unat (p_memsz ph)"
    "span (elf + p_offset ph) (unat (p_filesz ph)) \<subseteq> win D"
    "sint (ucast (p_memsz ph) :: u32) = int (unat (p_memsz ph))" "unat (ucast (p_filesz ph) :: u32) = unat (p_filesz ph)"
proof -
  show b: "unat (p_vaddr ph) + unat (p_memsz ph) + 4095 < 0x7ffe000" and f: "unat (p_filesz ph) \<le> unat (p_memsz ph)"
    and "span (elf + p_offset ph) (unat (p_filesz ph)) \<subseteq> win D"
    using assms by (auto simp: seg_ok_def word_le_nat_alt)
  have m: "unat (p_memsz ph) < 2 ^ 31" using b by simp
  have c: "unat (ucast x :: u32) = unat x" if "unat x < 2 ^ 31" for x :: u64
    using that by (simp add: unsigned_ucast_eq take_bit_eq_mod unat_mod)
  show "unat (ucast (p_filesz ph) :: u32) = unat (p_filesz ph)" using c m f by simp
  have "sint (ucast (p_memsz ph) :: u32) = int (unat (ucast (p_memsz ph) :: u32))"
    using c [OF m] m by (intro sint_small_u32) simp
  then show "sint (ucast (p_memsz ph) :: u32) = int (unat (p_memsz ph))" using c [OF m] by simp
qed

text \<open>The pages of the segment after \<^verbatim>\<open>allocate\<close>.\<close>

lemma allocate_segment:
  assumes sp: "space lev r D (k_mem k)" and ok: "unat va + ms + 4095 < 0x7ffe000" and n: "n = seg_pages va ms"
    and free: "\<And>j. j < n \<Longrightarrow> leaf_entry (k_mem k) 4 r (seg_addr va j) = 0" and room: "4 * n + x \<le> card (free_addrs (k_mem k))"
  obtains m lev' where "allocate (KERN_MEM + r) va (int ms) k = Inr (Ret 0, set_mem m k)"
    "space lev' r D m" "x \<le> card (free_addrs m)"
    "\<And>a. a \<in> reg (leaf_entry (k_mem k) 4 r) D \<Longrightarrow>
       a \<in> reg (leaf_entry m 4 r) D \<and> ldb (KERN_MEM + r) a m = ldb (KERN_MEM + r) a (k_mem k)"
    "\<And>w. (\<And>j. j < n \<Longrightarrow> vpn w \<noteq> vpn (seg_addr va j)) \<Longrightarrow> leaf_entry m 4 r w = leaf_entry (k_mem k) 4 r w"
    "\<And>b. b \<in> span va ms \<Longrightarrow> user_addr b \<and> leaf_entry m 4 r b \<noteq> 0"
proof -
  let ?m = "k_mem k" and ?L = "leaf_entry (k_mem k) 4 r" and ?B = "\<lambda>a. ldb (KERN_MEM + r) a (k_mem k)"
  let ?v = "of_nat (4096 * seg_page va) :: u64"
  have nle: "n \<le> 2 ^ 36"
  proof -
    have "n \<le> (unat va + ms + 4095) div 4096" by (simp add: n seg_pages_def)
    also have "\<dots> \<le> 0x7ffe000 div 4096" using ok by (intro div_le_mono) simp
    finally show ?thesis by simp
  qed
  have "set (pages ?v n) = seg_addr va ` {..<n}" unfolding set_pages seg_addr_def by (rule refl)
  then have "\<forall>u \<in> set (pages ?v n @ []). user_addr u" using seg_pages_user(2) [OF ok] n by auto
  then have good: "map_room D (reg ?L D) ?B x r (pages ?v n @ []) ?m"
    using sp room unfolding map_room_def by (intro exI [of _ lev]) simp
  have old: "?L (?v + 4096 * of_nat j) = 0" if "j < n" for j using free [OF that] by (simp add: seg_addr_def)
  obtain m where m: "map_range (user_body r) n ?v ?m = Inr m" "map_room D (reg ?L D) ?B x r [] m"
    "\<And>j. j < n \<Longrightarrow> \<exists>u. leaf_entry m 4 r (?v + 4096 * of_nat j) = fst (mem_allocate u) OR 7"
    "\<And>w. (\<And>j. j < n \<Longrightarrow> vpn w \<noteq> vpn (?v + 4096 * of_nat j)) \<Longrightarrow> leaf_entry m 4 r w = ?L w"
    using ks.map_range_ok [OF good nle old] by blast
  obtain lev' where lev': "space lev' r D m" "x \<le> card (free_addrs m)" "reg ?L D \<subseteq> reg (leaf_entry m 4 r) D"
    "\<forall>a \<in> reg ?L D. ldb (KERN_MEM + r) a m = ?B a"
    using m(2) by (auto simp: map_room_def)
  have run: "allocate (KERN_MEM + r) va (int ms) k = Inr (Ret 0, set_mem m k)"
    unfolding allocate_bounds [OF ok] using allocate_loop_range [OF good nle old] m(1) n by simp
  have mapped: "user_addr b \<and> leaf_entry m 4 r b \<noteq> 0" if b: "b \<in> span va ms" for b
  proof -
    obtain j where j: "j < n" "user_addr b" "vpn b = vpn (seg_addr va j)" by (rule seg_span [OF ok b]) (use n in blast)
    then have "leaf_entry m 4 r b = leaf_entry m 4 r (?v + 4096 * of_nat j)"
      using leaf_entry_vpn [OF j(3), of m r] by (simp add: seg_addr_def)
    then show ?thesis using m(3) [OF j(1)] j(2) entry_nonzero(1) by auto
  qed
  have kept: "a \<in> reg (leaf_entry m 4 r) D \<and> ldb (KERN_MEM + r) a m = ?B a" if "a \<in> reg ?L D" for a
    using that lev'(3,4) by blast
  have others: "leaf_entry m 4 r w = ?L w" if "\<And>j. j < n \<Longrightarrow> vpn w \<noteq> vpn (seg_addr va j)" for w
    using that by (intro m(4)) (simp add: seg_addr_def)
  show thesis by (rule that [OF run lev'(1,2) kept others mapped])
qed

text \<open>
  Loading one segment: its bytes come from the file and are zero from \<^verbatim>\<open>p_filesz\<close> on, what was mapped
  before keeps its bytes, and its area is the last of the list.
\<close>

lemma load_segment_ok:
  assumes t: "t_pml4e_addr (tasks (k_sched k) t) = KERN_MEM + r" "t_mm (tasks (k_sched k) t) = mm"
    and sp: "space lev r D (k_mem k)" and ok: "seg_ok D elf ph" and l: "vma_list mm k"
    and free: "\<And>j. j < ph_pages ph \<Longrightarrow> leaf_entry (k_mem k) 4 r (ph_addr ph j) = 0"
    and room: "4 * ph_pages ph + Suc x \<le> card (free_addrs (k_mem k))"
  obtains k' lev' v where "load_segment t elf ph k = Inr (Ret 0, k')" "space lev' r D (k_mem k')"
    "x \<le> card (free_addrs (k_mem k'))" "k_sched k' = k_sched k" "vma_list mm k'"
    "\<And>i. i < unat (p_memsz ph) \<Longrightarrow> ldb (KERN_MEM + r) (p_vaddr ph + of_nat i) (k_mem k') =
       (if i < unat (p_filesz ph) then ldb (KERN_MEM + r) (elf + p_offset ph + of_nat i) (k_mem k) else Inr 0)"
    "\<And>a. a \<in> reg (leaf_entry (k_mem k) 4 r) D \<Longrightarrow>
       a \<in> reg (leaf_entry (k_mem k') 4 r) D \<and> ldb (KERN_MEM + r) a (k_mem k') = ldb (KERN_MEM + r) a (k_mem k)"
    "\<And>w. (\<And>j. j < ph_pages ph \<Longrightarrow> vpn w \<noteq> vpn (ph_addr ph j)) \<Longrightarrow>
       leaf_entry (k_mem k') 4 r w = leaf_entry (k_mem k) 4 r w"
    "ph_span ph \<subseteq> reg (leaf_entry (k_mem k') 4 r) D"
    "vmas k' v = \<lparr>vm_start = p_vaddr ph, vm_end = p_vaddr ph + p_memsz ph, vm_mmsz = p_memsz ph, vm_file = elf,
       vm_offset = p_offset ph, vm_next = 0\<rparr>"
    "v \<noteq> 0 \<Longrightarrow> vma_tail (vmas k') (vma_addr (mms k' mm)) = Some v"
proof -
  note ok' = seg_okD [OF ok]
  let ?va = "p_vaddr ph" and ?ms = "unat (p_memsz ph)" and ?fs = "unat (p_filesz ph)" and ?src = "elf + p_offset ph"
  let ?L = "leaf_entry (k_mem k) 4 r" and ?p = "KERN_MEM + r"
  obtain m lev' where m: "allocate ?p ?va (int ?ms) k = Inr (Ret 0, set_mem m k)" "space lev' r D m"
    "Suc x \<le> card (free_addrs m)"
    "\<And>a. a \<in> reg ?L D \<Longrightarrow> a \<in> reg (leaf_entry m 4 r) D \<and> ldb ?p a m = ldb ?p a (k_mem k)"
    "\<And>w. (\<And>j. j < ph_pages ph \<Longrightarrow> vpn w \<noteq> vpn (ph_addr ph j)) \<Longrightarrow> leaf_entry m 4 r w = ?L w"
    "\<And>b. b \<in> span ?va ?ms \<Longrightarrow> user_addr b \<and> leaf_entry m 4 r b \<noteq> 0"
    by (rule allocate_segment [OF sp ok'(1) ph_pages_def free [unfolded ph_addr_def] room]) (unfold ph_addr_def, blast+)
  have ms: "?ms \<le> 2 ^ 63" using ok'(1) by simp
  obtain m2 m3 where m3: "mem_fill (stb ?p) ?ms ?va 0 m = Inr m2" "mem_copy (ldb ?p) (stb ?p) ?fs ?va ?src m2 = Inr m3"
    "space lev' r D m3" "leaf_entry m3 4 r = leaf_entry m 4 r" "memmap m3 = memmap m"
    "\<And>i. i < ?ms \<Longrightarrow> ldb ?p (?va + of_nat i) m3 = (if i < ?fs then ldb ?p (?src + of_nat i) m else Inr 0)"
    "\<And>b. b \<in> reg (leaf_entry m 4 r) D \<Longrightarrow> b \<notin> span ?va ?ms \<Longrightarrow> ldb ?p b m3 = ldb ?p b m"
    by (rule load_bytes [OF m(2,6) ok'(3,2) ms]) blast+
  let ?k = "set_mem m3 k"
  have k: "k_mem ?k = m3" "k_sched ?k = k_sched k" "tarfs_ind ?k = tarfs_ind k" by (simp_all add: set_mem_def)
  have l': "vma_list mm ?k" using l by (simp add: vma_list_def set_mem_def)
  have sp': "space lev' r D (k_mem ?k)" and room': "Suc x \<le> card (free_addrs (k_mem ?k))"
    using m3(3) m(3) free_addrs_memmap [OF m3(5)] k(1) by simp_all
  obtain v k2 where v0: "allocate_vma mm ?k = Inr (v, k2)" "space lev' r D (k_mem k2)"
    "x \<le> card (free_addrs (k_mem k2))" "leaf_entry (k_mem k2) 4 r = leaf_entry (k_mem ?k) 4 r" "k_sched k2 = k_sched ?k"
    "\<And>a. a \<in> reg (leaf_entry (k_mem ?k) 4 r) D \<Longrightarrow> ldb ?p a (k_mem k2) = ldb ?p a (k_mem ?k)"
    "\<And>f :: vm_struct \<Rightarrow> vm_struct. vm_next (f (vmas k2 v)) = 0 \<Longrightarrow> vma_list mm (set_vma v f k2) \<and>
       (v \<noteq> 0 \<longrightarrow> vma_tail (vmas (set_vma v f k2)) (vma_addr (mms k2 mm)) = Some v)"
    by (rule allocate_vma_ok [OF l' sp' room']) blast+
  note v = v0 [unfolded k m3(4)]
  let ?f = "\<lambda>vm :: vm_struct. vm\<lparr>vm_start := ?va, vm_end := ?va + p_memsz ph, vm_mmsz := p_memsz ph, vm_next := 0,
      vm_file := elf, vm_offset := p_offset ph\<rparr>"
  let ?k' = "set_vma v ?f k2"
  have mem: "k_mem ?k' = k_mem k2" by (simp add: set_vma_def)
  have run: "load_segment t elf ph k = Inr (Ret 0, ?k')"
    unfolding load_segment_def Let_def t ok'(4,5) m(1) and_then_def
    using m3(1,2) v(1) by (simp add: set_mem_def)
  have src: "?src + of_nat i \<in> reg ?L D" if "i < ?fs" for i using span_mem [OF that] ok'(3) by (auto simp: reg_def)
  have to: "?va + of_nat i \<in> reg (leaf_entry m 4 r) D" if "i < ?ms" for i
    using m(6) [OF span_mem [OF that]] by (simp add: reg_def)
  have outside: "a \<notin> span ?va ?ms" if "a \<in> reg ?L D" for a
  proof
    assume a: "a \<in> span ?va ?ms"
    obtain j where j: "j < ph_pages ph" "user_addr a" "vpn a = vpn (ph_addr ph j)"
      by (rule seg_span [OF ok'(1) a]) (unfold ph_pages_def ph_addr_def, blast)
    then have "?L a = 0" using leaf_entry_vpn [OF j(3), of "k_mem k" r] free by simp
    then show False using that user_not_kern [OF j(2)] by (simp add: reg_def win_def)
  qed
  show thesis
  proof (rule that [OF run])
    show "vma_list mm ?k'" "v \<noteq> 0 \<Longrightarrow> vma_tail (vmas ?k') (vma_addr (mms ?k' mm)) = Some v"
      using v(7) [of ?f] by (simp_all add: set_vma_def)
    show "ldb ?p (?va + of_nat i) (k_mem ?k') = (if i < ?fs then ldb ?p (?src + of_nat i) (k_mem k) else Inr 0)"
      if "i < ?ms" for i
      using m3(6) [OF that] v(6) [OF to [OF that]] m(4) [OF src, of i] unfolding mem by simp
    show "a \<in> reg (leaf_entry (k_mem ?k') 4 r) D \<and> ldb ?p a (k_mem ?k') = ldb ?p a (k_mem k)" if "a \<in> reg ?L D" for a
      using m(4) [OF that] m3(7) [OF _ outside [OF that]] v(6) [of a] unfolding mem v(4) by simp
    show "leaf_entry (k_mem ?k') 4 r w = ?L w" if "\<And>j. j < ph_pages ph \<Longrightarrow> vpn w \<noteq> vpn (ph_addr ph j)" for w
      unfolding mem v(4) by (rule m(5) [OF that])
    show "ph_span ph \<subseteq> reg (leaf_entry (k_mem ?k') 4 r) D"
      unfolding mem v(4) ph_span_def using m(6) by (auto simp: reg_def)
  qed (use v(2,3,5) mem in \<open>simp_all add: set_vma_def\<close>)
qed

section \<open>All segments\<close>

lemma mem_load_cong:
  "(\<And>b. b \<in> span a n \<Longrightarrow> ld b m = ld' b m') \<Longrightarrow> mem_load ld n a m = mem_load ld' n a m'"
proof (induction n arbitrary: a)
  case (Suc n)
  have "ld a m = ld' a m'" "mem_load ld n (a + 1) m = mem_load ld' n (a + 1) m'"
    using Suc.prems by (auto intro!: Suc.IH simp: span_Suc)
  then show ?case by simp
qed simp

lemma span_part:
  assumes "d + n \<le> N"
  shows "span (a + of_nat d) n \<subseteq> span a N"
proof
  fix b assume "b \<in> span (a + of_nat d) n"
  then obtain i where "i < n" "b = a + of_nat (d + i)" by (auto simp: span_def add.assoc)
  then show "b \<in> span a N" using assms span_mem [of "d + i" N a] by simp
qed

lemma ld_field_cong:
  assumes "\<And>b. b \<in> span a N \<Longrightarrow> ldb p b m = ldb p' b m'" "d + n \<le> N"
  shows "ld_field n p (a + of_nat d) m = ld_field n p' (a + of_nat d) m'"
proof -
  have "mem_load (ldb p) n (a + of_nat d) m = mem_load (ldb p') n (a + of_nat d) m'"
    using span_part [OF assms(2), of a] assms(1) by (intro mem_load_cong) blast
  then show ?thesis by (simp add: ld_field_def)
qed

lemma ld_pheader_cong:
  assumes "\<And>b. b \<in> span a 56 \<Longrightarrow> ldb p b m = ldb p' b m'"
  shows "ld_pheader p a m = ld_pheader p' a m'"
  using ld_field_cong [of a 56 p m p' m' 0 4, OF assms] ld_field_cong [of a 56 p m p' m' 8 8, OF assms]
    ld_field_cong [of a 56 p m p' m' 16 8, OF assms] ld_field_cong [of a 56 p m p' m' 32 8, OF assms]
    ld_field_cong [of a 56 p m p' m' 40 8, OF assms]
  by (simp add: ld_pheader_def)

text \<open>The program headers \<open>phs\<close> lie at \<open>a\<close>, in the kernel's window.\<close>

fun headers :: "u64 set \<Rightarrow> ptr \<Rightarrow> u64 \<Rightarrow> pheader list \<Rightarrow> kmem \<Rightarrow> bool" where
  "headers D p a [] m \<longleftrightarrow> True"
| "headers D p a (ph # phs) m \<longleftrightarrow> span a 56 \<subseteq> win D \<and> ld_pheader p a m = Inr ph \<and> headers D p (a + 56) phs m"

lemma headers_cong:
  assumes "\<And>b. b \<in> win D \<Longrightarrow> ldb p b m = ldb p' b m'"
  shows "headers D p a phs m = headers D p' a phs m'"
proof (induction phs arbitrary: a)
  case (Cons ph phs)
  have "ld_pheader p a m = ld_pheader p' a m'" if "span a 56 \<subseteq> win D"
    using that assms by (intro ld_pheader_cong) blast
  then show ?case using Cons.IH by auto
qed simp

text \<open>The segments to load, and when two of them share no page.\<close>

definition loads :: "pheader list \<Rightarrow> pheader list" where
  "loads phs = filter (\<lambda>ph. p_type ph = 1) phs"

lemma loads_simps [simp]: "loads [] = []"
  "loads (ph # phs) = (if p_type ph = 1 then ph # loads phs else loads phs)"
  by (simp_all add: loads_def)

definition apart :: "pheader \<Rightarrow> pheader \<Rightarrow> bool" where
  "apart a b \<longleftrightarrow> (\<forall>i < ph_pages a. \<forall>j < ph_pages b. vpn (ph_addr b j) \<noteq> vpn (ph_addr a i))"

text \<open>The pages that loading takes at most: four for every page of a segment, and one for the list of areas.\<close>

definition load_cost :: "pheader list \<Rightarrow> nat" where
  "load_cost phs = (\<Sum>ph \<leftarrow> phs. 4 * ph_pages ph + 1)"

definition seg_byte :: "ptr \<Rightarrow> u64 \<Rightarrow> kmem \<Rightarrow> pheader \<Rightarrow> nat \<Rightarrow> u8 res" where
  "seg_byte p elf m ph i = (if i < unat (p_filesz ph) then ldb p (elf + p_offset ph + of_nat i) m else Inr 0)"

lemma seg_byte_cong:
  assumes "seg_ok D elf ph" "\<And>b. b \<in> win D \<Longrightarrow> ldb p' b m' = ldb p b m"
  shows "seg_byte p' elf m' ph i = seg_byte p elf m ph i"
  using assms(2) span_mem [of i "unat (p_filesz ph)" "elf + p_offset ph"] seg_okD(3) [OF assms(1)]
  by (auto simp: seg_byte_def)

lemma elf_loop_ok:
  assumes t: "t_pml4e_addr (tasks (k_sched k) t) = KERN_MEM + r" "t_mm (tasks (k_sched k) t) = mm"
    and sp: "space lev r D (k_mem k)" and l: "vma_list mm k" and hd: "headers D (KERN_MEM + r) a phs (k_mem k)"
    and ok: "\<And>ph. ph \<in> set (loads phs) \<Longrightarrow> seg_ok D elf ph" and ap: "sorted_wrt apart (loads phs)"
    and free: "\<And>ph j. ph \<in> set (loads phs) \<Longrightarrow> j < ph_pages ph \<Longrightarrow> leaf_entry (k_mem k) 4 r (ph_addr ph j) = 0"
    and room: "load_cost (loads phs) + x \<le> card (free_addrs (k_mem k))"
  shows "\<exists>k' lev'. elf_loop (length phs) t elf a k = Inr (Ret 0, k') \<and> space lev' r D (k_mem k') \<and>
    x \<le> card (free_addrs (k_mem k')) \<and> k_sched k' = k_sched k \<and>
    (\<forall>ph \<in> set (loads phs). \<forall>i < unat (p_memsz ph).
       ldb (KERN_MEM + r) (p_vaddr ph + of_nat i) (k_mem k') = seg_byte (KERN_MEM + r) elf (k_mem k) ph i) \<and>
    (\<forall>b \<in> reg (leaf_entry (k_mem k) 4 r) D.
       b \<in> reg (leaf_entry (k_mem k') 4 r) D \<and> ldb (KERN_MEM + r) b (k_mem k') = ldb (KERN_MEM + r) b (k_mem k))"
  using assms
proof (induction phs arbitrary: a k lev)
  case (Cons ph phs)
  let ?p = "KERN_MEM + r"
  have rd: "ld_pheader (t_pml4e_addr (tasks (k_sched k) t)) a (k_mem k) = Inr ph" using Cons.prems(1,5) by simp
  show ?case
  proof (cases "p_type ph = 1")
    case False
    then have lo: "loads (ph # phs) = loads phs" by simp
    have "elf_loop (length (ph # phs)) t elf a k = elf_loop (length phs) t elf (a + 56) k" using rd False by simp
    moreover note Cons.IH [OF Cons.prems(1-4), of "a + 56"]
    ultimately show ?thesis using Cons.prems(5-9) unfolding lo by simp
  next
    case True
    then have lo: "loads (ph # phs) = ph # loads phs" by simp
    have seg: "seg_ok D elf ph" "\<And>j. j < ph_pages ph \<Longrightarrow> leaf_entry (k_mem k) 4 r (ph_addr ph j) = 0"
      "4 * ph_pages ph + Suc (load_cost (loads phs) + x) \<le> card (free_addrs (k_mem k))"
      using Cons.prems(6,8,9) unfolding lo by (simp_all add: load_cost_def)
    obtain k1 lev1 where k1: "load_segment t elf ph k = Inr (Ret 0, k1)" "space lev1 r D (k_mem k1)"
      "load_cost (loads phs) + x \<le> card (free_addrs (k_mem k1))" "k_sched k1 = k_sched k" "vma_list mm k1"
      "\<And>i. i < unat (p_memsz ph) \<Longrightarrow> ldb ?p (p_vaddr ph + of_nat i) (k_mem k1) = seg_byte ?p elf (k_mem k) ph i"
      "\<And>a. a \<in> reg (leaf_entry (k_mem k) 4 r) D \<Longrightarrow>
         a \<in> reg (leaf_entry (k_mem k1) 4 r) D \<and> ldb ?p a (k_mem k1) = ldb ?p a (k_mem k)"
      "\<And>w. (\<And>j. j < ph_pages ph \<Longrightarrow> vpn w \<noteq> vpn (ph_addr ph j)) \<Longrightarrow>
         leaf_entry (k_mem k1) 4 r w = leaf_entry (k_mem k) 4 r w"
      "ph_span ph \<subseteq> reg (leaf_entry (k_mem k1) 4 r) D"
      unfolding seg_byte_def by (rule load_segment_ok [OF Cons.prems(1-3) seg(1) Cons.prems(4) seg(2,3)]) blast+
    have win: "ldb ?p b (k_mem k1) = ldb ?p b (k_mem k)" if "b \<in> win D" for b
      using k1(7) [of b] that by (simp add: reg_def)
    have hd1: "headers D ?p (a + 56) phs (k_mem k1)" using Cons.prems(5) headers_cong [OF win] by simp
    have free1: "leaf_entry (k_mem k1) 4 r (ph_addr q j) = 0" if q: "q \<in> set (loads phs)" "j < ph_pages q" for q j
    proof -
      have "apart ph q" using Cons.prems(7) q(1) unfolding lo by simp
      then have "leaf_entry (k_mem k1) 4 r (ph_addr q j) = leaf_entry (k_mem k) 4 r (ph_addr q j)"
        using q(2) by (intro k1(8)) (auto simp: apart_def)
      then show ?thesis using Cons.prems(8) [of q j] q unfolding lo by simp
    qed
    obtain k' lev' where k': "elf_loop (length phs) t elf (a + 56) k1 = Inr (Ret 0, k')" "space lev' r D (k_mem k')"
      "x \<le> card (free_addrs (k_mem k'))" "k_sched k' = k_sched k1"
      "\<And>q i. q \<in> set (loads phs) \<Longrightarrow> i < unat (p_memsz q) \<Longrightarrow>
         ldb ?p (p_vaddr q + of_nat i) (k_mem k') = seg_byte ?p elf (k_mem k1) q i"
      "\<And>b. b \<in> reg (leaf_entry (k_mem k1) 4 r) D \<Longrightarrow>
         b \<in> reg (leaf_entry (k_mem k') 4 r) D \<and> ldb ?p b (k_mem k') = ldb ?p b (k_mem k1)"
      using Cons.IH [of k1 lev1 "a + 56"] Cons.prems(1,2,6,7) k1(2-5) hd1 free1 unfolding lo by auto
    have "elf_loop (length (ph # phs)) t elf a k = Inr (Ret 0, k')"
      using rd True k1(1) k'(1) by (simp add: and_then_def)
    moreover have "ldb ?p (p_vaddr q + of_nat i) (k_mem k') = seg_byte ?p elf (k_mem k) q i"
      if q: "q \<in> set (loads (ph # phs))" "i < unat (p_memsz q)" for q i
    proof (cases "q \<in> set (loads phs)")
      case True
      have "seg_byte ?p elf (k_mem k1) q i = seg_byte ?p elf (k_mem k) q i"
        by (rule seg_byte_cong [OF Cons.prems(6) [OF q(1)] win])
      with True show ?thesis using k'(5) q(2) by simp
    next
      case False
      then have "q = ph" using q(1) unfolding lo by simp
      then show ?thesis
        using k1(6) q(2) k'(6) [OF subsetD [OF k1(9)]] span_mem [of i "unat (p_memsz ph)" "p_vaddr ph"]
        by (simp add: ph_span_def)
    qed
    ultimately show ?thesis
      using k'(2,3,4,6) k1(4,7) by (intro exI [of _ k'] exI [of _ lev']) simp
  qed
qed auto

text \<open>A whole program: the segments its headers name, and the entry point.\<close>

definition elf_file :: "u64 set \<Rightarrow> ptr \<Rightarrow> u64 \<Rightarrow> u64 \<Rightarrow> pheader list \<Rightarrow> kmem \<Rightarrow> bool" where
  "elf_file D p elf entry phs m \<longleftrightarrow> span elf 64 \<subseteq> win D \<and>
     (\<exists>phoff. ld_field 8 p (elf + 32) m = Inr phoff \<and> headers D p (elf + of_nat phoff) phs m) \<and>
     ld_field 2 p (elf + 56) m = Inr (length phs) \<and> (\<exists>e. ld_field 8 p (elf + 24) m = Inr e \<and> entry = of_nat e) \<and>
     (\<forall>ph \<in> set (loads phs). seg_ok D elf ph) \<and> sorted_wrt apart (loads phs)"

lemma elf_file_cong:
  assumes "\<And>b. b \<in> win D \<Longrightarrow> ldb p b m = ldb p' b m'" "elf_file D p elf entry phs m"
  shows "elf_file D p' elf entry phs m'"
proof -
  have "ldb p b m = ldb p' b m'" if "b \<in> span elf 64" for b using that assms by (auto simp: elf_file_def)
  from ld_field_cong [of elf 64 p m p' m' 32 8, OF this] ld_field_cong [of elf 64 p m p' m' 56 2, OF this]
    ld_field_cong [of elf 64 p m p' m' 24 8, OF this]
  show ?thesis using assms(2) headers_cong [OF assms(1)] unfolding elf_file_def by simp
qed

lemma elf_load_ok:
  assumes t: "t_pml4e_addr (tasks (k_sched k) t) = KERN_MEM + r" "t_mm (tasks (k_sched k) t) = mm"
    and sp: "space lev r D (k_mem k)" and l: "vma_list mm k"
    and found: "check_file name (tarfs_ind k) = Inr elf" "elf \<noteq> 0"
    and prog: "elf_file D (KERN_MEM + r) elf entry phs (k_mem k)"
    and free: "\<And>ph j. ph \<in> set (loads phs) \<Longrightarrow> j < ph_pages ph \<Longrightarrow> leaf_entry (k_mem k) 4 r (ph_addr ph j) = 0"
    and room: "load_cost (loads phs) + x \<le> card (free_addrs (k_mem k))"
  obtains k' lev' where "elf_load t name k = Inr (Ret 0, k')" "space lev' r D (k_mem k')"
    "x \<le> card (free_addrs (k_mem k'))" "k_sched k' = upd_task t (\<lambda>x. x\<lparr>t_entry_pt := entry\<rparr>) (k_sched k)"
    "\<And>ph i. ph \<in> set (loads phs) \<Longrightarrow> i < unat (p_memsz ph) \<Longrightarrow>
       ldb (KERN_MEM + r) (p_vaddr ph + of_nat i) (k_mem k') = seg_byte (KERN_MEM + r) elf (k_mem k) ph i"
    "\<And>b. b \<in> reg (leaf_entry (k_mem k) 4 r) D \<Longrightarrow>
       b \<in> reg (leaf_entry (k_mem k') 4 r) D \<and> ldb (KERN_MEM + r) b (k_mem k') = ldb (KERN_MEM + r) b (k_mem k)"
proof -
  let ?p = "KERN_MEM + r"
  obtain phoff e where f: "ld_field 8 ?p (elf + 32) (k_mem k) = Inr phoff" "headers D ?p (elf + of_nat phoff) phs (k_mem k)"
    "ld_field 2 ?p (elf + 56) (k_mem k) = Inr (length phs)" "ld_field 8 ?p (elf + 24) (k_mem k) = Inr e" "entry = of_nat e"
    and w: "span elf 64 \<subseteq> win D" and segs: "\<And>ph. ph \<in> set (loads phs) \<Longrightarrow> seg_ok D elf ph" "sorted_wrt apart (loads phs)"
    using prog unfolding elf_file_def by blast
  obtain k1 lev' where k1: "elf_loop (length phs) t elf (elf + of_nat phoff) k = Inr (Ret 0, k1)" "space lev' r D (k_mem k1)"
    "x \<le> card (free_addrs (k_mem k1))" "k_sched k1 = k_sched k"
    "\<And>ph i. ph \<in> set (loads phs) \<Longrightarrow> i < unat (p_memsz ph) \<Longrightarrow>
       ldb ?p (p_vaddr ph + of_nat i) (k_mem k1) = seg_byte ?p elf (k_mem k) ph i"
    "\<And>b. b \<in> reg (leaf_entry (k_mem k) 4 r) D \<Longrightarrow>
       b \<in> reg (leaf_entry (k_mem k1) 4 r) D \<and> ldb ?p b (k_mem k1) = ldb ?p b (k_mem k)"
    using elf_loop_ok [OF t sp l f(2) segs free room] by blast
  have "ldb ?p b (k_mem k1) = ldb ?p b (k_mem k)" if "b \<in> span elf 64" for b
    using k1(6) [of b] w that by (auto simp: reg_def)
  then have e: "ld_field 8 ?p (elf + 24) (k_mem k1) = Inr e"
    using ld_field_cong [of elf 64 ?p "k_mem k1" ?p "k_mem k" 24 8] f(4) by simp
  let ?k = "set_task t (\<lambda>x. x\<lparr>t_entry_pt := entry\<rparr>) k1"
  have "elf_load t name k = Inr (Ret 0, ?k)"
    using found t(1) f(1,3,5) k1(1) e by (simp add: elf_load_def Let_def and_then_def)
  then show thesis
    by (rule that) (use k1(2-6) in \<open>simp_all add: set_task_def\<close>)
qed

end
