(* ===== verification/Exec_Props.thy ===== *)
theory Exec_Props
  imports Load_Props CString_Props
begin

text \<open>
  The address space \<^verbatim>\<open>create_process\<close> builds: a new top-level table that shares the kernel's entry,
  a stack page, and the segments of the program.
\<close>

section \<open>A new top-level table\<close>

text \<open>The tables below the top level, and a new root.\<close>

definition clone_lev :: "(u64 \<rightharpoonup> nat) \<Rightarrow> u64 \<Rightarrow> (u64 \<rightharpoonup> nat)" where
  "clone_lev lev r = (\<lambda>b. if b = r then Some 4 else case lev b of Some k \<Rightarrow> if k < 4 then Some k else None | None \<Rightarrow> None)"

lemma clone_lev_Some:
  "clone_lev lev r b = Some k \<longleftrightarrow> b = r \<and> k = 4 \<or> b \<noteq> r \<and> lev b = Some k \<and> k < 4"
  by (auto simp: clone_lev_def split: option.splits)

lemma clone_wf:
  assumes wf: "pt_wf lev rk s" and j: "j < MAX_MEM" "\<not> page_avail s j" "lev (of_nat j * 4096) = None"
    and z: "\<And>i. i < 512 \<Longrightarrow> qmem s (elt (of_nat j * 4096) i) = 0" and i0: "i0 < 512"
    and r: "r = of_nat j * 4096" and t: "t = s\<lparr>qmem := (qmem s)(elt r i0 := qmem s (elt rk i0))\<rparr>"
  shows "pt_wf (clone_lev lev r) r t"
proof -
  note w = pt_wfD [OF wf]
  have fr: "frame r" using small_frame' [OF j(1)] r by simp
  have av: "page_avail t = page_avail s" "memmap_ok t = memmap_ok s"
    by (auto simp: t page_avail_def memmap_ok_def)
  have old: "qmem t (elt b i) = qmem s (elt b i)" if "frame b" "b \<noteq> r" "i < 512" for b i
    using that elt_inject [OF that(1) fr that(3) i0] by (simp add: t)
  have new: "qmem t (elt r i) = (if i = i0 then qmem s (elt rk i0) else 0)" if "i < 512" for i
    using that elt_inject [OF fr fr that i0] z [of i] by (simp add: t r)
  have rk: "lev rk = Some 4" "1 < (4 :: nat)" using w(2) by simp_all
  have in_r: "i = i0 \<and> qmem t (elt r i) = qmem s (elt rk i0) \<and> qmem s (elt rk i0) \<noteq> 0" if "i < 512" "qmem t (elt r i) \<noteq> 0" for i
    using that new by (auto split: if_splits)
  have low: "frame b \<and> b \<noteq> r \<and> lev b = Some k \<and> k < 4" if "clone_lev lev r b = Some k" "b \<noteq> r" for b k
    using that w(3) by (auto simp: clone_lev_Some)
  show ?thesis
  proof (rule pt_wfI)
    fix b k assume "clone_lev lev r b = Some k"
    then show "\<exists>j < MAX_MEM. b = of_nat j * 4096 \<and> \<not> page_avail t j"
      using w(4) [of b] j(1,2) r by (auto simp: clone_lev_Some av)
  next
    fix b k i assume b: "clone_lev lev r b = Some k" "1 < k" "i < 512" "qmem t (elt b i) \<noteq> 0"
    have "lev c = Some l \<Longrightarrow> l < 4 \<Longrightarrow> clone_lev lev r c = Some l" for c l
      using j(3) r by (auto simp: clone_lev_Some)
    moreover have "\<exists>c. qmem t (elt b i) = c OR 7 \<and> lev c = Some (k - 1) \<and> k - 1 < 4"
    proof (cases "b = r")
      case True
      then show ?thesis using in_r [OF b(3)] b(1,4) w(5) [OF rk i0] by (auto simp: clone_lev_Some)
    next
      case False
      then have l: "frame b" "lev b = Some k" "k < 4" using low [OF b(1)] by auto
      then show ?thesis using w(5) [OF l(2) b(2,3)] b(4) old [OF l(1) False b(3)] by auto
    qed
    ultimately show "\<exists>c. qmem t (elt b i) = c OR 7 \<and> clone_lev lev r c = Some (k - 1)" by blast
  next
    fix b k i b' k' i'
    assume b: "clone_lev lev r b = Some k" "1 < k" "i < 512" and b': "clone_lev lev r b' = Some k'" "1 < k'" "i' < 512"
      and nz: "qmem t (elt b i) \<noteq> 0" "qmem t (elt b i) = qmem t (elt b' i')"
    have other: False
      if "x < 512" "y < 512" "c \<noteq> r" "clone_lev lev r c = Some l" "1 < l" "qmem t (elt r x) \<noteq> 0"
        "qmem t (elt r x) = qmem t (elt c y)" for x y c l
    proof -
      have l: "frame c" "lev c = Some l" "l < 4" using low [OF that(4,3)] by auto
      have "qmem s (elt rk i0) \<noteq> 0" "qmem s (elt rk i0) = qmem s (elt c y)"
        using in_r [OF that(1,6)] that(7) old [OF l(1) that(3,2)] by auto
      then have "rk = c" using w(6) [OF rk i0 l(2) that(5,2)] by simp
      with l rk show False by simp
    qed
    show "b = b' \<and> i = i'"
    proof (cases "b = r"; cases "b' = r")
      assume "b = r" "b' = r"
      then show ?thesis using in_r [OF b(3)] in_r [OF b'(3)] nz by simp
    next
      assume "b = r" "b' \<noteq> r"
      then have False by (intro other [OF b(3) b'(3) _ b'(1,2)]) (use nz in auto)
      then show ?thesis ..
    next
      assume "b \<noteq> r" "b' = r"
      then have False by (intro other [OF b'(3) b(3) _ b(1,2)]) (use nz in auto)
      then show ?thesis ..
    next
      assume n: "b \<noteq> r" "b' \<noteq> r"
      have l: "frame b" "lev b = Some k" and l': "frame b'" "lev b' = Some k'"
        using low [OF b(1) n(1)] low [OF b'(1) n(2)] by auto
      show ?thesis
        using w(6) [OF l(2) b(2,3) l'(2) b'(2,3)] nz old [OF l(1) n(1) b(3)] old [OF l'(1) n(2) b'(3)] by simp
    qed
  next
    fix l and i :: u64 assume l: "page_avail t l" "i < 512"
    then have "of_nat l * 4096 \<noteq> r" using j(1,2) r page_addr_inject [of l j] by (auto simp: av page_avail_def)
    then show "qmem t (elt (of_nat l * 4096) i) = 0"
      using l w(7) [of l i] old [OF avail_frame] unfolding av by metis
  qed (use w(1) in \<open>simp_all add: av clone_lev_def\<close>)
qed

text \<open>What the new root maps: what the kernel's root maps in slot \<open>i0\<close>, and nothing else.\<close>

lemma clone_leaf:
  assumes wf: "pt_wf lev rk s" and j: "j < MAX_MEM" "\<not> page_avail s j" "lev (of_nat j * 4096) = None"
    and z: "\<And>i. i < 512 \<Longrightarrow> qmem s (elt (of_nat j * 4096) i) = 0" and i0: "i0 < 512"
    and r: "r = of_nat j * 4096" and t: "t = s\<lparr>qmem := (qmem s)(elt r i0 := qmem s (elt rk i0))\<rparr>"
  shows "leaf_entry t 4 r v = (if idx v 4 = i0 then leaf_entry s 4 rk v else 0)"
proof -
  have fr: "frame r" using small_frame' [OF j(1)] r by simp
  have ok: "memmap_ok t" using pt_wfD(1) [OF wf] by (simp add: t memmap_ok_def)
  have av: "page_avail t = page_avail s" by (auto simp: t page_avail_def)
  have old: "qmem t (elt b i) = qmem s (elt b i)" if "frame b" "b \<noteq> r" "i < 512" for b i
    using that elt_inject [OF that(1) fr that(3) i0] by (simp add: t)
  have tab: "qmem t (elt b i) = qmem s (elt b i)" if "lev b = Some l" "i < 512" for b l i
  proof -
    have "b \<noteq> r" using that(1) j(3) r by auto
    then show ?thesis by (rule old [OF pt_wfD(3) [OF wf that(1)] _ that(2)])
  qed
  have fre: "qmem t (elt (of_nat l * 4096) i) = qmem s (elt (of_nat l * 4096) i)" if "page_avail s l" "i < 512" for l i
    using old [OF avail_frame [OF that(1)] _ that(2)] j(1,2) r page_addr_inject [of l j] that(1) by (auto simp: page_avail_def)
  have rk: "lev rk = Some 4" using pt_wfD(2) [OF wf] .
  have le: "leaf_entry t 4 rk v = leaf_entry s 4 rk v" by (rule pt_wf_same_tables(3) [OF wf ok av tab fre])
  have e: "qmem t (elt r (idx v 4)) = (if idx v 4 = i0 then qmem s (elt rk i0) else 0)"
    using elt_inject [OF fr fr idx_less [of v 4] i0] z [of "idx v 4"] by (simp add: t r)
  have n: "4 = Suc (Suc (Suc (Suc 0)))" by simp
  show ?thesis
  proof (cases "idx v 4 = i0")
    case True
    then have "leaf_table t 4 r v = leaf_table t 4 rk v" using e tab [OF rk i0] by (simp add: n)
    then show ?thesis using True le by (simp add: leaf_entry_def)
  next
    case False
    then have "leaf_table t 4 r v = None" using e by (simp add: n)
    then show ?thesis using False by (simp add: leaf_entry_def)
  qed
qed

lemma user_idx:
  assumes "user_addr v"
  shows "idx v 4 \<noteq> 511"
proof -
  have "unat (drop_bit 39 v) = unat v div 2 ^ 39" by (simp add: drop_bit_eq_div unat_div)
  also have "\<dots> < 256" using assms by (simp add: user_addr_def word_less_nat_alt div_less_iff_less_mult)
  finally have lt: "unat (drop_bit 39 v) < 256" .
  have "unat (idx v 4) = unat (drop_bit 39 v) mod 512" by (simp add: idx_eq take_bit_eq_mod unat_mod)
  with lt show ?thesis by auto
qed

text \<open>Pages that were free hold zero, so clearing them changes nothing.\<close>

lemma zero_page_idem:
  assumes "frame a" "\<And>i. i < 512 \<Longrightarrow> qmem s (elt a i) = 0"
  shows "zero_page (KERN_MEM + a) s = s"
proof -
  have "kphys (elt (KERN_MEM + a) (of_nat i)) = elt a (of_nat i)" if "i < 512" for i
    using kphys_elt [OF assms(1) nat_idx [OF that]] .
  then have "(\<lambda>b. if \<exists>i < 512. b = kphys (elt (KERN_MEM + a) (of_nat i)) then 0 else qmem s b) = qmem s"
    using assms(2) nat_idx by (auto simp: fun_eq_iff)
  then show ?thesis by (simp add: zero_page_eq)
qed

section \<open>The pages of the task structure\<close>

lemma fold_invariant_eq: "(\<And>x. x \<in> set xs \<Longrightarrow> f x s = s) \<Longrightarrow> fold f xs s = s"
  by (induction xs) simp_all

lemma alloc_n_wf:
  assumes "pt_wf lev r s" "n \<le> card (free_addrs s)"
  shows "pt_wf lev r (snd (alloc_n mem_allocate n s)) \<and>
    card (free_addrs (snd (alloc_n mem_allocate n s))) = card (free_addrs s) - n \<and>
    free_addrs (snd (alloc_n mem_allocate n s)) \<subseteq> free_addrs s \<and>
    qmem (snd (alloc_n mem_allocate n s)) = qmem s \<and> pml4e (snd (alloc_n mem_allocate n s)) = pml4e s"
  using assms
proof (induction n arbitrary: s)
  case (Suc n)
  let ?s = "snd (mem_allocate s)"
  have al: "pt_wf lev r ?s" "card (free_addrs ?s) = card (free_addrs s) - 1" "free_addrs ?s \<subseteq> free_addrs s"
    using alloc_wf [OF Suc.prems(1)] Suc.prems(2) by auto
  have "snd (alloc_n mem_allocate (Suc n) s) = snd (alloc_n mem_allocate n ?s)" by (simp add: Let_def case_prod_beta)
  moreover have "n \<le> card (free_addrs ?s)" using al(2) Suc.prems(2) by simp
  note ih = Suc.IH [OF al(1) this]
  ultimately show ?case using subset_trans [OF _ al(3)] al(2) by (simp del: alloc_n.simps)
qed simp

lemma page_count_ten: "nat (page_count (10 * 4096) - 1) = 9" "0 < (10 * 4096 :: u64)"
  by (simp_all add: page_count_def)

lemma kmalloc_ten:
  assumes wf: "pt_wf lev r s" and room: "10 \<le> card (free_addrs s)"
    and j: "\<And>i. j \<le> i \<Longrightarrow> i < j + 10 \<Longrightarrow> page_avail s i" "\<And>i. i < j \<Longrightarrow> \<not> page_avail s i"
  obtains s' where "kmalloc (10 * 4096) s = (KERN_MEM + of_nat j * 4096, s')" "pt_wf lev r s'"
    "card (free_addrs s') = card (free_addrs s) - 10" "free_addrs s' \<subseteq> free_addrs s" "qmem s' = qmem s" "pml4e s' = pml4e s"
    "fold (\<lambda>i. zero_page (KERN_MEM + of_nat j * 4096 + 4096 * of_nat i)) [0..<10] s' = s'"
proof -
  let ?s = "snd (alloc_n mem_allocate (Suc 9) s)"
  have "snd (kmalloc (10 * 4096) s) = snd (alloc_n mem_allocate 9 (snd (mem_allocate s)))"
    unfolding kmalloc_def page_count_ten(1) Let_def case_prod_beta using page_count_ten(2) by (simp only: if_True snd_conv)
  moreover have "?s = snd (alloc_n mem_allocate 9 (snd (mem_allocate s)))"
    by (simp only: alloc_n.simps Let_def case_prod_beta snd_conv)
  ultimately have k: "snd (kmalloc (10 * 4096) s) = ?s" by simp
  have "fst (kmalloc (10 * 4096) s) = KERN_MEM + of_nat j * 4096"
    using kmalloc_contiguous [OF pt_wfD(1) [OF wf] page_count_ten(2), of 10 j] j by simp
  with k have "kmalloc (10 * 4096) s = (KERN_MEM + of_nat j * 4096, ?s)" by (metis prod.collapse)
  moreover have "Suc 9 \<le> card (free_addrs s)" using room by simp
  note al = alloc_n_wf [OF wf this]
  moreover have "fold (\<lambda>i. zero_page (KERN_MEM + of_nat j * 4096 + 4096 * of_nat i)) [0..<10] ?s = ?s"
  proof (rule fold_invariant_eq)
    fix i assume "i \<in> set [0..<10]"
    then have a: "page_avail s (j + i)" using j(1) by simp
    have e: "KERN_MEM + of_nat j * 4096 + 4096 * of_nat i = KERN_MEM + of_nat (j + i) * 4096" by (simp add: algebra_simps)
    show "zero_page (KERN_MEM + of_nat j * 4096 + 4096 * of_nat i) ?s = ?s"
      unfolding e using zero_page_idem [OF avail_frame [OF a], of ?s] pt_wfD(7) [OF wf a] al by (simp del: alloc_n.simps)
  qed
  ultimately show thesis by (intro that) (use al in \<open>simp_all del: alloc_n.simps\<close>)
qed

section \<open>The new address space\<close>

lemma win_quad:
  assumes "v \<in> win D" "\<And>a. a \<in> D \<Longrightarrow> frame a"
  obtains b i where "b \<in> D" "i < 512" "quad (kphys v) = elt b i"
proof -
  let ?b = "page_mask (kphys v)"
  have b: "?b \<in> D" "frame ?b" using assms by (auto simp: win_def)
  then obtain j where j: "j < MAX_MEM" "?b = of_nat j * 4096" by (auto elim: frameE)
  have "unat (?b + kphys v mod 4096) div 4096 = j"
    using frame_off(1) [OF b(2), of "kphys v"] j page_addr_unat by simp
  then have "unat (kphys v) div 4096 = j" unfolding mask_off .
  then show thesis using quad_page [OF j(1), of "kphys v"] j(2) b(1) that by metis
qed

lemma ldb_win:
  assumes "v \<in> win D"
  shows "ldb p v m = Inr (get_byte (qmem m (quad (kphys v))) (lane (kphys v)))"
  using assms by (simp add: win_def ldb_def translate_def)

lemma new_pml4_space:
  assumes wf: "pt_wf lev rk (k_mem k)" and pml4: "pml4e (k_mem k) = KERN_MEM + rk"
    and D: "\<And>a. a \<in> D \<Longrightarrow> data_frame lev (k_mem k) a" and room: "Suc x \<le> card (free_addrs (k_mem k))"
  obtains r m where "new_pml4 k = (r, set_mem m k)" "r \<in> free_addrs (k_mem k)"
    "space (clone_lev lev r) r D m" "x \<le> card (free_addrs m)"
    "\<And>v. leaf_entry m 4 r v = (if idx v 4 = 511 then leaf_entry (k_mem k) 4 rk v else 0)"
    "\<And>v p p'. v \<in> win D \<Longrightarrow> ldb p v m = ldb p' v (k_mem k)"
proof -
  let ?m = "k_mem k" let ?r = "fst (mem_allocate ?m)" and ?s = "snd (mem_allocate ?m)"
  have al: "pt_wf lev rk ?s" "?r \<in> free_addrs ?m" "card (free_addrs ?s) = card (free_addrs ?m) - 1"
    "free_addrs ?s = free_addrs ?m - {?r}" and le: "\<And>v. leaf_entry ?s 4 rk v = leaf_entry ?m 4 rk v"
    using alloc_wf [OF wf] room by auto
  obtain j where j: "page_avail ?m j" "?r = of_nat j * 4096" using al(2) by (auto simp: free_addrs_def)
  then have jm: "j < MAX_MEM" "lev (of_nat j * 4096) = None" using avail_not_table [OF wf j(1)] by (auto simp: page_avail_def)
  have nav: "\<not> page_avail ?s j" using al(4) j(2) by (auto simp: free_addrs_def)
  have z: "qmem ?s (elt (of_nat j * 4096) i) = 0" if "i < 512" for i using pt_wfD(7) [OF wf j(1) that] by simp
  have fr: "frame ?r" "frame rk" using avail_frame [OF j(1)] j(2) pt_wfD(2,3) [OF wf] by auto
  let ?t = "?s\<lparr>qmem := (qmem ?s)(elt ?r 511 := qmem ?s (elt rk 511))\<rparr>"
  have lt: "(511 :: u64) < 512" by simp
  have "zero_page (KERN_MEM + ?r) ?s = ?s" using zero_page_idem [OF fr(1), of ?s] z j(2) by simp
  then have run: "new_pml4 k = (?r, set_mem ?t k)"
    using pml4 by (simp add: new_pml4_def case_prod_beta Let_def stq_table [OF fr(1) lt] ldq_table [OF fr(2) lt])
  have root: "pt_wf (clone_lev lev ?r) ?r ?t" by (rule clone_wf [OF al(1) jm(1) nav jm(2) z lt j(2) refl])
  have leaf: "leaf_entry ?t 4 ?r v = (if idx v 4 = 511 then leaf_entry ?m 4 rk v else 0)" for v
    using clone_leaf [OF al(1) jm(1) nav jm(2) z lt j(2) refl] le by simp
  have ft: "free_addrs ?t = free_addrs ?s" by (simp add: free_addrs_def page_avail_def)
  have dt: "data_frame (clone_lev lev ?r) ?t a" "a \<noteq> ?r" if "a \<in> D" for a
    using D [OF that] al(2,4) ft by (auto simp: data_frame_def clone_lev_def)
  have sp: "space (clone_lev lev ?r) ?r D ?t"
  proof -
    have "leaf_entry ?t 4 ?r v = 0" if "user_addr v" for v using leaf user_idx [OF that] by simp
    then show ?thesis unfolding space_def using root dt(1) by blast
  qed
  have w: "ldb p v ?t = ldb p' v ?m" if v: "v \<in> win D" for v p p'
  proof -
    obtain b i where b: "b \<in> D" "i < 512" "quad (kphys v) = elt b i"
      by (rule win_quad [OF v]) (use D in \<open>auto simp: data_frame_def\<close>)
    then have "frame b" using D by (simp add: data_frame_def)
    then have "quad (kphys v) \<noteq> elt ?r 511" using elt_inject [OF _ fr(1) b(2) lt, of b] dt(2) [OF b(1)] b(3) by simp
    then show ?thesis by (simp add: ldb_win [OF v])
  qed
  have "x \<le> card (free_addrs ?t)" using ft al(3) room by simp
  then show thesis using that [OF run al(2) sp _ leaf w] by blast
qed

section \<open>The name and the directory\<close>

lemma dir_loop_ok:
  assumes "terminated bin" "i \<le> length (cstr bin)" "length (cstr bin) < length dir"
  shows "\<exists>d. dir_loop i bin dir = Inr d"
  using assms(2)
proof (induction i)
  case (Suc i)
  have "i < length bin" using Suc.prems terminated_length [OF assms(1)] by simp
  moreover have "\<exists>d. strncpy dir bin (int i) = Inr d"
    using assms Suc.prems by (simp add: strncpy_spec)
  ultimately show ?case using Suc by (simp add: rd_def)
qed simp

section \<open>The whole of \<^verbatim>\<open>create_process\<close>\<close>

lemma stack_vpn:
  assumes "seg_ok D elf ph" "j < ph_pages ph"
  shows "vpn (ph_addr ph j) \<noteq> vpn 0xeffff000" "user_addr (ph_addr ph j)"
proof -
  have b: "unat (ph_addr ph j) < 0x7ffe000" "user_addr (ph_addr ph j)"
    using seg_pages_user [OF seg_okD(1) [OF assms(1)]] assms(2) by (simp_all add: ph_addr_def ph_pages_def)
  then show "user_addr (ph_addr ph j)" by simp
  have "unat (vpn (ph_addr ph j)) < 0x8000" using b(1) unfolding unat_vpn by (simp add: div_less_iff_less_mult)
  moreover have "unat (vpn 0xeffff000) = 0xeffff" by (simp add: unat_vpn)
  ultimately show "vpn (ph_addr ph j) \<noteq> vpn 0xeffff000" by auto
qed

lemma stack_space: "kmalloc_user_space (KERN_MEM + r) 0xeffff000 4096 m = user_body r 0xeffff000 m"
proof -
  have "nat (page_count 4096) = Suc 0" by (simp add: page_count_def)
  then show ?thesis
    by (cases "user_body r 0xeffff000 m") (simp_all add: kmalloc_user_space_def user_body_def case_prod_beta)
qed

text \<open>The memory up to the stack: the new root, a page for the list of areas, the stack page.\<close>

lemma new_process_space:
  assumes wf: "pt_wf lev rk (k_mem k)" and pml4: "pml4e (k_mem k) = KERN_MEM + rk"
    and D: "\<And>a. a \<in> D \<Longrightarrow> data_frame lev (k_mem k) a" and room: "x + 6 \<le> card (free_addrs (k_mem k))"
  obtains r m2 lev6 m6 where "new_pml4 k = (r, set_mem m2 k)"
    "kmalloc_user_space (KERN_MEM + r) 0xeffff000 4096 (snd (mem_allocate m2)) = Inr m6"
    "space lev6 r D m6" "x \<le> card (free_addrs m6)"
    "\<And>v. user_addr v \<Longrightarrow> leaf_entry m6 4 r v = 0 \<longleftrightarrow> vpn v \<noteq> vpn 0xeffff000"
    "\<And>v p p'. v \<in> win D \<Longrightarrow> ldb p v m6 = ldb p' v (k_mem k)"
proof -
  have x1: "Suc (x + 5) \<le> card (free_addrs (k_mem k))" using room by simp
  obtain r m2 where m2: "new_pml4 k = (r, set_mem m2 k)" "space (clone_lev lev r) r D m2" "x + 5 \<le> card (free_addrs m2)"
    "\<And>v. leaf_entry m2 4 r v = (if idx v 4 = 511 then leaf_entry (k_mem k) 4 rk v else 0)"
    "\<And>v p p'. v \<in> win D \<Longrightarrow> ldb p v m2 = ldb p' v (k_mem k)"
    by (rule new_pml4_space [OF wf pml4 D x1]) blast+
  let ?q = "KERN_MEM + r" and ?m3 = "snd (mem_allocate m2)"
  have x2: "Suc (x + 4) \<le> card (free_addrs m2)" using m2(3) by simp
  note m3 = space_alloc [OF m2(2) x2]
  have leaf3: "leaf_entry ?m3 4 r v = 0" if "user_addr v" for v using m3(3) m2(4) user_idx [OF that] by simp
  have x3: "4 + x \<le> card (free_addrs ?m3)" using m3(2) by simp
  have us: "user_addr 0xeffff000" by (simp add: user_addr_def)
  obtain lev6 m6 where m6: "user_body r 0xeffff000 ?m3 = Inr m6" "space lev6 r D m6" "x \<le> card (free_addrs m6)"
    "\<And>w. leaf_entry m6 4 r w = (if vpn w = vpn 0xeffff000 then fst (mem_allocate ?m3) OR 7 else leaf_entry ?m3 4 r w)"
    "\<And>a. a \<in> reg (leaf_entry ?m3 4 r) D \<Longrightarrow> a \<in> reg (leaf_entry m6 4 r) D \<and> ldb ?q a m6 = ldb ?q a ?m3"
    by (rule space_map [OF m3(1) x3 us leaf3 [OF us]]) blast
  have "ldb p v m6 = ldb p' v (k_mem k)" if v: "v \<in> win D" for v p p'
  proof -
    have "ldb p v m6 = ldb ?q v m6" by (simp add: ldb_win [OF v])
    also have "\<dots> = ldb ?q v ?m3" using m6(5) [of v] v by (simp add: reg_def)
    also have "\<dots> = ldb ?q v m2" using v by (simp add: ldb_win [OF v])
    finally show ?thesis using m2(5) [OF v] by simp
  qed
  moreover have "leaf_entry m6 4 r v = 0 \<longleftrightarrow> vpn v \<noteq> vpn 0xeffff000" if "user_addr v" for v
    using m6(4) leaf3 [OF that] entry_nonzero(1) by simp
  ultimately show thesis using that [OF m2(1)] m6(1-3) stack_space by simp
qed

text \<open>The task structure before the program is loaded.\<close>

definition new_task :: "u64 \<Rightarrow> u16 \<Rightarrow> ptr \<Rightarrow> u8 list \<Rightarrow> u8 list \<Rightarrow> task_struct" where
  "new_task r pid mm name dir = zero_task\<lparr>t_cr3_address := r, t_pid := pid, t_pml4e_addr := KERN_MEM + r, t_mm := mm,
     t_heap := (t_heap zero_task)\<lparr>bump_ptr := BUMP_PTR\<rparr>, t_bin_name := name, t_is_sleep := False, t_sleep_time := 0,
     t_dup_arr := map of_nat [0..<25], t_fd_cnt := 2, t_dir_path := dir, t_stack := STACK_MEM_TOP\<rparr>"

lemma create_process_run:
  assumes "kmalloc (10 * 4096) (k_mem k) = (p, m)" "new_pml4 (clear_task p (set_mem m k)) = (r, set_mem m2 (clear_task p (set_mem m k)))"
    and "strcpy (t_bin_name zero_task) bin = Inr name" "strlen bin = Inr len" "dir_loop len bin (t_dir_path zero_task) = Inr dir"
    and "kmalloc_user_space (KERN_MEM + r) 0xeffff000 4096 (snd (mem_allocate m2)) = Inr m6"
  obtains k6 where "create_process bin k = bindr (elf_load p bin k6) (\<lambda>(r, k7).
       case r of Switch \<Rightarrow> Inr (Switch, k7)
       | Ret _ \<Rightarrow> Inr (Ret p, set_task p (\<lambda>t. t\<lparr>t_kstack := entry_frame (t_entry_pt t) (t_kstack t),
                    t_kernel_rsp := kstack_addr p STACK_OFFSET\<rparr>) k7))"
    "k_mem k6 = m6" "tarfs_ind k6 = tarfs_ind k"
    "tasks (k_sched k6) p = new_task r (avail_pid k + 1) (KERN_MEM + fst (mem_allocate m2)) name dir"
    "vma_list (KERN_MEM + fst (mem_allocate m2)) k6"
proof -
  define k1 where "k1 = clear_task p (set_mem m k)"
  have k1: "tasks (k_sched k1) p = zero_task" "tarfs_ind k1 = tarfs_ind k" "avail_pid k1 = avail_pid k"
    by (simp_all add: k1_def clear_task_def set_mem_def Let_def)
  define k3 where "k3 = (set_task p (\<lambda>t. t\<lparr>t_cr3_address := r, t_pid := avail_pid (set_mem m2 k1) + 1, t_pml4e_addr := KERN_MEM + r\<rparr>)
    (set_mem m2 k1))\<lparr>avail_pid := avail_pid (set_mem m2 k1) + 1\<rparr>"
  let ?mm = "KERN_MEM + fst (mem_allocate m2)"
  define k4 where "k4 = (set_mem (snd (mem_allocate m2)) k3)\<lparr>mms := (mms k3)(?mm := \<lparr>vma_addr = 0, mm_cnt = 0\<rparr>)\<rparr>"
  have k4: "new_mm k3 = (?mm, k4)"
    by (simp add: new_mm_def k4_def k3_def case_prod_beta Let_def set_mem_def set_task_def)
  define k6 where "k6 = set_mem m6 (set_task p (\<lambda>t. t\<lparr>t_mm := ?mm, t_heap := (t_heap t)\<lparr>bump_ptr := BUMP_PTR\<rparr>,
      t_bin_name := name, t_is_sleep := False, t_sleep_time := 0, t_dup_arr := map of_nat [0..<25], t_fd_cnt := 2,
      t_dir_path := dir, t_stack := STACK_MEM_TOP\<rparr>) k4)"
  have m3: "k_mem (set_task p f k4) = snd (mem_allocate m2)" for f by (simp add: k4_def set_mem_def set_task_def)
  show thesis
  proof (rule that)
    show "create_process bin k = bindr (elf_load p bin k6) (\<lambda>(r, k7).
       case r of Switch \<Rightarrow> Inr (Switch, k7)
       | Ret _ \<Rightarrow> Inr (Ret p, set_task p (\<lambda>t. t\<lparr>t_kstack := entry_frame (t_entry_pt t) (t_kstack t),
                    t_kernel_rsp := kstack_addr p STACK_OFFSET\<rparr>) k7))"
      unfolding create_process_def Let_def assms(1) prod.case k1_def [symmetric] assms(2) [folded k1_def] k3_def [symmetric] k4
      using assms(6) by (simp add: m3 k6_def assms(3-5) del: upt_rec_numeral)
  qed (simp_all add: k6_def k4_def k3_def k1 set_mem_def set_task_def upd_task_def new_task_def vma_list_def del: upt_rec_numeral)
qed

text \<open>The state in which \<^verbatim>\<open>create_process\<close> calls \<^verbatim>\<open>elf_load\<close>.\<close>

lemma create_process_prepared:
  assumes "pt_wf lev rk (k_mem k)" "pml4e (k_mem k) = KERN_MEM + rk" "\<And>a. a \<in> D \<Longrightarrow> data_frame lev (k_mem k) a"
    and "terminated bin" "length (cstr bin) < BINARY_LEN"
    and "\<And>i. j \<le> i \<Longrightarrow> i < j + 10 \<Longrightarrow> page_avail (k_mem k) i" "\<And>i. i < j \<Longrightarrow> \<not> page_avail (k_mem k) i"
    and "x + 16 \<le> card (free_addrs (k_mem k))" and p: "p = KERN_MEM + of_nat j * 4096"
  obtains k6 lev6 r where "create_process bin k = bindr (elf_load p bin k6) (\<lambda>(r, k7).
       case r of Switch \<Rightarrow> Inr (Switch, k7)
       | Ret _ \<Rightarrow> Inr (Ret p, set_task p (\<lambda>t. t\<lparr>t_kstack := entry_frame (t_entry_pt t) (t_kstack t),
                    t_kernel_rsp := kstack_addr p STACK_OFFSET\<rparr>) k7))"
    "space lev6 r D (k_mem k6)" "x \<le> card (free_addrs (k_mem k6))" "tarfs_ind k6 = tarfs_ind k"
    "\<forall>v. user_addr v \<longrightarrow> (leaf_entry (k_mem k6) 4 r v = 0 \<longleftrightarrow> vpn v \<noteq> vpn 0xeffff000)"
    "\<forall>v \<in> win D. \<forall>q q'. ldb q v (k_mem k6) = ldb q' v (k_mem k)"
    "t_pml4e_addr (tasks (k_sched k6) p) = KERN_MEM + r" "t_cr3_address (tasks (k_sched k6) p) = r"
    "vma_list (t_mm (tasks (k_sched k6) p)) k6"
proof -
  have ten: "10 \<le> card (free_addrs (k_mem k))" using assms(8) by simp
  obtain m1 where m1: "kmalloc (10 * 4096) (k_mem k) = (p, m1)" "pt_wf lev rk m1"
    "card (free_addrs m1) = card (free_addrs (k_mem k)) - 10" "free_addrs m1 \<subseteq> free_addrs (k_mem k)"
    "qmem m1 = qmem (k_mem k)" "pml4e m1 = pml4e (k_mem k)"
    "fold (\<lambda>i. zero_page (p + 4096 * of_nat i)) [0..<10] m1 = m1"
    unfolding p by (rule kmalloc_ten [OF assms(1) ten assms(6,7)]) blast+
  define k1 where "k1 = clear_task p (set_mem m1 k)"
  have km: "k_mem k1 = m1" using m1(7) by (simp add: k1_def clear_task_def set_mem_def Let_def del: upt_rec_numeral)
  have wf1: "pt_wf lev rk (k_mem k1)" and pml4: "pml4e (k_mem k1) = KERN_MEM + rk"
    and D1: "\<And>a. a \<in> D \<Longrightarrow> data_frame lev (k_mem k1) a" and x1: "x + 6 \<le> card (free_addrs (k_mem k1))"
    using km m1(2-6) assms(2,3,8) by (auto simp: data_frame_def)
  obtain r m2 lev6 m6 where m6: "new_pml4 k1 = (r, set_mem m2 k1)"
    "kmalloc_user_space (KERN_MEM + r) 0xeffff000 4096 (snd (mem_allocate m2)) = Inr m6"
    "space lev6 r D m6" "x \<le> card (free_addrs m6)"
    "\<And>v. user_addr v \<Longrightarrow> leaf_entry m6 4 r v = 0 \<longleftrightarrow> vpn v \<noteq> vpn 0xeffff000"
    "\<And>v p p'. v \<in> win D \<Longrightarrow> ldb p v m6 = ldb p' v (k_mem k1)"
    by (rule new_process_space [OF wf1 pml4 D1 x1]) blast+
  have w6: "ldb q v m6 = ldb q' v (k_mem k)" if "v \<in> win D" for q q' v
    using m6(6) [OF that, of q q'] km m1(5) by (simp add: ldb_win [OF that])
  obtain name where name: "strcpy (t_bin_name zero_task) bin = Inr name" using assms(4,5) by (simp add: strcpy_spec zero_task_def)
  have len: "strlen bin = Inr (length (cstr bin))" using assms(4) by (simp add: strlen_spec)
  obtain dir where dir: "dir_loop (length (cstr bin)) bin (t_dir_path zero_task) = Inr dir"
    using dir_loop_ok [OF assms(4) order_refl, of "t_dir_path zero_task"] assms(5) by (auto simp: zero_task_def)
  obtain k6 where k6: "create_process bin k = bindr (elf_load p bin k6) (\<lambda>(r, k7).
       case r of Switch \<Rightarrow> Inr (Switch, k7)
       | Ret _ \<Rightarrow> Inr (Ret p, set_task p (\<lambda>t. t\<lparr>t_kstack := entry_frame (t_entry_pt t) (t_kstack t),
                    t_kernel_rsp := kstack_addr p STACK_OFFSET\<rparr>) k7))"
    "k_mem k6 = m6" "tarfs_ind k6 = tarfs_ind k"
    "tasks (k_sched k6) p = new_task r (avail_pid k + 1) (KERN_MEM + fst (mem_allocate m2)) name dir"
    "vma_list (KERN_MEM + fst (mem_allocate m2)) k6"
    by (rule create_process_run [OF m1(1) m6(1) [unfolded k1_def] name len dir m6(2)]) blast
  show thesis
  proof (rule that [OF k6(1)])
    show "\<forall>v \<in> win D. \<forall>q q'. ldb q v (k_mem k6) = ldb q' v (k_mem k)" unfolding k6(2) using w6 by blast
  qed (use k6(2-5) m6(3-5) in \<open>simp_all add: new_task_def\<close>)
qed

end
