(* ===== verification/Tarfs_Claims.thy ===== *)
theory Tarfs_Claims
  imports Tarfs CString_Props
begin

text \<open>Fields of an entry, the rounds of the indexing loop, and the properties of the index.\<close>

section \<open>Fields\<close>

lemma le_bytes_length [simp]: "length (le_bytes n v) = n"
  by (induction n arbitrary: v) simp_all

lemma le_val_bytes: "le_val (le_bytes n v) = v mod 256 ^ n"
proof (induction n arbitrary: v)
  case (Suc n)
  have "unat (of_nat v :: u8) = v mod 256" by (simp add: unat_of_nat take_bit_eq_mod)
  then show ?case by (simp add: Suc mod_mult2_eq)
qed simp

lemma le_bytes_zero: "le_bytes n 0 = replicate n 0"
  by (induction n) simp_all

lemma put_le_length [simp]: "off + n \<le> length e \<Longrightarrow> length (put_le n off v e) = length e"
  by (simp add: put_le_def)

text \<open>The form every entry has after its round.\<close>

definition entry_form :: "u8 list \<Rightarrow> nat \<Rightarrow> u8 \<Rightarrow> u64 \<Rightarrow> tarfs" where
  "entry_form name sz typ a = name @ le_bytes 4 sz @ [typ, 0, 0, 0, 0] @ le_bytes 8 (unat a) @ le_bytes 8 (unat (a + 512))"

lemma unat_le8 [simp]: "(of_nat (unat (x :: u64) mod 18446744073709551616) :: u64) = x"
  using unsigned_less [of x, where ?'a = nat] by (simp del: of_nat_mod)

lemma entry_form_fields:
  assumes "length name = 100"
  shows "length (entry_form name sz typ a) = 125"
    and "file_size (entry_form name sz typ a) = of_nat sz"
    and "ref_cnt (entry_form name sz typ a) = 0"
    and "cstr (typeflag (entry_form name sz typ a)) = (if typ = 0 then [] else [typ])"
    and "terminated (typeflag (entry_form name sz typ a))"
    and "tarfs_start_addr (entry_form name sz typ a) = a"
    and "bin_start_addr (entry_form name sz typ a) = a + 512"
proof -
  have 32: "(of_nat (sz mod 256 ^ 4) :: u32) = of_nat sz"
    by (rule word_unat_eq_iff [THEN iffD2]) (simp add: unat_of_nat take_bit_eq_mod)
  show "file_size (entry_form name sz typ a) = of_nat sz"
    using assms 32 by (simp add: file_size_def get_le_def entry_form_def le_val_bytes)
  show "tarfs_start_addr (entry_form name sz typ a) = a" "bin_start_addr (entry_form name sz typ a) = a + 512"
    using assms by (simp_all add: tarfs_start_addr_def bin_start_addr_def get_le_def entry_form_def le_val_bytes del: of_nat_mod)
qed (use assms in \<open>simp_all add: entry_form_def ref_cnt_def get_le_def typeflag_def\<close>)

lemma index_entry_ok:
  assumes "length e = 125" "terminated h" "length (cstr h) < 100" "atoo (drop 124 h) = Inr sz"
    and "drop 156 h = typ # 0 # r"
  shows "index_entry h a e = Inr (entry_form (cstr h @ 0 # drop (Suc (length (cstr h))) (take 100 e)) (nat sz) typ a, sz)"
proof -
  let ?n = "length (cstr h)"
  define name where "name = cstr h @ 0 # drop (Suc ?n) (take 100 e)"
  have name: "length name = 100" using assms(1,3) by (simp add: name_def)
  have "drop (Suc ?n) (take 100 e @ drop 100 e) = drop (Suc ?n) (take 100 e) @ drop 100 e"
    using assms(1,3) by (subst drop_append) simp
  then have 1: "strcpy e h = Inr (name @ drop 100 e)" using assms(1-3) by (simp add: strcpy_spec name_def)
  obtain u v w x y where tail: "drop 100 e = u @ v # w @ x @ y" "length u = 4" "length w = 4" "length x = 8" "length y = 8"
  proof
    show "drop 100 e = take 4 (drop 100 e) @ (drop 100 e ! 4) # take 4 (drop 105 e) @ take 8 (drop 109 e) @ drop 117 e"
      using assms(1) by (intro nth_equalityI) (auto simp: nth_append nth_Cons' le_Suc_eq)
  qed (use assms(1) in simp_all)
  let ?e2 = "name @ u @ v # [0, 0, 0, 0] @ x @ y" and ?e3 = "name @ le_bytes 4 (nat sz) @ v # [0, 0, 0, 0] @ x @ y"
  have 2: "set_ref_cnt 0 (name @ drop 100 e) = ?e2"
    using name tail by (simp add: set_ref_cnt_def put_le_def le_bytes_zero numeral_eq_Suc)
  have 3: "put_le 4 100 (nat sz) ?e2 = ?e3" using name tail(2-) by (simp add: put_le_def)
  have 4: "strcpy (typeflag ?e3) (drop 156 h) = Inr ([typ, 0, 0, 0, 0] @ x @ y)"
    using name tail(2-) by (simp add: typeflag_def assms(5) strcpy_spec)
  have 5: "put_le 8 109 (unat a) (name @ le_bytes 4 (nat sz) @ [typ, 0, 0, 0, 0] @ x @ y) =
      name @ le_bytes 4 (nat sz) @ [typ, 0, 0, 0, 0] @ le_bytes 8 (unat a) @ y"
    using name tail(2-) by (simp add: put_le_def)
  have 6: "put_le 8 117 (unat (a + 512)) (name @ le_bytes 4 (nat sz) @ [typ, 0, 0, 0, 0] @ le_bytes 8 (unat a) @ y) =
      entry_form name (nat sz) typ a"
    using name tail(2-) by (simp add: put_le_def entry_form_def)
  have 7: "take 104 ?e3 = name @ le_bytes 4 (nat sz)" using name by simp
  show ?thesis
    unfolding index_entry_def name_def [symmetric]
    by (simp only: 1 2 3 4 7 assms(4) bindr_simps Let_def append.assoc 5 6)
qed

section \<open>Archives\<close>

text \<open>A file as the archive stores it: name, type and size; and its number of data blocks.\<close>

record file_info =
  fi_name :: "u8 list"
  fi_type :: u8
  fi_size :: nat

definition data_blocks :: "nat \<Rightarrow> nat" where
  "data_blocks n = (n + 511) div 512"

text \<open>A header followed by the data, padded to whole blocks; the size is in octal at offset 124.\<close>

definition member :: "u8 list \<Rightarrow> file_info \<Rightarrow> bool" where
  "member b i \<longleftrightarrow>
     length b = 512 + 512 * data_blocks (fi_size i) \<and> cstr b = fi_name i \<and> length (fi_name i) < 100 \<and>
     atoo (take 32 (drop 124 b)) = Inr (int (fi_size i)) \<and> fi_size i < 2 ^ 31 \<and> b ! 156 = fi_type i \<and> b ! 157 = 0"

definition indexed :: "tarfs \<Rightarrow> file_info \<Rightarrow> u64 \<Rightarrow> bool" where
  "indexed e i a \<longleftrightarrow>
     length e = 125 \<and> terminated e \<and> cstr e = fi_name i \<and> file_size e = of_nat (fi_size i) \<and> ref_cnt e = 0 \<and>
     terminated (typeflag e) \<and> cstr (typeflag e) = (if fi_type i = 0 then [] else [fi_type i]) \<and>
     tarfs_start_addr e = a \<and> bin_start_addr e = a + 512"

lemma atoo_loop_append: "atoo_loop xs acc = Inr v \<Longrightarrow> atoo_loop (xs @ ys) acc = Inr v"
proof (induction xs arbitrary: acc)
  case (Cons c xs)
  then show ?case by (auto simp: bindr_eq_Inr split: if_splits)
qed simp

lemma data_blocks_int:
  "512 + 512 * (if int n mod 512 = 0 then nat (int n div 512) else nat (int n div 512) + 1) = 512 + 512 * data_blocks n"
proof -
  have "data_blocks n = n div 512 + (if n mod 512 = 0 then 0 else 1)" 
    using ceil_div [of 512 n] by (simp add: data_blocks_def)
  moreover have "nat (int n div 512) = n div 512" "(int n mod 512 = 0) = (n mod 512 = 0)"
    using nat_div_distrib [of "int n" 512] by simp (metis of_nat_eq_0_iff of_nat_numeral zmod_int)
  ultimately show ?thesis by simp
qed

lemma member_entry:
  assumes "member b i" "length e = 125"
  shows "\<exists>e'. index_entry (b @ rest) a e = Inr (e', int (fi_size i)) \<and> indexed e' i a"
proof -
  have b: "512 \<le> length b" "cstr b = fi_name i" "length (fi_name i) < 100" "b ! 156 = fi_type i" "b ! 157 = 0"
    "atoo (take 32 (drop 124 b)) = Inr (int (fi_size i))"
    using assms(1) by (simp_all add: member_def)
  have trm: "terminated b" using b(1,5) nth_mem [of 157 b] by (simp add: terminated_def)
  then have c: "terminated (b @ rest)" "cstr (b @ rest) = fi_name i"
    using b(2) by (simp_all add: terminated_def cstr_def)
  have sz: "atoo (drop 124 (b @ rest)) = Inr (int (fi_size i))"
  proof -
    have "drop 124 (b @ rest) = take 32 (drop 124 b) @ drop 156 b @ rest"
      using b(1) append_take_drop_id [of 32 "drop 124 b"] by simp
    then show ?thesis using b(6) atoo_loop_append [of "take 32 (drop 124 b)" 0] by (simp add: atoo_def)
  qed
  have "drop 156 b = b ! 156 # b ! 157 # drop 158 b" using b(1) Cons_nth_drop_Suc [of 156 b] Cons_nth_drop_Suc [of 157 b] by simp
  then have tf: "drop 156 (b @ rest) = fi_type i # 0 # drop 158 b @ rest" using b(1,4,5) by simp
  let ?name = "cstr (b @ rest) @ 0 # drop (Suc (length (cstr (b @ rest)))) (take 100 e)"
  have len: "length ?name = 100" using b(3) c(2) assms(2) by simp
  have "index_entry (b @ rest) a e = Inr (entry_form ?name (nat (int (fi_size i))) (fi_type i) a, int (fi_size i))"
    using index_entry_ok [OF assms(2) c(1) _ sz tf] b(3) c(2) by simp
  moreover have "indexed (entry_form ?name (fi_size i) (fi_type i) a) i a"
  proof -
    have "0 \<notin> set (fi_name i)" using b(2) cstr_nonzero [of b] by simp
    then have "cstr (entry_form ?name (fi_size i) (fi_type i) a) = fi_name i" "terminated (entry_form ?name (fi_size i) (fi_type i) a)"
      unfolding entry_form_def c(2) by simp_all
    then show ?thesis using entry_form_fields [OF len] by (simp add: indexed_def)
  qed
  ultimately show ?thesis by auto
qed

text \<open>The address of member \<open>j\<close> of the archive at \<open>base\<close>.\<close>

definition member_addr :: "u64 \<Rightarrow> u8 list list \<Rightarrow> nat \<Rightarrow> u64" where
  "member_addr base bs j = base + of_nat (length (concat (take j bs)))"

lemma tarfs_loop_ok:
  assumes "list_all2 member bs is" "pos = length pre" "ind + length bs \<le> length tab" "\<And>e. e \<in> set tab \<Longrightarrow> length e = 125"
  shows "\<exists>tab'. tarfs_loop (pre @ concat bs) base pos ind tab = Inr tab' \<and> length tab' = length tab \<and>
    (\<forall>e \<in> set tab'. length e = 125) \<and>
    (\<forall>j < length bs. indexed (tab' ! (ind + j)) (is ! j) (member_addr (base + of_nat (length pre)) bs j)) \<and>
    (\<forall>j. j < ind \<or> ind + length bs \<le> j \<longrightarrow> tab' ! j = tab ! j)"
  using assms
proof (induction bs arbitrary: "is" pos pre ind tab)
  case Nil
  then show ?case by (auto simp: tarfs_loop.simps)
next
  case (Cons b bs)
  obtain i js where "is": "is = i # js" "member b i" "list_all2 member bs js" using Cons.prems(1) by (auto simp: list_all2_Cons1)
  have ind: "ind < length tab" "length (tab ! ind) = 125" using Cons.prems(3,4) by simp_all
  have b: "length b = 512 + 512 * data_blocks (fi_size i)" using "is"(2) by (simp add: member_def)
  obtain e' where e': "index_entry (b @ concat bs) (base + of_nat pos) (tab ! ind) = Inr (e', int (fi_size i))"
    "indexed e' i (base + of_nat pos)" using member_entry [OF "is"(2) ind(2)] by blast
  let ?tab = "tab[ind := e']"
  have step: "tarfs_loop (pre @ concat (b # bs)) base pos ind tab = tarfs_loop ((pre @ b) @ concat bs) base (length (pre @ b)) (ind + 1) ?tab"
    using Cons.prems(2) ind(1) e'(1) b data_blocks_int [of "fi_size i"]
    by (subst tarfs_loop.simps) (simp add: add.assoc)
  have "e \<in> set ?tab \<Longrightarrow> length e = 125" for e
    using Cons.prems(4) e'(2) set_update_subset_insert [of tab ind e'] by (auto simp: indexed_def)
  then obtain tab' where tab': "tarfs_loop ((pre @ b) @ concat bs) base (length (pre @ b)) (ind + 1) ?tab = Inr tab'"
    "length tab' = length ?tab" "\<forall>e \<in> set tab'. length e = 125"
    "\<forall>j < length bs. indexed (tab' ! (ind + 1 + j)) (js ! j) (member_addr (base + of_nat (length (pre @ b))) bs j)"
    "\<forall>j. j < ind + 1 \<or> ind + 1 + length bs \<le> j \<longrightarrow> tab' ! j = ?tab ! j"
    using Cons.IH [OF "is"(3) refl, of "ind + 1" ?tab "pre @ b"] Cons.prems(3) by auto
  have "indexed (tab' ! (ind + j)) (is ! j) (member_addr (base + of_nat (length pre)) (b # bs) j)" if "j < length (b # bs)" for j
  proof (cases j)
    case 0
    have "tab' ! ind = e'" using tab'(5) ind(1) by simp
    then show ?thesis using 0 e'(2) Cons.prems(2) "is"(1) by (simp add: member_addr_def)
  next
    case (Suc k)
    then show ?thesis using tab'(4) [rule_format, of k] that "is"(1) by (simp add: member_addr_def add_ac)
  qed
  moreover have "tab' ! j = tab ! j" if "j < ind \<or> ind + length (b # bs) \<le> j" for j
    using that tab'(5) by auto
  ultimately show ?case using step tab'(1-3) by (intro exI [of _ tab']) simp
qed

lemma tarfs_loop_full:
  assumes "list_all2 member bs is" "pos = length pre" "length tab < ind + length bs" "ind \<le> length tab"
    and "\<And>e. e \<in> set tab \<Longrightarrow> length e = 125"
  shows "tarfs_loop (pre @ concat bs) base pos ind tab = Inl Out_of_bounds"
  using assms
proof (induction bs arbitrary: "is" pos pre ind tab)
  case (Cons b bs)
  obtain i js where "is": "member b i" "list_all2 member bs js" using Cons.prems(1) by (auto simp: list_all2_Cons1)
  have b: "length b = 512 + 512 * data_blocks (fi_size i)" using "is"(1) by (simp add: member_def)
  show ?case
  proof (cases "ind < length tab")
    case False
    then show ?thesis using Cons.prems(2) b by (subst tarfs_loop.simps) simp
  next
    case True
    obtain e' where e': "index_entry (b @ concat bs) (base + of_nat pos) (tab ! ind) = Inr (e', int (fi_size i))"
      "indexed e' i (base + of_nat pos)" using member_entry [OF "is"(1)] Cons.prems(5) True by (metis nth_mem)
    have "tarfs_loop (pre @ concat (b # bs)) base pos ind tab = tarfs_loop ((pre @ b) @ concat bs) base (length (pre @ b)) (ind + 1) (tab[ind := e'])"
      using Cons.prems(2) True e'(1) b data_blocks_int [of "fi_size i"]
      by (subst tarfs_loop.simps) (simp add: add.assoc)
    also have "\<dots> = Inl Out_of_bounds"
    proof (rule Cons.IH [OF "is"(2) refl])
      show "length e = 125" if "e \<in> set (tab[ind := e'])" for e
        using that Cons.prems(5) e'(2) set_update_subset_insert [of tab ind e'] by (auto simp: indexed_def)
    qed (use Cons.prems(3) True in simp_all)
    finally show ?thesis .
  qed
qed simp

section \<open>Properties\<close>

text \<open>
  C28. The index of the archive: for an archive of at most 40 members, \<^verbatim>\<open>tarfs_initialize\<close> gives
  every member its entry, in order, with name, size, type, no references, and the addresses of its
  header and of its contents; the entries beyond are untouched.
\<close>

theorem tarfs_initialize_indexes:
  assumes "list_all2 member bs is" "length bs \<le> MAX_BIN" "length tab = MAX_BIN" "\<And>e. e \<in> set tab \<Longrightarrow> length e = 125"
  shows "\<exists>tab'. tarfs_initialize (concat bs) base tab = Inr tab' \<and> length tab' = MAX_BIN \<and>
           (\<forall>j < length bs. indexed (tab' ! j) (is ! j) (member_addr base bs j)) \<and>
           (\<forall>j. length bs \<le> j \<longrightarrow> tab' ! j = tab ! j)"
  using tarfs_loop_ok [OF assms(1), of 0 "[]" 0 tab base] assms(2-4) by (auto simp: tarfs_initialize_def)

text \<open>A member with an empty file \<^verbatim>\<open>a\<close> of type \<^verbatim>\<open>0\<close>.\<close>

definition block_a :: "u8 list" where
  "block_a = 97 # replicate 123 0 @ replicate 11 48 @ replicate 21 0 @ 48 # replicate 355 0"

lemma member_a: "member block_a \<lparr>fi_name = [97], fi_type = 48, fi_size = 0\<rparr>"
proof -
  have "take 32 (drop 124 block_a) = replicate 11 48 @ replicate 21 0" by (simp add: block_a_def)
  moreover have "atoo (replicate 11 48 @ replicate 21 0) = Inr 0"
    by (simp add: atoo_def numeral_eq_Suc)
  moreover have "replicate 123 (0 :: u8) = 0 # replicate 122 0" by (simp add: numeral_eq_Suc)
  then have "cstr block_a = [97]" by (simp add: block_a_def)
  ultimately show ?thesis by (simp add: member_def data_blocks_def block_a_def nth_Cons' nth_append)
qed

theorem tarfs_initialize_indexes_witness:
  "\<exists>tab'. tarfs_initialize block_a 0x200000 tab0 = Inr tab' \<and> cstr (tab' ! 0) = [97] \<and> bin_start_addr (tab' ! 0) = 0x200200"
proof -
  have "list_all2 member [block_a] [\<lparr>fi_name = [97], fi_type = 48, fi_size = 0\<rparr>]" using member_a by simp
  from tarfs_initialize_indexes [OF this, of tab0 "0x200000"] show ?thesis
    by (auto simp: tab0_def indexed_def member_addr_def)
qed

text \<open>
  The 41st member, and every block of zeros at the end of an archive counts as one, is written
  past the end of \<^verbatim>\<open>tarfs_ind\<close>: the loop does not compare the index with \<^verbatim>\<open>MAX_BIN\<close>.
\<close>

theorem tarfs_initialize_overflows:
  assumes "list_all2 member bs is" "MAX_BIN < length bs" "length tab = MAX_BIN" "\<And>e. e \<in> set tab \<Longrightarrow> length e = 125"
  shows "tarfs_initialize (concat bs) base tab = Inl Out_of_bounds"
  using tarfs_loop_full [OF assms(1), of 0 "[]" tab 0 base] assms(2-4) by (simp add: tarfs_initialize_def)

lemma member_zero: "member (replicate 512 0) \<lparr>fi_name = [], fi_type = 0, fi_size = 0\<rparr>"
proof -
  have "take 32 (drop 124 (replicate 512 (0 :: u8))) = 0 # replicate 31 0" by (simp add: numeral_eq_Suc)
  moreover have "replicate 512 (0 :: u8) = 0 # replicate 511 0" by (simp add: numeral_eq_Suc)
  then have "cstr (replicate 512 0) = []" by simp
  ultimately show ?thesis by (simp add: member_def data_blocks_def atoo_def)
qed

theorem tarfs_initialize_overflows_witness:
  "tarfs_initialize (concat (replicate 41 (replicate 512 0))) 0x200000 tab0 = Inl Out_of_bounds"
proof -
  have "list_all2 member (replicate 41 (replicate 512 0)) (replicate 41 \<lparr>fi_name = [], fi_type = 0, fi_size = 0\<rparr>)"
    using member_zero by (simp add: list_all2_conv_all_nth)
  from tarfs_initialize_overflows [OF this, of tab0 "0x200000"] show ?thesis by (simp add: tab0_def)
qed

text \<open>
  Looking a file up: on an index of terminated names, \<^verbatim>\<open>check_file\<close> returns the content address
  of the first entry with that name, and \<open>0\<close> when there is none.
\<close>

theorem check_file_finds:
  assumes "terminated name" "length tab = MAX_BIN" "\<And>e. e \<in> set tab \<Longrightarrow> terminated e"
  shows "check_file name tab =
           Inr (case find (\<lambda>e. cstr e = cstr name) tab of None \<Rightarrow> 0 | Some e \<Rightarrow> bin_start_addr e)"
proof -
  have cmp: "strcmp name e = Inr r \<Longrightarrow> r = 0 \<longleftrightarrow> cstr e = cstr name" "\<exists>r. strcmp name e = Inr r" if "terminated e" for e r
    using that assms(1) by (auto simp: strcmp_spec chars_cmp_0 split: if_splits)
  have "check_file_loop name tab = Inr (case find (\<lambda>e. cstr e = cstr name) tab of None \<Rightarrow> 0 | Some e \<Rightarrow> bin_start_addr e)"
    using assms(3)
  proof (induction tab)
    case (Cons e tab)
    then obtain r where "strcmp name e = Inr r" "r = 0 \<longleftrightarrow> cstr e = cstr name" using cmp [of e] by auto
    then show ?case using Cons by auto
  qed simp
  then show ?thesis using assms(2) by (simp add: check_file_def)
qed

definition entry_a :: tarfs where
  "entry_a = entry_form (97 # 0 # replicate 98 0) 0 48 0x200000"

lemma entry_a_fields: "cstr entry_a = [97]" "terminated entry_a" "bin_start_addr entry_a = 0x200200"
  using entry_form_fields(7) [of "97 # 0 # replicate 98 0" 0 48 "0x200000"]
  by (simp_all add: entry_a_def) (simp_all add: entry_form_def)

theorem check_file_finds_witness: "check_file [97, 0] (entry_a # replicate 39 (replicate 125 0)) = Inr 0x200200"
proof -
  have "terminated e" if "e \<in> set (entry_a # replicate 39 (replicate 125 0))" for e
    using that entry_a_fields(2) by (auto simp: terminated_def)
  from check_file_finds [of "[97, 0]" "entry_a # replicate 39 (replicate 125 0)", OF _ _ this] show ?thesis by (simp add: entry_a_fields)
qed

end
