(* ===== verification/Exec_Claims.thy ===== *)
theory Exec_Claims
  imports Exec_Props Process_Claims Tarfs_Claims
begin

text \<open>The properties of new address spaces and of the program loader.\<close>

section \<open>A program in memory\<close>

text \<open>
  A kernel with a program \<^verbatim>\<open>a\<close> in page 1, behind the tar header: one header, a segment of three bytes, two of them in
  the file.
\<close>

definition prog_word :: "u64 \<Rightarrow> u64" where
  "prog_word a = (if a = 0x1218 then 0x400010 else if a = 0x1220 then 64 else if a = 0x1238 then 1
     else if a = 0x1240 then 1 else if a = 0x1248 then 128 else if a = 0x1250 then 0x400010
     else if a = 0x1260 then 2 else if a = 0x1268 then 3 else if a = 0x1280 then 0xABCD else 0)"

definition prog_entry :: tarfs where
  "prog_entry = entry_form (97 # 0 # replicate 98 0) 0 48 (KERN_MEM + 0x1000)"

definition prog_kernel :: kernel where
  "prog_kernel = kernel_empty\<lparr>k_mem := (kmem_boot 3)\<lparr>qmem := prog_word, pml4e := KERN_MEM + root2\<rparr>,
     tarfs_ind := prog_entry # replicate 39 (replicate 125 0)\<rparr>"

definition prog_ph :: pheader where
  "prog_ph = \<lparr>p_type = 1, p_offset = 128, p_vaddr = 0x400010, p_filesz = 2, p_memsz = 3\<rparr>"

lemma prog_kernel_simps [simp]:
  "qmem (k_mem prog_kernel) = prog_word" "pml4e (k_mem prog_kernel) = KERN_MEM + root2"
  "memmap (k_mem prog_kernel) = memmap (kmem_boot 3)"
  by (simp_all add: prog_kernel_def)

lemma prog_avail: "page_avail (k_mem prog_kernel) i \<longleftrightarrow> 3 \<le> i \<and> i < MAX_MEM"
  using kmem_boot_avail [of 3 i] by (simp add: page_avail_def)

lemma prog_free: "free_addrs (k_mem prog_kernel) = free_addrs (kmem_boot 3)"
  by (rule free_addrs_memmap) simp

lemma prog_word_high: "0x2000 \<le> unat a \<Longrightarrow> prog_word a = 0"
  by (auto simp: prog_word_def)

lemma prog_zero:
  assumes "2 \<le> j" "j < MAX_MEM" "i < 512"
  shows "prog_word (elt (of_nat j * 4096) i) = 0"
  using elt_unat [OF small_frame' [OF assms(2)] assms(3)] assms(1,2) by (intro prog_word_high) (simp add: page_addr_unat)

lemma prog_root: "pt_wf [root2 \<mapsto> 4] root2 (k_mem prog_kernel)" "leaf_entry (k_mem prog_kernel) 4 root2 v = 0"
proof -
  have ok: "memmap_ok (k_mem prog_kernel)" using kmem_boot_ok [of 3] by (simp add: memmap_ok_def)
  note root = fresh_root [OF ok, of 2]
  show "pt_wf [root2 \<mapsto> 4] root2 (k_mem prog_kernel)" "leaf_entry (k_mem prog_kernel) 4 root2 v = 0"
    using root prog_zero [of 2] prog_zero by (simp_all add: prog_avail)
qed

lemma prog_data: "a \<in> {0x1000} \<Longrightarrow> data_frame [root2 \<mapsto> 4] (k_mem prog_kernel) a"
proof -
  have "data_page [root2 \<mapsto> 4] (k_mem prog_kernel) 1" by (simp add: data_page_def prog_avail)
  then have "data_frame [root2 \<mapsto> 4] (k_mem prog_kernel) (of_nat 1 * 4096)" using data_frame_page by blast
  then show "a \<in> {0x1000} \<Longrightarrow> data_frame [root2 \<mapsto> 4] (k_mem prog_kernel) a" by simp
qed

lemma prog_win:
  assumes "d + n \<le> 4096"
  shows "span (KERN_MEM + 0x1000 + of_nat d) n \<subseteq> win {0x1000}"
proof
  fix b assume "b \<in> span (KERN_MEM + 0x1000 + of_nat d) n"
  then obtain i where i: "i < n" "b = KERN_MEM + (0x1000 + of_nat (d + i))" by (auto simp: span_def add_ac)
  have lt: "d + i < 4096" using i(1) assms by simp
  then have off: "of_nat (d + i) = (of_nat (d + i) mod 4096 :: u64)"
    by (intro unat_inject) (simp add: unat_mod unat_of_nat_u64 del: of_nat_add)
  have "frame 0x1000" using small_frame' [of 1] by simp
  note o = frame_off [OF this, of "of_nat (d + i)", folded off]
  have "KERN_MEM \<le> b"
    using lt unfolding i(2) by (simp add: word_le_nat_alt unat_word_ariths unat_of_nat_u64 del: of_nat_add)
  then show "b \<in> win {0x1000}" using o(2) unfolding win_def i(2) by (simp add: kphys_def)
qed

text \<open>Reading in the kernel's window.\<close>

definition prog_field :: "nat \<Rightarrow> u64 \<Rightarrow> nat" where
  "prog_field n a = le_val (map (\<lambda>i. let q = a + of_nat i in get_byte (prog_word (quad q)) (lane q)) [0..<n])"

lemma mem_load_win:
  "span a n \<subseteq> win D \<Longrightarrow>
   mem_load (ldb p) n a m = Inr (map (\<lambda>i. get_byte (qmem m (quad (kphys (a + of_nat i)))) (lane (kphys (a + of_nat i)))) [0..<n])"
proof (induction n arbitrary: a)
  case (Suc n)
  have a: "a \<in> win D" "span (a + 1) n \<subseteq> win D" using Suc.prems by (auto simp: span_Suc)
  have "map (\<lambda>i. f (a + 1 + of_nat i)) [0..<n] = map (\<lambda>i. f (a + of_nat i)) [1..<Suc n]" for f :: "u64 \<Rightarrow> u8"
    by (simp add: map_Suc_upt [symmetric] add_ac del: upt_Suc)
  then show ?case using Suc.IH [OF a(2)] ldb_win [OF a(1), of p m] by (simp add: upt_conv_Cons del: upt_Suc)
qed simp

lemma prog_load:
  assumes "d + n \<le> 4096"
  shows "ld_field n p (KERN_MEM + 0x1000 + of_nat d) (k_mem prog_kernel) = Inr (prog_field n (0x1000 + of_nat d))"
proof -
  have "kphys (KERN_MEM + 0x1000 + of_nat d + of_nat i) = 0x1000 + of_nat d + of_nat i" if "i < n" for i
  proof -
    have "KERN_MEM \<le> KERN_MEM + 0x1000 + of_nat d + of_nat i" using subsetD [OF prog_win [OF assms] span_mem [OF that]] by (simp add: win_def)
    then show ?thesis by (simp add: kphys_def)
  qed
  then have "map (\<lambda>i. get_byte (prog_word (quad (kphys (KERN_MEM + 0x1000 + of_nat d + of_nat i))))
        (lane (kphys (KERN_MEM + 0x1000 + of_nat d + of_nat i)))) [0..<n] =
      map (\<lambda>i. get_byte (prog_word (quad (0x1000 + of_nat d + of_nat i))) (lane (0x1000 + of_nat d + of_nat i))) [0..<n]"
    by (intro map_cong) simp_all
  then show ?thesis
    unfolding ld_field_def prog_field_def Let_def
      mem_load_win [OF prog_win [OF assms], of p "k_mem prog_kernel", unfolded prog_kernel_simps(1)] bindr_simps
    by (simp only:)
qed

lemma prog_fields:
  "prog_field 8 0x1220 = 64" "prog_field 2 0x1238 = 1" "prog_field 8 0x1218 = 0x400010" "prog_field 4 0x1240 = 1"
  "prog_field 8 0x1248 = 128" "prog_field 8 0x1250 = 0x400010" "prog_field 8 0x1260 = 2" "prog_field 8 0x1268 = 3"
  by (simp_all add: prog_field_def prog_word_def quad_def lane_def get_byte_def drop_bit_eq_div upt_rec)

lemma prog_elf: "elf_file {0x1000} p (KERN_MEM + 0x1200) 0x400010 [prog_ph] (k_mem prog_kernel)"
proof -
  note rd = prog_load [of "0x220" 8 p] prog_load [of "0x238" 2 p] prog_load [of "0x218" 8 p] prog_load [of "0x240" 4 p]
    prog_load [of "0x248" 8 p] prog_load [of "0x250" 8 p] prog_load [of "0x260" 8 p] prog_load [of "0x268" 8 p]
  have "seg_ok {0x1000} (KERN_MEM + 0x1200) prog_ph"
    using prog_win [of "0x280" 2] by (simp add: seg_ok_def prog_ph_def)
  moreover have "ld_pheader p (KERN_MEM + 0x1240) (k_mem prog_kernel) = Inr prog_ph"
    using rd by (simp add: ld_pheader_def prog_fields prog_ph_def)
  moreover have "loads [prog_ph] = [prog_ph]" by (simp add: prog_ph_def)
  ultimately show ?thesis
    using rd prog_win [of "0x200" 64] prog_win [of "0x240" 56] by (simp add: elf_file_def prog_fields)
qed

lemma prog_pages: "ph_pages prog_ph = 1" "ph_addr prog_ph 0 = 0x400000"
  by (simp_all add: ph_pages_def ph_addr_def seg_pages_def seg_addr_def seg_page_def prog_ph_def)

lemma prog_byte: "ldb p (KERN_MEM + 0x1281) (k_mem prog_kernel) = Inr 0xAB"
proof -
  have "get_byte (prog_word (quad 0x1281)) (lane 0x1281) = 0xAB" by code_simp
  then show ?thesis using ldb_win [OF subsetD [OF prog_win [of "0x281" 1]], of "KERN_MEM + 0x1281" p "k_mem prog_kernel"]
    by (simp add: kphys_def span_def)
qed

section \<open>Properties\<close>

text \<open>
  C16. A new top-level table: \<^verbatim>\<open>create_process\<close>'s page with the kernel's entry maps every kernel address
  (slot 511) as the kernel's own table does and no other address, its tables are well formed, and the page was free.
\<close>

theorem new_pml4_shares_kernel:
  assumes "pt_wf lev rk (k_mem k)" "pml4e (k_mem k) = KERN_MEM + rk" "1 \<le> card (free_addrs (k_mem k))"
  shows "\<exists>r k' lev'. new_pml4 k = (r, k') \<and> r \<in> free_addrs (k_mem k) \<and> pt_wf lev' r (k_mem k') \<and>
    (\<forall>v. pte_of (KERN_MEM + r) v (k_mem k') =
       (if addr_res v PML4E = 511 then pte_of (KERN_MEM + rk) v (k_mem k) else None))"
proof -
  have room: "Suc 0 \<le> card (free_addrs (k_mem k))" using assms(3) by simp
  obtain r m where m: "new_pml4 k = (r, set_mem m k)" "r \<in> free_addrs (k_mem k)" "space (clone_lev lev r) r {} m"
    "\<And>v. leaf_entry m 4 r v = (if idx v 4 = 511 then leaf_entry (k_mem k) 4 rk v else 0)"
    using new_pml4_space [OF assms(1,2), of "{}" 0] room by (metis empty_iff)
  have wf: "pt_wf (clone_lev lev r) r m" by (rule spaceD(1) [OF m(3)])
  have km: "k_mem (set_mem m k) = m" by (simp add: set_mem_def)
  show ?thesis
    using m(1,2) wf by (intro exI [of _ r] exI [of _ "set_mem m k"] exI [of _ "clone_lev lev r"])
      (simp add: km pte_of_leaf [OF wf] pte_of_leaf [OF assms(1)] m(4) addr_res_idx)
qed

theorem new_pml4_shares_kernel_witness:
  "\<exists>r k'. new_pml4 prog_kernel = (r, k') \<and> pte_of (KERN_MEM + r) 0x400000 (k_mem k') = None \<and>
     pte_of (KERN_MEM + r) KERN_MEM (k_mem k') = pte_of (KERN_MEM + root2) KERN_MEM (k_mem prog_kernel)"
proof -
  have "addr_res KERN_MEM PML4E = 511" "addr_res 0x400000 PML4E \<noteq> 511" by code_simp+
  then show ?thesis
    using new_pml4_shares_kernel [OF prog_root(1) prog_kernel_simps(2)] boot_room unfolding prog_free by fastforce
qed

text \<open>
  C17. One segment of a program: \<^verbatim>\<open>elf_load\<close> maps its pages, copies the bytes the file has, clears the rest up to
  \<^verbatim>\<open>p_memsz\<close>, leaves every byte mapped before as it is, and appends an area with the segment's bounds to the task's list.
\<close>

theorem load_segment_loads:
  assumes "t_pml4e_addr (tasks (k_sched k) t) = KERN_MEM + r" "t_mm (tasks (k_sched k) t) = mm"
    and "space lev r D (k_mem k)" "seg_ok D elf ph" "vma_list mm k"
    and "\<And>j. j < ph_pages ph \<Longrightarrow> leaf_entry (k_mem k) 4 r (ph_addr ph j) = 0"
    and "4 * ph_pages ph + 1 \<le> card (free_addrs (k_mem k))"
  shows "\<exists>k' v. load_segment t elf ph k = Inr (Ret 0, k') \<and>
    (\<forall>i < unat (p_memsz ph). ldb (KERN_MEM + r) (p_vaddr ph + of_nat i) (k_mem k') =
       (if i < unat (p_filesz ph) then ldb (KERN_MEM + r) (elf + p_offset ph + of_nat i) (k_mem k) else Inr 0)) \<and>
    (\<forall>a \<in> reg (leaf_entry (k_mem k) 4 r) D. ldb (KERN_MEM + r) a (k_mem k') = ldb (KERN_MEM + r) a (k_mem k)) \<and>
    vmas k' v = \<lparr>vm_start = p_vaddr ph, vm_end = p_vaddr ph + p_memsz ph, vm_mmsz = p_memsz ph, vm_file = elf,
      vm_offset = p_offset ph, vm_next = 0\<rparr> \<and>
    (v \<noteq> 0 \<longrightarrow> vma_tail (vmas k') (vma_addr (mms k' mm)) = Some v)"
proof -
  have room: "4 * ph_pages ph + Suc 0 \<le> card (free_addrs (k_mem k))" using assms(7) by simp
  from load_segment_ok [OF assms(1-6) room] obtain k' v where
    "load_segment t elf ph k = Inr (Ret 0, k')"
    "\<forall>i < unat (p_memsz ph). ldb (KERN_MEM + r) (p_vaddr ph + of_nat i) (k_mem k') =
       (if i < unat (p_filesz ph) then ldb (KERN_MEM + r) (elf + p_offset ph + of_nat i) (k_mem k) else Inr 0)"
    "\<forall>a \<in> reg (leaf_entry (k_mem k) 4 r) D. ldb (KERN_MEM + r) a (k_mem k') = ldb (KERN_MEM + r) a (k_mem k)"
    "vmas k' v = \<lparr>vm_start = p_vaddr ph, vm_end = p_vaddr ph + p_memsz ph, vm_mmsz = p_memsz ph, vm_file = elf,
      vm_offset = p_offset ph, vm_next = 0\<rparr>"
    "v \<noteq> 0 \<longrightarrow> vma_tail (vmas k') (vma_addr (mms k' mm)) = Some v"
    by metis
  then show ?thesis by blast
qed

definition seg_kernel :: kernel where
  "seg_kernel = set_task 0 (\<lambda>t. t\<lparr>t_pml4e_addr := KERN_MEM + root2\<rparr>) prog_kernel"

theorem load_segment_loads_witness:
  "\<exists>k'. load_segment 0 (KERN_MEM + 0x1200) prog_ph seg_kernel = Inr (Ret 0, k') \<and>
     ldb (KERN_MEM + root2) 0x400011 (k_mem k') = Inr 0xAB \<and> ldb (KERN_MEM + root2) 0x400012 (k_mem k') = Inr 0"
proof -
  have k: "t_pml4e_addr (tasks (k_sched seg_kernel) 0) = KERN_MEM + root2" "k_mem seg_kernel = k_mem prog_kernel"
    by (simp_all add: seg_kernel_def set_task_def upd_task_def)
  have l: "vma_list (t_mm (tasks (k_sched seg_kernel) 0)) seg_kernel"
    by (simp add: vma_list_def seg_kernel_def set_task_def prog_kernel_def kernel_empty_def kernel_shared_def)
  have sp: "space [root2 \<mapsto> 4] root2 {0x1000} (k_mem seg_kernel)"
    unfolding k(2) space_def using prog_root prog_data by simp
  have ok: "seg_ok {0x1000} (KERN_MEM + 0x1200) prog_ph" using prog_elf [of 0] by (simp add: elf_file_def prog_ph_def)
  have "4 * ph_pages prog_ph + 1 \<le> card (free_addrs (k_mem seg_kernel))" using boot_room unfolding k(2) prog_free prog_pages by simp
  from load_segment_loads [OF k(1) refl sp ok l _ this] obtain k' where
    "load_segment 0 (KERN_MEM + 0x1200) prog_ph seg_kernel = Inr (Ret 0, k')" and
    b: "\<forall>i < unat (p_memsz prog_ph). ldb (KERN_MEM + root2) (p_vaddr prog_ph + of_nat i) (k_mem k') =
       (if i < unat (p_filesz prog_ph) then ldb (KERN_MEM + root2) (KERN_MEM + 0x1200 + p_offset prog_ph + of_nat i) (k_mem prog_kernel)
        else Inr 0)"
    unfolding k(2) using prog_root(2) by blast
  then show ?thesis
    using b [rule_format, of 1] b [rule_format, of 2] prog_byte by (intro exI [of _ k']) (simp add: prog_ph_def)
qed

text \<open>The page below \<^verbatim>\<open>STACK_MEM_TOP\<close>.\<close>

lemma stack_page:
  assumes "i < 4096"
  shows "user_addr (0xeffff000 + of_nat i)" "vpn (0xeffff000 + of_nat i) = vpn 0xeffff000"
proof -
  have u: "unat (0xeffff000 + of_nat i :: u64) = 0xeffff000 + i"
    using assms by (subst unat_add_lem [THEN iffD1]) (simp_all add: unat_of_nat_u64)
  then have "unat (vpn (0xeffff000 + of_nat i)) = unat (vpn 0xeffff000)" using assms by (simp add: unat_vpn)
  then show "vpn (0xeffff000 + of_nat i) = vpn 0xeffff000" by (rule unat_inject)
  show "user_addr (0xeffff000 + of_nat i)" using u assms by (simp add: user_addr_def word_less_nat_alt)
qed

text \<open>The state \<^verbatim>\<open>create_process\<close> leaves for a program of the file index, from an address space with room.\<close>

lemma create_process_loaded:
  assumes "pt_wf lev rk (k_mem k)" "pml4e (k_mem k) = KERN_MEM + rk" "\<forall>a \<in> D. data_frame lev (k_mem k) a"
    and "terminated bin" "length (cstr bin) < BINARY_LEN" "check_file bin (tarfs_ind k) = Inr elf" "elf \<noteq> 0"
    and "elf_file D (KERN_MEM + rk) elf entry phs (k_mem k)"
    and "\<forall>i. j \<le> i \<and> i < j + 10 \<longrightarrow> page_avail (k_mem k) i" "\<forall>i < j. \<not> page_avail (k_mem k) i"
    and "load_cost (loads phs) + 16 \<le> card (free_addrs (k_mem k))" and p: "p = KERN_MEM + of_nat j * 4096"
  obtains k' lev' r where "create_process bin k = Inr (Ret p, k')" "space lev' r D (k_mem k')"
    "t_cr3_address (tasks (k_sched k') p) = r" "t_pml4e_addr (tasks (k_sched k') p) = KERN_MEM + r" "t_entry_pt (tasks (k_sched k') p) = entry"
    "\<forall>ph \<in> set (loads phs). \<forall>i < unat (p_memsz ph). ldb (KERN_MEM + r) (p_vaddr ph + of_nat i) (k_mem k') = seg_byte (KERN_MEM + rk) elf (k_mem k) ph i"
    "\<forall>i < 4096. 0xeffff000 + of_nat i \<in> reg (leaf_entry (k_mem k') 4 r) D"
    "\<forall>b \<in> win D. ldb (KERN_MEM + r) b (k_mem k') = ldb (KERN_MEM + rk) b (k_mem k)"
proof -
  have D: "data_frame lev (k_mem k) a" if "a \<in> D" for a using that assms(3) by blast
  have av: "page_avail (k_mem k) i" if "j \<le> i" "i < j + 10" for i using that assms(9) by blast
  have na: "\<not> page_avail (k_mem k) i" if "i < j" for i using that assms(10) by blast
  obtain k6 lev6 r where k6: "create_process bin k = bindr (elf_load p bin k6) (\<lambda>(r, k7).
       case r of Switch \<Rightarrow> Inr (Switch, k7)
       | Ret _ \<Rightarrow> Inr (Ret p, set_task p (\<lambda>t. t\<lparr>t_kstack := entry_frame (t_entry_pt t) (t_kstack t),
                    t_kernel_rsp := kstack_addr p STACK_OFFSET\<rparr>) k7))"
    "space lev6 r D (k_mem k6)" "load_cost (loads phs) \<le> card (free_addrs (k_mem k6))" "tarfs_ind k6 = tarfs_ind k"
    "\<forall>v. user_addr v \<longrightarrow> (leaf_entry (k_mem k6) 4 r v = 0 \<longleftrightarrow> vpn v \<noteq> vpn 0xeffff000)"
    "\<forall>v \<in> win D. \<forall>q q'. ldb q v (k_mem k6) = ldb q' v (k_mem k)"
    "t_pml4e_addr (tasks (k_sched k6) p) = KERN_MEM + r" "t_cr3_address (tasks (k_sched k6) p) = r"
    "vma_list (t_mm (tasks (k_sched k6) p)) k6"
    by (rule create_process_prepared [OF assms(1,2) D assms(4,5) av na assms(11) p])
  let ?q = "KERN_MEM + r"
  have prog: "elf_file D ?q elf entry phs (k_mem k6)"
    by (rule elf_file_cong [OF _ assms(8)]) (use k6(6) in metis)
  have segs: "seg_ok D elf ph" if "ph \<in> set (loads phs)" for ph using assms(8) that by (simp add: elf_file_def)
  have free: "leaf_entry (k_mem k6) 4 r (ph_addr ph i) = 0" if "ph \<in> set (loads phs)" "i < ph_pages ph" for ph i
    using stack_vpn [OF segs [OF that(1)] that(2)] k6(5) by simp
  have found: "check_file bin (tarfs_ind k6) = Inr elf" and room: "load_cost (loads phs) + 0 \<le> card (free_addrs (k_mem k6))"
    using assms(6) k6(3,4) by simp_all
  obtain k7 lev' where k7: "elf_load p bin k6 = Inr (Ret 0, k7)" "space lev' r D (k_mem k7)"
    "k_sched k7 = upd_task p (\<lambda>x. x\<lparr>t_entry_pt := entry\<rparr>) (k_sched k6)"
    "\<And>ph i. ph \<in> set (loads phs) \<Longrightarrow> i < unat (p_memsz ph) \<Longrightarrow>
       ldb ?q (p_vaddr ph + of_nat i) (k_mem k7) = seg_byte ?q elf (k_mem k6) ph i"
    "\<And>b. b \<in> reg (leaf_entry (k_mem k6) 4 r) D \<Longrightarrow>
       b \<in> reg (leaf_entry (k_mem k7) 4 r) D \<and> ldb ?q b (k_mem k7) = ldb ?q b (k_mem k6)"
    by (rule elf_load_ok [OF k6(7) refl k6(2,9) found assms(7) prog free room]) blast+
  have win: "ldb ?q b (k_mem k7) = ldb (KERN_MEM + rk) b (k_mem k)" if "b \<in> win D" for b
    using k7(5) [of b] k6(6) that by (simp add: reg_def)
  have seg: "ldb ?q (p_vaddr ph + of_nat i) (k_mem k7) = seg_byte (KERN_MEM + rk) elf (k_mem k) ph i"
    if "ph \<in> set (loads phs)" "i < unat (p_memsz ph)" for ph i
    using k7(4) [OF that] seg_byte_cong [OF segs [OF that(1)]] k6(6) by metis
  have stack: "0xeffff000 + of_nat i \<in> reg (leaf_entry (k_mem k7) 4 r) D" if "i < 4096" for i
  proof -
    have "0xeffff000 + of_nat i \<in> reg (leaf_entry (k_mem k6) 4 r) D" using k6(5) stack_page [OF that] by (simp add: reg_def)
    then show ?thesis using k7(5) by blast
  qed
  let ?k = "set_task p (\<lambda>t. t\<lparr>t_kstack := entry_frame (t_entry_pt t) (t_kstack t), t_kernel_rsp := kstack_addr p STACK_OFFSET\<rparr>) k7"
  have "create_process bin k = Inr (Ret p, ?k)" unfolding k6(1) k7(1) by simp
  then show thesis
    by (rule that) (use k7(2,3) k6(7,8) seg win stack in \<open>auto simp: set_task_def upd_task_def\<close>)
qed

text \<open>
  C1. A new process holds its program: for a program of the file index, \<^verbatim>\<open>create_process\<close> returns a task whose address
  space holds every loadable segment of the file, followed by zeros up to \<^verbatim>\<open>p_memsz\<close>, at its address, and a mapped stack page
  below \<^verbatim>\<open>STACK_MEM_TOP\<close>; the entry point is the one of the file, and the pages of the file are not changed.
\<close>

theorem create_process_loads:
  assumes "pt_wf lev rk (k_mem k)" "pml4e (k_mem k) = KERN_MEM + rk" "\<forall>a \<in> D. data_frame lev (k_mem k) a"
    and "terminated bin" "length (cstr bin) < BINARY_LEN" "check_file bin (tarfs_ind k) = Inr elf" "elf \<noteq> 0"
    and "elf_file D (KERN_MEM + rk) elf entry phs (k_mem k)"
    and "\<forall>i. j \<le> i \<and> i < j + 10 \<longrightarrow> page_avail (k_mem k) i" "\<forall>i < j. \<not> page_avail (k_mem k) i"
    and "load_cost (loads phs) + 16 \<le> card (free_addrs (k_mem k))" and p: "p = KERN_MEM + of_nat j * 4096"
  shows "\<exists>k' r. create_process bin k = Inr (Ret p, k') \<and>
    t_cr3_address (tasks (k_sched k') p) = r \<and> t_pml4e_addr (tasks (k_sched k') p) = KERN_MEM + r \<and>
    t_entry_pt (tasks (k_sched k') p) = entry \<and>
    (\<forall>ph \<in> set (loads phs). \<forall>i < unat (p_memsz ph). ldb (KERN_MEM + r) (p_vaddr ph + of_nat i) (k_mem k') =
       (if i < unat (p_filesz ph) then ldb (KERN_MEM + rk) (elf + p_offset ph + of_nat i) (k_mem k) else Inr 0)) \<and>
    (\<forall>i < 4096. \<exists>x. ldb (KERN_MEM + r) (STACK_MEM_TOP - 4096 + of_nat i) (k_mem k') = Inr x) \<and>
    (\<forall>b \<in> win D. ldb (KERN_MEM + r) b (k_mem k') = ldb (KERN_MEM + rk) b (k_mem k))"
proof -
  obtain k' lev' r where k': "create_process bin k = Inr (Ret p, k')" "space lev' r D (k_mem k')"
    "t_cr3_address (tasks (k_sched k') p) = r" "t_pml4e_addr (tasks (k_sched k') p) = KERN_MEM + r" "t_entry_pt (tasks (k_sched k') p) = entry"
    "\<forall>ph \<in> set (loads phs). \<forall>i < unat (p_memsz ph). ldb (KERN_MEM + r) (p_vaddr ph + of_nat i) (k_mem k') = seg_byte (KERN_MEM + rk) elf (k_mem k) ph i"
    "\<forall>i < 4096. 0xeffff000 + of_nat i \<in> reg (leaf_entry (k_mem k') 4 r) D"
    "\<forall>b \<in> win D. ldb (KERN_MEM + r) b (k_mem k') = ldb (KERN_MEM + rk) b (k_mem k)"
    by (rule create_process_loaded [OF assms])
  then show ?thesis
    using ldb_reg [OF k'(2)] by (intro exI [of _ k'] exI [of _ r]) (simp add: seg_byte_def)
qed

lemma prog_file: "check_file [97, 0] (tarfs_ind prog_kernel) = Inr (KERN_MEM + 0x1200)"
proof -
  have e: "cstr prog_entry = [97]" "terminated prog_entry" "bin_start_addr prog_entry = KERN_MEM + 0x1200"
    using entry_form_fields(7) [of "97 # 0 # replicate 98 0" 0 48 "KERN_MEM + 0x1000"]
    by (simp_all add: prog_entry_def) (simp_all add: entry_form_def)
  have "terminated e" if "e \<in> set (prog_entry # replicate 39 (replicate 125 0))" for e
    using that e(2) by (auto simp: terminated_def)
  from check_file_finds [of "[97, 0]" "prog_entry # replicate 39 (replicate 125 0)", OF _ _ this] show ?thesis
    by (simp add: e prog_kernel_def)
qed

lemma prog_room:
  "\<forall>i. 3 \<le> i \<and> i < 3 + 10 \<longrightarrow> page_avail (k_mem prog_kernel) i" "\<forall>i < 3. \<not> page_avail (k_mem prog_kernel) i"
  "\<forall>a \<in> {0x1000}. data_frame [root2 \<mapsto> 4] (k_mem prog_kernel) a" "loads [prog_ph] = [prog_ph]"
  "load_cost [prog_ph] + 16 \<le> card (free_addrs (k_mem prog_kernel))"
proof -
  show "load_cost [prog_ph] + 16 \<le> card (free_addrs (k_mem prog_kernel))"
    using boot_room unfolding prog_free by (simp add: load_cost_def prog_pages)
qed (use prog_data in \<open>simp_all add: prog_avail prog_ph_def\<close>)

lemmas prog_hyps = prog_root(1) prog_kernel_simps(2) prog_room(3)

theorem create_process_loads_witness:
  "\<exists>k' r. create_process [97, 0] prog_kernel = Inr (Ret (KERN_MEM + 0x3000), k') \<and>
     t_pml4e_addr (tasks (k_sched k') (KERN_MEM + 0x3000)) = KERN_MEM + r \<and>
     t_entry_pt (tasks (k_sched k') (KERN_MEM + 0x3000)) = 0x400010 \<and>
     ldb (KERN_MEM + r) 0x400011 (k_mem k') = Inr 0xAB \<and> ldb (KERN_MEM + r) 0x400012 (k_mem k') = Inr 0"
proof -
  note run = create_process_loads [where j = 3 and p = "KERN_MEM + 0x3000" and phs = "[prog_ph]", unfolded prog_room(4),
      OF prog_hyps _ _ prog_file _ prog_elf prog_room(1,2,5)]
  have "terminated [97, 0]" "length (cstr [97, 0]) < BINARY_LEN" "KERN_MEM + 0x1200 \<noteq> 0" "KERN_MEM + 0x3000 = KERN_MEM + of_nat 3 * 4096"
    by simp_all
  from run [OF this] obtain k' r where k': "create_process [97, 0] prog_kernel = Inr (Ret (KERN_MEM + 0x3000), k')"
    "t_pml4e_addr (tasks (k_sched k') (KERN_MEM + 0x3000)) = KERN_MEM + r"
    "t_entry_pt (tasks (k_sched k') (KERN_MEM + 0x3000)) = 0x400010"
    and b: "\<forall>i < unat (p_memsz prog_ph). ldb (KERN_MEM + r) (p_vaddr prog_ph + of_nat i) (k_mem k') =
       (if i < unat (p_filesz prog_ph) then ldb (KERN_MEM + root2) (KERN_MEM + 0x1200 + p_offset prog_ph + of_nat i) (k_mem prog_kernel)
        else Inr 0)"
    by (metis list.set_intros(1))
  then show ?thesis
    using b [rule_format, of 1] b [rule_format, of 2] prog_byte by (intro exI [of _ k'] exI [of _ r]) (simp add: prog_ph_def)
qed

section \<open>The start of a new process\<close>

text \<open>
  With enough free pages the page table of a new task and its list of areas are pages of their own:
  both were free, they differ from each other, from the kernel's root and from the ten
  pages of the task structure.
\<close>

lemma process_pages:
  assumes "pt_wf lev rk s" "12 \<le> card (free_addrs s)"
    and "\<forall>i. j \<le> i \<and> i < j + 10 \<longrightarrow> page_avail s i" "\<forall>i < j. \<not> page_avail s i"
    and "memmap m1 = memmap (snd (kmalloc (10 * 4096) s))" "memmap m2 = memmap (snd (mem_allocate m1))"
    and "r = fst (mem_allocate m1)" "a = fst (mem_allocate m2)"
  shows "fst (kmalloc (10 * 4096) s) = KERN_MEM + of_nat j * 4096 \<and>
    {r, a} \<subseteq> free_addrs s - (\<lambda>i. of_nat i * 4096) ` {j..<j + 10} \<and> r \<noteq> a \<and> rk \<notin> {r, a}"
proof -
  let ?m = "snd (kmalloc (10 * 4096) s)"
  have ten: "(0 :: u64) < 10 * 4096" "unat (10 * 4096 :: u64) < 2 ^ 40" "10 = (unat (10 * 4096 :: u64) + 4095) div 4096" by simp_all
  note k = kmalloc_contiguous [OF pt_wfD(1) [OF assms(1)] ten assms(3,4)]
  have "10 \<le> card (free_addrs s)" using assms(2) by simp
  then obtain s' where s': "kmalloc (10 * 4096) s = (KERN_MEM + of_nat j * 4096, s')" "pt_wf lev rk s'"
    "card (free_addrs s') = card (free_addrs s) - 10" "free_addrs s' \<subseteq> free_addrs s"
    using kmalloc_ten [OF assms(1) _ assms(3) [rule_format] assms(4) [rule_format]] by metis
  have mm1: "memmap m1 = memmap s'" using assms(5) s'(1) by simp
  have ok1: "memmap_ok m1" "free_addrs m1 = free_addrs s'"
    using mm1 pt_wfD(1) [OF s'(2)] free_addrs_memmap [OF mm1] by (simp_all add: memmap_ok_def)
  have ok2: "memmap_ok m2" "free_addrs m2 = free_addrs s' - {r}"
    using pa.alloc_ok [OF ok1(1)] assms(6,7) pa.alloc_removes [OF ok1(1)] ok1(2) free_addrs_memmap [OF assms(6)]
    by (simp_all add: memmap_ok_def)
  have fin: "finite (free_addrs s')" using pa.free_finite [OF ok1(1)] ok1(2) by simp
  then have "2 \<le> card (free_addrs s')" "1 \<le> card (free_addrs s' - {r})"
    using assms(2) s'(3) card_Diff1_le [of "free_addrs s'" r] diff_card_le_card_Diff [of "{r}" "free_addrs s'"] by auto
  then have "free_addrs m1 \<noteq> {}" "free_addrs m2 \<noteq> {}"
    unfolding ok1(2) ok2(2) by (metis card.empty not_numeral_le_zero, metis card.empty not_one_le_zero)
  then have ra: "r \<in> free_addrs s'" "a \<in> free_addrs s' - {r}"
    using pa.alloc_takes [OF ok1(1)] pa.alloc_takes [OF ok2(1)] assms(7,8) ok1(2) ok2(2) by auto
  have "free_addrs s' \<inter> (\<lambda>i. of_nat i * 4096) ` {j..<j + 10} = {}"
  proof -
    have "\<not> page_avail s' i" if "j \<le> i" "i < j + 10" for i using k s'(1) that by simp
    moreover have "i < MAX_MEM" if "j \<le> i" "i < j + 10" for i using assms(3) that by (auto simp: page_avail_def)
    ultimately show ?thesis using page_addr_inject by (fastforce simp: free_addrs_def page_avail_def)
  qed
  moreover have "rk \<notin> free_addrs s"
  proof
    assume "rk \<in> free_addrs s"
    then obtain i where "page_avail s i" "rk = of_nat i * 4096" by (auto simp: free_addrs_def)
    then show False using avail_not_table [OF assms(1)] pt_wfD(2) [OF assms(1)] by force
  qed
  ultimately show ?thesis using ra s'(1,4) by auto
qed

text \<open>
  C2. A new process: whatever the program, the state that \<^verbatim>\<open>create_process\<close> leaves resumes the task at its entry point in
  user mode (code segment \<^verbatim>\<open>0x1b\<close>, stack segment \<^verbatim>\<open>0x23\<close>), with interrupts enabled, all registers zero, the stack
  pointer at the top of the stack area, descriptors redirected to themselves, and the next free pid; no other task changes.
  When the first ten free pages are adjacent and two more are free, the task structure takes the
  ten, the page table register names a page of its own that was free before, and the list of areas another one:
  neither is the kernel's page table, a page of the task structure, or the other.
\<close>

theorem created_process_starts:
  assumes "create_process bin k = Inr (Ret p, k')" and t_def: "t = tasks (k_sched k') p"
    and c_def: "c = resume_frame (t_kstack t) (kstack_slot p (t_kernel_rsp t)) c0"
    and "pt_wf lev rk (k_mem k)" "12 \<le> card (free_addrs (k_mem k))"
    and "\<forall>i. j \<le> i \<and> i < j + 10 \<longrightarrow> page_avail (k_mem k) i" "\<forall>i < j. \<not> page_avail (k_mem k) i"
  shows "c_rip c = t_entry_pt t \<and> c_cs c = 0x1b \<and> c_ss c = 0x23 \<and> c_rflags c = 0x246 \<and> c_rsp c = STACK_MEM_TOP - 8 \<and>
         (\<forall>r. regs c r = 0) \<and> t_pid t = avail_pid k + 1 \<and> avail_pid k' = avail_pid k + 1 \<and>
         t_fd_cnt t = 2 \<and> (\<forall>i < 25. t_dup_arr t ! i = of_nat i) \<and>
         (\<forall>q. q \<noteq> p \<longrightarrow> tasks (k_sched k') q = tasks (k_sched k) q) \<and>
         p = KERN_MEM + of_nat j * 4096 \<and> t_pml4e_addr t = KERN_MEM + t_cr3_address t \<and>
         {t_cr3_address t, t_mm t - KERN_MEM} \<subseteq> free_addrs (k_mem k) - (\<lambda>i. of_nat i * 4096) ` {j..<j + 10} \<and>
         t_cr3_address t \<noteq> t_mm t - KERN_MEM \<and> rk \<notin> {t_cr3_address t, t_mm t - KERN_MEM}"
proof -
  note task = created_task [OF assms(1-3)]
  then obtain m1 m2 where m: "memmap m1 = memmap (snd (kmalloc (10 * 4096) (k_mem k)))" "memmap m2 = memmap (snd (mem_allocate m1))"
    "t_cr3_address t = fst (mem_allocate m1)" "t_mm t - KERN_MEM = fst (mem_allocate m2)" by auto
  show ?thesis using task process_pages [OF assms(4-7) m] by blast
qed

theorem created_process_starts_witness:
  "\<exists>k' t. create_process [97, 0] prog_kernel = Inr (Ret (KERN_MEM + 0x3000), k') \<and> t = tasks (k_sched k') (KERN_MEM + 0x3000) \<and>
     c_cs (resume_frame (t_kstack t) (kstack_slot (KERN_MEM + 0x3000) (t_kernel_rsp t)) (cpu boot0)) = 0x1b \<and>
     t_cr3_address t \<in> free_addrs (k_mem prog_kernel) \<and> t_cr3_address t \<noteq> root2"
proof -
  have "terminated [97, 0]" "length (cstr [97, 0]) < BINARY_LEN" "KERN_MEM + 0x1200 \<noteq> 0" "KERN_MEM + 0x3000 = KERN_MEM + of_nat 3 * 4096"
    by simp_all
  from create_process_loaded [where phs = "[prog_ph]", unfolded prog_room(4), OF prog_hyps this(1,2) prog_file this(3) prog_elf prog_room(1,2,5) this(4)]
  obtain k' where k': "create_process [97, 0] prog_kernel = Inr (Ret (KERN_MEM + 0x3000), k')" by metis
  have "12 \<le> card (free_addrs (k_mem prog_kernel))" using prog_room(5) by simp
  note start = created_process_starts [OF k' refl refl prog_root(1) this prog_room(1,2), of "cpu boot0"]
  let ?t = "tasks (k_sched k') (KERN_MEM + 0x3000)"
  have cs: "c_cs (resume_frame (t_kstack ?t) (kstack_slot (KERN_MEM + 0x3000) (t_kernel_rsp ?t)) (cpu boot0)) = 0x1b"
    using start by (elim conjE) assumption
  have own: "{t_cr3_address ?t, t_mm ?t - KERN_MEM} \<subseteq> free_addrs (k_mem prog_kernel) - (\<lambda>i. of_nat i * 4096) ` {3..<3 + 10}"
    using start by (elim conjE) assumption
  have "root2 \<notin> {t_cr3_address ?t, t_mm ?t - KERN_MEM}"
    using start by (elim conjE) assumption
  then have "t_cr3_address ?t \<noteq> root2" by (metis insertI1)
  with k' cs DiffD1 [OF subsetD [OF own insertI1]] show ?thesis
    by (intro exI [of _ k'] exI [of _ ?t] conjI) (assumption | rule refl)+
qed

section \<open>The child of a fork\<close>

lemma allocate_vma_sched: "allocate_vma mm k = Inr (v, k1) \<Longrightarrow> k_sched k1 = k_sched k \<and> avail_pid k1 = avail_pid k"
  by (auto simp: allocate_vma_def set_mem_def Let_def bindr_eq_Inr split: if_splits prod.splits)

lemma copy_vmas_sched: "copy_vmas mm p k = Some r \<Longrightarrow> ens (\<lambda>k'. k_sched k' = k_sched k \<and> avail_pid k' = avail_pid k) r"
proof (erule copy_vmas.raw_induct [rotated], goal_cases)
  case (1 f mm p k r)
  then show ?case
    by (fastforce simp: Let_def set_vma_def split: if_splits sum.splits dest!: allocate_vma_sched)
qed

lemma clear_task_queues:
  assumes "sched_ok (k_sched k) rs ws" "fresh_task (k_sched k) rs ws p"
  shows "sched_ok (k_sched (clear_task p k)) rs ws" "fresh_task (k_sched (clear_task p k)) rs ws p"
proof -
  let ?h = "set_prv (node p) 0 (set_nxt (node p) 0 (nodes (k_sched k)))"
  have f: "node p \<notin> node ` (set rs \<union> set ws)" using assms(2) by (auto simp: fresh_task_def node_def)
  have "dlist ?h q (map node ts) \<longleftrightarrow> dlist (nodes (k_sched k)) q (map node ts)" if "node p \<noteq> q" "set ts \<subseteq> set rs \<union> set ws" for q ts
    using f that by (intro dlist_cong) auto
  then show "sched_ok (k_sched (clear_task p k)) rs ws"
    using assms by (simp add: sched_ok_def queues_def clear_task_def fresh_task_def Let_def)
  show "fresh_task (k_sched (clear_task p k)) rs ws p"
    using assms(2) by (simp add: fresh_task_def clear_task_def Let_def)
qed

text \<open>The task of the child, and what happens to the scheduler's state.\<close>

lemma forked_task:
  assumes "sys_fork k = Inr (v, k')" "kmalloc (10 * 4096) (k_mem k) = (p, m)" "p \<noteq> 0" "getCurrentTask (k_sched k) \<noteq> p"
    and pt_def: "pt = tasks (k_sched k) (getCurrentTask (k_sched k))" and k1_def: "k1 = clear_task p (set_mem m k)"
  obtains mm name dir fds where
    "k_sched k' = (snd (addTasktoQueueHead p (k_sched k1)))\<lparr>tasks := (tasks (k_sched k))(p := zero_task
       \<lparr>t_cr3_address := fst (mem_allocate (k_mem k1)), t_ppid := t_pid pt, t_pid := avail_pid k + 1,
        t_pml4e_addr := KERN_MEM + fst (mem_allocate (k_mem k1)), t_mm := mm, t_bin_name := name, t_dir_path := dir, t_is_sleep := False,
        t_sleep_time := 0, t_stack := STACK_MEM_TOP, t_entry_pt := t_entry_pt pt, t_fd_cnt := t_fd_cnt pt, t_fd := fds,
        t_dup_arr := map of_nat [0..<25], t_heap := (t_heap zero_task)\<lparr>bump_ptr := page_roundoff_4096 (bump_ptr (t_heap pt))\<rparr>,
        t_kstack := fork_frame (t_kstack pt) (t_kstack zero_task), t_kernel_rsp := kstack_addr p STACK_OFFSET\<rparr>)\<rparr>"
    "v = int (unat (avail_pid k + 1))" "avail_pid k' = avail_pid k + 1"
    "strcpy (t_bin_name zero_task) (t_bin_name pt) = Inr name" "strcpy (t_dir_path zero_task) (t_dir_path pt) = Inr dir"
    "fd_table pt (t_fd zero_task) = Inr fds"
proof -
  let ?pp = "getCurrentTask (k_sched k)"
  obtain a k2 where k2: "new_pml4 k1 = (a, k2)" by fastforce
  have a: "a = fst (mem_allocate (k_mem k1))" "k_sched k2 = k_sched k1" "avail_pid k2 = avail_pid k"
    using k2 by (auto simp: new_pml4_def k1_def clear_task_def set_mem_def Let_def split: prod.splits)
  define k3 where "k3 = k2\<lparr>k_sched := snd (addTasktoQueueHead p (k_sched k2))\<rparr>"
  have s3: "tasks (k_sched k3) = (tasks (k_sched k))(p := zero_task)" "avail_pid k3 = avail_pid k"
    using a by (auto simp: k3_def k1_def addTasktoQueueHead_def upd_lists_def clear_task_def set_mem_def Let_def)
  define k4 where "k4 = (set_task p (\<lambda>t. t\<lparr>t_cr3_address := a, t_ppid := t_pid (tasks (k_sched k3) ?pp), t_pid := avail_pid k3 + 1,
     t_pml4e_addr := KERN_MEM + a\<rparr>) k3)\<lparr>avail_pid := avail_pid k3 + 1\<rparr>"
  define k5 where "k5 = set_mem (snd (cow_walk_pages (t_pml4e_addr (tasks (k_sched k4) ?pp)) (KERN_MEM + a) (k_mem k4))) k4"
  obtain mm k6 where k6: "new_mm k5 = (mm, k6)" by fastforce
  have s6: "k_sched k6 = k_sched k4" "avail_pid k6 = avail_pid k + 1"
    using k6 s3 by (auto simp: new_mm_def k5_def k4_def set_mem_def set_task_def Let_def split: prod.splits)
  define ct where "ct = tasks (k_sched k6) p"
  have ct: "ct = zero_task\<lparr>t_cr3_address := a, t_ppid := t_pid pt, t_pid := avail_pid k + 1, t_pml4e_addr := KERN_MEM + a\<rparr>"
    using assms(4) s3 by (simp add: ct_def s6 k4_def set_task_def upd_task_def pt_def)
  have pt6: "tasks (k_sched k6) ?pp = pt" using assms(4) s3 by (simp add: s6 k4_def set_task_def upd_task_def pt_def)
  obtain name dir k8 fds where r: "strcpy (t_bin_name ct) (t_bin_name pt) = Inr name" "strcpy (t_dir_path ct) (t_dir_path pt) = Inr dir"
    "fd_table pt (t_fd ct) = Inr fds" "copy_vmas mm (vma_addr (mms k6 (t_mm pt))) (set_task p (\<lambda>t. t\<lparr>t_mm := mm, t_bin_name := name,
       t_dir_path := dir, t_is_sleep := False, t_sleep_time := 0, t_stack := STACK_MEM_TOP\<rparr>) k6) = Some (Inr k8)"
    "v = int (unat (avail_pid k3 + 1))" "k' = set_task p (\<lambda>t. t\<lparr>t_entry_pt := t_entry_pt pt, t_fd_cnt := t_fd_cnt pt, t_fd := fds,
       t_dup_arr := map of_nat [0..<25], t_heap := (t_heap t)\<lparr>bump_ptr := page_roundoff_4096 (bump_ptr (t_heap pt))\<rparr>,
       t_kstack := fork_frame (t_kstack pt) (t_kstack t), t_kernel_rsp := kstack_addr p STACK_OFFSET\<rparr>) k8"
    using assms(1,3) unfolding sys_fork_def Let_def assms(2) prod.case k1_def [symmetric] k2 k3_def [symmetric]
      k4_def [symmetric] k5_def [symmetric] k6 ct_def [symmetric] pt6
    by (auto simp: bindr_eq_Inr of_option_def set_task_def split: option.splits simp del: upt_rec_numeral)
  have s8: "k_sched k8 = upd_task p (\<lambda>t. t\<lparr>t_mm := mm, t_bin_name := name, t_dir_path := dir, t_is_sleep := False, t_sleep_time := 0,
      t_stack := STACK_MEM_TOP\<rparr>) (k_sched k6)" "avail_pid k8 = avail_pid k + 1"
    using copy_vmas_sched [OF r(4)] s6(2) by (simp_all add: set_task_def)
  show thesis
  proof (rule that)
    show "v = int (unat (avail_pid k + 1))" "avail_pid k' = avail_pid k + 1"
      using r(5,6) s3 s8(2) by (simp_all add: set_task_def)
  qed (use r ct s8 s6 s3 a in \<open>simp_all add: k4_def k3_def set_task_def upd_task_def ct_def fun_upd_idem_iff del: upt_rec_numeral\<close>)
qed

lemma strcpy_copies: "strcpy d s = Inr d' \<Longrightarrow> cstr d' = cstr s"
proof -
  assume r: "strcpy d s = Inr d'"
  then have "terminated s" by (auto simp: strcpy_def bindr_eq_Inr strlen_spec split: if_splits)
  then show ?thesis using r by (auto simp: strcpy_spec split: if_splits)
qed

lemma copy_fds_ok:
  "copy_fds n i from to = Inr to' \<Longrightarrow> length to' = length to \<and>
   (\<forall>l. i \<le> l \<and> l < i + n \<longrightarrow> f_offset (to' ! l) = f_offset (from ! l) \<and> cstr (f_path (to' ! l)) = cstr (f_path (from ! l))) \<and>
   (\<forall>l < i. to' ! l = to ! l)"
proof (induction n arbitrary: i to)
  case (Suc n)
  obtain f g path where s: "rd from i = Inr f" "rd to i = Inr g" "strcpy (f_path g) (f_path f) = Inr path"
    "copy_fds n (i + 1) from (to[i := g\<lparr>f_offset := f_offset f, f_path := path\<rparr>]) = Inr to'"
    using Suc.prems by (auto simp: bindr_eq_Inr)
  have f: "f = from ! i" "i < length to" using s(1,2) by (auto simp: rd_def split: if_splits)
  have ih: "length to' = length to" "\<forall>l. Suc i \<le> l \<and> l < Suc i + n \<longrightarrow> f_offset (to' ! l) = f_offset (from ! l) \<and> cstr (f_path (to' ! l)) = cstr (f_path (from ! l))"
    "\<forall>l < Suc i. to' ! l = to[i := g\<lparr>f_offset := f_offset f, f_path := path\<rparr>] ! l"
    using Suc.IH [OF s(4)] by simp_all
  have "f_offset (to' ! i) = f_offset (from ! i)" "cstr (f_path (to' ! i)) = cstr (f_path (from ! i))"
    using ih(3) f strcpy_copies [OF s(3)] by simp_all
  then have "f_offset (to' ! l) = f_offset (from ! l) \<and> cstr (f_path (to' ! l)) = cstr (f_path (from ! l))" if "i \<le> l" "l < i + Suc n" for l
    using ih(2) that by (cases "l = i") simp_all
  then show ?case using ih(1,3) by (simp add: less_SucI)
qed auto

text \<open>
  C3. Fork: when it returns, the parent gets the child's pid, the next free one; the child is queued in front of the run queue,
  the parent stays the current task, and no other task changes.  The child has its parent's
  pid as \<^verbatim>\<open>ppid\<close>, its name, directory, entry point and open descriptors, but no redirections, and a page table of its own in a page that was
  free before.  When the parent entered the call with processor state \<open>c\<close>, the child resumes after the call as its
  parent would, with \<^verbatim>\<open>rax\<close> 0 and flags \<^verbatim>\<open>0x200286\<close>.  The first ten free pages are adjacent, and there is room for the task.
\<close>

theorem sys_fork_child:
  assumes "sys_fork k = Inr (v, k')" "sched_ok (k_sched k) rs ws" "rs \<noteq> []" "length rs + length ws < 128"
    and "pt_wf lev rk (k_mem k)" "12 \<le> card (free_addrs (k_mem k))"
    and "\<forall>i. j \<le> i \<and> i < j + 10 \<longrightarrow> page_avail (k_mem k) i" "\<forall>i < j. \<not> page_avail (k_mem k) i"
    and p: "p = KERN_MEM + of_nat j * 4096" "fresh_task (k_sched k) rs ws p"
    and pt: "pt = tasks (k_sched k) (last rs)" "t_kstack pt = enter_syscall c ret st" and t: "t = tasks (k_sched k') p"
  shows "v = int (unat (t_pid t)) \<and> t_pid t = avail_pid k + 1 \<and> avail_pid k' = avail_pid k + 1 \<and> t_ppid t = t_pid pt \<and>
    sched_ok (k_sched k') (p # rs) ws \<and> getCurrentTask (k_sched k') = last rs \<and>
    (\<forall>q. q \<noteq> p \<longrightarrow> tasks (k_sched k') q = tasks (k_sched k) q) \<and>
    resume_frame (t_kstack t) (kstack_slot p (t_kernel_rsp t)) c0 =
      c0\<lparr>regs := (regs c)(RAX := 0), c_rip := c_rip c, c_cs := c_cs c, c_rflags := 0x200286, c_rsp := c_rsp c, c_ss := c_ss c\<rparr> \<and>
    t_pml4e_addr t = KERN_MEM + t_cr3_address t \<and>
    t_cr3_address t \<in> free_addrs (k_mem k) - (\<lambda>i. of_nat i * 4096) ` {j..<j + 10} \<and> t_cr3_address t \<noteq> rk \<and>
    cstr (t_bin_name t) = cstr (t_bin_name pt) \<and> cstr (t_dir_path t) = cstr (t_dir_path pt) \<and> t_entry_pt t = t_entry_pt pt \<and>
    t_fd_cnt t = t_fd_cnt pt \<and> (\<forall>i < 25. t_dup_arr t ! i = of_nat i) \<and>
    (\<forall>i. int i \<le> sint (t_fd_cnt pt) \<longrightarrow>
       f_offset (t_fd t ! i) = f_offset (t_fd pt ! i) \<and> cstr (f_path (t_fd t ! i)) = cstr (f_path (t_fd pt ! i)))"
proof -
  have q: "queues (k_sched k) rs ws" using assms(2) by (simp add: sched_ok_def)
  have cur: "getCurrentTask (k_sched k) = last rs" by (rule current_last [OF q assms(3)])
  obtain p1 m where m: "kmalloc (10 * 4096) (k_mem k) = (p1, m)" by fastforce
  define k1 where "k1 = clear_task p1 (set_mem m k)"
  have mm1: "memmap (k_mem k1) = memmap (snd (kmalloc (10 * 4096) (k_mem k)))"
    unfolding k1_def memmap_clear_task m by (simp add: set_mem_def)
  note pages = process_pages [OF assms(5-8) mm1 refl refl refl]
  have p1: "p1 = p" using pages m p(1) by simp
  have "p \<noteq> 0"
  proof -
    have "j < MAX_MEM" using assms(7) [rule_format, of j] by (auto simp: page_avail_def)
    then show ?thesis using p(1) kern_page_nonzero [of j] by simp
  qed
  have "last rs \<noteq> p" using p(2) assms(3) by (auto simp: fresh_task_def)
  obtain mm name dir fds where ch:
    "k_sched k' = (snd (addTasktoQueueHead p (k_sched k1)))\<lparr>tasks := (tasks (k_sched k))(p := zero_task
       \<lparr>t_cr3_address := fst (mem_allocate (k_mem k1)), t_ppid := t_pid pt, t_pid := avail_pid k + 1,
        t_pml4e_addr := KERN_MEM + fst (mem_allocate (k_mem k1)), t_mm := mm, t_bin_name := name, t_dir_path := dir, t_is_sleep := False,
        t_sleep_time := 0, t_stack := STACK_MEM_TOP, t_entry_pt := t_entry_pt pt, t_fd_cnt := t_fd_cnt pt, t_fd := fds,
        t_dup_arr := map of_nat [0..<25], t_heap := (t_heap zero_task)\<lparr>bump_ptr := page_roundoff_4096 (bump_ptr (t_heap pt))\<rparr>,
        t_kstack := fork_frame (t_kstack pt) (t_kstack zero_task), t_kernel_rsp := kstack_addr p STACK_OFFSET\<rparr>)\<rparr>"
    "v = int (unat (avail_pid k + 1))" "avail_pid k' = avail_pid k + 1"
    "strcpy (t_bin_name zero_task) (t_bin_name pt) = Inr name" "strcpy (t_dir_path zero_task) (t_dir_path pt) = Inr dir"
    "fd_table pt (t_fd zero_task) = Inr fds"
    by (rule forked_task [OF assms(1) m [unfolded p1] \<open>p \<noteq> 0\<close> _ _ k1_def [unfolded p1]]) (use cur \<open>last rs \<noteq> p\<close> pt(1) in simp_all)
  have k1: "sched_ok (k_sched k1) rs ws" "fresh_task (k_sched k1) rs ws p"
    unfolding k1_def p1 using clear_task_queues [of "set_mem m k" rs ws p] assms(2) p(2) by (simp_all add: set_mem_def)
  have "sched_ok (snd (addTasktoQueueHead p (k_sched k1))) (p # rs) ws" using addTask_ok [OF k1] assms(4) by simp
  then have ok: "sched_ok (k_sched k') (p # rs) ws" unfolding ch(1) by (simp add: sched_ok_def queues_def)
  then have last: "getCurrentTask (k_sched k') = last rs"
    using current_last [of "k_sched k'" "p # rs" ws] assms(3) by (simp add: sched_ok_def)
  have tk: "tasks (k_sched k') = (tasks (k_sched k))(p := t)" using ch(1) t by simp
  have task: "t_cr3_address t = fst (mem_allocate (k_mem k1))" "t_ppid t = t_pid pt" "t_pid t = avail_pid k + 1"
    "t_pml4e_addr t = KERN_MEM + fst (mem_allocate (k_mem k1))" "t_bin_name t = name" "t_dir_path t = dir" "t_entry_pt t = t_entry_pt pt"
    "t_fd_cnt t = t_fd_cnt pt" "t_fd t = fds" "t_dup_arr t = map of_nat [0..<25]"
    "t_kstack t = fork_frame (t_kstack pt) (t_kstack zero_task)" "t_kernel_rsp t = kstack_addr p STACK_OFFSET"
    unfolding t ch(1) by (simp_all del: upt_rec_numeral)
  have "kstack_slot p (kstack_addr p 491) = 491" by (rule kstack_slot_addr) simp
  then have "resume_frame (t_kstack t) (kstack_slot p (t_kernel_rsp t)) c0 =
      c0\<lparr>regs := (regs c)(RAX := 0), c_rip := c_rip c, c_cs := c_cs c, c_rflags := 0x200286, c_rsp := c_rsp c, c_ss := c_ss c\<rparr>"
    using fork_frame_regs [of c ret st "t_kstack zero_task" c0]
    by (simp add: task pt(2) resume_frame_def fork_frame_slots enter_slots)
  moreover have "f_offset (t_fd t ! i) = f_offset (t_fd pt ! i) \<and> cstr (f_path (t_fd t ! i)) = cstr (f_path (t_fd pt ! i))"
    if "int i \<le> sint (t_fd_cnt pt)" for i
    using copy_fds_ok [OF ch(6) [unfolded fd_table_def]] that task(9) by simp
  moreover have "\<forall>i < 25. t_dup_arr t ! i = of_nat i" by (simp add: task del: upt_rec_numeral)
  moreover have "t_cr3_address t \<in> free_addrs (k_mem k) - (\<lambda>i. of_nat i * 4096) ` {j..<j + 10}" "t_cr3_address t \<noteq> rk"
    using pages task(1) by auto
  ultimately show ?thesis
    using ok last tk ch(2,3) task strcpy_copies [OF ch(4)] strcpy_copies [OF ch(5)] by simp
qed

text \<open>A parent without memory areas, one call deep in the kernel.\<close>

lemma sys_fork_returns:
  assumes "kmalloc (10 * 4096) (k_mem k) = (p, m)" "p \<noteq> 0" "getCurrentTask (k_sched k) \<noteq> p"
    and pt_def: "pt = tasks (k_sched k) (getCurrentTask (k_sched k))" and "vma_addr (mms k (t_mm pt)) = 0"
    and "strcpy (t_bin_name zero_task) (t_bin_name pt) = Inr name" "strcpy (t_dir_path zero_task) (t_dir_path pt) = Inr dir"
    and "fd_table pt (t_fd zero_task) = Inr fds"
  shows "\<exists>v k'. sys_fork k = Inr (v, k')"
proof -
  let ?pp = "getCurrentTask (k_sched k)"
  define k1 where "k1 = clear_task p (set_mem m k)"
  obtain a k2 where k2: "new_pml4 k1 = (a, k2)" by fastforce
  define k3 where "k3 = k2\<lparr>k_sched := snd (addTasktoQueueHead p (k_sched k2))\<rparr>"
  have s3: "tasks (k_sched k3) = (tasks (k_sched k))(p := zero_task)" "mms k3 = mms k"
    using k2 by (auto simp: new_pml4_def k3_def k1_def addTasktoQueueHead_def upd_lists_def clear_task_def set_mem_def Let_def split: prod.splits)
  define k4 where "k4 = (set_task p (\<lambda>t. t\<lparr>t_cr3_address := a, t_ppid := t_pid (tasks (k_sched k3) ?pp), t_pid := avail_pid k3 + 1,
     t_pml4e_addr := KERN_MEM + a\<rparr>) k3)\<lparr>avail_pid := avail_pid k3 + 1\<rparr>"
  define k5 where "k5 = set_mem (snd (cow_walk_pages (t_pml4e_addr (tasks (k_sched k4) ?pp)) (KERN_MEM + a) (k_mem k4))) k4"
  obtain mm k6 where k6: "new_mm k5 = (mm, k6)" by fastforce
  have s6: "k_sched k6 = k_sched k4" "vma_addr (mms k6 (t_mm pt)) = 0"
    using k6 s3 assms(5) by (auto simp: new_mm_def k5_def k4_def set_mem_def set_task_def Let_def split: prod.splits)
  define ct where "ct = tasks (k_sched k6) p"
  have ct: "t_bin_name ct = t_bin_name zero_task" "t_dir_path ct = t_dir_path zero_task" "t_fd ct = t_fd zero_task"
    using s3 by (simp_all add: ct_def s6 k4_def set_task_def upd_task_def)
  have pt6: "tasks (k_sched k6) ?pp = pt" using assms(3) s3 by (simp add: s6 k4_def set_task_def upd_task_def pt_def)
  have none: "copy_vmas mm 0 k7 = Some (Inr k7)" for k7 by (simp add: copy_vmas.simps)
  have mms: "mms (set_task p f k6) = mms k6" for f by (simp add: set_task_def)
  show ?thesis
    unfolding sys_fork_def Let_def assms(1) prod.case k1_def [symmetric] k2 k3_def [symmetric]
      k4_def [symmetric] k5_def [symmetric] k6 ct_def [symmetric] pt6
    using assms(2,6-8) by (simp add: ct mms s6(2) none of_option_def del: upt_rec_numeral)
qed

definition fork_kernel :: kernel where
  "fork_kernel = prog_kernel\<lparr>k_sched := upd_task 0x200000 (\<lambda>t. zero_task\<lparr>t_pid := 7, t_entry_pt := 0x400010,
     t_kstack := enter_syscall ((cpu boot0)\<lparr>c_rip := 0x400020\<rparr>) 0 (\<lambda>_. 0)\<rparr>) boot2\<rparr>"

theorem sys_fork_child_witness:
  "\<exists>v k' t. sys_fork fork_kernel = Inr (v, k') \<and> t = tasks (k_sched k') (KERN_MEM + 0x3000) \<and> t_ppid t = 7 \<and>
     sched_ok (k_sched k') [KERN_MEM + 0x3000, 0x100000, 0x200000] [] \<and>
     c_rip (resume_frame (t_kstack t) (kstack_slot (KERN_MEM + 0x3000) (t_kernel_rsp t)) (cpu boot0)) = 0x400020 \<and>
     regs (resume_frame (t_kstack t) (kstack_slot (KERN_MEM + 0x3000) (t_kernel_rsp t)) (cpu boot0)) RAX = 0"
proof -
  have km: "k_mem fork_kernel = k_mem prog_kernel" "mms fork_kernel = mms kernel_empty" by (simp_all add: fork_kernel_def prog_kernel_def)
  have ok: "sched_ok (k_sched fork_kernel) [0x100000, 0x200000] []" using boot2_ok by (simp add: fork_kernel_def sched_ok_def)
  then have cur: "getCurrentTask (k_sched fork_kernel) = 0x200000"
    using current_last [of "k_sched fork_kernel" "[0x100000, 0x200000]" "[]"] by (simp add: sched_ok_def)
  let ?p = "KERN_MEM + 0x3000"
  define pt where "pt = tasks (k_sched fork_kernel) 0x200000"
  have pt: "pt = zero_task\<lparr>t_pid := 7, t_entry_pt := 0x400010, t_kstack := enter_syscall ((cpu boot0)\<lparr>c_rip := 0x400020\<rparr>) 0 (\<lambda>_. 0)\<rparr>"
    by (simp add: pt_def fork_kernel_def)
  have fresh: "fresh_task (k_sched fork_kernel) [0x100000, 0x200000] [] ?p"
    by (simp add: fresh_task_def node_def fork_kernel_def)
  obtain m where m: "kmalloc (10 * 4096) (k_mem fork_kernel) = (?p, m)"
    using kmalloc_contiguous [OF pt_wfD(1) [OF prog_root(1)], of "10 * 4096" 10 3] prog_room(1,2)
    by (cases "kmalloc (10 * 4096) (k_mem fork_kernel)") (simp add: km)
  have nm: "strcpy (t_bin_name zero_task) (t_bin_name pt) = Inr (replicate BINARY_LEN 0)"
    "strcpy (t_dir_path zero_task) (t_dir_path pt) = Inr (replicate DIR_LEN 0)" 
    unfolding pt by code_simp+
  have "copy_fds 1 0 (t_fd zero_task) (t_fd zero_task) = Inr (t_fd zero_task)" by code_simp
  then have fd: "fd_table pt (t_fd zero_task) = Inr (t_fd zero_task)" by (simp add: pt fd_table_def zero_task_def)
  have pt0: "pt = tasks (k_sched fork_kernel) (getCurrentTask (k_sched fork_kernel))" by (simp add: pt_def cur)
  obtain v k' where k': "sys_fork fork_kernel = Inr (v, k')"
    using sys_fork_returns [OF m _ _ pt0 _ nm fd] cur by (auto simp: km kernel_empty_def kernel_shared_def)
  have "12 \<le> card (free_addrs (k_mem fork_kernel))" using prog_room(5) km(1) by simp
  note child = sys_fork_child [OF k' ok _ _ prog_root(1) [folded km(1)] this prog_room(1,2) [folded km(1)] _ fresh, of pt _ _ _ _ "cpu boot0"]
  let ?t = "tasks (k_sched k') ?p"
  have "t_ppid ?t = t_pid pt \<and> sched_ok (k_sched k') [?p, 0x100000, 0x200000] [] \<and>
      resume_frame (t_kstack ?t) (kstack_slot ?p (t_kernel_rsp ?t)) (cpu boot0) =
        (cpu boot0)\<lparr>regs := (regs (cpu boot0))(RAX := 0), c_rip := 0x400020, c_cs := c_cs (cpu boot0), c_rflags := 0x200286,
          c_rsp := c_rsp (cpu boot0), c_ss := c_ss (cpu boot0)\<rparr>"
    using child [of "(cpu boot0)\<lparr>c_rip := 0x400020\<rparr>" 0 "\<lambda>_. 0" ?t] by (simp add: pt_def [symmetric]) (simp add: pt)
  with k' show ?thesis by (intro exI [of _ v] exI [of _ k'] exI [of _ ?t]) (simp add: pt)
qed

end
