(* ===== verification/Boot.thy ===== *)
theory Boot
  imports Process Interrupts
begin

text \<open>
  Starting the kernel: \<^verbatim>\<open>start\<close> of \<^verbatim>\<open>sys/main.c\<close>, and \<^verbatim>\<open>initTask\<close> of \<^verbatim>\<open>sys/process.c\<close>, which
  makes a task that runs inside the kernel.  The archive of the file system is a parameter, with
  the address it is linked at; so are the bounds of the kernel image that the loader passes.
\<close>

section \<open>Kernel tasks\<close>

definition prepKernelStack :: "u64 \<Rightarrow> (nat \<Rightarrow> u64) \<Rightarrow> (nat \<Rightarrow> u64)" where
  "prepKernelStack rip stack = stack(KERNEL_STACK_SIZE - 1 := rip)"

text \<open>
  \<open>cr3\<close> is what \<^verbatim>\<open>getCR3\<close> returns: its assembly overwrites the register of an input operand, so
  the C code does not determine whether that is the register or the initial zero.  \<open>local\<close> is the
  address of the local variable \<^verbatim>\<open>task\<close>, which the code adds one pointer to for \<^verbatim>\<open>mm\<close>.
\<close>

definition initTask :: "u64 \<Rightarrow> u64 \<Rightarrow> ptr \<Rightarrow> kernel \<Rightarrow> ptr \<times> kernel" where
  "initTask cr3 entry_point local k =
     (let (a, m1) = mem_allocate (k_mem k);
          (b, m2) = mem_allocate m1;
          (c, m3) = mem_allocate m2;
          task = KERN_MEM + a;
          pid = avail_pid k + 1
      in (task, (set_task task (\<lambda>t. t\<lparr>t_pid := pid, t_state := 0, t_mm := local + 8,
                   t_kstack := prepKernelStack entry_point (t_kstack t),
                   t_kernel_rsp := kstack_addr task (KERNEL_STACK_SIZE - 1 - NUM_REGISTERS_SAVED),
                   t_cr3_address := cr3\<rparr>) (set_mem m3 k))\<lparr>avail_pid := pid\<rparr>))"

section \<open>\<^verbatim>\<open>start\<close>\<close>

text \<open>\<^verbatim>\<open>addTasktoQueue(create_process(bin))\<close>.\<close>

definition launch :: "string \<Rightarrow> kernel \<Rightarrow> kstep" where
  "launch bin k =
     bindr (create_process (map of_char bin @ [0]) k) (\<lambda>(r, k1).
       case r of
         Switch \<Rightarrow> Inr (Switch, k1)
       | Ret p \<Rightarrow> (let (q, s) = addTasktoQueue p (k_sched k1) in Inr (Ret q, k1\<lparr>k_sched := s\<rparr>)))"

text \<open>
  The last step, \<^verbatim>\<open>init_process\<close>, ends in \<^verbatim>\<open>iretq\<close>: what follows it in \<^verbatim>\<open>start\<close> is not reached,
  and the result is the state in which the first process runs.
\<close>

definition start :: "u8 list \<Rightarrow> u64 \<Rightarrow> u64 \<Rightarrow> u64 \<Rightarrow> kernel \<Rightarrow> kstep" where
  "start img tarfs_start physbase physfree k =
     bindr (tarfs_initialize img tarfs_start (tarfs_ind k)) (\<lambda>tab.
       bindr (mem_init physbase physfree (k_mem k)) (\<lambda>m.
         bindr (reset (con (k_tty k))) (\<lambda>c.
           let k1 = k\<lparr>tarfs_ind := tab, k_mem := m, k_tty := (k_tty k)\<lparr>scan_flag := False, con := c\<rparr>\<rparr>
           in and_then (launch ''bin/idle'' k1) (\<lambda>k2.
                and_then (launch ''bin/sbush'' k2) (\<lambda>k3.
                  Inr (Switch, k3\<lparr>k_sched := init_process (k_sched k3)\<rparr>))))))"

end
