(* ===== verification/Files_Props.thy ===== *)
theory Files_Props
  imports Files VMem_Props Tarfs_Claims
begin

text \<open>The accesses to user memory on a mapped region, and the updates of descriptors.\<close>

section \<open>User memory\<close>

lemma cur_set_mem [simp]: "cur_task (set_mem m k) = cur_task k" "cur_pml4 (set_mem m k) = cur_pml4 k"
  "k_mem (set_mem m k) = m" "set_mem m (set_mem m' k) = set_mem m k"
  by (simp_all add: set_mem_def cur_task_def cur_pml4_def)

lemma redirected_set_mem [simp]: "redirected v (set_mem m k) = redirected v k"
  unfolding redirected_def cur_set_mem by (rule refl)

lemma byte_ldb:
  "mem_region lev r f A m \<Longrightarrow> a \<in> A \<Longrightarrow> vm.byte r a m = x \<longleftrightarrow> ldb (KERN_MEM + r) a m = Inr x"
  using vm.ld_byte [of lev r f A m a] by auto

lemma ldb_byte:
  "mem_region lev r f A m \<Longrightarrow> mem_region lev r f A m' \<Longrightarrow> a \<in> A \<Longrightarrow> b \<in> A \<Longrightarrow>
   vm.byte r a m = vm.byte r b m' \<longleftrightarrow> ldb (KERN_MEM + r) a m = ldb (KERN_MEM + r) b m'"
  using vm.ld_byte [of lev r f A m a] vm.ld_byte [of lev r f A m' b] by auto

lemma user_str_ok:
  assumes "mem_region lev r f A (k_mem k)" "cur_pml4 k = KERN_MEM + r" "span a (Suc (length cs)) \<subseteq> A" "0 \<notin> set cs"
    and "\<And>i. i < length cs \<Longrightarrow> ldb (KERN_MEM + r) (a + of_nat i) (k_mem k) = Inr (cs ! i)"
    and "ldb (KERN_MEM + r) (a + of_nat (length cs)) (k_mem k) = Inr 0"
  shows "user_str a k = Inr (cs @ [0])"
proof -
  have "a + of_nat i \<in> A" if "i \<le> length cs" for i using that assms(3) span_mem [of i "Suc (length cs)" a] by auto
  then have "mem_str (ldb (KERN_MEM + r)) a (k_mem k) = Some (Inr (cs @ [0]))"
    using assms by (intro vm.mem_str_ok [OF assms(1,3,4)]) (simp_all add: byte_ldb)
  then show ?thesis using assms(2) by (simp add: user_str_def read_str_def)
qed

lemma user_store_ok:
  assumes "mem_region lev r f A (k_mem k)" "cur_pml4 k = KERN_MEM + r" "span d (length cs) \<subseteq> A" "length cs \<le> 2 ^ 63"
  shows "\<exists>m. user_store d cs k = Inr (set_mem m k) \<and> mem_region lev r f A m \<and>
           (\<forall>i < length cs. ldb (KERN_MEM + r) (d + of_nat i) m = Inr (cs ! i)) \<and>
           (\<forall>b \<in> A - span d (length cs). ldb (KERN_MEM + r) b m = ldb (KERN_MEM + r) b (k_mem k))"
proof -
  obtain m where m: "mem_store (stb (KERN_MEM + r)) d cs (k_mem k) = Inr m" "mem_region lev r f A m"
    "\<forall>i < length cs. vm.byte r (d + of_nat i) m = cs ! i"
    "\<forall>b \<in> A - span d (length cs). vm.byte r b m = vm.byte r b (k_mem k)"
    using vm.mem_store_ok [OF assms(1,3,4)] by blast
  have "d + of_nat i \<in> A" if "i < length cs" for i using that assms(3) span_mem by auto
  with m show ?thesis
    using assms(1,2) ldb_byte [OF m(2) assms(1)] by (intro exI [of _ m]) (simp add: user_store_def byte_ldb)
qed

lemma user_copy_ok:
  assumes "mem_region lev r f A (k_mem k)" "cur_pml4 k = KERN_MEM + r" "span d n \<subseteq> A" "span s n \<subseteq> A"
    and "span d n \<inter> span s n = {}" "n \<le> 2 ^ 63"
  shows "\<exists>m. user_copy n d s k = Inr (set_mem m k) \<and> mem_region lev r f A m \<and>
           (\<forall>i < n. ldb (KERN_MEM + r) (d + of_nat i) m = ldb (KERN_MEM + r) (s + of_nat i) (k_mem k)) \<and>
           (\<forall>b \<in> A - span d n. ldb (KERN_MEM + r) b m = ldb (KERN_MEM + r) b (k_mem k))"
proof -
  let ?cs = "map (\<lambda>i. vm.byte r (s + of_nat i) (k_mem k)) [0..<n]"
  obtain m where m: "user_store d ?cs k = Inr (set_mem m k)" "mem_region lev r f A m"
    "\<forall>i < length ?cs. ldb (KERN_MEM + r) (d + of_nat i) m = Inr (?cs ! i)"
    "\<forall>b \<in> A - span d (length ?cs). ldb (KERN_MEM + r) b m = ldb (KERN_MEM + r) b (k_mem k)"
    using user_store_ok [OF assms(1,2), of d ?cs] assms(3,6) by auto
  have "user_copy n d s k = user_store d ?cs k"
    using vm.mem_copy_store [OF assms(1,3,4,5,6)] assms(2) by (simp add: user_copy_def user_store_def)
  moreover have "ldb (KERN_MEM + r) (s + of_nat i) (k_mem k) = Inr (?cs ! i)" if "i < n" for i
    using that assms(4) span_mem [OF that, of s] vm.ld_byte [OF assms(1)] by auto
  ultimately show ?thesis using m by (intro exI [of _ m]) simp
qed

section \<open>Descriptors\<close>

lemma cur_set_cur [simp]: "cur_task (set_cur g k) = g (cur_task k)" "k_mem (set_cur g k) = k_mem k"
  "tarfs_ind (set_cur g k) = tarfs_ind k" "k_tty (set_cur g k) = k_tty k"
  by (simp_all add: set_cur_def set_task_def cur_task_def upd_task_def getCurrentTask_def)

lemma cur_set_entry [simp]: "cur_task (set_entry i x k) = cur_task k" "k_mem (set_entry i x k) = k_mem k"
  "k_tty (set_entry i x k) = k_tty k" "cur_pml4 (set_entry i x k) = cur_pml4 k"
  "tarfs_ind (set_entry i x k) = (tarfs_ind k)[i := x]"
  by (simp_all add: set_entry_def cur_task_def cur_pml4_def)

lemma upd_fd_ok:
  "i < length (t_fd (cur_task k)) \<Longrightarrow>
   upd_fd i g k = Inr (set_cur (\<lambda>t. t\<lparr>t_fd := (t_fd t)[i := g (t_fd (cur_task k) ! i)]\<rparr>) k)"
  by (simp add: upd_fd_def)

lemma cur_pml4_set_cur [simp]: "t_pml4e_addr (g (cur_task k)) = t_pml4e_addr (cur_task k) \<Longrightarrow> cur_pml4 (set_cur g k) = cur_pml4 k"
  by (simp add: cur_pml4_def)

end
