(* ===== verification/UserHeap_Claims.thy ===== *)
theory UserHeap_Claims
  imports UserHeap Cow_Claims
begin

text \<open>The properties of \<^verbatim>\<open>sys_brk\<close> and of the list of memory areas.\<close>

section \<open>Lemmas\<close>

lemma brk_loop_range:
  "brk_loop n (KERN_MEM + r) v m remsz =
   bindr (map_range (user_body r) n v m) (\<lambda>m'. Inr (m', remsz + 4096 * of_nat n))"
proof (induction n arbitrary: v m remsz)
  case (Suc n)
  have "brk_loop (Suc n) (KERN_MEM + r) v m remsz =
      bindr (user_body r v m) (\<lambda>m3. brk_loop n (KERN_MEM + r) (v + 4096) m3 (remsz + 4096))"
    by (simp add: user_body_def page_insert_def Let_def case_prod_beta bindr_assoc)
  moreover have "remsz + 4096 + 4096 * of_nat n = remsz + 4096 * of_nat (Suc n)" by (simp add: algebra_simps)
  ultimately show ?case by (simp only: Suc map_range.simps bindr_assoc)
qed simp

lemma brk_pages_small:
  assumes "unat remsz \<le> unat sz"
  shows "unat (brk_pages sz remsz) = (unat sz - unat remsz) div 4096 + (if sz mod 4096 > 0 then 1 else 0)"
proof -
  have d: "unat ((sz - remsz) div 4096) = (unat sz - unat remsz) div 4096"
    using assms by (simp add: unat_div unat_sub word_le_nat_alt)
  have "(unat sz - unat remsz) div 4096 < 2 ^ 52" using unsigned_less [of sz, where ?'a = nat] by simp
  then have "unat ((sz - remsz) div 4096 + 1) = unat ((sz - remsz) div 4096) + 1"
    unfolding d [symmetric] by (simp add: unat_word_ariths)
  then show ?thesis by (simp add: brk_pages_def Let_def d)
qed

lemma sys_brk_grow:
  assumes "getCurrentTask (k_sched k) = p" "tasks (k_sched k) p = proc" "t_pml4e_addr proc = KERN_MEM + r"
    and "bump_ptr (t_heap proc) = b" "rem_size (t_heap proc) = q" "0 < sz" "q \<le> sz" "b + sz \<noteq> 0"
    and "map_range (user_body r) (unat (brk_pages sz q)) (b + q) (k_mem k) = Inr m"
  shows "sys_brk (b + sz) k =
           Inr (b, set_heap p (b + sz) (q + 4096 * brk_pages sz q - sz) (set_mem m k))"
  using assms by (simp add: sys_brk_def brk_loop_range not_less [symmetric])

lemma brk_pages_cover:
  assumes "q \<le> sz" "sz mod 4096 \<noteq> 0 \<or> q mod 4096 = 0" "n = unat (brk_pages sz q)"
  shows "unat sz \<le> unat q + 4096 * n" "unat q + 4096 * n \<le> unat sz + 4096"
    and "unat (q + 4096 * of_nat n - sz) = unat q + 4096 * n - unat sz"
proof -
  have le: "unat q \<le> unat sz" using assms(1) by (simp add: word_le_nat_alt)
  have md: "unat (sz mod 4096) = unat sz mod 4096" "unat (q mod 4096) = unat q mod 4096" by (simp_all add: unat_mod)
  have n: "n = (unat sz - unat q) div 4096 + (if 0 < unat sz mod 4096 then 1 else 0)"
    using brk_pages_small [OF le] assms(3) md(1) by (simp add: word_less_nat_alt)
  show c: "unat sz \<le> unat q + 4096 * n" "unat q + 4096 * n \<le> unat sz + 4096"
  proof -
    have "unat sz mod 4096 \<noteq> 0 \<or> unat q mod 4096 = 0"
      unfolding md [symmetric] using assms(2) by (simp only: unsigned_eq_0_iff)
    then consider "0 < unat sz mod 4096" | "unat sz mod 4096 = 0" "(unat sz - unat q) mod 4096 = 0"
      by (metis dvd_diff_nat gr0I mod_0_imp_dvd mod_eq_0_iff_dvd)
    then show "unat sz \<le> unat q + 4096 * n" "unat q + 4096 * n \<le> unat sz + 4096"
      using le div_mult_mod_eq [of "unat sz - unat q" 4096] mod_less_divisor [of 4096 "unat sz - unat q"]
      unfolding n by (cases; linarith | simp)+
  qed
  obtain d where d: "unat q + 4096 * n = unat sz + d" "d \<le> 4096"
    using c by (metis add_le_cancel_left le_Suc_ex)
  have "q + 4096 * of_nat n = (of_nat (unat q + 4096 * n) :: u64)" by simp
  also have "\<dots> = sz + of_nat d" unfolding d(1) by simp
  finally have "q + 4096 * of_nat n - sz = of_nat d" by simp
  then show "unat (q + 4096 * of_nat n - sz) = unat q + 4096 * n - unat sz"
    using d by (simp add: unat_of_nat)
qed

lemma pte_of_vpn: "vpn w = vpn v \<Longrightarrow> pte_of p w s = pte_of p v s"
  using idx_vpn [of w v] by (simp add: pte_of_def look_pages_def addr_res_idx Let_def cong: if_cong)

lemma aligned_vpn:
  assumes "v mod 4096 = (0 :: u64)"
  shows "vpn (v + of_nat d) = vpn (v + 4096 * of_nat (d div 4096))"
proof -
  have al: "unat v mod 4096 = 0" using assms unat_mod [of v 4096] by simp
  have "unat (v + of_nat e) div 4096 = (unat v div 4096 + e div 4096) mod 2 ^ 52" for e
  proof -
    have "unat (v + of_nat e) = (unat v + e) mod 2 ^ 64"
      by (simp add: unat_word_ariths unat_of_nat take_bit_eq_mod mod_add_right_eq)
    also have "\<dots> div 4096 = (unat v + e) div 4096 mod 2 ^ 52"
      using drop_bit_take_bit [of 12 64 "unat v + e"] by (simp add: take_bit_eq_mod drop_bit_eq_div)
    finally show ?thesis using al by (simp add: div_add1_eq [of "unat v" e])
  qed
  from this [of d] this [of "4096 * (d div 4096)"] show ?thesis
    by (intro unat_inject) (simp add: unat_vpn)
qed

section \<open>Properties\<close>

text \<open>
  C25. Growing the heap: a request beyond what is left of the mapped heap, for a number of bytes
  that is not a multiple of the page size or with a multiple of it left, returns the old break and
  moves it by the request.  The next \<open>n\<close> pages behind the heap are mapped, each to a different page
  that was free, and no other lookup changes; \<open>n\<close> is at most one more than needed, every byte from
  the old end of the mapped heap to the new break is now mapped, and \<^verbatim>\<open>rem_size\<close> counts the mapped
  bytes behind the break.  The other requests, a multiple of the page size while part of a page is
  left, are a page short: see \<open>brk_page_short\<close>.
\<close>

theorem brk_grows_heap:
  assumes "pt_wf lev r (k_mem k)" "t_pml4e_addr (cur_task k) = KERN_MEM + r"
    and "t_heap (cur_task k) = \<lparr>bump_ptr = b, rem_size = q, end_addr = x\<rparr>"
    and "0 < sz" "q \<le> sz" "b + sz \<noteq> 0" "n = unat (brk_pages sz q)" "4 * n \<le> card (free_addrs (k_mem k))" "n \<le> 2 ^ 36"
    and "\<And>i. i < n \<Longrightarrow> pte_of (KERN_MEM + r) (b + q + 4096 * of_nat i) (k_mem k) = None"
    and "sz mod 4096 \<noteq> 0 \<or> q mod 4096 = 0" "(b + q) mod 4096 = 0"
  shows "\<exists>k' f. sys_brk (b + sz) k = Inr (b, k') \<and>
           t_heap (cur_task k') = \<lparr>bump_ptr = b + sz, rem_size = q + 4096 * of_nat n - sz, end_addr = x\<rparr> \<and>
           (\<forall>i < n. f i \<in> free_addrs (k_mem k) \<and>
              pte_of (KERN_MEM + r) (b + q + 4096 * of_nat i) (k_mem k') = Some (f i OR PAGE_PERM)) \<and>
           inj_on f {..<n} \<and>
           (\<forall>w. (\<forall>i < n. vpn w \<noteq> vpn (b + q + 4096 * of_nat i)) \<longrightarrow>
              pte_of (KERN_MEM + r) w (k_mem k') = pte_of (KERN_MEM + r) w (k_mem k)) \<and>
           (\<forall>d < unat sz - unat q. pte_of (KERN_MEM + r) (b + q + of_nat d) (k_mem k') \<noteq> None) \<and>
           unat (q + 4096 * of_nat n - sz) = unat q + 4096 * n - unat sz \<and>
           unat sz \<le> unat q + 4096 * n \<and> unat q + 4096 * n \<le> unat sz + 4096"
proof -
  let ?m = "k_mem k" and ?v = "b + q"
  obtain m f where m: "map_range (user_body r) n ?v ?m = Inr m"
    "\<forall>i < n. f i \<in> free_addrs ?m \<and> pte_of (KERN_MEM + r) (?v + 4096 * of_nat i) m = Some (f i OR 7)"
    "inj_on f {..<n}"
    "\<forall>w. (\<forall>i < n. vpn w \<noteq> vpn (?v + 4096 * of_nat i)) \<longrightarrow> pte_of (KERN_MEM + r) w m = pte_of (KERN_MEM + r) w ?m"
    using user_range_fresh [OF assms(1,8,9,10)] by blast
  let ?p = "getCurrentTask (k_sched k)"
  let ?k = "set_heap ?p (b + sz) (q + 4096 * of_nat n - sz) (set_mem m k)"
  have nn: "4096 * of_nat n = 4096 * brk_pages sz q" by (simp add: assms(7))
  have run: "sys_brk (b + sz) k = Inr (b, ?k)"
    using sys_brk_grow [of k ?p "cur_task k" r b q sz m] assms(2-7) m(1) by (simp add: cur_task_def nn)
  have heap: "t_heap (cur_task ?k) = \<lparr>bump_ptr = b + sz, rem_size = q + 4096 * of_nat n - sz, end_addr = x\<rparr>"
    using assms(3) by (simp add: set_heap_def set_task_def set_mem_def cur_task_def upd_task_def getCurrentTask_def)
  have km: "k_mem ?k = m" by (simp add: set_heap_def set_task_def set_mem_def)
  note cover = brk_pages_cover [OF assms(5,11,7)]
  have "pte_of (KERN_MEM + r) (?v + of_nat d) m \<noteq> None" if "d < unat sz - unat q" for d
  proof -
    have "d div 4096 < n" using that cover(1) by (simp add: less_mult_imp_div_less mult.commute)
    then show ?thesis using m(2) pte_of_vpn [OF aligned_vpn [OF assms(12), of d]] by simp
  qed
  then show ?thesis using run heap m(2-4) km cover by (intro exI [of _ ?k] exI [of _ f]) metis
qed

definition kernel_heap :: "u64 \<Rightarrow> kernel" where
  "kernel_heap q = set_task (getCurrentTask (k_sched kernel_empty)) (\<lambda>t. t\<lparr>t_heap := \<lparr>bump_ptr = 0x600000, rem_size = q, end_addr = 0\<rparr>\<rparr>) kernel_empty"

lemma kernel_heap_simps [simp]:
  "k_mem (kernel_heap q) = kmem_boot 3" "t_pml4e_addr (cur_task (kernel_heap q)) = KERN_MEM + root2"
  "t_heap (cur_task (kernel_heap q)) = \<lparr>bump_ptr = 0x600000, rem_size = q, end_addr = 0\<rparr>"
  by (simp_all add: kernel_heap_def set_task_def kernel_empty_def kernel_shared_def cur_task_def upd_task_def getCurrentTask_def)

theorem brk_grows_heap_witness:
  "\<exists>k' a. sys_brk 0x601001 (kernel_heap 0) = Inr (0x600000, k') \<and>
     t_heap (cur_task k') = \<lparr>bump_ptr = 0x601001, rem_size = 4095, end_addr = 0\<rparr> \<and>
     pte_of (KERN_MEM + root2) 0x601000 (k_mem k') = Some (a OR PAGE_PERM)"
proof -
  have none: "pte_of (KERN_MEM + root2) w (k_mem (kernel_heap 0)) = None" for w
    using pte_of_leaf [OF boot_root(1)] boot_root(2) by simp
  have two: "2 = unat (brk_pages 0x1001 0)" by (simp add: brk_pages_def)
  have wf: "pt_wf [root2 \<mapsto> 4] root2 (k_mem (kernel_heap 0))" and room: "4 * 2 \<le> card (free_addrs (k_mem (kernel_heap 0)))"
    using boot_root(1) boot_room by simp_all
  note heap = kernel_heap_simps(2,3) [of 0]
  have req: "0 < (0x1001 :: u64)" "0 \<le> (0x1001 :: u64)" "0x600000 + 0x1001 \<noteq> (0 :: u64)" "2 \<le> (2 :: nat) ^ 36"
    "(0x1001 :: u64) mod 4096 \<noteq> 0 \<or> (0 :: u64) mod 4096 = 0" "(0x600000 + 0 :: u64) mod 4096 = 0" by simp_all
  obtain k' f where k': "sys_brk (0x600000 + 0x1001) (kernel_heap 0) = Inr (0x600000, k')"
    "t_heap (cur_task k') = \<lparr>bump_ptr = 0x600000 + 0x1001, rem_size = 0 + 4096 * of_nat 2 - 0x1001, end_addr = 0\<rparr>"
    "\<forall>i < 2. f i \<in> free_addrs (k_mem (kernel_heap 0)) \<and>
       pte_of (KERN_MEM + root2) (0x600000 + 0 + 4096 * of_nat i) (k_mem k') = Some (f i OR PAGE_PERM)"
    using brk_grows_heap [OF wf heap(1,2) req(1-3) two room req(4) none req(5,6)] by blast
  then show ?thesis by (intro exI [of _ k'] exI [of _ "f 1"]) (use k'(3) [rule_format, of 1] in simp_all)
qed

text \<open>
  A page too few: with part of a page left, a request for exactly one more page maps nothing.
  The break moves past the mapped memory, \<^verbatim>\<open>rem_size\<close> wraps around to almost \<open>2 ^ 64\<close>, and from
  then on requests are granted without mapping anything either.
\<close>

theorem brk_page_short:
  assumes "t_heap (cur_task k) = \<lparr>bump_ptr = b, rem_size = q, end_addr = x\<rparr>" "0 < q" "q < 4096" "b + 4096 \<noteq> 0"
  shows "\<exists>k'. sys_brk (b + 4096) k = Inr (b, k') \<and> k_mem k' = k_mem k \<and>
           t_heap (cur_task k') = \<lparr>bump_ptr = b + 4096, rem_size = q - 4096, end_addr = x\<rparr> \<and>
           (\<forall>sz. 0 < sz \<longrightarrow> unat sz < 2 ^ 64 - 4096 \<longrightarrow> b + 4096 + sz \<noteq> 0 \<longrightarrow>
              (\<exists>k''. sys_brk (b + 4096 + sz) k' = Inr (b + 4096, k'') \<and> k_mem k'' = k_mem k))"
proof -
  let ?p = "getCurrentTask (k_sched k)"
  let ?k = "set_heap ?p (b + 4096) (q - 4096) k"
  have "unat q < 4096" "0 < unat q" using assms(2,3) by (simp_all add: word_less_nat_alt)
  then have "unat (4096 - q) = 4096 - unat q" using unat_sub [of q 4096] assms(3) by simp
  then have "unat (4096 - q) div 4096 = 0" using \<open>0 < unat q\<close> by simp
  then have "unat ((4096 - q) div 4096) = 0" by (simp add: unat_div)
  then have none: "brk_pages 4096 q = 0" by (simp add: brk_pages_def unsigned_eq_0_iff)
  have run: "sys_brk (b + 4096) k = Inr (b, ?k)"
    using assms leD [of q 4096] by (simp add: sys_brk_def none cur_task_def Let_def set_mem_def)
  have heap: "t_heap (cur_task ?k) = \<lparr>bump_ptr = b + 4096, rem_size = q - 4096, end_addr = x\<rparr>"
    using assms(1) by (simp add: set_heap_def set_task_def cur_task_def upd_task_def getCurrentTask_def)
  have "unat (q - 4096) = 2 ^ 64 - 4096 + unat q"
    using \<open>unat q < 4096\<close> by (simp add: unat_sub_if')
  then have "sz < q - 4096" if "unat sz < 2 ^ 64 - 4096" for sz
    using that by (simp add: word_less_nat_alt)
  then have "\<exists>k''. sys_brk (b + 4096 + sz) ?k = Inr (b + 4096, k'') \<and> k_mem k'' = k_mem k"
    if "0 < sz" "unat sz < 2 ^ 64 - 4096" "b + 4096 + sz \<noteq> 0" for sz
    using that heap by (simp add: sys_brk_def cur_task_def Let_def set_heap_def set_task_def)
  with run heap show ?thesis by (intro exI [of _ ?k]) (simp add: set_heap_def set_task_def)
qed

theorem brk_page_short_witness:
  "\<exists>k'. sys_brk 0x601000 (kernel_heap 1) = Inr (0x600000, k') \<and> k_mem k' = kmem_boot 3 \<and>
     rem_size (t_heap (cur_task k')) = 0xfffffffffffff001"
  using brk_page_short [of "kernel_heap 1" "0x600000" 1 0] by auto

end
