(* ===== verification/Files_Claims.thy ===== *)
theory Files_Claims
  imports Files_Props UserHeap_Claims
begin

text \<open>The properties of descriptors, pipes and the working directory.\<close>

section \<open>Pipes\<close>

lemma span_sub: "span a n \<subseteq> span a (Suc n)"
  by (auto simp: span_def)

lemma span_last: "n < 2 ^ 31 \<Longrightarrow> a + of_nat n \<notin> span a n"
proof
  assume n: "n < 2 ^ 31" and "a + of_nat n \<in> span a n"
  then obtain i where i: "i < n" "(of_nat n :: u64) = of_nat i" by (auto simp: span_def)
  then have "unat (of_nat n :: u64) = unat (of_nat i :: u64)" by simp
  then show False using i(1) n by simp
qed

text \<open>Writing to an empty pipe at \<open>P\<close>.\<close>

lemma pipe_write_ok:
  assumes "mem_region lev r f A (k_mem k)" "cur_pml4 k = KERN_MEM + r" "redirected w k = Inr (Some f1)" "f_offset f1 = P"
    and "unat sz = n" "n < 2 ^ 31" "span P (Suc n) \<subseteq> A" "span src n \<subseteq> A" "span P (Suc n) \<inter> span src n = {}"
    and "\<And>i. i \<le> n \<Longrightarrow> ldb (KERN_MEM + r) (P + of_nat i) (k_mem k) = Inr 0"
  shows "\<exists>m. sys_write junk w src sz k = Inr (int n, set_mem m k) \<and> mem_region lev r f A m \<and>
           (\<forall>i < n. ldb (KERN_MEM + r) (P + of_nat i) m = ldb (KERN_MEM + r) (src + of_nat i) (k_mem k)) \<and>
           ldb (KERN_MEM + r) (P + of_nat n) m = Inr 0"
proof -
  let ?ld = "ldb (KERN_MEM + r)"
  have empty: "user_str P k = Inr ([] @ [0])"
    using assms(1,2,7) assms(10) [of 0] by (intro user_str_ok) (auto simp: span_Suc)
  obtain m where m: "user_copy n P src k = Inr (set_mem m k)" "mem_region lev r f A m"
    "\<forall>i < n. ?ld (P + of_nat i) m = ?ld (src + of_nat i) (k_mem k)" "\<forall>b \<in> A - span P n. ?ld b m = ?ld b (k_mem k)"
    using user_copy_ok [OF assms(1,2), of P n src] assms(6-9) span_sub [of P n] by fastforce
  have "uint sz = int n" by (simp flip: assms(5))
  then have "sys_write junk w src sz k = Inr (int n, set_mem m k)"
    using assms(3-6) empty m(1) by (simp add: sys_write_def)
  moreover have "P + of_nat n \<in> A" using assms(7) span_mem [of n "Suc n" P] by auto
  then have "?ld (P + of_nat n) m = Inr 0" using m(4) span_last [OF assms(6)] assms(10) by simp
  ultimately show ?thesis using m(2,3) by blast
qed

text \<open>Reading a pipe that holds \<open>data\<close>: the string, its copy, the terminator, and the clearing.\<close>

lemma pipe_read_ok:
  assumes "mem_region lev r f A (k_mem k)" "cur_pml4 k = KERN_MEM + r" "redirected v k = Inr (Some f2)" "f_offset f2 = P"
    and "0 < sz" "length data = n" "n < 2 ^ 31" "0 \<notin> set data"
    and "span P (Suc n) \<subseteq> A" "span dst (Suc n) \<subseteq> A" "span dst (Suc n) \<inter> span P (Suc n) = {}"
    and P1: "\<And>i. i < n \<Longrightarrow> ldb (KERN_MEM + r) (P + of_nat i) (k_mem k) = Inr (data ! i)" "ldb (KERN_MEM + r) (P + of_nat n) (k_mem k) = Inr 0"
  shows "\<exists>m. sys_read junk codes v dst sz k = Inr (int n, codes, set_mem m k) \<and>
           (\<forall>i < n. ldb (KERN_MEM + r) (dst + of_nat i) m = Inr (data ! i)) \<and> ldb (KERN_MEM + r) (dst + of_nat n) m = Inr 0 \<and>
           (\<forall>i \<le> n. ldb (KERN_MEM + r) (P + of_nat i) m = Inr 0)"
proof -
  let ?ld = "ldb (KERN_MEM + r)"
  have inA: "P + of_nat i \<in> A" "dst + of_nat i \<in> A" if "i \<le> n" for i
    using assms(9,10) span_mem [of i "Suc n"] that by auto
  have str: "user_str P k' = Inr (data @ [0])"
    if "mem_region lev r f A (k_mem k')" "cur_pml4 k' = KERN_MEM + r" "\<And>i. i \<le> n \<Longrightarrow> ?ld (P + of_nat i) (k_mem k') = ?ld (P + of_nat i) (k_mem k)" for k'
    using that assms(6,8,9) P1 by (intro user_str_ok) auto
  have dis: "span dst n \<inter> span P n = {}" "P + of_nat i \<notin> span dst (Suc n)" "dst + of_nat i \<notin> span P (Suc n)" if "i \<le> n" for i
    using assms(11) span_sub span_mem [of i "Suc n"] that by fastforce+
  have sp: "span dst n \<subseteq> A" "span P n \<subseteq> A" "n \<le> 2 ^ 63" using assms(7,9,10) span_sub [of _ n] by (blast, blast, simp)
  obtain m2 where m2: "user_copy n dst P k = Inr (set_mem m2 k)" "mem_region lev r f A m2"
    "\<forall>i < n. ?ld (dst + of_nat i) m2 = ?ld (P + of_nat i) (k_mem k)" "\<forall>b \<in> A - span dst n. ?ld b m2 = ?ld b (k_mem k)"
    using user_copy_ok [OF assms(1,2) sp(1,2) dis(1) [of 0] sp(3)] by auto
  have m2P: "?ld (P + of_nat i) m2 = ?ld (P + of_nat i) (k_mem k)" if "i \<le> n" for i
    using m2(4) inA(1) [OF that] dis(2) [OF that] span_sub [of dst n] by auto
  have "span (dst + of_nat n) 1 \<subseteq> A" using inA(2) [of n] by (auto simp: span_def)
  then obtain m3 where m3: "user_store (dst + of_nat n) [0] (set_mem m2 k) = Inr (set_mem m3 k)" "mem_region lev r f A m3"
    "?ld (dst + of_nat n) m3 = Inr 0" "\<forall>b \<in> A - {dst + of_nat n}. ?ld b m3 = ?ld b m2"
    using user_store_ok [of lev r f A "set_mem m2 k" "dst + of_nat n" "[0]"] m2(2) assms(2) by (auto simp: span_def)
  have m3P: "?ld (P + of_nat i) m3 = ?ld (P + of_nat i) (k_mem k)" if "i \<le> n" for i
    using m3(4) m2P [OF that] inA(1) [OF that] dis(2) [OF that] span_mem [of n "Suc n" dst] by force
  obtain m4 where m4: "user_store P (replicate n 0) (set_mem m3 k) = Inr (set_mem m4 k)"
    "\<forall>i < n. ?ld (P + of_nat i) m4 = Inr 0" "\<forall>b \<in> A - span P n. ?ld b m4 = ?ld b m3"
    using user_store_ok [of lev r f A "set_mem m3 k" P "replicate n 0"] m3(2) assms(2,7) sp(2) by auto
  have "sys_read junk codes v dst sz k = Inr (int n, codes, set_mem m4 k)"
    using assms(2-6) str [OF assms(1,2)] str [of "set_mem m3 k"] m2(1) m3(1,2) m4(1) m3P by (simp add: sys_read_def)
  moreover have dst4: "?ld (dst + of_nat i) m4 = ?ld (dst + of_nat i) m3" if "i \<le> n" for i
    using m4(3) inA(2) [OF that] dis(3) [OF that] span_sub [of P n] by blast
  moreover have "dst + of_nat i \<noteq> dst + of_nat n" if "i < n" for i
    using span_last [OF assms(7), of dst] span_mem [OF that, of dst] by metis
  then have "?ld (dst + of_nat i) m3 = Inr (data ! i)" if "i < n" for i
    using m3(4) m2(3) P1(1) inA(2) [of i] that by simp
  moreover have "?ld (P + of_nat i) m4 = Inr 0" if "i \<le> n" for i
    using m4(2,3) m3P [of n] P1(2) inA(1) [of n] span_last [OF assms(7)] that by (cases "i = n") auto
  ultimately show ?thesis using m3(3) by (intro exI [of _ m4]) simp
qed

text \<open>
  C23. Pipe round trip: of what is written to a descriptor redirected to an empty pipe (its buffer holds
  zeros), the next read of a descriptor redirected to the pipe delivers the bytes before the first zero byte, terminated,
  and clears them.  So data without a zero byte come back whole and leave the pipe empty, while everything from a zero byte on
  is not delivered: reading takes the contents of the pipe as a string.
\<close>

theorem pipe_roundtrip:
  assumes "mem_region lev r f A (k_mem k)" "cur_pml4 k = KERN_MEM + r"
    and "redirected w k = Inr (Some f1)" "redirected v k = Inr (Some f2)" "f_offset f1 = P" "f_offset f2 = P"
    and "unat sz = n" "0 < n" "n < 2 ^ 31"
    and "span P (Suc n) \<subseteq> A" "span src n \<subseteq> A" "span dst (Suc n) \<subseteq> A"
    and "span P (Suc n) \<inter> span src n = {}" "span dst (Suc n) \<inter> span P (Suc n) = {}"
    and "\<And>i. i \<le> n \<Longrightarrow> ldb (KERN_MEM + r) (P + of_nat i) (k_mem k) = Inr 0"
    and "\<And>i. i < n \<Longrightarrow> ldb (KERN_MEM + r) (src + of_nat i) (k_mem k) = Inr (data ! i)" "length data = n"
    and "sent = takeWhile (\<lambda>c. c \<noteq> 0) data" "l = length sent"
  shows "\<exists>k1 k2. sys_write junk w src sz k = Inr (int n, k1) \<and> sys_read junk codes v dst sz k1 = Inr (int l, codes, k2) \<and>
           (\<forall>i < l. ldb (KERN_MEM + r) (dst + of_nat i) (k_mem k2) = Inr (sent ! i)) \<and>
           ldb (KERN_MEM + r) (dst + of_nat l) (k_mem k2) = Inr 0 \<and>
           (\<forall>i \<le> l. ldb (KERN_MEM + r) (P + of_nat i) (k_mem k2) = Inr 0) \<and>
           (0 \<notin> set data \<longrightarrow> sent = data)"
proof -
  obtain m where m: "sys_write junk w src sz k = Inr (int n, set_mem m k)" "mem_region lev r f A m"
    "\<forall>i < n. ldb (KERN_MEM + r) (P + of_nat i) m = ldb (KERN_MEM + r) (src + of_nat i) (k_mem k)"
    "ldb (KERN_MEM + r) (P + of_nat n) m = Inr 0"
    using pipe_write_ok [OF assms(1-3,5,7,9-11,13,15)] by blast
  have k1: "mem_region lev r f A (k_mem (set_mem m k))" "cur_pml4 (set_mem m k) = KERN_MEM + r" "redirected v (set_mem m k) = Inr (Some f2)" "0 < sz"
    using m(2) assms(2,4,7,8) by (simp_all add: word_less_nat_alt)
  have l: "l \<le> n" "0 \<notin> set sent" "length sent = l" "l < 2 ^ 31" "l < n \<Longrightarrow> data ! l = 0" "i < l \<Longrightarrow> sent ! i = data ! i" for i
    using assms(9,17-19) length_takeWhile_le [of "\<lambda>c. c \<noteq> 0" data] nth_length_takeWhile [of "\<lambda>c. c \<noteq> 0" data]
    by (auto simp: takeWhile_nth dest: set_takeWhileD)
  have sub: "span a (Suc l) \<subseteq> span a (Suc n)" for a using l(1) by (auto simp: span_def)
  have sp: "span P (Suc l) \<subseteq> A" "span dst (Suc l) \<subseteq> A" "span dst (Suc l) \<inter> span P (Suc l) = {}"
    using sub assms(10,12,14) by blast+
  have P1: "ldb (KERN_MEM + r) (P + of_nat i) (k_mem (set_mem m k)) = Inr (sent ! i)" if "i < l" for i
    using m(3) assms(16) that l(1,6) by simp
  have P2: "ldb (KERN_MEM + r) (P + of_nat l) (k_mem (set_mem m k)) = Inr 0"
    using m(3,4) assms(16) l(1,5) by (cases "l = n") simp_all
  obtain m2 where m2: "sys_read junk codes v dst sz (set_mem m k) = Inr (int l, codes, set_mem m2 (set_mem m k))"
    "\<forall>i < l. ldb (KERN_MEM + r) (dst + of_nat i) m2 = Inr (sent ! i)" "ldb (KERN_MEM + r) (dst + of_nat l) m2 = Inr 0"
    "\<forall>i \<le> l. ldb (KERN_MEM + r) (P + of_nat i) m2 = Inr 0"
    using pipe_read_ok [OF k1(1-3) assms(6) k1(4) l(3,4,2) sp P1 P2] by blast
  have "sent = data" if "0 \<notin> set data" unfolding assms(18) using that by (auto simp: takeWhile_eq_all_conv)
  then show ?thesis
    by (intro exI [of _ "set_mem m k"] exI [of _ "set_mem m2 k"]) (use m(1) m2 in simp)
qed

text \<open>
  A kernel in which page 6 is a pipe buffer and pages 7 and 8 are user buffers, reached through the
  kernel's window; descriptors 1 and 0 are redirected to the pipe's ends 3 and 4.
\<close>

definition pipe_kernel :: "kmem \<Rightarrow> kernel" where
  "pipe_kernel m = set_mem m (set_cur (\<lambda>t. t\<lparr>t_fd := replicate 25 \<lparr>f_path = replicate 32 0, f_offset = KERN_MEM + 0x3000,
     f_offset_read = 0, f_file_size = 0, f_flags = 0, f_seek = 0\<rparr>, t_dup_arr := (map of_nat [0..<25])[0 := 4, 1 := 3]\<rparr>) kernel_empty)"

definition pipe_region :: "u64 set" where
  "pipe_region = {KERN_MEM + 0x3000, KERN_MEM + 0x3001, KERN_MEM + 0x4000, KERN_MEM + 0x5000, KERN_MEM + 0x5001}"

lemma pipe_region_ok: "mem_region [root2 \<mapsto> 4] root2 kphys pipe_region (kmem_boot 9)"
proof -
  have "pt_wf [root2 \<mapsto> 4] root2 (kmem_boot 9)"
    using fresh_root [OF kmem_boot_ok [of 9], of 2] by (simp add: kmem_boot_qmem kmem_boot_avail)
  moreover have "inj_on kphys pipe_region" by (simp add: pipe_region_def kphys_def)
  moreover have "data_page [root2 \<mapsto> 4] (kmem_boot 9) j" if "j = 3 \<or> j = 4 \<or> j = 5" for j
    using that by (auto simp: data_page_def kmem_boot_avail)
  ultimately show ?thesis by (simp add: mem_region_def pipe_region_def translate_def kphys_def)
qed

theorem pipe_roundtrip_witness:
  "\<exists>m k1 k2. sys_write [] 1 (KERN_MEM + 0x4000) 1 (pipe_kernel m) = Inr (1, k1) \<and>
     sys_read [] [] 0 (KERN_MEM + 0x5000) 1 k1 = Inr (1, [], k2) \<and>
     ldb (KERN_MEM + root2) (KERN_MEM + 0x5000) (k_mem k2) = Inr 65"
proof -
  let ?ld = "ldb (KERN_MEM + root2)"
  obtain m where m: "mem_region [root2 \<mapsto> 4] root2 kphys pipe_region m"
    "\<forall>b \<in> pipe_region. ?ld b m = (if b = KERN_MEM + 0x4000 then Inr 65 else ?ld b (kmem_boot 9))"
    using vm.store [OF pipe_region_ok, of "KERN_MEM + 0x4000" 65] by (auto simp: pipe_region_def)
  have z: "?ld b (kmem_boot 9) = Inr 0" if "b \<in> pipe_region" for b
  proof -
    have "get_byte 0 i = 0" for i by (simp add: get_byte_def)
    then show ?thesis using that by (auto simp: pipe_region_def ldb_def translate_def kphys_def kmem_boot_qmem)
  qed
  have mem: "?ld (KERN_MEM + 0x3000) m = Inr 0" "?ld (KERN_MEM + 0x3001) m = Inr 0" "?ld (KERN_MEM + 0x4000) m = Inr 65"
    using m(2) z by (simp_all add: pipe_region_def)
  have zz: "?ld (KERN_MEM + 0x3000 + of_nat i) m = Inr 0" if "i \<le> 1" for i
    using that mem(1,2) by (cases i) auto
  have spans: "span a (Suc 1) = {a, a + 1}" "span a 1 = {a}" for a by (auto simp: span_Suc)
  have "cur_pml4 kernel_empty = KERN_MEM + root2"
    by (simp add: kernel_empty_def kernel_shared_def cur_pml4_def cur_task_def)
  then have k: "k_mem (pipe_kernel m) = m" "cur_pml4 (pipe_kernel m) = KERN_MEM + root2"
    by (simp_all add: pipe_kernel_def)
  let ?f = "\<lparr>f_path = replicate 32 0, f_offset = KERN_MEM + 0x3000, f_offset_read = 0, f_file_size = 0, f_flags = 0, f_seek = 0\<rparr>"
  have "cur_task (pipe_kernel m) = (cur_task kernel_empty)\<lparr>t_fd := replicate 25 ?f, t_dup_arr := (map of_nat [0..<25])[0 := 4, 1 := 3]\<rparr>"
    by (simp add: pipe_kernel_def)
  then have "redirected 1 (pipe_kernel m) = Inr (Some ?f)" "redirected 0 (pipe_kernel m) = Inr (Some ?f)"
    by (simp_all add: redirected_def)
  from pipe_roundtrip [of "[root2 \<mapsto> 4]" root2 kphys pipe_region "pipe_kernel m", unfolded k, OF m(1) refl this
      _ _ _ _ _ _ _ _ _ _ zz, where sz = 1 and n = 1 and src = "KERN_MEM + 0x4000" and dst = "KERN_MEM + 0x5000"
      and data = "[65]" and sent = "[65]" and l = 1 and junk = "[]" and codes = "[]", unfolded spans]
  show ?thesis using mem by (auto simp: pipe_region_def less_Suc_eq le_Suc_eq)
qed

section \<open>Opening a file\<close>

lemma cstr_prefix: "0 \<notin> set xs \<Longrightarrow> cstr (xs @ ys) = xs @ cstr ys"
  by (induction xs) auto

lemma open_match_spec:
  assumes "0 \<notin> set cs" "length cs < 100" "length e = 125"
  shows "open_match (cs @ [0]) (length cs) e = Inr (cstr e = cs \<or> cstr e = cs @ [slash])"
proof -
  let ?n = "length cs"
  have cmp: "strncmp (cs @ [0]) e (int ?n) = Inr (chars_cmp cs (take ?n e))"
    using assms(2,3) by (simp add: strncmp_def cmp_loop_ok)
  have eq: "chars_cmp cs (take ?n e) = 0 \<longleftrightarrow> cs = take ?n e"
    using assms(2,3) by (intro chars_cmp_0) simp
  have d: "drop ?n e = e ! ?n # e ! (?n + 1) # drop (?n + 2) e"
    using assms(2,3) Cons_nth_drop_Suc [of ?n e] Cons_nth_drop_Suc [of "?n + 1" e] by simp
  show ?thesis
  proof (cases "cs = take ?n e")
    case True
    have "cstr e = cstr (take ?n e @ drop ?n e)" by simp
    also have "\<dots> = cs @ cstr (drop ?n e)" using assms(1) True cstr_prefix [of cs "drop ?n e"] by simp
    finally have c: "cstr e = cs @ cstr (drop ?n e)" .
    have "(if e ! ?n = slash then e ! (?n + 1) = 0 else e ! ?n = 0) = (cstr e = cs \<or> cstr e = cs @ [slash])"
      unfolding c d by auto
    then show ?thesis using cmp eq True assms(2,3) by (auto simp: open_match_def)
  next
    case False
    have p: "take (length (cstr e)) e = cstr e" unfolding cstr_def by (rule takeWhile_eq_take [symmetric])
    have "cstr e \<noteq> cs" using False p by metis
    moreover have "cstr e \<noteq> cs @ [slash]"
    proof
      assume c: "cstr e = cs @ [slash]"
      have "take ?n e = take ?n (take (Suc ?n) e)" by simp
      also have "take (Suc ?n) e = cs @ [slash]" using p unfolding c by simp
      finally show False using False by simp
    qed
    ultimately show ?thesis using cmp eq False by (simp add: open_match_def)
  qed
qed

lemma open_search_ok:
  assumes "0 \<notin> set cs" "length cs < 100" "\<And>e. e \<in> set tab \<Longrightarrow> length e = 125" "i < length tab"
    and "cstr (tab ! i) = cs \<or> cstr (tab ! i) = cs @ [slash]" "\<And>j. j < i \<Longrightarrow> cstr (tab ! j) \<noteq> cs \<and> cstr (tab ! j) \<noteq> cs @ [slash]"
  shows "open_search (cs @ [0]) (length cs) n tab = Inr (Some (n + i))"
  using assms(3-)
proof (induction tab arbitrary: i n)
  case (Cons e tab)
  have m: "open_match (cs @ [0]) (length cs) e = Inr (cstr e = cs \<or> cstr e = cs @ [slash])"
    using Cons.prems(1) by (intro open_match_spec [OF assms(1,2)]) simp
  show ?case
  proof (cases i)
    case 0
    then show ?thesis using m Cons.prems(3) by auto
  next
    case (Suc j)
    then have "open_search (cs @ [0]) (length cs) (n + 1) tab = Inr (Some (n + 1 + j))"
      using Cons.prems by (intro Cons.IH) force+
    then show ?thesis using m Cons.prems(4) [of 0] Suc by simp
  qed
qed simp

lemma set_ref_cnt_name:
  assumes "length e = 125" "terminated e" "length (cstr e) < 100"
  shows "cstr (set_ref_cnt n e) = cstr e" "terminated (set_ref_cnt n e)" "length (set_ref_cnt n e) = 125"
    "take 105 (set_ref_cnt n e) = take 105 e" "drop 109 (set_ref_cnt n e) = drop 109 e"
proof -
  let ?r = "drop (Suc (length (cstr e))) e"
  have "take 105 (cstr e @ 0 # ?r) = cstr e @ 0 # take (104 - length (cstr e)) ?r"
    using assms(3) by (simp add: take_Cons')
  then have "set_ref_cnt n e = cstr e @ 0 # (take (104 - length (cstr e)) ?r @ le_bytes 4 (unat n) @ drop 109 e)"
    using terminated_split [OF assms(2)] by (simp add: set_ref_cnt_def put_le_def)
  then show "cstr (set_ref_cnt n e) = cstr e" "terminated (set_ref_cnt n e)" by (simp_all only: cstr_append cstr_nonzero terminated_append not_False_eq_True)
qed (use assms in \<open>simp_all add: set_ref_cnt_def put_le_def\<close>)

lemma int_idx_nat: "c < 2 ^ 31 \<Longrightarrow> int_idx (of_nat c) = Inr c"
proof -
  assume c: "c < 2 ^ 31"
  then have "unat (of_nat c :: u32) = c" by (simp add: unat_of_nat take_bit_eq_mod)
  then have "sint (of_nat c :: u32) = int c" using sint_small_u32 [of "of_nat c"] c by simp
  then show ?thesis by (simp add: int_idx_def)
qed

text \<open>
  Opening a file: when the index has an entry with the name, or the name and a slash, and the
  descriptor table has room, \<^verbatim>\<open>sys_open\<close> returns the next descriptor number; the descriptor
  has the entry's path, addresses and size, the entry one more reference, and no other
  descriptor or entry changes.
\<close>

theorem sys_open_descriptor:
  assumes "user_str a k = Inr (cs @ [0])" "0 \<notin> set cs" "length cs < 100"
    and "length (tarfs_ind k) = MAX_BIN" "\<And>e. e \<in> set (tarfs_ind k) \<Longrightarrow> length e = 125"
    and "i < MAX_BIN" "tarfs_ind k ! i = e" "cstr e = cs \<or> cstr e = cs @ [slash]" "terminated e" "length (cstr e) < 32"
    and "\<And>j. j < i \<Longrightarrow> cstr (tarfs_ind k ! j) \<noteq> cs \<and> cstr (tarfs_ind k ! j) \<noteq> cs @ [slash]"
    and "t_fd_cnt (cur_task k) = of_nat c" "c < 24" "length (t_fd (cur_task k)) = 25" "length (f_path (t_fd (cur_task k) ! (c + 1))) = 32"
  shows "\<exists>k' path. sys_open a flags k = Inr (int (c + 1), k') \<and> cstr path = cstr e \<and>
           t_fd (cur_task k') = (t_fd (cur_task k))[c + 1 := \<lparr>f_path = path, f_offset = bin_start_addr e,
             f_offset_read = bin_start_addr e, f_file_size = scast (file_size e), f_flags = flags, f_seek = 0\<rparr>] \<and>
           t_fd_cnt (cur_task k') = of_nat (c + 1) \<and> tarfs_ind k' = (tarfs_ind k)[i := set_ref_cnt (ref_cnt e + 1) e]"
proof -
  have search: "open_search (cs @ [0]) (length cs) 0 (take MAX_BIN (tarfs_ind k)) = Inr (Some i)"
    using open_search_ok [OF assms(2,3,5), of "tarfs_ind k" i 0] assms(4,6-8,11) by simp
  have e: "length e = 125" "length (cstr e) < 100" using assms(4-7,10) by auto
  let ?e = "set_ref_cnt (ref_cnt e + 1) e"
  note n = set_ref_cnt_name [OF e(1) assms(9) e(2), of "ref_cnt e + 1"]
  let ?k1 = "set_entry i ?e k"
  let ?k2 = "set_cur (\<lambda>t. t\<lparr>t_fd_cnt := t_fd_cnt t + 1\<rparr>) ?k1"
  have idx: "int_idx (t_fd_cnt (cur_task ?k2)) = Inr (c + 1)"
    using int_idx_nat [of "c + 1"] assms(12,13) by (simp add: add.commute)
  have ent: "tarfs_ind ?k2 ! i = ?e" using assms(4,6) by simp
  let ?f = "t_fd (cur_task k) ! (c + 1)"
  let ?path = "cstr e @ 0 # drop (Suc (length (cstr e))) (f_path ?f)"
  have path: "strcpy (f_path ?f) ?e = Inr ?path" using n(1,2) assms(10,15) by (simp add: strcpy_spec)
  let ?g = "\<lambda>f. f\<lparr>f_offset := bin_start_addr e, f_offset_read := bin_start_addr e,
     f_file_size := scast (file_size e), f_flags := flags, f_path := ?path, f_seek := 0\<rparr>"
  have fd: "rd (t_fd (cur_task ?k2)) (c + 1) = Inr ?f" using assms(13,14) by simp
  define F where "F = \<lparr>f_path = ?path, f_offset = bin_start_addr e, f_offset_read = bin_start_addr e,
      f_file_size = scast (file_size e), f_flags = flags, f_seek = 0\<rparr>"
  have "?g ?f = F" by (simp add: F_def)
  then have "upd_fd (c + 1) ?g ?k2 = Inr (set_cur (\<lambda>t. t\<lparr>t_fd := (t_fd t)[c + 1 := F]\<rparr>) ?k2)"
    using upd_fd_ok [of "c + 1" ?k2 ?g] assms(13,14) by simp
  then have "sys_open a flags k = Inr (int (c + 1), set_cur (\<lambda>t. t\<lparr>t_fd := (t_fd t)[c + 1 := F]\<rparr>) ?k2)"
    using assms(1,7) search idx ent path fd by (simp add: sys_open_def Let_def)
  then show ?thesis using assms(12) unfolding F_def [symmetric]
    by (intro exI [of _ "set_cur (\<lambda>t. t\<lparr>t_fd := (t_fd t)[c + 1 := F]\<rparr>) ?k2"] exI [of _ ?path])
      (simp add: F_def add.commute)
qed

text \<open>
  The descriptor table is not bounded: the 23rd \<^verbatim>\<open>sys_open\<close> of a process, at \<^verbatim>\<open>fd_cnt\<close> 24, writes
  past the end of \<^verbatim>\<open>fd[25]\<close>.  Closing does not help, since \<^verbatim>\<open>sys_close\<close> keeps \<^verbatim>\<open>fd_cnt\<close>.
\<close>

theorem sys_open_overflow:
  assumes "user_str a k = Inr (cs @ [0])" "0 \<notin> set cs" "length cs < 100"
    and "length (tarfs_ind k) = MAX_BIN" "\<And>e. e \<in> set (tarfs_ind k) \<Longrightarrow> length e = 125"
    and "i < MAX_BIN" "cstr (tarfs_ind k ! i) = cs"
    and "\<And>j. j < i \<Longrightarrow> cstr (tarfs_ind k ! j) \<noteq> cs \<and> cstr (tarfs_ind k ! j) \<noteq> cs @ [slash]"
    and "t_fd_cnt (cur_task k) = 24" "length (t_fd (cur_task k)) = 25"
  shows "sys_open a flags k = Inl Out_of_bounds \<and>
    (\<forall>fd r k'. sys_close fd k = Inr (r, k') \<longrightarrow> t_fd_cnt (cur_task k') = t_fd_cnt (cur_task k))"
proof -
  have search: "open_search (cs @ [0]) (length cs) 0 (take MAX_BIN (tarfs_ind k)) = Inr (Some i)"
    using open_search_ok [OF assms(2,3,5), of "tarfs_ind k" i 0] assms(4,6-8) by simp
  have "int_idx 25 = Inr 25" using int_idx_nat [of 25] by simp
  then have "sys_open a flags k = Inl Out_of_bounds"
    using assms(1,9,10) search by (simp add: sys_open_def Let_def)
  moreover have "t_fd_cnt (cur_task k') = t_fd_cnt (cur_task k)" if "sys_close fd k = Inr (r, k')" for fd r k'
    using that by (auto simp: sys_close_def bindr_eq_Inr upd_fd_def Let_def split: option.splits)
  ultimately show ?thesis by blast
qed

text \<open>A kernel whose memory holds the string \<^verbatim>\<open>a\<close> everywhere and whose index has that file.\<close>

definition open_kernel :: "u32 \<Rightarrow> kernel" where
  "open_kernel n = set_cur (\<lambda>t. t\<lparr>t_fd := replicate 25 \<lparr>f_path = replicate 32 0, f_offset = 0, f_offset_read = 0,
     f_file_size = 0, f_flags = 0, f_seek = 0\<rparr>, t_fd_cnt := n\<rparr>)
     (set_mem (kmem0\<lparr>qmem := \<lambda>_. 97\<rparr>) (kernel_empty\<lparr>tarfs_ind := entry_a # replicate 39 (replicate 125 0)\<rparr>))"

lemma open_kernel_simps [simp]:
  "tarfs_ind (open_kernel n) = entry_a # replicate 39 (replicate 125 0)" "t_fd_cnt (cur_task (open_kernel n)) = n"
  "t_fd (cur_task (open_kernel n)) = replicate 25 \<lparr>f_path = replicate 32 0, f_offset = 0, f_offset_read = 0,
     f_file_size = 0, f_flags = 0, f_seek = 0\<rparr>"
  by (simp_all add: open_kernel_def set_mem_def)

lemma open_kernel_str: "user_str (KERN_MEM + 0x4000) (open_kernel n) = Inr ([97] @ [0])"
proof -
  let ?m = "kmem0\<lparr>qmem := \<lambda>_. 97\<rparr>"
  have "ldb p (KERN_MEM + 0x4000) ?m = Inr 97" "ldb p (KERN_MEM + 0x4000 + 1) ?m = Inr 0" for p
    by (simp_all add: ldb_def translate_def kphys_def get_byte_def lane_def drop_bit_eq_div)
  note b = this
  have "mem_str (ldb p) (KERN_MEM + 0x4000 + 1) ?m = Some (Inr [0])" for p
    by (subst mem_str.simps) (simp only: b sum.case if_True simp_thms)
  then have "mem_str (ldb p) (KERN_MEM + 0x4000) ?m = Some (Inr ([97] @ [0]))" for p
    by (subst mem_str.simps) (simp only: b, simp)
  then show ?thesis by (simp add: user_str_def read_str_def open_kernel_def)
qed

lemma open_entries: "e \<in> set (tarfs_ind (open_kernel n)) \<Longrightarrow> length e = 125"
  by (auto simp: entry_a_def entry_form_def)

theorem sys_open_descriptor_witness:
  "\<exists>k'. sys_open (KERN_MEM + 0x4000) 0 (open_kernel 2) = Inr (3, k') \<and> f_offset (t_fd (cur_task k') ! 3) = 0x200200"
  using sys_open_descriptor [OF open_kernel_str [of 2] _ _ _ open_entries [of _ 2], where i = 0 and e = entry_a and c = 2 and flags = 0] entry_a_fields by auto

theorem sys_open_overflow_witness: "sys_open (KERN_MEM + 0x4000) 0 (open_kernel 24) = Inl Out_of_bounds"
  using sys_open_overflow [OF open_kernel_str [of 24] _ _ _ open_entries [of _ 24], where i = 0 and flags = 0] entry_a_fields by auto

section \<open>Changing the directory\<close>

text \<open>
  An open directory cannot be entered: \<^verbatim>\<open>typeflag\<close> has no terminator of its own, so the lowest byte
  of \<^verbatim>\<open>ref_cnt\<close> is part of the string; once the directory is open the comparison with \<^verbatim>\<open>"5"\<close>
  fails, and the search of \<^verbatim>\<open>sys_chdir\<close> passes over the entry it would have taken before.
\<close>

theorem chdir_misses_open_directory:
  assumes "indexed e i a" "fi_type i = 53" "length (fi_name i) < 100" "n \<le> 100" "strncmp new_path e (int n) = Inr 0"
  shows "chdir_search new_path (int n) [e] = Inr True \<and>
         chdir_search new_path (int n) [set_ref_cnt (ref_cnt e + 1) e] = Inr False"
proof -
  have e: "length e = 125" "terminated e" "cstr e = fi_name i" "ref_cnt e = 0" "terminated (typeflag e)" "cstr (typeflag e) = [53]"
    using assms(1,2) by (auto simp: indexed_def)
  let ?e = "set_ref_cnt (ref_cnt e + 1) e"
  note n = set_ref_cnt_name [OF e(1,2), of "ref_cnt e + 1"]
  have "strcmp (typeflag e) [53, 0] = Inr 0" using e(5,6) by (simp add: strcmp_spec)
  moreover have "strncmp new_path ?e (int n) = Inr 0"
  proof -
    have "cmp_loop l j xs ?e = cmp_loop l j xs e" if "j + l \<le> 100" for l j xs
      using that
    proof (induction l arbitrary: j)
      case (Suc l)
      have "j < 105" using Suc.prems by simp
      then have "?e ! j = e ! j" using n(4) e(1,3) assms(3) by (metis nth_take)
      then have "rd ?e j = rd e j" using n(3) e(1,3) assms(3) by (simp add: rd_def)
      moreover have "cmp_loop l (j + 1) xs ?e = cmp_loop l (j + 1) xs e" using Suc by simp
      ultimately show ?case by (simp only: cmp_loop.simps)
    qed simp
    then show ?thesis using assms(4,5) by (simp add: strncmp_def)
  qed
  moreover have "strcmp (typeflag ?e) [53, 0] = Inr 1"
  proof -
    obtain xs where xs: "drop 104 e = 53 # 0 # xs"
      using terminated_split [OF e(5)] e(6) by (simp add: typeflag_def)
    have "e ! 104 = 53" using arg_cong [OF xs, of hd] e(1) by (simp add: hd_drop_conv_nth)
    moreover have "take (Suc 104) e = take 104 e @ [e ! 104]" using e(1) by (intro take_Suc_conv_app_nth) simp
    moreover have "Suc 104 = 105" by simp
    ultimately have t: "take 105 e = take 104 e @ [53]" by metis
    have "le_bytes (Suc (Suc (Suc (Suc 0)))) 1 = [1, 0, 0, 0]" by simp
    moreover have "Suc (Suc (Suc (Suc 0))) = 4" by simp
    ultimately have "le_bytes 4 1 = [1, 0, 0, 0]" by metis
    then have "typeflag ?e = 53 # 1 # 0 # 0 # 0 # drop 109 e"
      using e(1,4) by (simp add: typeflag_def set_ref_cnt_def put_le_def t)
    then show ?thesis by (simp add: strcmp_spec)
  qed
  ultimately show ?thesis using assms(5) by simp
qed

theorem chdir_misses_open_directory_witness:
  "\<exists>e. chdir_search [100, 47, 0] 2 [e] = Inr True \<and> chdir_search [100, 47, 0] 2 [set_ref_cnt (ref_cnt e + 1) e] = Inr False"
proof -
  let ?n = "100 # 47 # 0 # replicate 97 0"
  let ?e = "entry_form ?n 0 53 0x200000"
  have "cstr ?e = [100, 47]" "terminated ?e" by (simp_all add: entry_form_def)
  then have "indexed ?e \<lparr>fi_name = [100, 47], fi_type = 53, fi_size = 0\<rparr> 0x200000"
    using entry_form_fields [of ?n 0 53 "0x200000"] by (simp add: indexed_def)
  moreover have "strncmp [100, 47, 0] ?e (int 2) = Inr 0"
    by (simp add: strncmp_def entry_form_def numeral_2_eq_2)
  ultimately have "chdir_search [100, 47, 0] 2 [?e] = Inr True \<and> chdir_search [100, 47, 0] 2 [set_ref_cnt (ref_cnt ?e + 1) ?e] = Inr False"
    using chdir_misses_open_directory [of ?e "\<lparr>fi_name = [100, 47], fi_type = 53, fi_size = 0\<rparr>" "0x200000" 2 "[100, 47, 0]"]
    by (simp del: chdir_search.simps)
  then show ?thesis by blast
qed

section \<open>Redirection to a pipe\<close>

lemma pipe_end_ok:
  assumes "i < length (t_fd (cur_task k))" "length (f_path (t_fd (cur_task k) ! i)) = 32"
  shows "\<exists>path. pipe_end i b k = Inr (set_cur (\<lambda>t. t\<lparr>t_fd := (t_fd t)[i := (t_fd (cur_task k) ! i)\<lparr>f_offset := b, f_path := path\<rparr>]\<rparr>) k)"
proof -
  have "terminated pipe_name" "length (cstr pipe_name) = 11" by (simp_all add: pipe_name_def)
  then obtain path where "strcpy (f_path (t_fd (cur_task k) ! i)) pipe_name = Inr path"
    using assms(2) by (simp add: strcpy_spec)
  then show ?thesis using assms(1) by (intro exI [of _ path]) (simp add: pipe_end_def upd_fd_def)
qed

lemma small_u32: "n < 2 ^ 31 \<Longrightarrow> unat (of_nat n :: u32) = n" "n < 2 ^ 31 \<Longrightarrow> sint (of_nat n :: u32) = int n"
proof -
  assume n: "n < 2 ^ 31"
  then show u: "unat (of_nat n :: u32) = n" by (simp add: unat_of_nat take_bit_eq_mod)
  show "sint (of_nat n :: u32) = int n" using sint_small_u32 [of "of_nat n"] u n by simp
qed

lemma span_4_apart: "span a 4 \<inter> span (a + 4) 4 = {}"
proof -
  have False if "i < 4" "j < 4" "a + of_nat i = a + 4 + of_nat j" for i j :: nat
  proof -
    have "(of_nat i :: u64) = of_nat (4 + j)" using that(3) by simp
    then have "unat (of_nat i :: u64) = unat (of_nat (4 + j) :: u64)" by simp
    then show False using that(1,2) unat_of_nat_u64 [of i] unat_of_nat_u64 [of "4 + j"] by simp
  qed
  then show ?thesis by (auto simp: span_def)
qed

lemma sys_pipe_ok:
  assumes "kmalloc 4096 (k_mem k) = (b, m)" "b \<noteq> 0" "mem_region lev r f A m" "cur_pml4 k = KERN_MEM + r" "span a 4 \<union> span (a + 4) 4 \<subseteq> A"
    and "t_fd_cnt (cur_task k) = of_nat c" "c < 23" "length (t_fd (cur_task k)) = 25"
    and "\<And>i. i < 25 \<Longrightarrow> length (f_path (t_fd (cur_task k) ! i)) = 32"
  shows "\<exists>k' p q. sys_pipe a k = Inr (0, k') \<and> t_fd_cnt (cur_task k') = of_nat (c + 2) \<and> t_dup_arr (cur_task k') = t_dup_arr (cur_task k) \<and>
           t_fd (cur_task k') = (t_fd (cur_task k))[c + 1 := (t_fd (cur_task k) ! (c + 1))\<lparr>f_offset := b, f_path := p\<rparr>,
             c + 2 := (t_fd (cur_task k) ! (c + 2))\<lparr>f_offset := b, f_path := q\<rparr>] \<and>
           (\<forall>i < 4. ldb (KERN_MEM + r) (a + of_nat i) (k_mem k') = Inr (le_bytes 4 (c + 1) ! i)) \<and>
           (\<forall>i < 4. ldb (KERN_MEM + r) (a + 4 + of_nat i) (k_mem k') = Inr (le_bytes 4 (c + 2) ! i))"
proof -
  let ?ld = "ldb (KERN_MEM + r)"
  have n1: "t_fd_cnt (cur_task k) + 1 = of_nat (c + 1)" "of_nat (c + 1) + 1 = (of_nat (c + 2) :: u32)" using assms(6) by simp_all
  define k2 where "k2 = set_cur (\<lambda>t. t\<lparr>t_fd_cnt := of_nat (c + 2)\<rparr>) (set_mem m k)"
  have reg: "mem_region lev r f A (k_mem k2)" "cur_pml4 k2 = KERN_MEM + r" using assms(3,4) by (simp_all add: k2_def cur_pml4_def)
  obtain m3 where m3: "user_store a (le_bytes 4 (c + 1)) k2 = Inr (set_mem m3 k2)" "mem_region lev r f A m3"
    "\<forall>i < 4. ?ld (a + of_nat i) m3 = Inr (le_bytes 4 (c + 1) ! i)"
    using user_store_ok [OF reg, of a "le_bytes 4 (c + 1)"] assms(5) by auto
  have reg3: "mem_region lev r f A (k_mem (set_mem m3 k2))" "cur_pml4 (set_mem m3 k2) = KERN_MEM + r" using m3(2) reg(2) by simp_all
  obtain m4 where m4: "user_store (a + 4) (le_bytes 4 (c + 2)) (set_mem m3 k2) = Inr (set_mem m4 k2)"
    "\<forall>i < 4. ?ld (a + 4 + of_nat i) m4 = Inr (le_bytes 4 (c + 2) ! i)" "\<forall>x \<in> A - span (a + 4) 4. ?ld x m4 = ?ld x m3"
    using user_store_ok [OF reg3, of "a + 4" "le_bytes 4 (c + 2)"] assms(5) by auto
  have "a + of_nat i \<in> A - span (a + 4) 4" if "i < 4" for i
    using that span_4_apart [of a] assms(5) span_mem [of i 4 a] by blast
  then have first: "?ld (a + of_nat i) m4 = Inr (le_bytes 4 (c + 1) ! i)" if "i < 4" for i
    using m4(3) m3(3) that by metis
  let ?k4 = "set_mem m4 k2" and ?F = "t_fd (cur_task k)"
  have t4: "cur_task ?k4 = (cur_task k)\<lparr>t_fd_cnt := of_nat (c + 2)\<rparr>" by (simp add: k2_def)
  obtain p where p: "pipe_end (c + 1) b ?k4 = Inr (set_cur (\<lambda>t. t\<lparr>t_fd := (t_fd t)[c + 1 := (?F ! (c + 1))\<lparr>f_offset := b, f_path := p\<rparr>]\<rparr>) ?k4)"
    using pipe_end_ok [of "c + 1" ?k4 b] t4 assms(7-9) by auto
  let ?k5 = "set_cur (\<lambda>t. t\<lparr>t_fd := (t_fd t)[c + 1 := (?F ! (c + 1))\<lparr>f_offset := b, f_path := p\<rparr>]\<rparr>) ?k4"
  have t5: "t_fd (cur_task ?k5) = ?F[c + 1 := (?F ! (c + 1))\<lparr>f_offset := b, f_path := p\<rparr>]" using t4 by simp
  obtain q where q: "pipe_end (c + 2) b ?k5 = Inr (set_cur (\<lambda>t. t\<lparr>t_fd := (t_fd t)[c + 2 := (?F ! (c + 2))\<lparr>f_offset := b, f_path := q\<rparr>]\<rparr>) ?k5)"
    using pipe_end_ok [of "c + 2" ?k5 b, unfolded t5] assms(7-9) by auto
  define k6 where "k6 = set_cur (\<lambda>t. t\<lparr>t_fd := (t_fd t)[c + 2 := (?F ! (c + 2))\<lparr>f_offset := b, f_path := q\<rparr>]\<rparr>) ?k5"
  have un: "unat (of_nat (c + 1) :: u32) = c + 1" "unat (of_nat (c + 2) :: u32) = c + 2" by (rule small_u32(1), use assms(7) in simp)+
  have idx: "int_idx (of_nat (c + 1)) = Inr (c + 1)" "int_idx (of_nat (c + 2)) = Inr (c + 2)" using assms(7) by (intro int_idx_nat, simp)+
  have "sys_pipe a k = Inr (0, k6)"
    unfolding sys_pipe_def Let_def assms(1) prod.case cur_set_mem n1 k2_def [symmetric] un
    using assms(2) m3(1) m4(1) idx p q by (simp add: k6_def)
  then show ?thesis using first m4(2) t4 t5 by (intro exI [of _ k6] exI [of _ p] exI [of _ q]) (simp add: k6_def del: of_nat_add)
qed

lemma dup2_redirects:
  assumes "t_fd_cnt (cur_task k) = of_nat n" "n < 25" "w < e" "e \<le> n" "length (t_dup_arr (cur_task k)) = 25" "length (t_fd (cur_task k)) = 25"
  shows "\<exists>k'. sys_dup2 (of_nat w) (of_nat e) k = Inr (int e, k') \<and> redirected (of_nat w) k' = Inr (Some (t_fd (cur_task k) ! e))"
proof -
  define k' where "k' = set_cur (\<lambda>t. t\<lparr>t_dup_arr := (t_dup_arr (cur_task k))[w := of_nat e]\<rparr>) k"
  have si: "sint (of_nat w :: u32) = int w" "sint (of_nat e :: u32) = int e" "sint (of_nat n :: u32) = int n"
    using assms(2-4) by (simp_all add: small_u32)
  have sc: "scast (of_nat e :: u32) = (of_nat e :: u64)" by (metis of_int_of_nat_eq of_int_sint si(2))
  have "sys_dup2 (of_nat w) (of_nat e) k = Inr (int e, k')"
    using assms by (simp add: sys_dup2_def Let_def si sc wr_def k'_def)
  moreover have u: "unat (of_nat w :: u64) = w" "unat (of_nat e :: u64) = e" using assms(2-4) by (simp_all add: unat_of_nat_u64)
  then have "(of_nat e :: u64) \<noteq> of_nat w" using assms(3) by (metis less_irrefl)
  then have "redirected (of_nat w) k' = Inr (Some (t_fd (cur_task k) ! e))"
    using u assms by (simp add: redirected_def k'_def rd_def)
  ultimately show ?thesis by blast
qed

text \<open>
  C24. A pipe and its redirection: when the task has two descriptors left, \<^verbatim>\<open>sys_pipe\<close> puts one new buffer behind both ends,
  stores their numbers, the next two, in the caller's array and leaves the other descriptors; a
  call \<^verbatim>\<open>sys_dup2(w, e)\<close> with an end \<open>e\<close> then redirects the first argument, a descriptor \<open>w\<close> that was in use before, to that buffer.  (The
  \<^verbatim>\<open>README\<close> describes the opposite direction, that \<^verbatim>\<open>newfd\<close> becomes the copy of \<^verbatim>\<open>oldfd\<close>.)
\<close>

theorem pipe_redirects:
  assumes "kmalloc 4096 (k_mem k) = (b, m)" "b \<noteq> 0" "mem_region lev r f A m" "cur_pml4 k = KERN_MEM + r" "span a 4 \<union> span (a + 4) 4 \<subseteq> A"
    and "t_fd_cnt (cur_task k) = of_nat c" "c < 23" "length (t_fd (cur_task k)) = 25" "length (t_dup_arr (cur_task k)) = 25"
    and "\<And>i. i < 25 \<Longrightarrow> length (f_path (t_fd (cur_task k) ! i)) = 32" "w \<le> c" "e = c + 1 \<or> e = c + 2"
  shows "\<exists>k1. sys_pipe a k = Inr (0, k1) \<and> t_fd_cnt (cur_task k1) = of_nat (c + 2) \<and>
           (\<forall>i < 4. ldb (KERN_MEM + r) (a + of_nat i) (k_mem k1) = Inr (le_bytes 4 (c + 1) ! i)) \<and>
           (\<forall>i < 4. ldb (KERN_MEM + r) (a + 4 + of_nat i) (k_mem k1) = Inr (le_bytes 4 (c + 2) ! i)) \<and>
           (\<forall>i < 25. i \<noteq> c + 1 \<and> i \<noteq> c + 2 \<longrightarrow> t_fd (cur_task k1) ! i = t_fd (cur_task k) ! i) \<and>
           (\<exists>k2 g. sys_dup2 (of_nat w) (of_nat e) k1 = Inr (int e, k2) \<and> redirected (of_nat w) k2 = Inr (Some g) \<and> f_offset g = b)"
proof -
  obtain k1 p q where k1: "sys_pipe a k = Inr (0, k1)" "t_fd_cnt (cur_task k1) = of_nat (c + 2)" "t_dup_arr (cur_task k1) = t_dup_arr (cur_task k)"
    "t_fd (cur_task k1) = (t_fd (cur_task k))[c + 1 := (t_fd (cur_task k) ! (c + 1))\<lparr>f_offset := b, f_path := p\<rparr>,
       c + 2 := (t_fd (cur_task k) ! (c + 2))\<lparr>f_offset := b, f_path := q\<rparr>]"
    "\<forall>i < 4. ldb (KERN_MEM + r) (a + of_nat i) (k_mem k1) = Inr (le_bytes 4 (c + 1) ! i)"
    "\<forall>i < 4. ldb (KERN_MEM + r) (a + 4 + of_nat i) (k_mem k1) = Inr (le_bytes 4 (c + 2) ! i)"
    using sys_pipe_ok [OF assms(1-8,10)] by blast
  have "w < e" "e \<le> c + 2" "c + 2 < 25" using assms(7,11,12) by auto
  then obtain k2 where "sys_dup2 (of_nat w) (of_nat e) k1 = Inr (int e, k2)" "redirected (of_nat w) k2 = Inr (Some (t_fd (cur_task k1) ! e))"
    using dup2_redirects [of k1 "c + 2" w e] k1(2-4) assms(8,9) by auto
  moreover have "f_offset (t_fd (cur_task k1) ! e) = b" using k1(4) assms(7,8,12) by auto
  ultimately show ?thesis using k1 assms(8) by (intro exI [of _ k1]) (auto simp del: of_nat_add)
qed

lemma spans_4: "span x 4 = {x, x + 1, x + 2, x + 3}"
proof -
  have "{..<4 :: nat} = {0, 1, 2, 3}" by auto
  then show ?thesis by (simp add: span_def)
qed

definition array_region :: "u64 set" where
  "array_region = {KERN_MEM + 0x3000, KERN_MEM + 0x3001, KERN_MEM + 0x3002, KERN_MEM + 0x3003, KERN_MEM + 0x3004, KERN_MEM + 0x3005,
     KERN_MEM + 0x3006, KERN_MEM + 0x3007}"

lemma array_region_ok: "mem_region [root2 \<mapsto> 4] root2 kphys array_region (take_page 9 (kmem_boot 9))"
proof -
  let ?m = "take_page 9 (kmem_boot 9)"
  have av: "page_avail ?m j \<longleftrightarrow> page_avail (kmem_boot 9) j \<and> j \<noteq> 9" for j
    using take_page_avail [OF kmem_boot_ok [of 9], of 9] by auto
  have "memmap_ok ?m" using take_page_ok [OF kmem_boot_ok [of 9], of 9] by simp
  then have "pt_wf [root2 \<mapsto> 4] root2 ?m"
    using fresh_root [of ?m 2] by (simp add: kmem_boot_qmem kmem_boot_avail av)
  moreover have "inj_on kphys array_region" by (simp add: array_region_def kphys_def)
  moreover have "data_page [root2 \<mapsto> 4] ?m 3" by (simp add: data_page_def kmem_boot_avail av)
  ultimately show ?thesis by (simp add: mem_region_def array_region_def translate_def kphys_def)
qed

theorem pipe_redirects_witness:
  "\<exists>k1 k2 g. sys_pipe (KERN_MEM + 0x3000) (set_cur (\<lambda>t. t\<lparr>t_fd_cnt := 2\<rparr>) (pipe_kernel (kmem_boot 9))) = Inr (0, k1) \<and>
     sys_dup2 1 4 k1 = Inr (4, k2) \<and> redirected 1 k2 = Inr (Some g) \<and> f_offset g = KERN_MEM + 0x9000"
proof -
  let ?k = "set_cur (\<lambda>t. t\<lparr>t_fd_cnt := 2\<rparr>) (pipe_kernel (kmem_boot 9))"
  have al: "mem_allocate (kmem_boot 9) = (0x9000, take_page 9 (kmem_boot 9))"
    using mem_allocate_first [OF kmem_boot_ok [of 9], of 9] by (simp add: kmem_boot_avail)
  have km: "kmalloc 4096 (k_mem ?k) = (KERN_MEM + 0x9000, take_page 9 (kmem_boot 9))"
    by (simp add: pipe_kernel_def kmalloc_def page_count_def al)
  have "cur_pml4 kernel_empty = KERN_MEM + root2"
    by (simp add: kernel_empty_def kernel_shared_def cur_pml4_def cur_task_def)
  then have pml: "cur_pml4 ?k = KERN_MEM + root2" by (simp add: pipe_kernel_def cur_pml4_def)
  have sp: "span (KERN_MEM + 0x3000) 4 \<union> span (KERN_MEM + 0x3000 + 4) 4 \<subseteq> array_region" by (simp add: spans_4 array_region_def)
  from pipe_redirects [OF km _ array_region_ok pml sp, of 2 1 4] show ?thesis by (simp add: pipe_kernel_def) blast
qed

end
