(* ===== verification/Syscall_Claims.thy ===== *)
theory Syscall_Claims
  imports Typing Boot Files_Claims
begin

text \<open>Properties of the system call interface as a whole, and of booting.\<close>

section \<open>Types\<close>

lemma ens_ret_to: "ens_kernel m \<Longrightarrow> ens (\<lambda>(r, c, k'). kernel_ok k') (ret_to codes f m)"
  unfolding ret_to_def by (rule ens_bind [where Q = "\<lambda>(r, k'). kernel_ok k'"]) auto

lemma ens_step_to: "ens_kernel m \<Longrightarrow> ens (\<lambda>(r, c, k'). kernel_ok k') (step_to codes f m)"
  unfolding step_to_def by (rule ens_bind [where Q = "\<lambda>(r, k'). kernel_ok k'"]) (auto split: outcome.splits)

lemma ens_waitpid: "kernel_ok k \<Longrightarrow> ens_kernel (on_sched (of_option (sys_waitpid pid (k_sched k))) k)"
  using sys_waitpid_types [of pid "k_sched k"]
  by (cases "sys_waitpid pid (k_sched k)") (auto simp: on_sched_def kernel_okD intro!: kernel_ok_sched)

lemma ens_sleep: "kernel_ok k \<Longrightarrow> ens_kernel (on_sched (Inr (sys_sleep n (k_sched k))) k)"
  using sys_sleep_types [of "k_sched k" n]
  by (cases "sys_sleep n (k_sched k)") (auto simp: on_sched_def kernel_okD intro!: kernel_ok_sched)

lemmas syscall_types = ens_k_exit ens_sys_brk ens_sys_fork ens_sys_execve ens_waitpid ens_sleep ens_sys_getcwd ens_sys_chdir
  ens_sys_open ens_sys_write ens_sys_lseek ens_sys_close ens_sys_getdents ens_sys_pipe ens_sys_dup2

lemma ens_syscall_handler:
  assumes "kernel_ok k"
  shows "ens (\<lambda>(r, c, k'). kernel_ok k') (syscall_handler junk codes n a b c k)"
proof -
  have "ens (\<lambda>(r, c, k'). kernel_ok k') (bindr (sys_read junk codes a b c k) (\<lambda>(num, rest, k'). Inr (Ret (ret32 num), rest, k')))"
    by (rule ens_bind [OF ens_sys_read [OF assms]]) auto
  moreover have "ens (\<lambda>(r, c, k'). kernel_ok k') (bindr (print_ps k) (\<lambda>k'. Inr (Ret None, codes, k')))"
    by (rule ens_bind [OF ens_print_ps [OF assms]]) auto
  moreover have "ens (\<lambda>(r, c, k'). kernel_ok k') (bindr (user_str a k) (\<lambda>f. step_to codes ret64 (sys_execve f k)))"
    by (rule ens_bind_any, rule ens_step_to, rule ens_sys_execve, rule assms)
  ultimately show ?thesis
    unfolding syscall_handler_def by (auto intro!: ens_ret_to ens_step_to syscall_types assms simp: assms)
qed

text \<open>
  Type soundness of the kernel interface: whatever its number and arguments, a system call that the C code defines
  leaves every array of the kernel state with its declared size (the descriptor tables and the paths in them, the
  redirections, directory and program names of all tasks, the keyboard buffer, the screen, the file index).
\<close>

theorem syscall_keeps_types:
  assumes "kernel_ok k" "syscall_handler junk codes n a b c k = Inr (r, codes', k')"
  shows "kernel_ok k'"
  using ens_use [OF assms(2) ens_syscall_handler [OF assms(1)]] by simp

text \<open>A kernel whose tasks have the tables of a new task.\<close>

definition typed_kernel :: kernel where
  "typed_kernel = kernel_empty\<lparr>k_sched := boot0\<lparr>tasks := \<lambda>_. zero_task\<lparr>t_fd_cnt := 2\<rparr>\<rparr>\<rparr>"

lemma typed_kernel_ok: "kernel_ok typed_kernel"
  using zero_task_ok
  by (simp add: typed_kernel_def kernel_ok_def sched_ok_types_def task_ok_def kernel_empty_def kernel_shared_def tab0_def tty_ok_def tty0_def
      console_init_def)

theorem syscall_keeps_types_witness:
  "\<exists>k'. syscall_handler [] [] 33 1 2 0 typed_kernel = Inr (Ret (Some 2), [], k') \<and> kernel_ok k' \<and> t_dup_arr (cur_task k') ! 1 = 2"
proof -
  have c: "t_fd_cnt (cur_task typed_kernel) = 2" "t_dup_arr (cur_task typed_kernel) = replicate 25 0"
    by (simp_all add: typed_kernel_def cur_task_def zero_task_def)
  have "wr (replicate 25 0) 1 2 = Inr ((replicate 25 0)[1 := 2 :: u64])" by (simp add: wr_def)
  then have "syscall_handler [] [] 33 1 2 0 typed_kernel =
      Inr (Ret (Some 2), [], set_cur (\<lambda>t. t\<lparr>t_dup_arr := (replicate 25 0)[1 := 2]\<rparr>) typed_kernel)"
    by (simp add: syscall_handler_def ret_to_def sys_dup2_def c Let_def ret32_def)
  with syscall_keeps_types [OF typed_kernel_ok this] show ?thesis by simp
qed

section \<open>Booting\<close>

text \<open>The kernel comes up with these types.\<close>

lemma length_put_le: "i + n \<le> length e \<Longrightarrow> length (put_le n i v e) = length e"
  by (simp add: put_le_def length_le_bytes)

lemma ens_index_entry: "length e = 125 \<Longrightarrow> ens (\<lambda>(e', sz). length e' = 125) (index_entry h a e)"
  unfolding index_entry_def Let_def
  by (auto intro!: ens_bindI dest!: ens_use [OF _ ens_strcpy] simp: length_put_le set_ref_cnt_length typeflag_def)

lemma ens_tarfs_loop:
  "length tab = MAX_BIN \<and> (\<forall>e \<in> set tab. length e = 125) \<Longrightarrow>
   ens (\<lambda>tab'. length tab' = MAX_BIN \<and> (\<forall>e \<in> set tab'. length e = 125)) (tarfs_loop img base pos ind tab)"
proof (induction img base pos ind tab rule: tarfs_loop.induct)
  case (1 img base pos ind tab)
  show ?case
  proof (cases "pos < length img")
    case True
    have "length (tab[ind := e']) = MAX_BIN \<and> (\<forall>e \<in> set (tab[ind := e']). length e = 125)" if "length e' = 125" for e'
      using "1.prems" that set_update_subset_insert [of tab ind e'] by auto
    then show ?thesis
      using True "1.prems" "1.IH" [OF True]
      by (subst tarfs_loop.simps) (auto intro!: ens_bindI dest!: ens_use [OF _ ens_index_entry] simp: rd_eq_Inr)
  next
    case False
    then show ?thesis using "1.prems" by (subst tarfs_loop.simps) simp
  qed
qed

lemma ens_reset: "ens (same_vid c) (reset c)"
  unfolding reset_def by (rule ens_bind [OF ens_reset_loop]) simp

lemma ens_launch: "kernel_ok k \<Longrightarrow> ens_kernel (launch bin k)"
  unfolding launch_def
  by (rule ens_bind [OF ens_create_process])
    (auto split: outcome.splits prod.splits intro!: kernel_ok_sched simp: kernel_okD addTasktoQueue_def split: if_splits)

lemma start_types:
  assumes "kernel_ok k"
  shows "ens_kernel (start img a physbase physfree k)"
proof -
  have k1: "kernel_ok (k\<lparr>tarfs_ind := tab, k_mem := m, k_tty := (k_tty k)\<lparr>scan_flag := False, con := c\<rparr>\<rparr>)"
    if "length tab = MAX_BIN \<and> (\<forall>e \<in> set tab. length e = 125)" "same_vid (con (k_tty k)) c" for tab m c
    using assms that by (simp add: kernel_ok_def tty_ok_def)
  have init: "sched_ok_types (init_process s) = sched_ok_types s" for s
    by (simp add: init_process_def Let_def)
  have ind: "length (tarfs_ind k) = MAX_BIN \<and> (\<forall>e \<in> set (tarfs_ind k). length e = 125)" using assms by (simp add: kernel_ok_def)
  show ?thesis
    unfolding start_def tarfs_initialize_def Let_def
    by (rule ens_bind [OF ens_tarfs_loop [OF ind]], rule ens_bind_any, rule ens_bind [OF ens_reset], rule ens_and_then, rule ens_launch)
      (auto intro!: k1 ens_and_then ens_launch kernel_ok_sched simp: init kernel_okD)
qed

end
