(* ===== verification/UserLib.thy ===== *)
theory UserLib
  imports Syscall
begin

text \<open>
  The user library, \<^verbatim>\<open>libc\<close>, as a client of the system call interface: the stubs of
  \<^verbatim>\<open>include/syscall.h\<close>, \<^verbatim>\<open>malloc\<close> and \<^verbatim>\<open>free\<close>, the directory functions, \<^verbatim>\<open>printf\<close> and \<^verbatim>\<open>scanf\<close>.
  A library function runs in the address space of the current task; its buffers on the user stack
  are at addresses that are arguments.
\<close>

section \<open>System call stubs\<close>

text \<open>
  The user program's view of the machine: the kernel state, the stack contents \<open>u_junk\<close> that kernel calls find
  in their arrays, and the scan codes to come.  A call that switches to another task has no result here.
\<close>

record user =
  u_junk :: "u8 list"
  u_codes :: "u8 list"
  u_kernel :: kernel

type_synonym 'a ustep = "user \<Rightarrow> ('a \<times> user) res"

definition int_128 :: "u64 \<Rightarrow> u64 \<Rightarrow> u64 \<Rightarrow> u64 \<Rightarrow> u64 option ustep" where
  "int_128 n a1 a2 a3 u =
     bindr (syscall_handler (u_junk u) (u_codes u) n a1 a2 a3 (u_kernel u)) (\<lambda>(r, codes, k).
       case r of Ret v \<Rightarrow> Inr (v, u\<lparr>u_codes := codes, u_kernel := k\<rparr>) | Switch \<Rightarrow> Inl No_return)"

text \<open>Registers a stub does not set are not read by the calls that use it.\<close>

definition syscall_0 :: "u64 \<Rightarrow> u64 option ustep" where
  "syscall_0 n = int_128 n 0 0 0"

definition syscall_1 :: "u64 \<Rightarrow> u64 \<Rightarrow> u64 option ustep" where
  "syscall_1 n a1 = int_128 n a1 0 0"

definition syscall_2 :: "u64 \<Rightarrow> u64 \<Rightarrow> u64 \<Rightarrow> u64 option ustep" where
  "syscall_2 n a1 a2 = int_128 n a1 a2 0"

definition syscall_3 :: "u64 \<Rightarrow> u64 \<Rightarrow> u64 \<Rightarrow> u64 \<Rightarrow> u64 option ustep" where
  "syscall_3 n a1 a2 a3 = int_128 n a1 a2 a3"

text \<open>A result that is used; where the kernel leaves \<^verbatim>\<open>rax\<close> alone, it is not defined by the code.\<close>

definition uresult :: "(u64 option \<times> user) res \<Rightarrow> (u64 \<times> user) res" where
  "uresult m = bindr m (\<lambda>(r, u). case r of None \<Rightarrow> Inl Unspecified | Some v \<Rightarrow> Inr (v, u))"

definition fork_user :: "u64 option ustep" where "fork_user = syscall_0 SYS_fork"
definition getpid_user :: "u64 option ustep" where "getpid_user = syscall_0 SYS_getpid"
definition getppid_user :: "u64 option ustep" where "getppid_user = syscall_0 SYS_getppid"
definition ps_user :: "u64 option ustep" where "ps_user = syscall_0 SYS_ps"
definition exit_user :: "u32 \<Rightarrow> u64 option ustep" where "exit_user status = syscall_1 SYS_exit (scast status)"
definition brk_user :: "u64 \<Rightarrow> u64 option ustep" where "brk_user end_data_segment = syscall_1 SYS_brk end_data_segment"
definition alarm_user :: "u32 \<Rightarrow> u64 option ustep" where "alarm_user seconds = syscall_1 SYS_alarm (ucast seconds)"
definition sleep_user :: "u32 \<Rightarrow> u64 option ustep" where "sleep_user seconds = syscall_1 SYS_nanosleep (ucast seconds)"
definition chdir_user :: "u64 \<Rightarrow> u64 option ustep" where "chdir_user path = syscall_1 SYS_chdir path"
definition close_user :: "u32 \<Rightarrow> u64 option ustep" where "close_user fd = syscall_1 SYS_close (scast fd)"
definition pipe_user :: "u64 \<Rightarrow> u64 option ustep" where "pipe_user filedes = syscall_1 SYS_pipe filedes"
definition dup_user :: "u32 \<Rightarrow> u64 option ustep" where "dup_user oldfd = syscall_1 SYS_dup (scast oldfd)"
definition dup2_user :: "u32 \<Rightarrow> u32 \<Rightarrow> u64 option ustep" where
  "dup2_user oldfd newfd = syscall_2 SYS_dup2 (scast oldfd) (scast newfd)"
definition kill_user :: "u32 \<Rightarrow> u32 \<Rightarrow> u64 option ustep" where "kill_user pid sig = syscall_2 SYS_kill (scast pid) (scast sig)"
definition getcwd_user :: "u64 \<Rightarrow> u64 \<Rightarrow> u64 option ustep" where "getcwd_user buf sz = syscall_2 SYS_getcwd buf sz"
definition open_user :: "u64 \<Rightarrow> u32 \<Rightarrow> u64 option ustep" where "open_user pathname fl = syscall_2 SYS_open pathname (scast fl)"
definition execve_user :: "u64 \<Rightarrow> u64 \<Rightarrow> u64 \<Rightarrow> u64 option ustep" where
  "execve_user filename argv envp = syscall_3 SYS_execve filename argv envp"
definition waitpid_user :: "u32 \<Rightarrow> u64 \<Rightarrow> u32 \<Rightarrow> u64 option ustep" where
  "waitpid_user pid status options = syscall_3 SYS_wait4 (ucast pid) status (scast options)"
definition read_user :: "u32 \<Rightarrow> u64 \<Rightarrow> u64 \<Rightarrow> u64 option ustep" where "read_user fd buf cnt = syscall_3 SYS_read (scast fd) buf cnt"
definition write_user :: "u32 \<Rightarrow> u64 \<Rightarrow> u64 \<Rightarrow> u64 option ustep" where "write_user fd buf cnt = syscall_3 SYS_write (scast fd) buf cnt"
definition lseek_user :: "u32 \<Rightarrow> u64 \<Rightarrow> u32 \<Rightarrow> u64 option ustep" where
  "lseek_user fd offset whence = syscall_3 SYS_lseek (scast fd) offset (scast whence)"

section \<open>\<^verbatim>\<open>malloc\<close> and \<^verbatim>\<open>free\<close>\<close>

definition malloc :: "u64 \<Rightarrow> u64 ustep" where
  "malloc sz u =
     bindr (uresult (syscall_1 SYS_brk 0 u)) (\<lambda>(start, u1).
       bindr (syscall_1 SYS_brk (start + sz) u1) (\<lambda>(r, u2). Inr (start, u2)))"

text \<open>
  \<^verbatim>\<open>free\<close> searches the list of blocks that starts at \<^verbatim>\<open>malloc_head\<close> for the header before the block;
  \<open>nx\<close> gives the field \<^verbatim>\<open>next\<close> of a block.  The result is the header whose flag is cleared.
\<close>

partial_function (option) free_loop :: "(ptr \<Rightarrow> ptr) \<Rightarrow> ptr \<Rightarrow> ptr \<Rightarrow> ptr res option" where
  "free_loop nx ptr1 ptr2 =
     (if ptr1 \<noteq> ptr2 then (if ptr1 = 0 then Some (Inl Null_deref) else free_loop nx (nx ptr1) ptr2)
      else if ptr1 = 0 then Some (Inl Null_deref) else Some (Inr ptr1))"

text \<open>\<^verbatim>\<open>malloc_head\<close> is \<^verbatim>\<open>NULL\<close>, and nothing assigns to it; a header takes 24 bytes.\<close>

definition free :: "(ptr \<Rightarrow> ptr) \<Rightarrow> ptr \<Rightarrow> ptr res option" where
  "free nx p = free_loop nx 0 (p - 24)"

section \<open>Reading and writing user memory\<close>

definition u_load :: "nat \<Rightarrow> u64 \<Rightarrow> user \<Rightarrow> nat res" where
  "u_load n a u = ld_field n (cur_pml4 (u_kernel u)) a (k_mem (u_kernel u))"

definition u_store :: "u64 \<Rightarrow> u8 list \<Rightarrow> user \<Rightarrow> user res" where
  "u_store a bs u = bindr (user_store a bs (u_kernel u)) (\<lambda>k. Inr (u\<lparr>u_kernel := k\<rparr>))"

definition u_str :: "u64 \<Rightarrow> user \<Rightarrow> u8 list res" where
  "u_str a u = user_str a (u_kernel u)"

section \<open>Directories\<close>

text \<open>
  \<^verbatim>\<open>struct opdir\<close> takes 4568 bytes: \<^verbatim>\<open>fd\<close> at offset 0, \<^verbatim>\<open>size\<close> at 8, \<^verbatim>\<open>offset\<close> at 16, \<^verbatim>\<open>buffer\<close> at 24;
  \<^verbatim>\<open>d_reclen\<close> is at offset 16 of a directory entry.
\<close>

definition opendir :: "u64 \<Rightarrow> u64 ustep" where
  "opendir name u =
     bindr (malloc 4568 u) (\<lambda>(dirn, u1).
       bindr (uresult (open_user name (0x10000 OR 0) u1)) (\<lambda>(r, u2).
         let fd = ucast r :: u32
         in if fd \<noteq> 0 then
              bindr (uresult (syscall_3 SYS_getdents (scast fd) (dirn + 24) 1024 u2)) (\<lambda>(nb, u3).
                let num_bytes = ucast nb :: u32
                in bindr (u_store dirn (le_bytes 4 (unat fd)) u3) (\<lambda>u4.
                     bindr (u_store (dirn + 8) (le_bytes 8 (unat (scast num_bytes :: u64))) u4) (\<lambda>u5.
                       bindr (u_store (dirn + 16) (le_bytes 8 0) u5) (\<lambda>u6. Inr (dirn, u6)))))
            else Inr (0, u2)))"

definition readdir :: "u64 \<Rightarrow> u64 ustep" where
  "readdir dp u =
     bindr (u_load 8 (dp + 16) u) (\<lambda>offset. bindr (u_load 8 (dp + 8) u) (\<lambda>sz.
       if sint (of_nat offset :: u64) \<ge> sint (of_nat sz :: u64) then Inr (0, u)
       else
         let dirn = dp + 24 + of_nat offset
         in bindr (u_load 2 (dirn + 16) u) (\<lambda>reclen.
              bindr (u_store (dp + 16) (le_bytes 8 (unat (of_nat offset + of_nat reclen :: u64))) u) (\<lambda>u'. Inr (dirn, u')))))"

definition closedir :: "u64 \<Rightarrow> u64 option ustep" where
  "closedir dp u = bindr (u_load 4 dp u) (\<lambda>fd. close_user (of_nat fd) u)"

section \<open>\<^verbatim>\<open>printf\<close> and \<^verbatim>\<open>scanf\<close>\<close>

datatype uarg = U_int u32 | U_ptr u64

fun take_int :: "uarg list \<Rightarrow> (u32 \<times> uarg list) res" where
  "take_int (U_int n # as) = Inr (n, as)"
| "take_int _ = Inl Out_of_bounds"

fun take_ptr :: "uarg list \<Rightarrow> (u64 \<times> uarg list) res" where
  "take_ptr (U_ptr p # as) = Inr (p, as)"
| "take_ptr _ = Inl Out_of_bounds"

definition put_out :: "u64 \<Rightarrow> u64 \<Rightarrow> user \<Rightarrow> user res" where
  "put_out a n u = bindr (write_user 1 a n u) (\<lambda>(r, u'). Inr u')"

text \<open>\<^verbatim>\<open>for(;*t;t++) write(1,t,1);\<close> over the bytes at \<open>t\<close>.\<close>

fun put_string :: "u64 \<Rightarrow> u8 list \<Rightarrow> user \<Rightarrow> user res" where
  "put_string t [] u = Inr u"
| "put_string t (c # cs) u = (if c = 0 then Inr u else bindr (put_out t 1 u) (put_string (t + 1) cs))"

text \<open>
  One conversion; \<open>f\<close> is the address of the conversion character and \<open>tmp\<close> that of the array
  of 15 bytes, which the model reads, passes to the conversion and writes back.
\<close>

definition put_number :: "(int \<Rightarrow> u8 list \<Rightarrow> u8 list res) \<Rightarrow> u64 \<Rightarrow> u32 \<Rightarrow> user \<Rightarrow> user res" where
  "put_number conv tmp n u =
     bindr (mem_load (ldb (cur_pml4 (u_kernel u))) 15 tmp (k_mem (u_kernel u))) (\<lambda>b.
       bindr (conv (sint n) b) (\<lambda>b'. bindr (u_store tmp b' u) (put_out tmp 15)))"

definition printf_conv :: "u8 \<Rightarrow> u64 \<Rightarrow> u64 \<Rightarrow> uarg list \<Rightarrow> user \<Rightarrow> (uarg list \<times> user) res" where
  "printf_conv c f tmp as u =
     (if c = 100 then bindr (take_int as) (\<lambda>(n, as'). bindr (put_number itoa_user tmp n u) (\<lambda>u'. Inr (as', u')))
      else if c = 115 then bindr (take_ptr as) (\<lambda>(t, as'). bindr (u_str t u) (\<lambda>s. bindr (put_string t s u) (\<lambda>u'. Inr (as', u'))))
      else if c = 120 then bindr (take_int as) (\<lambda>(n, as'). bindr (put_number xtoa_user tmp n u) (\<lambda>u'. Inr (as', u')))
      else if c = 99 then
        bindr (take_int as) (\<lambda>(n, as'). bindr (u_store tmp [ucast n, 0] u) (\<lambda>u1. bindr (put_out tmp 1 u1) (\<lambda>u'. Inr (as', u'))))
      else if c = 37 then bindr (put_out f 1 u) (\<lambda>u'. Inr (as, u'))
      else Inr (as, u))"

text \<open>The loop over the format, whose bytes are at the address \<open>f\<close>.\<close>

fun printf_loop :: "u64 \<Rightarrow> u8 list \<Rightarrow> u64 \<Rightarrow> uarg list \<Rightarrow> nat \<Rightarrow> nat ustep" where
  "printf_loop f [] tmp as printed u = Inl Out_of_bounds"
| "printf_loop f (c # fmt) tmp as printed u =
     (if c = 0 then Inr (printed, u)
      else if c = 37 then
        (case fmt of
           [] \<Rightarrow> Inl Out_of_bounds
         | d # fmt' \<Rightarrow> bindr (printf_conv d (f + 1) tmp as u) (\<lambda>(as', u'). printf_loop (f + 2) fmt' tmp as' (printed + 1) u'))
      else bindr (put_out f 1 u) (printf_loop (f + 1) fmt tmp as (printed + 1)))"

definition printf :: "u64 \<Rightarrow> u64 \<Rightarrow> uarg list \<Rightarrow> nat ustep" where
  "printf f tmp as u =
     bindr (u_store tmp (replicate 15 0) u) (\<lambda>u1. bindr (u_str f u1) (\<lambda>fmt. printf_loop f fmt tmp as 0 u1))"

text \<open>\<^verbatim>\<open>scanf\<close>: every character of the format, after a percent sign or not, selects a conversion of the whole line.\<close>

definition scanf_conv :: "u8 \<Rightarrow> u64 \<Rightarrow> uarg list \<Rightarrow> user \<Rightarrow> (uarg list \<times> user) res" where
  "scanf_conv c buf as u =
     (if c = 100 then bindr (take_ptr as) (\<lambda>(p, as'). bindr (u_str buf u) (\<lambda>s. bindr (atoi s) (\<lambda>v.
        bindr (u_store p (le_bytes 4 (unat (of_int v :: u32))) u) (\<lambda>u'. Inr (as', u')))))
      else if c = 115 then bindr (take_ptr as) (\<lambda>(t, as'). bindr (u_str buf u) (\<lambda>s.
        bindr (u_store t s u) (\<lambda>u'. Inr (as', u'))))
      else if c = 120 then bindr (take_ptr as) (\<lambda>(p, as'). bindr (u_str buf u) (\<lambda>s. bindr (atox s) (\<lambda>v.
        bindr (u_store p (le_bytes 4 (unat (of_int v :: u32))) u) (\<lambda>u'. Inr (as', u')))))
      else if c = 99 then bindr (take_ptr as) (\<lambda>(t, as'). bindr (u_load 1 buf u) (\<lambda>b.
        bindr (u_store t [of_nat b] u) (\<lambda>u'. Inr (as', u'))))
      else Inr (as, u))"

fun scanf_loop :: "u8 list \<Rightarrow> u64 \<Rightarrow> uarg list \<Rightarrow> nat \<Rightarrow> nat ustep" where
  "scanf_loop [] buf as scanned u = Inl Out_of_bounds"
| "scanf_loop (c # fmt) buf as scanned u =
     (if c = 0 then Inr (scanned, u)
      else if c = 37 then
        (case fmt of
           [] \<Rightarrow> Inl Out_of_bounds
         | d # fmt' \<Rightarrow> bindr (scanf_conv d buf as u) (\<lambda>(as', u'). scanf_loop fmt' buf as' (scanned + 1) u'))
      else bindr (scanf_conv c buf as u) (\<lambda>(as', u'). scanf_loop fmt buf as' (scanned + 1) u'))"

definition scanf :: "u8 list \<Rightarrow> u64 \<Rightarrow> uarg list \<Rightarrow> nat ustep" where
  "scanf fmt buf as u =
     bindr (u_store buf (replicate 1024 0) u) (\<lambda>u1.
       bindr (uresult (read_user 0 buf 1024 u1)) (\<lambda>(r, u2).
         let n = sint (ucast r :: u32)
         in if n < 0 \<or> n \<ge> 1024 then Inl Out_of_bounds
            else bindr (u_store (buf + of_int n) [0] u2) (scanf_loop fmt buf as 0)))"

end
