(* ===== verification/UserLib_Claims.thy ===== *)
theory UserLib_Claims
  imports UserLib Console_Claims UserHeap_Claims Files_Claims
begin

text \<open>The properties of the user library, through the system call interface.\<close>

section \<open>Memory\<close>

lemma brk_query: "syscall_1 12 0 u = Inr (Some (bump_ptr (t_heap (cur_task (u_kernel u)))), u)"
  by (simp add: syscall_1_def int_128_def syscall_handler_def ret_to_def sys_brk_def cur_task_def Let_def)

text \<open>Moving the break of a task within the memory it has left.\<close>

definition bump :: "u64 \<Rightarrow> user \<Rightarrow> user" where
  "bump sz u =
     (let p = getCurrentTask (k_sched (u_kernel u)); h = t_heap (tasks (k_sched (u_kernel u)) p)
      in if sz = 0 then u else u\<lparr>u_kernel := set_heap p (bump_ptr h + sz) (rem_size h - sz) (u_kernel u)\<rparr>)"

lemma malloc_within:
  assumes "t_heap (cur_task (u_kernel u)) = \<lparr>bump_ptr = b, rem_size = q, end_addr = x\<rparr>" "sz < q" "b + sz \<noteq> 0"
  shows "malloc sz u = Inr (b, bump sz u)"
proof -
  have "syscall_1 12 (b + sz) u = Inr (Some (if sz = 0 then 0 else b), bump sz u)"
    using assms by (simp add: syscall_1_def int_128_def syscall_handler_def ret_to_def sys_brk_def cur_task_def bump_def Let_def word_greater_zero_iff)
  then show ?thesis using assms(1) by (simp add: malloc_def brk_query uresult_def)
qed

lemma bump_heap:
  assumes "t_heap (cur_task (u_kernel u)) = \<lparr>bump_ptr = b, rem_size = q, end_addr = x\<rparr>"
  shows "t_heap (cur_task (u_kernel (bump sz u))) = \<lparr>bump_ptr = b + sz, rem_size = q - sz, end_addr = x\<rparr>"
    "k_mem (u_kernel (bump sz u)) = k_mem (u_kernel u)"
  using assms by (simp_all add: bump_def set_heap_def set_task_def cur_task_def upd_task_def getCurrentTask_def Let_def)

fun mallocs :: "u64 list \<Rightarrow> u64 list ustep" where
  "mallocs [] u = Inr ([], u)"
| "mallocs (sz # szs) u = bindr (malloc sz u) (\<lambda>(a, u1). bindr (mallocs szs u1) (\<lambda>(as, u2). Inr (a # as, u2)))"

text \<open>
  Blocks from \<^verbatim>\<open>malloc\<close> are adjacent: as long as the requests fit into what is left of the heap,
  each block starts where the one before it ends, the first at the break, and no page is mapped.
\<close>

theorem malloc_adjacent:
  assumes "t_heap (cur_task (u_kernel u)) = \<lparr>bump_ptr = b, rem_size = q, end_addr = x\<rparr>"
    and "0 < unat b" "sum_list (map unat szs) < unat q" "unat b + unat q < 2 ^ 64"
  shows "\<exists>u'. mallocs szs u = Inr (map (\<lambda>i. b + of_nat (sum_list (map unat (take i szs)))) [0..<length szs], u') \<and>
           bump_ptr (t_heap (cur_task (u_kernel u'))) = b + of_nat (sum_list (map unat szs)) \<and>
           k_mem (u_kernel u') = k_mem (u_kernel u)"
  using assms
proof (induction szs arbitrary: u b q)
  case (Cons sz szs)
  have less: "unat sz < unat q" using Cons.prems(3) by simp
  have nat: "unat (b + sz) = unat b + unat sz" "unat (q - sz) = unat q - unat sz"
    using Cons.prems(4) less by (simp_all add: unat_add_lem [THEN iffD1] unat_sub_if')
  have "b + sz \<noteq> 0" using nat(1) Cons.prems(2) by (metis add_gr_0 neq0_conv unat_0)
  then have m: "malloc sz u = Inr (b, bump sz u)" using malloc_within [OF Cons.prems(1)] less by (simp add: word_less_nat_alt)
  note h = bump_heap [OF Cons.prems(1), of sz]
  have pre: "0 < unat (b + sz)" "sum_list (map unat szs) < unat (q - sz)" "unat (b + sz) + unat (q - sz) < 2 ^ 64"
    using nat less Cons.prems(2-4) by simp_all
  obtain u' where u': "mallocs szs (bump sz u) = Inr (map (\<lambda>i. b + sz + of_nat (sum_list (map unat (take i szs)))) [0..<length szs], u')"
    "bump_ptr (t_heap (cur_task (u_kernel u'))) = b + sz + of_nat (sum_list (map unat szs))"
    "k_mem (u_kernel u') = k_mem (u_kernel (bump sz u))"
    using Cons.IH [OF h(1) pre] by blast
  have "map (\<lambda>i. b + of_nat (sum_list (map unat (take i (sz # szs))))) [0..<length (sz # szs)] =
    b # map (\<lambda>i. b + sz + of_nat (sum_list (map unat (take i szs)))) [0..<length szs]"
    by (simp add: upt_conv_Cons map_Suc_upt [symmetric] add_ac del: upt_Suc)
  then show ?case using m u' h(2) by (simp add: add_ac)
qed simp

theorem malloc_adjacent_witness:
  "\<exists>u'. mallocs [64, 22, 22] \<lparr>u_junk = [], u_codes = [], u_kernel = kernel_heap 4096\<rparr> = Inr ([0x600000, 0x600040, 0x600056], u') \<and>
     bump_ptr (t_heap (cur_task (u_kernel u'))) = 0x60006C"
proof -
  let ?u = "\<lparr>u_junk = [], u_codes = [], u_kernel = kernel_heap 4096\<rparr> :: user"
  have "t_heap (cur_task (u_kernel ?u)) = \<lparr>bump_ptr = 0x600000, rem_size = 4096, end_addr = 0\<rparr>" by simp
  from malloc_adjacent [OF this, where szs = "[64, 22, 22]"] show ?thesis by auto
qed

text \<open>
  \<^verbatim>\<open>free\<close> never succeeds: the list of blocks it searches is always empty, and it dereferences a null
  pointer whatever its argument.
\<close>

theorem free_dereferences_null: "free nx p = Some (Inl Null_deref)"
  by (simp add: free_def free_loop.simps)

section \<open>Calls the kernel does not dispatch\<close>

text \<open>
  \<^verbatim>\<open>kill\<close>, \<^verbatim>\<open>alarm\<close> and \<^verbatim>\<open>dup\<close> have stubs and numbers but no case in the dispatcher: they return without any effect.
\<close>

theorem undispatched_calls:
  "kill_user pid sig u = Inr (None, u) \<and> alarm_user seconds u = Inr (None, u) \<and> dup_user oldfd u = Inr (None, u)"
  by (simp add: kill_user_def alarm_user_def dup_user_def syscall_2_def syscall_1_def int_128_def syscall_handler_def)

section \<open>Printing\<close>

lemma mem_str_next:
  assumes "mem_str ld a m = Some (Inr (c # cs))" "c \<noteq> 0"
  shows "mem_str ld (a + 1) m = Some (Inr cs)"
  using assms by (subst (asm) mem_str.simps) (auto split: sum.splits if_splits bind_splits simp: bindr_eq_Inr)

lemma read_str_next: "read_str ld a m = Inr (c # cs) \<Longrightarrow> c \<noteq> 0 \<Longrightarrow> read_str ld (a + 1) m = Inr cs"
  by (cases "mem_str ld a m") (auto simp: read_str_def dest: mem_str_next)

definition set_con :: "console \<Rightarrow> user \<Rightarrow> user" where
  "set_con c u = u\<lparr>u_kernel := (u_kernel u)\<lparr>k_tty := (k_tty (u_kernel u))\<lparr>con := c\<rparr>\<rparr>\<rparr>"

lemma set_con_simps [simp]:
  "con (k_tty (u_kernel (set_con c u))) = c" "u_junk (set_con c u) = u_junk u" "set_con c' (set_con c u) = set_con c' u"
  "cur_task (u_kernel (set_con c u)) = cur_task (u_kernel u)" "u_str a (set_con c u) = u_str a u"
  by (simp_all add: set_con_def cur_task_def u_str_def user_str_def cur_pml4_def)

lemma put_out_char:
  assumes "u_str f u = Inr (c # s @ [0])" "c \<noteq> 0" "c \<noteq> 37" "0 \<notin> set s" "2 \<le> length (u_junk u)"
    and "1 < length (t_dup_arr (cur_task (u_kernel u)))" "t_dup_arr (cur_task (u_kernel u)) ! 1 = 1"
    and "con_ok n (con (k_tty (u_kernel u)))" "n < 2 ^ 29"
  shows "\<exists>c'. put_out f 1 u = Inr (set_con c' u) \<and> abs_con c' = type_char c (abs_con (con (k_tty (u_kernel u)))) \<and> con_ok (n + 8) c'"
proof -
  obtain c' where c': "c_printf c (con (k_tty (u_kernel u))) = Inr c'"
    "abs_con c' = type_char c (abs_con (con (k_tty (u_kernel u))))" "con_ok (n + 8) c'"
    using c_printf_ok [OF assms(8,9)] by blast
  obtain a b js where js: "u_junk u = a # b # js" using assms(5) by (cases "u_junk u"; cases "tl (u_junk u)") auto
  have "strncpy (u_junk u) (c # s @ [0]) 1 = Inr (c # 0 # js)"
    using assms(2,4) by (simp add: strncpy_def strlen_spec js Let_def del: strlen.simps)
  moreover have "redirected 1 (u_kernel u) = Inr None" using assms(6,7) by (simp add: redirected_def)
  moreover have "tty_printk (c # 0 # js) [] (k_tty (u_kernel u)) = Inr (1, (k_tty (u_kernel u))\<lparr>con := c'\<rparr>)"
    using assms(2,3) c'(1) by (simp add: tty_printk_def printk_def)
  ultimately have "sys_write (u_junk u) 1 f 1 (u_kernel u) = Inr (1, (u_kernel u)\<lparr>k_tty := (k_tty (u_kernel u))\<lparr>con := c'\<rparr>\<rparr>)"
    using assms(1) by (simp add: sys_write_def u_str_def)
  then have "put_out f 1 u = Inr (set_con c' u)"
    by (simp add: put_out_def write_user_def syscall_3_def int_128_def syscall_handler_def ret_to_def set_con_def)
  with c'(2,3) show ?thesis by blast
qed

lemma printf_loop_plain:
  assumes "u_str f u = Inr (s @ [0])" "0 \<notin> set s" "37 \<notin> set s" "2 \<le> length (u_junk u)"
    and "1 < length (t_dup_arr (cur_task (u_kernel u)))" "t_dup_arr (cur_task (u_kernel u)) ! 1 = 1"
    and "con_ok n (con (k_tty (u_kernel u)))" "n + 8 * length s < 2 ^ 29"
  shows "\<exists>c'. printf_loop f (s @ [0]) tmp as printed u = Inr (printed + length s, set_con c' u) \<and>
           abs_con c' = fold type_char s (abs_con (con (k_tty (u_kernel u))))"
  using assms
proof (induction s arbitrary: f u n printed)
  case Nil
  then show ?case by (intro exI [of _ "con (k_tty (u_kernel u))"]) (simp add: set_con_def)
next
  case (Cons c s)
  obtain c1 where c1: "put_out f 1 u = Inr (set_con c1 u)" "abs_con c1 = type_char c (abs_con (con (k_tty (u_kernel u))))" "con_ok (n + 8) c1"
    using put_out_char [of f u c s n] Cons.prems by auto
  have "u_str (f + 1) u = Inr (s @ [0])"
    using Cons.prems(1,2) read_str_next [of _ f _ c "s @ [0]"] by (simp add: u_str_def user_str_def)
  then have "u_str (f + 1) (set_con c1 u) = Inr (s @ [0])" by simp
  then obtain c' where "printf_loop (f + 1) (s @ [0]) tmp as (printed + 1) (set_con c1 u) = Inr (printed + 1 + length s, set_con c' (set_con c1 u))"
    "abs_con c' = fold type_char s (abs_con c1)"
    using Cons.IH [of "f + 1" "set_con c1 u" "n + 8" "printed + 1"] Cons.prems c1(3) by auto
  then show ?case using c1 Cons.prems(2,3) by auto
qed

text \<open>
  C33. From the library to the screen: \<^verbatim>\<open>printf\<close> of a text without conversions, which makes one write call per
  character, types exactly that text on the terminal and returns its length, for a process whose
  standard output is not redirected.
\<close>

theorem printf_types_text:
  assumes "u_store tmp (replicate 15 0) u = Inr u1" "u_str f u1 = Inr (s @ [0])" "0 \<notin> set s" "37 \<notin> set s"
    and "2 \<le> length (u_junk u1)" "1 < length (t_dup_arr (cur_task (u_kernel u1)))" "t_dup_arr (cur_task (u_kernel u1)) ! 1 = 1"
    and "con_ok n (con (k_tty (u_kernel u1)))" "n + 8 * length s < 2 ^ 29"
  shows "\<exists>u2. printf f tmp as u = Inr (length s, u2) \<and> k_mem (u_kernel u2) = k_mem (u_kernel u1) \<and>
           abs_con (con (k_tty (u_kernel u2))) = fold type_char s (abs_con (con (k_tty (u_kernel u1))))"
proof -
  obtain c' where "printf_loop f (s @ [0]) tmp as 0 u1 = Inr (0 + length s, set_con c' u1)"
    "abs_con c' = fold type_char s (abs_con (con (k_tty (u_kernel u1))))"
    using printf_loop_plain [OF assms(2-9)] by blast
  then show ?thesis using assms(1,2) by (intro exI [of _ "set_con c' u1"]) (simp add: printf_def set_con_def)
qed

text \<open>Stores through the kernel's window leave the quadwords they do not touch.\<close>

lemma window_store:
  assumes "\<And>i. i < length cs \<Longrightarrow> 0xffffffff80000000 \<le> a + of_nat i \<and> quad (kphys (a + of_nat i)) \<noteq> q"
  shows "\<exists>m'. mem_store (stb p) a cs m = Inr m' \<and> qmem m' q = qmem m q"
  using assms
proof (induction cs arbitrary: a m)
  case (Cons c cs)
  have a: "0xffffffff80000000 \<le> a" "quad (kphys a) \<noteq> q" using Cons.prems [of 0] by simp_all
  then obtain m1 where "stb p a c m = Inr m1" "qmem m1 q = qmem m q" by (simp add: stb_def translate_def)
  moreover obtain m' where "mem_store (stb p) (a + 1) cs m1 = Inr m'" "qmem m' q = qmem m1 q"
    using Cons.IH [of "a + 1" m1] Cons.prems [of "Suc _"] by (auto simp: add_ac)
  ultimately show ?case by auto
qed simp

definition print_user :: user where
  "print_user = \<lparr>u_junk = [1, 2, 3], u_codes = [], u_kernel = set_cur (\<lambda>t. t\<lparr>t_dup_arr := map of_nat [0..<25]\<rparr>) (open_kernel 2)\<rparr>"

theorem printf_types_text_witness:
  "\<exists>u2. printf 0xffffffff80004000 0xffffffff80003000 [] print_user = Inr (1, u2) \<and> grid (abs_con (con (k_tty (u_kernel u2)))) 0 0 = 97"
proof -
  let ?k = "u_kernel print_user" and ?f = "0xffffffff80004000 :: u64" and ?t = "0xffffffff80003000 :: u64"
  have mem: "qmem (k_mem ?k) q = 97" for q by (simp add: print_user_def open_kernel_def)
  have up: "i \<in> {0, 1, 2, 3, 4, 5, 6, 7, 8, 9, 10, 11, 12, 13, 14}" if "i < 15" for i :: nat using that by (simp, presburger)
  have "\<forall>i \<in> {0, 1, 2, 3, 4, 5, 6, 7, 8, 9, 10, 11, 12, 13, 14}. 0xffffffff80000000 \<le> ?t + of_nat i \<and> quad (kphys (?t + of_nat i)) \<noteq> 0x4000"
    by (simp add: kphys_def quad_def)
  then have "0xffffffff80000000 \<le> ?t + of_nat i \<and> quad (kphys (?t + of_nat i)) \<noteq> 0x4000" if "i < length (replicate 15 (0 :: u8))" for i
    using that up [of i] unfolding length_replicate by blast
  from window_store [where cs = "replicate 15 0", OF this, where p = "cur_pml4 ?k" and m = "k_mem ?k"] obtain m
    where m: "mem_store (stb (cur_pml4 ?k)) ?t (replicate 15 0) (k_mem ?k) = Inr m" "qmem m 0x4000 = 97"
    by (auto simp: mem)
  let ?u = "print_user\<lparr>u_kernel := set_mem m ?k\<rparr>"
  have b: "ldb p ?f m = Inr 97" "ldb p (?f + 1) m = Inr 0" for p
    using m(2) by (simp_all add: ldb_def translate_def kphys_def quad_def get_byte_def lane_def drop_bit_eq_div)
  have "mem_str (ldb p) (?f + 1) m = Some (Inr [0])" for p
    by (subst mem_str.simps) (simp only: b sum.case if_True simp_thms)
  then have "mem_str (ldb p) ?f m = Some (Inr ([97] @ [0]))" for p
    by (subst mem_str.simps) (simp only: b, simp)
  then have s: "u_str ?f ?u = Inr ([97] @ [0])" by (simp add: u_str_def user_str_def read_str_def)
  have st: "u_store ?t (replicate 15 0) print_user = Inr ?u"
    using m(1) by (simp add: u_store_def user_store_def)
  have tty: "k_tty (u_kernel ?u) = tty0" by (simp add: print_user_def open_kernel_def set_mem_def kernel_empty_def kernel_shared_def)
  then have ok: "con_ok 80 (con (k_tty (u_kernel ?u)))" using blank_screen by (simp add: tty0_def)
  have "t_dup_arr (cur_task (u_kernel ?u)) = map of_nat [0..<25]" by (simp add: print_user_def)
  then have d: "1 < length (t_dup_arr (cur_task (u_kernel ?u)))" "t_dup_arr (cur_task (u_kernel ?u)) ! 1 = 1" by simp_all
  have j: "2 \<le> length (u_junk ?u)" by (simp add: print_user_def)
  obtain u2 where u2: "printf ?f ?t [] print_user = Inr (length [97 :: u8], u2)"
    "abs_con (con (k_tty (u_kernel u2))) = fold type_char [97] (abs_con (con (k_tty (u_kernel ?u))))"
    using printf_types_text [OF st s _ _ j d ok, where as = "[]"] by auto
  then have "grid (abs_con (con (k_tty (u_kernel u2)))) 0 0 = 97"
    unfolding tty by (simp add: type_char_def show_char_def console_init_def abs_con_def tty0_def)
  with u2(1) show ?thesis by auto
qed

end
