(* ===== verification/Shell.thy ===== *)
theory Shell
  imports CString
begin

text \<open>
  The shell, \<^verbatim>\<open>bin/sbush/sbush.c\<close>: splitting a line into commands and words, the environment
  variables, the prompt, the search path and the choice of what a command does.  Strings are
  buffers with their terminator; a block from \<^verbatim>\<open>malloc\<close> is a buffer of its size, and writing beyond
  it is out of bounds.  \<open>junk\<close> arguments are the contents of uninitialised local arrays.
\<close>

abbreviation (input) maxArgs :: nat where "maxArgs \<equiv> 8"
abbreviation (input) charSize :: nat where "charSize \<equiv> 22"
abbreviation (input) fileSize :: nat where "fileSize \<equiv> 128"
abbreviation (input) maxSize :: nat where "maxSize \<equiv> 256"

abbreviation (input) c_space :: u8 where "c_space \<equiv> 32"
abbreviation (input) c_tab :: u8 where "c_tab \<equiv> 9"
abbreviation (input) c_nl :: u8 where "c_nl \<equiv> 10"
abbreviation (input) c_bar :: u8 where "c_bar \<equiv> 124"
abbreviation (input) c_colon :: u8 where "c_colon \<equiv> 58"
abbreviation (input) c_slash :: u8 where "c_slash \<equiv> 47"
abbreviation (input) c_dollar :: u8 where "c_dollar \<equiv> 36"
abbreviation (input) c_backslash :: u8 where "c_backslash \<equiv> 92"
abbreviation (input) c_tilde :: u8 where "c_tilde \<equiv> 126"
abbreviation (input) c_eof :: u8 where "c_eof \<equiv> 255"

definition lit :: "string \<Rightarrow> u8 list" where
  "lit s = map of_char s @ [0]"

section \<open>Splitting a line\<close>

text \<open>\<^verbatim>\<open>while(str[i+1] == ' ' || str[i+1] == '\t') i++;\<close>\<close>

function skip_blanks :: "u8 list \<Rightarrow> nat \<Rightarrow> nat res" where
  "skip_blanks str i =
     (if i + 1 < length str then
        if str ! (i + 1) = c_space \<or> str ! (i + 1) = c_tab then skip_blanks str (i + 1) else Inr i
      else Inl Out_of_bounds)"
  by pat_completeness auto
termination
  by (relation "measure (\<lambda>(str, i). length str - i)") auto

declare skip_blanks.simps [simp del]

lemma skip_blanks_le: "skip_blanks str i = Inr n \<Longrightarrow> i \<le> n"
proof (induction str i rule: skip_blanks.induct)
  case (1 str i)
  then show ?case by (subst (asm) (2) skip_blanks.simps) (fastforce split: if_splits)
qed

text \<open>\<^verbatim>\<open>argv[k][j] = c\<close>, and a new cleared block for \<^verbatim>\<open>argv[k]\<close>; the array has \<^verbatim>\<open>maxArgs\<close> elements.\<close>

definition put_arg :: "nat \<Rightarrow> nat \<Rightarrow> u8 \<Rightarrow> u8 list list \<Rightarrow> u8 list list res" where
  "put_arg k j c argv = bindr (rd argv k) (\<lambda>b. bindr (wr b j c) (\<lambda>b'. Inr (argv[k := b'])))"

definition new_arg :: "nat \<Rightarrow> u8 list list \<Rightarrow> u8 list list res" where
  "new_arg k argv = (if k < maxArgs then Inr (argv @ [replicate charSize 0]) else Inl Out_of_bounds)"

text \<open>The end of a word: the terminator, after a line end when splitting at bars.\<close>

definition end_arg :: "u8 \<Rightarrow> nat \<Rightarrow> nat \<Rightarrow> u8 list list \<Rightarrow> u8 list list res" where
  "end_arg delimiter k j argv =
     (if delimiter = c_bar \<and> j \<noteq> 0 then bindr (put_arg k j c_nl argv) (put_arg k (j + 1) 0)
      else put_arg k j 0 argv)"

function parse_loop :: "u8 list \<Rightarrow> u8 \<Rightarrow> nat \<Rightarrow> nat \<Rightarrow> nat \<Rightarrow> nat \<Rightarrow> u8 list list \<Rightarrow> (nat \<times> u8 list list) res" where
  "parse_loop str delimiter len i k j argv =
     (if i < len then
        case (if str ! i = c_space \<and> i = 0 then skip_blanks str i else Inr i) of
          Inl e \<Rightarrow> Inl e
        | Inr i1 \<Rightarrow>
            (case rd str i1 of
               Inl e \<Rightarrow> Inl e
             | Inr c \<Rightarrow>
                 if c \<noteq> delimiter \<and> c \<noteq> c_nl then
                   bindr (put_arg k j c argv) (parse_loop str delimiter len (i1 + 1) k (j + 1))
                 else
                   bindr (end_arg delimiter k j argv) (\<lambda>argv1.
                     case skip_blanks str i1 of
                       Inl e \<Rightarrow> Inl e
                     | Inr i2 \<Rightarrow> bindr (new_arg (k + 1) argv1) (parse_loop str delimiter len (i2 + 1) (k + 1) 0)))
      else Inr (k, argv))"
  by pat_completeness auto
termination
  by (relation "measure (\<lambda>(str, d, len, i, k, j, a). len - i)") (auto dest!: skip_blanks_le split: if_splits)

declare parse_loop.simps [simp del]

text \<open>The result is the list of words before the null pointer.\<close>

definition parseCmd :: "u8 list \<Rightarrow> u8 \<Rightarrow> u8 list list res" where
  "parseCmd str delimiter =
     bindr (strlen str) (\<lambda>len.
       bindr (parse_loop str delimiter len 0 0 0 [replicate charSize 0]) (\<lambda>(k, argv). Inr (take k argv)))"

section \<open>The environment\<close>

record vars =
  v_home :: "u8 list"
  v_path :: "u8 list"
  v_user :: "u8 list"
  v_hostname :: "u8 list"

text \<open>One variable: the characters after the name are copied; a terminator is not.\<close>

definition env_var :: "u8 list \<Rightarrow> u8 list \<Rightarrow> u8 list \<Rightarrow> u8 list res" where
  "env_var name e dest =
     bindr (strlen name) (\<lambda>len.
       bindr (strncmp e name (int len)) (\<lambda>r.
         if r = 0 then
           bindr (strcpy (replicate maxSize 0) e) (\<lambda>temp. bindr (strlen temp) (\<lambda>n. copy_loop (n - len) 0 dest len temp))
         else Inr dest))"

fun parsePATH :: "u8 list list \<Rightarrow> vars \<Rightarrow> vars res" where
  "parsePATH [] v = Inr v"
| "parsePATH (e # envp) v =
     bindr (env_var (lit ''HOME='') e (v_home v)) (\<lambda>home.
       bindr (env_var (lit ''USER='') e (v_user v)) (\<lambda>user.
         bindr (env_var (lit ''PATH='') e (v_path v)) (\<lambda>path.
           bindr (env_var (lit ''HOSTNAME='') e (v_hostname v)) (\<lambda>host.
             parsePATH envp \<lparr>v_home = home, v_path = path, v_user = user, v_hostname = host\<rparr>))))"

text \<open>
  The new value of the variable \<^verbatim>\<open>PATH\<close>: a dollar sign and the five characters after it stand for the old
  value.  \<open>p\<close> is the position in \<^verbatim>\<open>temp\<close>, which is not reset between variables.
\<close>

function path_loop :: "u8 list \<Rightarrow> nat \<Rightarrow> u8 list \<Rightarrow> nat \<Rightarrow> nat \<Rightarrow> nat \<Rightarrow> u8 list \<Rightarrow> (nat \<times> u8 list) res" where
  "path_loop new_path len path lpath i p temp =
     (if i < len then
        bindr (rd new_path i) (\<lambda>c.
          if c = c_dollar then
            bindr (copy_loop lpath p temp 0 path) (\<lambda>temp1.
              bindr (rd new_path (i + 5)) (\<lambda>d. bindr (wr temp1 (p + lpath) d) (path_loop new_path len path lpath (i + 5 + 1) (p + lpath + 1))))
          else bindr (wr temp p c) (path_loop new_path len path lpath (i + 1) (p + 1)))
      else Inr (p, temp))"
  by pat_completeness auto
termination
  by (relation "measure (\<lambda>(np, len, path, lp, i, p, t). len - i)") auto

declare path_loop.simps [simp del]

fun set_loop :: "u8 list \<Rightarrow> nat \<Rightarrow> u8 list \<Rightarrow> nat \<Rightarrow> nat \<Rightarrow> u8 list \<Rightarrow> u8 list list \<Rightarrow> u8 list list res" where
  "set_loop new_path len path lpath p temp [] = Inr []"
| "set_loop new_path len path lpath p temp (e # envp) =
     bindr (strncmp e (lit ''PATH='') 5) (\<lambda>r.
       if r = 0 then
         bindr (path_loop new_path len path lpath 0 p temp) (\<lambda>(p', temp1).
           bindr (wr temp1 p' 0) (\<lambda>temp2. bindr (strcpy e temp2) (\<lambda>e'.
             bindr (set_loop new_path len path lpath p' temp2 envp) (\<lambda>es. Inr (e' # es)))))
       else bindr (set_loop new_path len path lpath p temp envp) (\<lambda>es. Inr (e # es)))"

definition setPATH :: "vars \<Rightarrow> u8 list \<Rightarrow> u8 list list \<Rightarrow> u8 list list res" where
  "setPATH junk new_path envp =
     bindr (parsePATH envp junk) (\<lambda>v.
       bindr (strcpy (replicate maxSize 0) (lit ''PATH='')) (\<lambda>temp.
         bindr (strlen new_path) (\<lambda>len_path. bindr (strlen (v_path v)) (\<lambda>lpath.
           set_loop new_path len_path (v_path v) lpath 5 temp envp))))"

section \<open>The prompt\<close>

text \<open>After a backslash the next of the letters h, u, w, wherever it comes, is replaced.\<close>

fun ps1_loop :: "u8 list \<Rightarrow> u8 list \<Rightarrow> vars \<Rightarrow> bool \<Rightarrow> nat \<Rightarrow> u8 list \<Rightarrow> u8 list res" where
  "ps1_loop [] cwd v esc j out = Inl Out_of_bounds"
| "ps1_loop (c # ps) cwd v esc j out =
     (if c = 0 then Inr out
      else if c = c_backslash then ps1_loop ps cwd v True j out
      else if (c = 104 \<or> c = 117 \<or> c = 119) \<and> esc then
        let t = (if c = 104 then v_hostname v else if c = 117 then v_user v else cwd)
        in bindr (strcat out t) (\<lambda>out'. bindr (strlen t) (\<lambda>n. ps1_loop ps cwd v False (j + n) out'))
      else bindr (wr out j c) (ps1_loop ps cwd v esc (j + 1)))"

text \<open>\<open>cwd\<close> is the buffer \<^verbatim>\<open>getcwd\<close> filled.\<close>

definition setPS1 :: "vars \<Rightarrow> u8 list \<Rightarrow> u8 list \<Rightarrow> u8 list list \<Rightarrow> u8 list res" where
  "setPS1 junk cwd new_ps envp =
     bindr (parsePATH envp junk) (\<lambda>v. ps1_loop new_ps cwd v False 0 (replicate fileSize 0))"

section \<open>The search path\<close>

text \<open>One directory of the path, from position \<open>i\<close> on, and the command's name behind it.\<close>

fun dir_chars :: "u8 list \<Rightarrow> u8 list" where
  "dir_chars [] = []"
| "dir_chars (c # cs) = (if c = 0 \<or> c = c_colon then [] else c # dir_chars cs)"

fun name_chars :: "u8 list \<Rightarrow> u8 list" where
  "name_chars [] = []"
| "name_chars (c # cs) = (if c = 0 \<or> c = c_nl \<or> c = c_eof then [] else c # name_chars cs)"

text \<open>\<^verbatim>\<open>singlePath\<close> has 256 cleared bytes; an empty directory makes the code read the byte before it.\<close>

definition candidate :: "u8 list \<Rightarrow> u8 list \<Rightarrow> u8 list res" where
  "candidate dir bin_name =
     (if dir = [] then Inl Out_of_bounds
      else
        let full = (if last dir \<noteq> c_slash then dir @ [c_slash] else dir) @ name_chars bin_name
        in if length full \<le> 256 then Inr (full @ replicate (256 - length full) 0) else Inl Out_of_bounds)"

section \<open>Commands\<close>

text \<open>\<^verbatim>\<open>changeDir\<close>: the directory passed to \<^verbatim>\<open>chdir\<close>; a null argument means home.\<close>

definition changeDir_target :: "u8 list option \<Rightarrow> u8 list \<Rightarrow> u8 list \<Rightarrow> u8 list res" where
  "changeDir_target dirPath home last_path =
     (case dirPath of
        None \<Rightarrow> Inr home
      | Some d \<Rightarrow>
          bindr (strcmp d (lit ''~'')) (\<lambda>a. bindr (strcmp d (lit '''')) (\<lambda>b. bindr (strcmp d (lit ''-'')) (\<lambda>m.
            if a = 0 \<or> b = 0 then strcpy d home
            else if m = 0 then strcpy d last_path
            else bindr (rd d 0) (\<lambda>c.
              if c = c_tilde then
                bindr (strcpy (replicate 200 0) home) (\<lambda>buf. bindr (strlen buf) (\<lambda>len1. bindr (strlen d) (\<lambda>len2.
                  bindr (copy_loop (len2 - 1) len1 buf 1 d) (\<lambda>buf1.
                    bindr (wr buf1 (len1 + (len2 - 1)) 0) (strcpy d)))))
              else Inr d)))))"

datatype action =
    Nothing
  | Change_dir "u8 list option"
  | Exit_shell
  | Set_insufficient
  | Set_too_many
  | Set_prompt "u8 list"
  | Set_path "u8 list"
  | Run_script "u8 list option"
  | Echo "u8 list option"
  | Kill_pid int
  | Run_binary "u8 list"

text \<open>\<^verbatim>\<open>cmd[n]\<close>: \<open>None\<close> is the null pointer after the words and in the rest of the array.\<close>

definition arg_at :: "u8 list list \<Rightarrow> nat \<Rightarrow> u8 list option" where
  "arg_at cmd n = (if n < length cmd then Some (cmd ! n) else None)"

definition deref :: "u8 list option \<Rightarrow> u8 list res" where
  "deref p = (case p of None \<Rightarrow> Inl Null_deref | Some s \<Rightarrow> Inr s)"

definition streq :: "u8 list \<Rightarrow> string \<Rightarrow> bool res" where
  "streq s t = bindr (strcmp s (lit t)) (\<lambda>r. Inr (r = 0))"

definition set_action :: "u8 list list \<Rightarrow> action res" where
  "set_action cmd =
     (case (arg_at cmd 1, arg_at cmd 2, arg_at cmd 3) of
        (Some a, Some b, None) \<Rightarrow>
          bindr (strncmp a (lit ''PS1'') 3) (\<lambda>p.
            if p = 0 then Inr (Set_prompt b)
            else bindr (strncmp a (lit ''PATH'') 4) (\<lambda>q. Inr (if q = 0 then Set_path b else Nothing)))
      | (Some a, Some b, Some c) \<Rightarrow> Inr Set_too_many
      | _ \<Rightarrow> Inr Set_insufficient)"

text \<open>\<^verbatim>\<open>execCmd\<close>: what the command does.  For the name \<^verbatim>\<open>kill\<close> the next word is read without a test.\<close>

definition execCmd_action :: "u8 list list \<Rightarrow> action res" where
  "execCmd_action cmd =
     bindr (deref (arg_at cmd 0)) (\<lambda>input.
       bindr (streq input '' '') (\<lambda>blank. bindr (strlen input) (\<lambda>n.
         if blank \<or> n = 0 then Inr Nothing
         else
           bindr (streq input ''cd'') (\<lambda>b. if b then Inr (Change_dir (arg_at cmd 1))
           else bindr (streq input ''exit'') (\<lambda>b. if b then Inr Exit_shell
           else bindr (streq input ''set'') (\<lambda>b. if b then set_action cmd
           else bindr (streq input ''sbh'') (\<lambda>b. if b then Inr (Run_script (arg_at cmd 1))
           else bindr (streq input ''echo'') (\<lambda>b. if b then Inr (Echo (arg_at cmd 1))
           else bindr (streq input ''kill'') (\<lambda>b.
             bindr (if b then bindr (deref (arg_at cmd 1)) (\<lambda>a. streq a ''-9'') else Inr False) (\<lambda>k9.
               if k9 then bindr (deref (arg_at cmd 2)) (\<lambda>a. bindr (atoi a) (\<lambda>pid. Inr (Kill_pid pid)))
               else Inr (Run_binary input)))))))))))"

text \<open>
  \<^verbatim>\<open>execLine\<close>: an empty line does nothing; one command is executed; of several, each is a stage of a pipeline with its
  index and the number of stages, or a complaint (\<open>None\<close>) when it is empty.
\<close>

datatype line = Empty_line | Command "u8 list list" | Pipeline "(u8 list \<times> nat \<times> nat) option list"

fun stages :: "nat \<Rightarrow> nat \<Rightarrow> u8 list list \<Rightarrow> (u8 list \<times> nat \<times> nat) option list res" where
  "stages i cnt [] = Inr []"
| "stages i cnt (c # cs) =
     bindr (streq c [CHR 0x0A]) (\<lambda>a. bindr (streq c '''') (\<lambda>b. bindr (stages (i + 1) cnt cs) (\<lambda>ss.
       Inr ((if a \<or> b then None else Some (c, i, cnt)) # ss))))"

definition execLine :: "u8 list \<Rightarrow> line res" where
  "execLine input =
     bindr (streq input [CHR 0x0A]) (\<lambda>a. bindr (streq input '''') (\<lambda>b.
       if a \<or> b then Inr Empty_line
       else bindr (parseCmd input c_bar) (\<lambda>cmdList.
         if length cmdList \<le> 1 \<and> cmdList \<noteq> [] then
           bindr (streq (cmdList ! 0) '''') (\<lambda>e.
             if e then Inr Empty_line else bindr (parseCmd (cmdList ! 0) c_space) (\<lambda>cmd. Inr (Command cmd)))
         else bindr (stages 0 (length cmdList) cmdList) (\<lambda>ss. Inr (Pipeline ss)))))"

end
