(* ===== verification/Shell_Run.thy ===== *)
theory Shell_Run
  imports Shell
begin

text \<open>
  The shell at work: \<^verbatim>\<open>changeDir\<close>, \<^verbatim>\<open>execBin\<close>, \<^verbatim>\<open>execShell\<close>, \<^verbatim>\<open>execCmd\<close>, \<^verbatim>\<open>execute_pipe_cmd\<close>, \<^verbatim>\<open>execLine\<close> and the loop of
  \<^verbatim>\<open>main\<close>, as a process that makes system calls and goes on with the kernel's replies.  The
  replies are a list, and the calls are recorded; where no reply is left the process waits, which
  is also what becomes of a process whose \<^verbatim>\<open>execve\<close> succeeds.  The kernel does not look at the
  arguments and the environment that \<^verbatim>\<open>execve\<close> passes, and they are left out.
\<close>

section \<open>Calls and replies\<close>

datatype call =
    Fork
  | Execve "u8 list"
  | Waitpid int
  | Pipe
  | Dup2 int int
  | Getcwd
  | Chdir "u8 list"
  | Kill int int
  | Open "u8 list"
  | Read int
  | Scan
  | Print "u8 list"
  | Exit int

text \<open>What a call brings back: its result, and the buffer, the byte or the descriptors it fills in.\<close>

record reply =
  r_val :: int
  r_buf :: "u8 list"
  r_byte :: u8
  r_fds :: "int \<times> int"

record world =
  w_replies :: "reply list"
  w_trace :: "call list"

datatype stop = Exited int | Waiting | Fault ub | No_fuel

type_synonym 'a sh = "world \<Rightarrow> (stop + 'a) \<times> world"

definition sret :: "'a \<Rightarrow> 'a sh" where
  "sret x w = (Inr x, w)"

definition sbind :: "'a sh \<Rightarrow> ('a \<Rightarrow> 'b sh) \<Rightarrow> 'b sh" where
  "sbind m f w = (case m w of (Inl s, w') \<Rightarrow> (Inl s, w') | (Inr x, w') \<Rightarrow> f x w')"

definition lift :: "'a res \<Rightarrow> 'a sh" where
  "lift r w = (case r of Inl e \<Rightarrow> (Inl (Fault e), w) | Inr x \<Rightarrow> (Inr x, w))"

definition note_call :: "call \<Rightarrow> world \<Rightarrow> world" where
  "note_call c w = w\<lparr>w_trace := w_trace w @ [c]\<rparr>"

definition do_call :: "call \<Rightarrow> reply sh" where
  "do_call c w =
     (case w_replies w of
        [] \<Rightarrow> (Inl Waiting, note_call c w)
      | r # rs \<Rightarrow> (Inr r, note_call c (w\<lparr>w_replies := rs\<rparr>)))"

definition print :: "u8 list \<Rightarrow> unit sh" where
  "print t w = (Inr (), note_call (Print t) w)"

definition exit_sh :: "int \<Rightarrow> 'a sh" where
  "exit_sh n w = (Inl (Exited n), note_call (Exit n) w)"

definition out_of_fuel :: "'a sh" where
  "out_of_fuel w = (Inl No_fuel, w)"

text \<open>The characters of a string that a call reads from the buffer.\<close>

definition c_chars :: "u8 list \<Rightarrow> u8 list res" where
  "c_chars s = bindr (strlen s) (\<lambda>n. Inr (take n s))"

definition chars :: "string \<Rightarrow> u8 list" where
  "chars s = map of_char s"

section \<open>The state of the shell\<close>

record shell =
  s_ps1 :: "u8 list"
  s_last_path :: "u8 list"
  s_envp :: "u8 list list"
  s_pfd :: "int \<times> int"

text \<open>\<^verbatim>\<open>changeDir\<close>: \<^verbatim>\<open>last_path\<close> is read before \<^verbatim>\<open>getcwd\<close> overwrites it.\<close>

definition changeDir :: "u8 list option \<Rightarrow> u8 list \<Rightarrow> shell \<Rightarrow> shell sh" where
  "changeDir dirPath home st =
     sbind (lift (changeDir_target dirPath home (s_last_path st))) (\<lambda>d.
       sbind (do_call Getcwd) (\<lambda>cwd.
         sbind (lift (c_chars d)) (\<lambda>dir.
           sbind (do_call (Chdir dir)) (\<lambda>r.
             sbind (if dirPath \<noteq> None \<and> r_val r \<noteq> 0 then print (dir @ chars ('': No such directory.'' @ [CHR 0x0A])) else sret ())
               (\<lambda>_. sret (st\<lparr>s_last_path := r_buf cwd\<rparr>))))))"

section \<open>Running a program\<close>

text \<open>
  The loop over the directories of the path, from position \<open>i\<close> on: what follows a successful call, which
  does not return, is left to \<open>found\<close>, and what follows the loop to \<open>none\<close>.
\<close>

function search_loop :: "'a sh \<Rightarrow> 'a sh \<Rightarrow> u8 list \<Rightarrow> nat \<Rightarrow> u8 list \<Rightarrow> nat \<Rightarrow> 'a sh" where
  "search_loop found none cmd_path len bin_name i =
     (let dir = dir_chars (drop i cmd_path); i' = i + length dir + 1
      in sbind (lift (bindr (candidate dir bin_name) c_chars)) (\<lambda>s.
           sbind (do_call (Execve s)) (\<lambda>r.
             if r_val r = 0 then found
             else if i' < len \<and> cmd_path ! i' \<noteq> c_nl \<and> cmd_path ! i' \<noteq> c_eof then search_loop found none cmd_path len bin_name i'
             else none)))"
  by pat_completeness auto
termination
  by (relation "measure (\<lambda>(f, n, cp, len, bn, i). len - i)") auto

declare search_loop.simps [simp del]

definition execBin :: "u8 list \<Rightarrow> u8 list \<Rightarrow> u8 list \<Rightarrow> u8 list \<Rightarrow> u8 list option \<Rightarrow> unit sh" where
  "execBin junk1 junk2 binary path cmd1 =
     sbind (lift (strcpy junk1 binary)) (\<lambda>bin_name. sbind (lift (strcpy junk2 path)) (\<lambda>cmd_path.
       sbind (do_call Fork) (\<lambda>childPID.
         if r_val childPID = 0 then
           sbind (lift (c_chars bin_name)) (\<lambda>name.
             sbind (do_call (Execve name)) (\<lambda>_.
               sbind (lift (strlen cmd_path)) (\<lambda>len.
                 search_loop (exit_sh 1)
                   (sbind (print (name @ chars ('': command not found.'' @ [CHR 0x0A]))) (\<lambda>_. exit_sh 0)) cmd_path len bin_name 0)))
         else
           sbind (lift (case cmd1 of None \<Rightarrow> Inr False | Some c \<Rightarrow> streq c ''&'')) (\<lambda>bg.
             if bg then sret () else sbind (do_call (Waitpid (r_val childPID))) (\<lambda>_. sret ())))))"

section \<open>Uninitialised arrays\<close>

text \<open>
  What the local arrays of \<^verbatim>\<open>execCmd\<close>, \<^verbatim>\<open>setPATH\<close>, \<^verbatim>\<open>execBin\<close> and \<^verbatim>\<open>execute_pipe_cmd\<close> hold before they are written.  It is a
  function of the moment, counted in system calls.
\<close>

record locals =
  j_vars :: vars
  j_set :: vars
  j_name :: "u8 list"
  j_path :: "u8 list"

type_synonym junk = "nat \<Rightarrow> locals"

definition fresh :: "junk \<Rightarrow> locals sh" where
  "fresh j w = (Inr (j (length (w_trace w))), w)"

section \<open>Pipelines\<close>

fun dups :: "(int \<times> int) list \<Rightarrow> unit sh" where
  "dups [] = sret ()"
| "dups ((a, b) # ds) = sbind (do_call (Dup2 a b)) (\<lambda>_. dups ds)"

text \<open>The descriptors a stage of a pipeline redirects: pairs of arguments of \<^verbatim>\<open>dup2\<close>.\<close>

definition stage_dups :: "nat \<Rightarrow> nat \<Rightarrow> int \<Rightarrow> int \<Rightarrow> (int \<times> int) list" where
  "stage_dups i cnt fd1 fd2 =
     (if i = 0 then [(1, fd2)]
      else if i = cnt - 1 then [(0, fd1), (fd2, 1)]
      else [(0, fd1), (1, fd2)])"

text \<open>One stage of a pipeline; the first one makes the pipe, and each is waited for before the next.\<close>

definition execute_pipe_cmd :: "junk \<Rightarrow> u8 list \<Rightarrow> nat \<Rightarrow> nat \<Rightarrow> shell \<Rightarrow> shell sh" where
  "execute_pipe_cmd j cmd_list i cnt st =
     sbind (fresh j) (\<lambda>loc. sbind (lift (parseCmd cmd_list c_space)) (\<lambda>cmd.
       sbind (lift (deref (arg_at cmd 0))) (\<lambda>cmd0.
         sbind (lift (strcpy (j_name loc) cmd0)) (\<lambda>cmd_chld.
           sbind (lift (parsePATH (s_envp st) (j_vars loc))) (\<lambda>v.
             sbind (lift (streq cmd0 '' '')) (\<lambda>blank. sbind (lift (strlen cmd0)) (\<lambda>n.
               if blank \<or> n = 0 then sret st
               else
                 sbind (if i = 0 then sbind (do_call Pipe) (\<lambda>r. sret (st\<lparr>s_pfd := r_fds r\<rparr>)) else sret st) (\<lambda>st1.
                   sbind (do_call Fork) (\<lambda>childpid.
                     if r_val childpid = 0 then
                       sbind (dups (stage_dups i cnt (fst (s_pfd st1)) (snd (s_pfd st1)))) (\<lambda>_.
                         sbind (lift (strlen (v_path v))) (\<lambda>len.
                           search_loop (exit_sh 0) (exit_sh 0) (v_path v) len cmd_chld 0))
                     else sbind (do_call (Waitpid (r_val childpid))) (\<lambda>_. sret st1))))))))))"

fun run_stages :: "junk \<Rightarrow> (u8 list \<times> nat \<times> nat) option list \<Rightarrow> shell \<Rightarrow> shell sh" where
  "run_stages j [] st = sret st"
| "run_stages j (None # ss) st =
     sbind (print (chars (''Invalid null command.'' @ [CHR 0x0A]))) (\<lambda>_. run_stages j ss st)"
| "run_stages j (Some (c, i, cnt) # ss) st = sbind (execute_pipe_cmd j c i cnt st) (run_stages j ss)"

section \<open>Commands, lines and scripts\<close>

text \<open>\<^verbatim>\<open>echo\<close> prints the word character by character.\<close>

fun echo_chars :: "u8 list \<Rightarrow> unit sh" where
  "echo_chars [] = sret ()"
| "echo_chars (c # cs) = sbind (print [c]) (\<lambda>_. echo_chars cs)"

text \<open>
  The beginning of \<^verbatim>\<open>execShell\<close>: the descriptor of the script, unless there is none.  For the name that is one blank nothing is opened, and the
  descriptor is the initial value.
\<close>

definition open_script :: "u8 list option \<Rightarrow> int option sh" where
  "open_script f =
     sbind (lift (deref f)) (\<lambda>file_name. sbind (lift (c_chars file_name)) (\<lambda>name.
       sbind (if name \<noteq> chars '' '' then sbind (do_call (Open name)) (\<lambda>r. sret (r_val r)) else sret (-1)) (\<lambda>fd.
         if fd = 0 then
           sbind (print (chars ''sbush: '' @ name @ chars ('': No such file or directory'' @ [CHR 0x0A]))) (\<lambda>_. sret None)
         else sret (Some fd))))"

text \<open>
  A script may run scripts.  \<open>fuel\<close> bounds the bytes of scripts that are read, each of which takes a
  reply of the kernel: as much fuel as there are replies is enough.
\<close>

function (sequential) run_cmd :: "junk \<Rightarrow> nat \<Rightarrow> u8 list list \<Rightarrow> shell \<Rightarrow> shell sh"
  and run_line :: "junk \<Rightarrow> nat \<Rightarrow> u8 list \<Rightarrow> shell \<Rightarrow> shell sh"
  and read_script :: "junk \<Rightarrow> nat \<Rightarrow> int \<Rightarrow> u8 list \<Rightarrow> nat \<Rightarrow> shell \<Rightarrow> shell sh" where
  "run_cmd j fuel cmd st =
     sbind (fresh j) (\<lambda>loc. sbind (lift (parsePATH (s_envp st) (j_vars loc))) (\<lambda>v.
       sbind (lift (execCmd_action cmd)) (\<lambda>act.
         case act of
           Nothing \<Rightarrow> sret st
         | Change_dir d \<Rightarrow> changeDir d (v_home v) st
         | Exit_shell \<Rightarrow> exit_sh 0
         | Set_insufficient \<Rightarrow> sbind (print (chars (''set: Insufficient arguments.'' @ [CHR 0x0A]))) (\<lambda>_. sret st)
         | Set_too_many \<Rightarrow> sbind (print (chars (''set: Too many arguments.'' @ [CHR 0x0A]))) (\<lambda>_. sret st)
         | Set_prompt p \<Rightarrow> sbind (lift (strcpy (s_ps1 st) p)) (\<lambda>ps1. sret (st\<lparr>s_ps1 := ps1\<rparr>))
         | Set_path p \<Rightarrow> sbind (lift (setPATH (j_set loc) p (s_envp st))) (\<lambda>envp. sret (st\<lparr>s_envp := envp\<rparr>))
         | Echo w \<Rightarrow>
             (case w of None \<Rightarrow> sret st
              | Some s \<Rightarrow> sbind (lift (c_chars s)) (\<lambda>cs. sbind (echo_chars cs) (\<lambda>_. sret st)))
         | Kill_pid pid \<Rightarrow> sbind (do_call (Kill pid 9)) (\<lambda>_. sret st)
         | Run_binary b \<Rightarrow> sbind (execBin (j_name loc) (j_path loc) b (v_path v) (arg_at cmd 1)) (\<lambda>_. sret st)
         | Run_script f \<Rightarrow>
             sbind (open_script f) (\<lambda>fd.
               case fd of None \<Rightarrow> sret st | Some fd' \<Rightarrow> read_script j fuel fd' (replicate 200 0) 0 st))))"
| "run_line j fuel input st =
     sbind (lift (execLine input)) (\<lambda>l.
       case l of
         Empty_line \<Rightarrow> sret st
       | Command cmd \<Rightarrow> run_cmd j fuel cmd st
       | Pipeline ss \<Rightarrow> run_stages j ss st)"
| "read_script j fuel fd buffer n st =
     sbind (do_call (Read fd)) (\<lambda>r.
       if r_val r = 0 then sret st
       else
         sbind (lift (wr buffer n (r_byte r))) (\<lambda>b1.
           case fuel of 0 \<Rightarrow> out_of_fuel
           | Suc fuel' \<Rightarrow>
               if r_byte r = c_nl then
                 sbind (lift (wr b1 (n + 1) 0)) (\<lambda>b2. sbind (lift (streq b2 ''#!'')) (\<lambda>e.
                   sbind (if e then sret st else run_line j fuel' b2 st) (read_script j fuel' fd (replicate 200 0) 0)))
               else read_script j fuel' fd b1 (n + 1) st))"
  by pat_completeness auto
termination
  by (relation "measure (\<lambda>x. case x of Inl (j, f, c, s) \<Rightarrow> 3 * f + 1 | Inr (Inl (j, f, i, s)) \<Rightarrow> 3 * f + 2 | Inr (Inr (j, f, x)) \<Rightarrow> 3 * f)") auto

declare run_cmd.simps [simp del] run_line.simps [simp del] read_script.simps [simp del]

section \<open>\<^verbatim>\<open>main\<close>\<close>

text \<open>
  One round of the loop of \<^verbatim>\<open>main\<close>.  \<open>input\<close> is the memory from the array of 176 bytes on, since \<^verbatim>\<open>memset\<close>
  clears one byte more, and \<^verbatim>\<open>scanf\<close> copies the line it reads, \<open>r_buf\<close>, without a bound.
\<close>

definition main_round :: "junk \<Rightarrow> nat \<Rightarrow> u8 list \<Rightarrow> shell \<Rightarrow> shell sh" where
  "main_round j fuel input st =
     sbind (do_call Getcwd) (\<lambda>cwd.
       sbind (fresh j) (\<lambda>loc. sbind (lift (setPS1 (j_vars loc) (r_buf cwd) (s_ps1 st) (s_envp st))) (\<lambda>sh_target.
         sbind (lift (c_chars sh_target)) (\<lambda>ps.
           sbind (print (chars ''['' @ ps @ chars '']$ '')) (\<lambda>_.
             sbind (lift (memset input 0 177)) (\<lambda>input1.
               sbind (do_call Scan) (\<lambda>l.
                 sbind (lift (strcpy input1 (r_buf l))) (\<lambda>input2.
                   sbind (lift (strlen input2)) (\<lambda>len_inp.
                     if len_inp = 0 then sret st
                     else
                       sbind (lift (bindr (wr input2 len_inp c_nl) (\<lambda>b. wr b (len_inp + 1) 0))) (\<lambda>line.
                         run_line j fuel line st))))))))))"

text \<open>\<^verbatim>\<open>getline\<close>, which \<^verbatim>\<open>main\<close> does not use: a character per call of \<^verbatim>\<open>scanf\<close>.\<close>

fun getline :: "nat \<Rightarrow> u8 list \<Rightarrow> nat \<Rightarrow> u8 list sh" where
  "getline 0 str i = out_of_fuel"
| "getline (Suc fuel) str i =
     sbind (do_call Scan) (\<lambda>r. sbind (lift (wr str i (r_byte r))) (\<lambda>str1.
       if r_byte r \<noteq> c_nl \<and> r_byte r \<noteq> c_eof then getline fuel str1 (i + 1) else lift (wr str1 (i + 1) 0)))"

text \<open>The loop of \<^verbatim>\<open>main\<close>, for as many rounds as the fuel allows.\<close>

fun main_loop :: "junk \<Rightarrow> nat \<Rightarrow> u8 list \<Rightarrow> shell \<Rightarrow> unit sh" where
  "main_loop j 0 input st = out_of_fuel"
| "main_loop j (Suc fuel) input st = sbind (main_round j (Suc fuel) input st) (main_loop j fuel input)"

text \<open>
  What comes before the loop.  \<open>blocks\<close> are the eight blocks that \<^verbatim>\<open>malloc\<close> returns for the environment, \<open>ps\<close> the one for
  the prompt; four of the eight are never written.
\<close>

fun env_init :: "u8 list list \<Rightarrow> u8 list list \<Rightarrow> u8 list list res" where
  "env_init (b # bs) (v # vs) = bindr (strcpy b v) (\<lambda>e. bindr (env_init bs vs) (\<lambda>es. Inr (e # es)))"
| "env_init bs [] = Inr bs"
| "env_init [] (v # vs) = Inl Out_of_bounds"

definition shell_init :: "u8 list \<Rightarrow> u8 list list \<Rightarrow> shell sh" where
  "shell_init ps blocks =
     sbind (lift (env_init blocks [lit ''HOSTNAME=sbrocks'', lit ''USER=root'', lit ''HOME=bin'', lit ''PATH=rootfs/bin/:bin/:mnt/''])) (\<lambda>envs.
       sbind (do_call Getcwd) (\<lambda>cwd.
         sbind (lift (strcpy ps (lit [CHR 0x5C, CHR ''w'']))) (\<lambda>ps1.
           sbind (print (chars (''Welcome to sbu shell!'' @ [CHR 0x0A]))) (\<lambda>_.
             sret \<lparr>s_ps1 = ps1, s_last_path = r_buf cwd, s_envp = envs, s_pfd = (0, 0)\<rparr>))))"

definition main_sh :: "junk \<Rightarrow> nat \<Rightarrow> u8 list \<Rightarrow> u8 list \<Rightarrow> u8 list list \<Rightarrow> unit sh" where
  "main_sh j fuel input ps blocks = sbind (shell_init ps blocks) (main_loop j fuel input)"

end
