(* ===== verification/Shell_Run_Props.thy ===== *)
theory Shell_Run_Props
  imports Shell_Run
begin

text \<open>
  Steps of the shell on a given list of replies, and the fuel: with as much fuel as there are replies, the
  shell never runs out of it.
\<close>

section \<open>Single steps\<close>

lemma sbind_Inr: "m w = (Inr x, w') \<Longrightarrow> sbind m f w = f x w'"
  by (simp add: sbind_def)

lemma sbind_Inl: "m w = (Inl s, w') \<Longrightarrow> sbind m f w = (Inl s, w')"
  by (simp add: sbind_def)

lemma lift_run: "lift (Inr x) w = (Inr x, w)" "lift (Inl e) w = (Inl (Fault e), w)"
  by (simp_all add: lift_def)

lemma do_call_run:
  "do_call c \<lparr>w_replies = r # rs, w_trace = t\<rparr> = (Inr r, \<lparr>w_replies = rs, w_trace = t @ [c]\<rparr>)"
  "do_call c \<lparr>w_replies = [], w_trace = t\<rparr> = (Inl Waiting, \<lparr>w_replies = [], w_trace = t @ [c]\<rparr>)"
  by (simp_all add: do_call_def note_call_def)

lemma bind_run:
  "sbind (sret x) f w = f x w"
  "sbind (lift (Inr x)) f w = f x w"
  "sbind (fresh j) g w = g (j (length (w_trace w))) w"
  "sbind (do_call c) h \<lparr>w_replies = r # rs, w_trace = t\<rparr> = h r \<lparr>w_replies = rs, w_trace = t @ [c]\<rparr>"
  "sbind (do_call c) h \<lparr>w_replies = [], w_trace = t\<rparr> = (Inl Waiting, \<lparr>w_replies = [], w_trace = t @ [c]\<rparr>)"
  "sbind (print s) k \<lparr>w_replies = rs, w_trace = t\<rparr> = k () \<lparr>w_replies = rs, w_trace = t @ [Print s]\<rparr>"
  "exit_sh n \<lparr>w_replies = rs, w_trace = t\<rparr> = (Inl (Exited n), \<lparr>w_replies = rs, w_trace = t @ [Exit n]\<rparr>)"
  by (simp_all add: sbind_def sret_def lift_def fresh_def do_call_run print_def note_call_def exit_sh_def)

lemma bind_eqs:
  "sbind (sret x) f = f x"
  "sbind (lift (Inr x)) f = f x"
  "sbind (sbind m g) h = sbind m (\<lambda>x. sbind (g x) h)"
  by (auto simp: sbind_def sret_def lift_def fun_eq_iff split: prod.splits sum.splits)

section \<open>Fuel\<close>

text \<open>The step does not run out of fuel, and where it goes on at most \<open>n\<close> replies are left.\<close>

definition live :: "nat \<Rightarrow> 'a sh \<Rightarrow> world \<Rightarrow> bool" where
  "live n m w \<longleftrightarrow> fst (m w) \<noteq> Inl No_fuel \<and> (\<forall>x w'. m w = (Inr x, w') \<longrightarrow> length (w_replies w') \<le> n)"

lemma live_sbind:
  assumes "live k m w" "\<And>x w'. length (w_replies w') \<le> k \<Longrightarrow> live n (f x) w'"
  shows "live n (sbind m f) w"
proof (cases "m w")
  case (Pair r w')
  then show ?thesis
  proof (cases r)
    case (Inl s)
    then show ?thesis using Pair assms(1) by (simp add: live_def sbind_def)
  next
    case (Inr x)
    then have "sbind m f w = f x w'" "length (w_replies w') \<le> k" using Pair assms(1) by (simp_all add: live_def sbind_def)
    then show ?thesis using assms(2) [of w' x] by (simp add: live_def)
  qed
qed

lemma live_base:
  "length (w_replies w) \<le> n \<Longrightarrow> live n (sret x) w"
  "length (w_replies w) \<le> n \<Longrightarrow> live n (lift r) w"
  "length (w_replies w) \<le> n \<Longrightarrow> live n (fresh j) w"
  "length (w_replies w) \<le> n \<Longrightarrow> live n (print t) w"
  "live n (exit_sh v) w"
  "length (w_replies w) \<le> Suc n \<Longrightarrow> live n (do_call c) w"
  by (auto simp: live_def sret_def lift_def fresh_def print_def exit_sh_def do_call_def note_call_def split: sum.splits list.splits)

lemma live_call: "length (w_replies w) \<le> n \<Longrightarrow> live n (do_call c) w"
  by (rule live_base) simp

lemma live_seq: "live n m w \<Longrightarrow> (\<And>x w'. length (w_replies w') \<le> n \<Longrightarrow> live n (f x) w') \<Longrightarrow> live n (sbind m f) w"
  by (rule live_sbind)

lemmas live_intros = live_seq live_base(1-5) live_call

lemma live_search_loop:
  assumes "\<And>w. length (w_replies w) \<le> n \<Longrightarrow> live n found w" "\<And>w. length (w_replies w) \<le> n \<Longrightarrow> live n none w" "length (w_replies w) \<le> n"
  shows "live n (search_loop found none cmd_path len bin_name i) w"
  using assms
proof (induction found none cmd_path len bin_name i arbitrary: w rule: search_loop.induct)
  case (1 found none cmd_path len bin_name i)
  show ?case
    by (subst search_loop.simps) (auto simp: Let_def intro!: live_intros "1.prems" "1.IH" split: if_splits)
qed

lemma live_execBin: "length (w_replies w) \<le> n \<Longrightarrow> live n (execBin junk1 junk2 binary path cmd1) w"
  unfolding execBin_def by (auto intro!: live_intros live_search_loop split: if_splits)

lemma live_changeDir: "length (w_replies w) \<le> n \<Longrightarrow> live n (changeDir d home st) w"
  unfolding changeDir_def by (auto intro!: live_intros split: if_splits)

lemma live_dups: "length (w_replies w) \<le> n \<Longrightarrow> live n (dups ds) w"
  by (induction ds arbitrary: w rule: dups.induct) (auto intro!: live_intros)

lemma live_pipe_cmd: "length (w_replies w) \<le> n \<Longrightarrow> live n (execute_pipe_cmd j c i cnt st) w"
  unfolding execute_pipe_cmd_def by (auto intro!: live_intros live_dups live_search_loop split: if_splits)

lemma live_run_stages: "length (w_replies w) \<le> n \<Longrightarrow> live n (run_stages j ss st) w"
  by (induction j ss st arbitrary: w rule: run_stages.induct) (auto intro!: live_intros live_pipe_cmd)

lemma live_echo: "length (w_replies w) \<le> n \<Longrightarrow> live n (echo_chars cs) w"
  by (induction cs arbitrary: w) (auto intro!: live_intros)

lemma live_mono: "live m f w \<Longrightarrow> m \<le> n \<Longrightarrow> live n f w"
  by (auto simp: live_def intro: le_trans)

text \<open>A first call: either no reply is left, or one less.\<close>

lemma live_first_call:
  assumes "length (w_replies w) \<le> n" "\<And>m r w'. n = Suc m \<Longrightarrow> length (w_replies w') \<le> m \<Longrightarrow> live m (f r) w'"
  shows "live n (sbind (do_call c) f) w"
proof (cases n)
  case 0
  then show ?thesis using assms(1) by (simp add: live_def sbind_def do_call_def)
next
  case (Suc m)
  have "live m (sbind (do_call c) f) w"
    using assms Suc by (intro live_sbind [where k = m] live_base) auto
  then show ?thesis using Suc by (simp add: live_mono)
qed

lemma live_open_script: "length (w_replies w) \<le> n \<Longrightarrow> live n (open_script f) w"
  unfolding open_script_def by (auto intro!: live_intros split: if_splits)

lemma live_getline: "length (w_replies w) < fuel \<Longrightarrow> live (length (w_replies w)) (getline fuel str i) w"
proof (induction fuel arbitrary: str i w)
  case (Suc fuel)
  have "live n (getline fuel str i) w" if "length (w_replies w) \<le> n" "n < fuel" for n str i w
    using Suc.IH [of w str i] that by (auto intro: live_mono)
  then show ?case
    using Suc.prems by (subst getline.simps, intro live_first_call) (auto intro!: live_intros split: if_splits)
qed simp

lemma live_run_cmd:
  assumes "\<And>fd buffer k st w. length (w_replies w) \<le> n \<Longrightarrow> live n (read_script j fuel fd buffer k st) w" "length (w_replies w) \<le> n"
  shows "live n (run_cmd j fuel cmd st) w"
  using assms
  by (subst run_cmd.simps) (auto intro!: live_intros live_changeDir live_echo live_execBin live_open_script split: action.splits option.splits)

lemma live_run_line:
  assumes "\<And>cmd st w. length (w_replies w) \<le> n \<Longrightarrow> live n (run_cmd j fuel cmd st) w" "length (w_replies w) \<le> n"
  shows "live n (run_line j fuel input st) w"
  using assms by (subst run_line.simps) (auto intro!: live_intros live_run_stages split: line.splits)

lemma live_read_script:
  assumes "\<And>input st w. length (w_replies w) \<le> n \<Longrightarrow> live n (run_line j fuel input st) w"
    and "\<And>fd buffer k st w. length (w_replies w) \<le> n \<Longrightarrow> live n (read_script j fuel fd buffer k st) w"
    and "length (w_replies w) \<le> Suc n"
  shows "live (Suc n) (read_script j (Suc fuel) fd buffer k st) w"
  using assms(3)
  by (subst read_script.simps, intro live_first_call) (auto intro!: live_intros assms(1,2) split: if_splits)

lemma live_run:
  assumes "n \<le> fuel"
  shows "\<forall>fd buffer k st w. length (w_replies w) \<le> n \<longrightarrow> live n (read_script j fuel fd buffer k st) w"
    and "\<forall>input st w. length (w_replies w) \<le> n \<longrightarrow> live n (run_line j fuel input st) w"
proof -
  show *: "\<forall>fd buffer k st w. length (w_replies w) \<le> n \<longrightarrow> live n (read_script j fuel fd buffer k st) w"
    using assms
  proof (induction n arbitrary: fuel)
    case 0
    then show ?case by (subst read_script.simps) (simp add: live_def sbind_def do_call_def)
  next
    case (Suc n)
    then obtain fuel' where f: "fuel = Suc fuel'" "n \<le> fuel'" by (cases fuel) auto
    note IH = Suc.IH [OF f(2)]
    show ?case unfolding f(1) using IH by (intro allI impI live_read_script live_run_line live_run_cmd) simp_all
  qed
  then show "\<forall>input st w. length (w_replies w) \<le> n \<longrightarrow> live n (run_line j fuel input st) w"
    by (intro allI impI live_run_line live_run_cmd) simp_all
qed

text \<open>A round of \<^verbatim>\<open>main\<close> takes a reply, and waits when there is none.\<close>

lemma main_round_waits: "w_replies w = [] \<Longrightarrow> \<exists>w'. main_round j fuel input st w = (Inl Waiting, w')"
  by (simp add: main_round_def sbind_def do_call_def)

lemma live_main_round:
  assumes "length (w_replies w) \<le> Suc n" "n \<le> fuel"
  shows "live n (main_round j fuel input st) w"
  unfolding main_round_def
  using assms by (intro live_sbind [where k = n] live_base) (auto intro!: live_intros live_run(2) [rule_format] split: if_splits)

lemma main_loop_stops:
  "length (w_replies w) < fuel \<Longrightarrow> \<exists>s w'. main_loop j fuel input st w = (Inl s, w') \<and> s \<noteq> No_fuel"
proof (induction fuel arbitrary: st w)
  case (Suc fuel)
  show ?case
  proof (cases "w_replies w")
    case Nil
    then obtain w' where "main_round j (Suc fuel) input st w = (Inl Waiting, w')" using main_round_waits by blast
    then show ?thesis by (simp add: sbind_def)
  next
    case (Cons r rs)
    have "live (length rs) (main_round j (Suc fuel) input st) w" using Cons Suc.prems by (intro live_main_round) simp_all
    then consider s w' where "main_round j (Suc fuel) input st w = (Inl s, w')" "s \<noteq> No_fuel"
      | st' w' where "main_round j (Suc fuel) input st w = (Inr st', w')" "length (w_replies w') \<le> length rs"
      unfolding live_def by (metis fst_conv obj_sumE surj_pair)
    then show ?thesis
    proof cases
      case (2 st' w')
      then show ?thesis using Suc.IH [of w' st'] Suc.prems Cons by (simp add: sbind_def)
    qed (simp add: sbind_def)
  qed
qed simp

end
