(* ===== verification/Shell_Props.thy ===== *)
theory Shell_Props
  imports Shell CString_Props
begin

text \<open>Lemmas of the shell: words of a line, stages of a pipeline, and the names of the search path.\<close>

section \<open>Splitting a line into words\<close>

lemma cstr_zeros: "0 \<notin> set w \<Longrightarrow> cstr (w @ replicate n 0) = w"
  by (induction w) (auto, cases n, simp_all)

definition word_ok :: "u8 list \<Rightarrow> bool" where
  "word_ok w \<longleftrightarrow> w \<noteq> [] \<and> length w < charSize \<and> (\<forall>c \<in> set w. c \<notin> {0, 9, 10, 32})"

text \<open>The line of the given words, one blank between them, as \<^verbatim>\<open>main\<close> passes it on.\<close>

fun line_of :: "u8 list list \<Rightarrow> u8 list" where
  "line_of [] = []"
| "line_of [w] = w @ [10]"
| "line_of (w # v # ws) = w @ 32 # line_of (v # ws)"

definition pad :: "u8 list \<Rightarrow> u8 list" where
  "pad w = w @ replicate (charSize - length w) 0"

lemma parse_char:
  assumes "i < len" "i < length str" "str ! i \<notin> {10, d}" "i = 0 \<Longrightarrow> str ! i \<noteq> 32" "length A = k" "j < length b"
  shows "parse_loop str d len i k j (A @ [b]) = parse_loop str d len (i + 1) k (j + 1) (A @ [b[j := str ! i]])"
  using assms by (subst parse_loop.simps) (auto simp: put_arg_def)

lemma parse_chars:
  assumes "str = pre @ cs @ rest" "length pre + length cs \<le> len" "\<forall>c \<in> set cs. c \<notin> {10, d}" "cs \<noteq> [] \<longrightarrow> pre = [] \<longrightarrow> cs ! 0 \<noteq> 32"
    and "length A = k" "j + length cs \<le> length b"
  shows "parse_loop str d len (length pre) k j (A @ [b]) =
           parse_loop str d len (length pre + length cs) k (j + length cs) (A @ [take j b @ cs @ drop (j + length cs) b])"
  using assms
proof (induction cs arbitrary: pre j b)
  case Nil
  then show ?case by simp
next
  case (Cons c cs)
  have "parse_loop str d len (length pre) k j (A @ [b]) = parse_loop str d len (length (pre @ [c])) k (j + 1) (A @ [b[j := c]])"
    using parse_char [of "length pre" len str d A k j b] Cons.prems by simp
  also have "\<dots> = parse_loop str d len (length (pre @ [c]) + length cs) k (j + 1 + length cs)
      (A @ [take (j + 1) (b[j := c]) @ cs @ drop (j + 1 + length cs) (b[j := c])])"
    using Cons.prems by (intro Cons.IH) simp_all
  also have "take (j + 1) (b[j := c]) = take j b @ [c]" using Cons.prems(6) by (simp add: take_Suc_conv_app_nth)
  finally show ?case by simp
qed

lemma parse_end:
  assumes "str = pre @ c # d # rest" "pre \<noteq> []" "length pre < len" "c = 32 \<or> c = 10" "d \<noteq> 32" "d \<noteq> 9" "length A = k" "j < length b"
  shows "parse_loop str 32 len (length pre) k j (A @ [b]) =
           (if k + 1 < 8 then parse_loop str 32 len (length (pre @ [c])) (k + 1) 0 ((A @ [b[j := 0]]) @ [replicate 22 0])
            else Inl Out_of_bounds)"
proof -
  have "skip_blanks str (length pre) = Inr (length pre)"
    using assms(1,5,6) by (subst skip_blanks.simps) (simp add: nth_append)
  then show ?thesis
    using assms by (subst parse_loop.simps) (auto simp: end_arg_def put_arg_def new_arg_def)
qed

lemma line_of_first: "word_ok w \<Longrightarrow> \<exists>d q. line_of (w # ws) @ 0 # r = d # q \<and> d \<noteq> 32 \<and> d \<noteq> 9"
  by (cases ws; cases w) (auto simp: word_ok_def)

lemma parse_word:
  assumes "word_ok w" "str = pre @ w @ c # d # rest" "length pre + length w < len" "c = 32 \<or> c = 10" "d \<noteq> 32" "d \<noteq> 9" "length A = k"
  shows "parse_loop str 32 len (length pre) k 0 (A @ [replicate 22 0]) =
           (if k + 1 < 8 then parse_loop str 32 len (length (pre @ w @ [c])) (k + 1) 0 ((A @ [pad w]) @ [replicate 22 0])
            else Inl Out_of_bounds)"
proof -
  have w: "w \<noteq> []" "length w < 22" "\<forall>c \<in> set w. c \<notin> {10, 32}" using assms(1) by (auto simp: word_ok_def)
  then have "w ! 0 \<noteq> 32" using nth_mem [of 0 w] by fastforce
  then have "parse_loop str 32 len (length pre) k 0 (A @ [replicate 22 0]) =
      parse_loop str 32 len (length (pre @ w)) k (length w) (A @ [pad w])"
    using parse_chars [of str pre w "c # d # rest" len 32 A k 0 "replicate 22 0"] assms w by (simp add: pad_def)
  moreover have "(pad w)[length w := 0] = pad w" "length w < length (pad w)"
    using w(2) by (simp_all add: pad_def list_update_append list_update_same_conv)
  ultimately show ?thesis
    using parse_end [of str "pre @ w" c d rest len A k "length w" "pad w"] assms w by simp
qed

lemma parse_words:
  assumes "\<forall>w \<in> set ws. word_ok w" "ws \<noteq> []" "str = pre @ line_of ws @ 0 # r" "len = length pre + length (line_of ws)" "length A = k"
  shows "parse_loop str 32 len (length pre) k 0 (A @ [replicate 22 0]) =
           (if k + length ws < 8 then Inr (k + length ws, A @ map pad ws @ [replicate 22 0]) else Inl Out_of_bounds)"
  using assms
proof (induction ws arbitrary: pre A k rule: line_of.induct)
  case (2 w)
  then show ?case
    using parse_word [of w str pre 10 0 r len A k] by (simp add: parse_loop.simps [of _ _ "Suc (length pre + length w)" "Suc (length pre + length w)"])
next
  case (3 w v ws)
  obtain d q where d: "line_of (v # ws) @ 0 # r = d # q" "d \<noteq> 32" "d \<noteq> 9" using line_of_first [of v ws r] "3.prems"(1) by auto
  have "parse_loop str 32 len (length pre) k 0 (A @ [replicate 22 0]) =
      (if k + 1 < 8 then parse_loop str 32 len (length (pre @ w @ [32])) (k + 1) 0 ((A @ [pad w]) @ [replicate 22 0]) else Inl Out_of_bounds)"
    using parse_word [of w str pre 32 d q len A k] "3.prems" d by simp
  moreover have "parse_loop str 32 len (length (pre @ w @ [32])) (k + 1) 0 ((A @ [pad w]) @ [replicate 22 0]) =
      (if k + 1 + length (v # ws) < 8 then Inr (k + 1 + length (v # ws), (A @ [pad w]) @ map pad (v # ws) @ [replicate 22 0]) else Inl Out_of_bounds)"
    using "3.prems" by (intro "3.IH") simp_all
  ultimately show ?case by simp
qed simp

lemma line_of_terminated: "\<forall>w \<in> set ws. word_ok w \<Longrightarrow> 0 \<notin> set (line_of ws)"
  by (induction ws rule: line_of.induct) (auto simp: word_ok_def)

lemma parseCmd_line:
  assumes "\<forall>w \<in> set ws. word_ok w" "ws \<noteq> []"
  shows "parseCmd (line_of ws @ 0 # r) 32 = (if length ws < 8 then Inr (map pad ws) else Inl Out_of_bounds)"
  using parse_words [of ws "line_of ws @ 0 # r" "[]" r "length (line_of ws)" "[]" 0] assms line_of_terminated [OF assms(1)]
  by (simp add: parseCmd_def strlen_spec)

section \<open>Splitting a line at bars\<close>

text \<open>What a stage of a pipeline may be here, the line of the given stages, and a stage in its block.\<close>

definition stage_ok :: "u8 list \<Rightarrow> bool" where
  "stage_ok l \<longleftrightarrow> l \<noteq> [] \<and> length l < 21 \<and> l ! 0 \<noteq> 32 \<and> l ! 0 \<noteq> 9 \<and> (\<forall>c \<in> set l. c \<notin> {0, 10, 124})"

fun bar_line :: "u8 list list \<Rightarrow> u8 list" where
  "bar_line [] = []"
| "bar_line [l] = l @ [10]"
| "bar_line (l # m # ls) = l @ 124 # bar_line (m # ls)"

definition stage_buf :: "u8 list \<Rightarrow> u8 list" where
  "stage_buf l = l @ 10 # replicate (21 - length l) 0"

lemma stage_buf_end: "stage_ok l \<Longrightarrow> stage_buf l = (l @ [10]) @ 0 # replicate (20 - length l) 0"
  by (auto simp: stage_buf_def stage_ok_def Suc_diff_le numeral_eq_Suc)

lemma parse_stage:
  assumes "stage_ok l" "str = pre @ l @ c # d # rest" "length pre + length l < len" "c = 124 \<or> c = 10" "d \<noteq> 32" "d \<noteq> 9" "length A = k"
  shows "parse_loop str 124 len (length pre) k 0 (A @ [replicate 22 0]) =
           (if k + 1 < 8 then parse_loop str 124 len (length (pre @ l @ [c])) (k + 1) 0 ((A @ [stage_buf l]) @ [replicate 22 0])
            else Inl Out_of_bounds)"
proof -
  let ?b = "l @ replicate (22 - length l) 0" and ?i = "length (pre @ l)"
  have l: "l \<noteq> []" "length l < 21" "l ! 0 \<noteq> 32" "\<forall>c \<in> set l. c \<notin> {10, 124}" using assms(1) by (auto simp: stage_ok_def)
  have run: "parse_loop str 124 len (length pre) k 0 (A @ [replicate 22 0]) = parse_loop str 124 len ?i k (length l) (A @ [?b])"
    using parse_chars [of str pre l "c # d # rest" len 124 A k 0 "replicate 22 0"] assms l by simp
  have "skip_blanks str ?i = Inr ?i" using assms(2,5,6) by (subst skip_blanks.simps) (simp add: nth_append)
  moreover have "end_arg 124 k (length l) (A @ [?b]) = Inr (A @ [stage_buf l])"
  proof -
    have n: "22 - length l = Suc (Suc (20 - length l))" using l(2) by simp
    show ?thesis using l(1,2) assms(7) stage_buf_end [OF assms(1)]
      unfolding n by (auto simp: end_arg_def put_arg_def list_update_append nth_append)
  qed
  moreover have "str ! ?i = c" "?i < length str" using assms(2) by (simp_all add: nth_append)
  ultimately have "parse_loop str 124 len ?i k (length l) (A @ [?b]) =
      (if k + 1 < 8 then parse_loop str 124 len (?i + 1) (k + 1) 0 ((A @ [stage_buf l]) @ [replicate 22 0]) else Inl Out_of_bounds)"
    using assms(3,4,7) l(1) by (subst parse_loop.simps) (auto simp: new_arg_def)
  then show ?thesis using run by simp
qed

lemma bar_line_first: "stage_ok l \<Longrightarrow> \<exists>d q. bar_line (l # ls) @ 0 # r = d # q \<and> d \<noteq> 32 \<and> d \<noteq> 9"
  by (cases ls; cases l) (auto simp: stage_ok_def)

lemma parse_stages:
  assumes "\<forall>l \<in> set ls. stage_ok l" "ls \<noteq> []" "str = pre @ bar_line ls @ 0 # r" "len = length pre + length (bar_line ls)" "length A = k"
  shows "parse_loop str 124 len (length pre) k 0 (A @ [replicate 22 0]) =
           (if k + length ls < 8 then Inr (k + length ls, A @ map stage_buf ls @ [replicate 22 0]) else Inl Out_of_bounds)"
  using assms
proof (induction ls arbitrary: pre A k rule: bar_line.induct)
  case (2 l)
  then show ?case
    using parse_stage [of l str pre 10 0 r len A k] by (simp add: parse_loop.simps [of _ _ "Suc (length pre + length l)" "Suc (length pre + length l)"])
next
  case (3 l m ls)
  obtain d q where d: "bar_line (m # ls) @ 0 # r = d # q" "d \<noteq> 32" "d \<noteq> 9" using bar_line_first [of m ls r] "3.prems"(1) by auto
  have "parse_loop str 124 len (length pre) k 0 (A @ [replicate 22 0]) =
      (if k + 1 < 8 then parse_loop str 124 len (length (pre @ l @ [124])) (k + 1) 0 ((A @ [stage_buf l]) @ [replicate 22 0]) else Inl Out_of_bounds)"
    using parse_stage [of l str pre 124 d q len A k] "3.prems" d by simp
  moreover have "parse_loop str 124 len (length (pre @ l @ [124])) (k + 1) 0 ((A @ [stage_buf l]) @ [replicate 22 0]) =
      (if k + 1 + length (m # ls) < 8 then Inr (k + 1 + length (m # ls), (A @ [stage_buf l]) @ map stage_buf (m # ls) @ [replicate 22 0]) else Inl Out_of_bounds)"
    using "3.prems" by (intro "3.IH") simp_all
  ultimately show ?case by simp
qed simp

lemma bar_line_nonzero: "\<forall>l \<in> set ls. stage_ok l \<Longrightarrow> 0 \<notin> set (bar_line ls)"
  by (induction ls rule: bar_line.induct) (auto simp: stage_ok_def)

lemma parseCmd_bars:
  assumes "\<forall>l \<in> set ls. stage_ok l" "ls \<noteq> []"
  shows "parseCmd (bar_line ls @ 0 # r) 124 = (if length ls < 8 then Inr (map stage_buf ls) else Inl Out_of_bounds)"
  using parse_stages [of ls "bar_line ls @ 0 # r" "[]" r "length (bar_line ls)" "[]" 0] assms bar_line_nonzero [OF assms(1)]
  by (simp add: parseCmd_def strlen_spec)

section \<open>Lines and commands\<close>

lemma streq_spec:
  assumes "terminated s" "0 \<notin> set (map of_char t :: u8 list)"
  shows "streq s t = Inr (cstr s = map of_char t)"
proof -
  have "cstr (lit t) = map of_char t" "terminated (lit t)" using assms(2) by (simp_all add: lit_def)
  then show ?thesis
    using assms(1) chars_cmp_0 [of "cstr s" "map of_char t"]
    by (cases "length (cstr s) = length t") (auto simp: streq_def strcmp_spec)
qed

lemma pad_string: "word_ok w \<Longrightarrow> terminated (pad w) \<and> cstr (pad w) = w"
  using cstr_zeros [of w "22 - length w"] by (auto simp: word_ok_def pad_def terminated_def)

lemma stage_buf_string: "stage_ok l \<Longrightarrow> terminated (stage_buf l) \<and> cstr (stage_buf l) = l @ [10]"
  using cstr_append [of "l @ [10]"] terminated_append [of "l @ [10]"] by (auto simp: stage_buf_end stage_ok_def)

lemma streq_stage:
  "stage_ok l \<Longrightarrow> streq (stage_buf l) [CHR 0x0A] = Inr False"
  "stage_ok l \<Longrightarrow> streq (stage_buf l) '''' = Inr False"
  by (simp_all add: streq_spec stage_buf_string, simp add: stage_ok_def)

text \<open>A line of one command, and a line of several.\<close>

lemma execLine_bars:
  assumes "\<forall>l \<in> set ls. stage_ok l" "ls \<noteq> []" "length ls < 8"
  shows "execLine (bar_line ls @ 0 # r) =
           (if length ls = 1 then bindr (parseCmd (stage_buf (ls ! 0)) 32) (\<lambda>cmd. Inr (Command cmd))
            else bindr (stages 0 (length ls) (map stage_buf ls)) (\<lambda>ss. Inr (Pipeline ss)))"
proof -
  have "cstr (bar_line ls @ 0 # r) = bar_line ls" using bar_line_nonzero [OF assms(1)] by simp
  moreover have "bar_line ls \<noteq> []" "bar_line ls \<noteq> [10]"
    using assms(1,2) by (cases ls rule: bar_line.cases; auto simp: stage_ok_def Cons_eq_append_conv append_eq_Cons_conv)+
  ultimately have "streq (bar_line ls @ 0 # r) [CHR 0x0A] = Inr False" "streq (bar_line ls @ 0 # r) '''' = Inr False"
    by (simp_all add: streq_spec)
  then show ?thesis
    using assms parseCmd_bars [OF assms(1,2), of r] streq_stage(2) [of "ls ! 0"] by (cases ls) (auto simp: execLine_def)
qed

lemma execLine_command:
  assumes "stage_ok l" "l @ [10] = line_of ws" "\<forall>w \<in> set ws. word_ok w" "ws \<noteq> []" "length ws < 8"
  shows "execLine (l @ 10 # 0 # r) = Inr (Command (map pad ws))"
proof -
  have "parseCmd (stage_buf l) 32 = Inr (map pad ws)"
    using parseCmd_line [OF assms(3,4)] assms(2,5) by (simp add: stage_buf_end [OF assms(1), unfolded assms(2)])
  then show ?thesis using execLine_bars [of "[l]" r] assms(1) by simp
qed

lemma stages_all:
  "\<forall>l \<in> set ls. stage_ok l \<Longrightarrow>
     stages i cnt (map stage_buf ls) = Inr (map (\<lambda>(k, l). Some (stage_buf l, k, cnt)) (enumerate i ls))"
  by (induction ls arbitrary: i) (simp_all add: streq_stage)

text \<open>A word that is no command of the shell's own is the name of a program.\<close>

definition builtin :: "u8 list \<Rightarrow> bool" where
  "builtin w \<longleftrightarrow> w \<in> map of_char ` {''cd'', ''exit'', ''set'', ''sbh'', ''echo'', ''kill''}"

lemma execCmd_program:
  assumes "word_ok w" "\<not> builtin w"
  shows "execCmd_action (pad w # args) = Inr (Run_binary (pad w))"
proof -
  have "streq (pad w) t = Inr False" if "t \<in> {''cd'', ''exit'', ''set'', ''sbh'', ''echo'', ''kill''}" for t
    using that assms pad_string [OF assms(1)] by (auto simp: streq_spec builtin_def)
  moreover have "w \<noteq> [32]" using assms(1) by (auto simp: word_ok_def)
  then have "streq (pad w) '' '' = Inr False" using pad_string [OF assms(1)] by (simp add: streq_spec)
  moreover have "strlen (pad w) = Inr (length w)" "w \<noteq> []" using pad_string [OF assms(1)] assms(1) by (auto simp: strlen_spec word_ok_def)
  ultimately show ?thesis by (simp add: execCmd_action_def arg_at_def deref_def)
qed

section \<open>The search path\<close>

text \<open>The names that are tried, in order, when none of them can be executed.\<close>

function candidates :: "u8 list \<Rightarrow> nat \<Rightarrow> u8 list \<Rightarrow> nat \<Rightarrow> u8 list list res" where
  "candidates cmd_path len bin_name i =
     (let dir = dir_chars (drop i cmd_path); i' = i + length dir + 1
      in bindr (candidate dir bin_name) (\<lambda>s.
           if i' < len \<and> cmd_path ! i' \<noteq> c_nl \<and> cmd_path ! i' \<noteq> c_eof then
             bindr (candidates cmd_path len bin_name i') (\<lambda>ss. Inr (s # ss))
           else Inr [s]))"
  by pat_completeness auto
termination
  by (relation "measure (\<lambda>(cp, len, bn, i). len - i)") auto

declare candidates.simps [simp del]

definition dir_ok :: "u8 list \<Rightarrow> bool" where
  "dir_ok d \<longleftrightarrow> d \<noteq> [] \<and> (\<forall>c \<in> set d. c \<notin> {0, 10, 58, 255})"

fun path_of :: "u8 list list \<Rightarrow> u8 list" where
  "path_of [] = []"
| "path_of [d] = d"
| "path_of (d # e # ds) = d @ 58 # path_of (e # ds)"

definition in_dir :: "u8 list \<Rightarrow> u8 list \<Rightarrow> u8 list" where
  "in_dir name d = (if last d = 47 then d else d @ [47]) @ name"

lemma dir_chars_append: "\<forall>c \<in> set d. c \<notin> {0, 58} \<Longrightarrow> c = 0 \<or> c = 58 \<Longrightarrow> dir_chars (d @ c # r) = d"
  by (induction d) auto

lemma name_chars_append: "\<forall>c \<in> set n. c \<notin> {0, 10, 255} \<Longrightarrow> name_chars (n @ 0 # r) = n"
  by (induction n) auto

lemma candidate_ok:
  assumes "dir_ok d" "\<forall>c \<in> set name. c \<notin> {0, 10, 255}" "length (in_dir name d) < 256"
  shows "\<exists>s. candidate d (name @ 0 # r) = Inr s \<and> cstr s = in_dir name d \<and> terminated s"
proof -
  have "0 \<notin> set (in_dir name d)" using assms(1,2) by (auto simp: in_dir_def dir_ok_def)
  then have "cstr (in_dir name d @ replicate (256 - length (in_dir name d)) 0) = in_dir name d"
    by (rule cstr_zeros)
  moreover have "terminated (in_dir name d @ replicate (256 - length (in_dir name d)) 0)"
    using assms(3) by (simp add: terminated_def)
  moreover have "candidate d (name @ 0 # r) = Inr (in_dir name d @ replicate (256 - length (in_dir name d)) 0)"
    using assms by (auto simp: candidate_def name_chars_append in_dir_def dir_ok_def Let_def)
  ultimately show ?thesis by blast
qed

lemma candidates_ok:
  assumes "\<forall>d \<in> set ds. dir_ok d \<and> length (in_dir name d) < 256" "ds \<noteq> []" "\<forall>c \<in> set name. c \<notin> {0, 10, 255}"
    and "cp = pre @ path_of ds @ 0 # q" "len = length pre + length (path_of ds)"
  shows "\<exists>ss. candidates cp len (name @ 0 # r) (length pre) = Inr ss \<and> map cstr ss = map (in_dir name) ds \<and> (\<forall>s \<in> set ss. terminated s)"
  using assms
proof (induction ds arbitrary: pre rule: path_of.induct)
  case (2 d)
  then obtain s where s: "candidate d (name @ 0 # r) = Inr s" "cstr s = in_dir name d" "terminated s" using candidate_ok [of d name r] by auto
  have "dir_chars (drop (length pre) cp) = d" using 2 by (simp add: dir_chars_append dir_ok_def)
  then show ?case using s "2.prems"(5) by (subst candidates.simps) simp
next
  case (3 d e ds)
  then obtain s where s: "candidate d (name @ 0 # r) = Inr s" "cstr s = in_dir name d" "terminated s" using candidate_ok [of d name r] by auto
  have dir: "dir_chars (drop (length pre) cp) = d" using 3 by (simp add: dir_chars_append dir_ok_def)
  let ?i = "length pre + length d + 1"
  obtain c x where e: "path_of (e # ds) = c # x" "c \<notin> {10, 255}" using "3.prems"(1) by (cases ds; cases e) (auto simp: dir_ok_def)
  have nx: "?i < len" "cp ! ?i = c" using "3.prems"(4,5) e(1) by (simp_all add: nth_append)
  obtain ss where ss: "candidates cp len (name @ 0 # r) (length (pre @ d @ [58])) = Inr ss" "map cstr ss = map (in_dir name) (e # ds)" "\<forall>s \<in> set ss. terminated s"
    using "3.IH" [of "pre @ d @ [58]"] "3.prems" by auto
  have "candidates cp len (name @ 0 # r) (length pre) = Inr (s # ss)"
    using s(1) ss(1) dir nx e(2) by (subst candidates.simps) (simp add: Let_def)
  then show ?case using s(2,3) ss(2,3) by auto
qed simp

lemma path_candidates:
  assumes "\<forall>d \<in> set ds. dir_ok d" "ds \<noteq> []" "\<forall>c \<in> set name. c \<notin> {0, 10, 255}" "length name + length (path_of ds) < 255"
  shows "\<exists>ss. candidates (path_of ds @ 0 # q) (length (path_of ds)) (name @ 0 # r) 0 = Inr ss \<and>
           map cstr ss = map (in_dir name) ds \<and> (\<forall>s \<in> set ss. terminated s)"
proof -
  have "length d \<le> length (path_of ds)" if "d \<in> set ds" for d
    using that by (induction ds rule: path_of.induct) auto
  then have "length (in_dir name d) < 256" if "d \<in> set ds" for d
    using that assms(4) by (fastforce simp: in_dir_def)
  then have "\<forall>d \<in> set ds. dir_ok d \<and> length (in_dir name d) < 256" using assms(1) by blast
  from candidates_ok [OF this assms(2,3), where pre = "[]"] show ?thesis by simp
qed

lemma path_of_nonzero: "\<forall>d \<in> set ds. dir_ok d \<Longrightarrow> 0 \<notin> set (path_of ds)"
  by (induction ds rule: path_of.induct) (auto simp: dir_ok_def)

end
