(* ===== verification/Shell_Calls.thy ===== *)
theory Shell_Calls
  imports Shell_Run_Props Shell_Props
begin

text \<open>
  The calls the shell makes: the search for a program, a command typed at the prompt, the stages of a pipeline and the
  lines of a script.
\<close>

section \<open>Looking for a program\<close>

lemma c_chars_string: "terminated s \<Longrightarrow> c_chars s = Inr (cstr s)"
  by (simp add: c_chars_def strlen_spec cstr_take)

text \<open>While every call is refused, the names are tried in order; without a reply the process waits, that is it has become the program.\<close>

lemma search_loop_names:
  assumes "candidates cmd_path len bin_name i = Inr ss" "\<forall>s \<in> set ss. terminated s" "\<forall>r \<in> set rs. r_val r \<noteq> 0"
  shows "search_loop found none cmd_path len bin_name i \<lparr>w_replies = rs, w_trace = t\<rparr> =
           (if length rs < length ss
            then (Inl Waiting, \<lparr>w_replies = [], w_trace = t @ map (Execve \<circ> cstr) (take (Suc (length rs)) ss)\<rparr>)
            else none \<lparr>w_replies = drop (length ss) rs, w_trace = t @ map (Execve \<circ> cstr) ss\<rparr>)"
  using assms
proof (induction cmd_path len bin_name i arbitrary: ss rs t rule: candidates.induct)
  case (1 cmd_path len bin_name i)
  let ?dir = "dir_chars (drop i cmd_path)" let ?i = "i + length ?dir + 1"
  let ?more = "?i < len \<and> cmd_path ! ?i \<noteq> 10 \<and> cmd_path ! ?i \<noteq> 255"
  obtain s ss' where s: "candidate ?dir bin_name = Inr s" "ss = s # ss'" and ss': "if ?more then candidates cmd_path len bin_name ?i = Inr ss' else ss' = []"
    using "1.prems"(1) by (subst (asm) candidates.simps) (auto simp: bindr_eq_Inr Let_def split: if_splits)
  have c: "bindr (candidate ?dir bin_name) c_chars = Inr (cstr s)" using s "1.prems"(2) by (simp add: c_chars_string)
  show ?case
  proof (cases rs)
    case Nil
    then show ?thesis using c s by (subst search_loop.simps) (simp add: bind_run Let_def)
  next
    case (Cons r rs')
    show ?thesis
    proof (cases ?more)
      case True
      then show ?thesis
        using c s Cons ss' "1.prems"(2,3) "1.IH" [OF refl refl True, of ss' rs' "t @ [Execve (cstr s)]"]
        by (subst search_loop.simps) (simp add: bind_run Let_def)
    next
      case False
      then show ?thesis using c s Cons ss' "1.prems"(3) by (subst search_loop.simps) (auto simp: bind_run Let_def)
    qed
  qed
qed

text \<open>The calls of a process that tries \<open>names\<close> in turn, all refused while there are replies, and what it does behind the last one.\<close>

definition tries :: "u8 list list \<Rightarrow> reply list \<Rightarrow> call list \<Rightarrow> call list \<Rightarrow> int \<Rightarrow> (stop + 'a) \<times> world" where
  "tries names rs t done n =
     (if length rs < length names then (Inl Waiting, \<lparr>w_replies = [], w_trace = t @ map Execve (take (Suc (length rs)) names)\<rparr>)
      else (Inl (Exited n), \<lparr>w_replies = drop (length names) rs, w_trace = t @ map Execve names @ done @ [Exit n]\<rparr>))"

lemma tries_Cons:
  "tries (n # ns) [] t done k = (Inl Waiting, \<lparr>w_replies = [], w_trace = t @ [Execve n]\<rparr>)"
  "tries (n # ns) (r # rs) t done k = tries ns rs (t @ [Execve n]) done k"
  by (simp_all add: tries_def)

lemma sbind_tries: "m w = tries names rs t done n \<Longrightarrow> sbind m f w = tries names rs t done n"
  by (simp add: sbind_def tries_def)

lemma search_path:
  assumes "\<forall>d \<in> set ds. dir_ok d" "ds \<noteq> []" "\<forall>c \<in> set name. c \<notin> {0, 10, 255}" "length name + length (path_of ds) < 255"
    and "\<forall>r \<in> set rs. r_val r \<noteq> 0"
    and "\<And>rs t. none \<lparr>w_replies = rs, w_trace = t\<rparr> = (Inl (Exited n), \<lparr>w_replies = rs, w_trace = t @ done @ [Exit n]\<rparr>)"
  shows "search_loop found none (path_of ds @ 0 # q) (length (path_of ds)) (name @ 0 # r) 0 \<lparr>w_replies = rs, w_trace = t\<rparr> =
           tries (map (in_dir name) ds) rs t done n"
proof -
  obtain ss where ss: "candidates (path_of ds @ 0 # q) (length (path_of ds)) (name @ 0 # r) 0 = Inr ss"
      "map cstr ss = map (in_dir name) ds" "\<forall>s \<in> set ss. terminated s"
    using path_candidates [OF assms(1-4)] by blast
  then have l: "length ss = length ds" by (metis length_map)
  have "map (Execve \<circ> cstr) (take k ss) = map Execve (take k (map (in_dir name) ds))" for k
    using ss(2) by (metis map_map take_map)
  from this [of "Suc (length rs)"] this [of "length ss"] show ?thesis
    unfolding search_loop_names [OF ss(1,3) assms(5)] tries_def using l by (simp add: assms(6) del: map_map)
qed

lemma execBin_child:
  assumes "\<forall>d \<in> set ds. dir_ok d" "ds \<noteq> []" "\<forall>c \<in> set name. c \<notin> {0, 10, 255}"
    and "length name < 30" "length (path_of ds) < 30" "length junk1 = 30" "length junk2 = 30"
    and "terminated binary" "cstr binary = name" "terminated path" "cstr path = path_of ds"
    and "r_val f = 0" "\<forall>r \<in> set rs. r_val r \<noteq> 0"
  shows "execBin junk1 junk2 binary path cmd1 \<lparr>w_replies = f # rs, w_trace = t\<rparr> =
           tries (name # map (in_dir name) ds) rs (t @ [Fork]) [Print (name @ chars ('': command not found.'' @ [CHR 0x0A]))] 0"
proof -
  have n: "0 \<notin> set name" "0 \<notin> set (path_of ds)" using assms(3) path_of_nonzero [OF assms(1)] by auto
  let ?bin = "name @ 0 # drop (Suc (length name)) junk1" and ?cp = "path_of ds @ 0 # drop (Suc (length (path_of ds))) junk2"
  have s: "strcpy junk1 binary = Inr ?bin" "strcpy junk2 path = Inr ?cp" using assms(4-11) by (simp_all add: strcpy_spec)
  have c: "c_chars ?bin = Inr name" "strlen ?cp = Inr (length (path_of ds))"
    using n by (simp_all add: c_chars_string strlen_spec)
  show ?thesis
  proof (cases rs)
    case Nil
    then show ?thesis using s c assms(12) by (simp add: execBin_def bind_run tries_def)
  next
    case (Cons r rs')
    have "search_loop (exit_sh 1 :: unit sh) (sbind (print (name @ chars ('': command not found.'' @ [CHR 0x0A]))) (\<lambda>_. exit_sh 0)) ?cp (length (path_of ds)) ?bin 0
        \<lparr>w_replies = rs', w_trace = (t @ [Fork]) @ [Execve name]\<rparr> =
        tries (map (in_dir name) ds) rs' ((t @ [Fork]) @ [Execve name]) [Print (name @ chars ('': command not found.'' @ [CHR 0x0A]))] (0 :: int)"
      using assms(4,5,13) Cons by (intro search_path assms(1-3)) (simp_all add: bind_run)
    then show ?thesis using s c assms(12) Cons by (simp add: execBin_def bind_run tries_Cons)
  qed
qed

lemma execBin_parent:
  assumes "length (cstr binary) < 30" "length (cstr path) < 30" "length junk1 = 30" "length junk2 = 30"
    and "terminated binary" "terminated path" "r_val f \<noteq> 0" "\<And>c. cmd1 = Some c \<Longrightarrow> terminated c"
  shows "execBin junk1 junk2 binary path cmd1 \<lparr>w_replies = f # g # rs, w_trace = t\<rparr> =
           (if \<exists>c. cmd1 = Some c \<and> cstr c = chars ''&'' then (Inr (), \<lparr>w_replies = g # rs, w_trace = t @ [Fork]\<rparr>)
            else (Inr (), \<lparr>w_replies = rs, w_trace = t @ [Fork, Waitpid (r_val f)]\<rparr>))"
  using assms
  by (cases cmd1) (simp_all add: execBin_def bind_run strcpy_spec streq_spec chars_def sret_def)

section \<open>Commands at the prompt\<close>

text \<open>
  A command that fits: up to seven words, without bars, and the whole of it in the 22 bytes of the block that
  \<^verbatim>\<open>parseCmd\<close> gives to a part of a line.
\<close>

definition command_ok :: "u8 list list \<Rightarrow> bool" where
  "command_ok ws \<longleftrightarrow> ws \<noteq> [] \<and> length ws < 8 \<and> length (line_of ws) < 22 \<and> (\<forall>w \<in> set ws. word_ok w \<and> 124 \<notin> set w)"

definition text_of :: "u8 list list \<Rightarrow> u8 list" where
  "text_of ws = butlast (line_of ws)"

lemma text_of_line: "ws \<noteq> [] \<Longrightarrow> text_of ws @ [10] = line_of ws"
proof -
  have "ws \<noteq> [] \<Longrightarrow> line_of ws \<noteq> [] \<and> last (line_of ws) = 10"
    by (induction ws rule: line_of.induct) auto
  then show "ws \<noteq> [] \<Longrightarrow> ?thesis" by (metis append_butlast_last_id text_of_def)
qed

lemma text_of_chars:
  "\<forall>w \<in> set ws. word_ok w \<and> 124 \<notin> set w \<Longrightarrow> c \<in> set (text_of ws) \<Longrightarrow> c \<notin> {0, 10, 124}"
proof (induction ws rule: line_of.induct)
  case (3 w v ws)
  have "text_of (w # v # ws) = w @ 32 # text_of (v # ws)"
    using text_of_line [of "v # ws"] by (auto simp: text_of_def butlast_append)
  then show ?case using 3 by (auto simp: word_ok_def)
qed (auto simp: text_of_def word_ok_def)

lemma text_of_stage: "command_ok ws \<Longrightarrow> stage_ok (text_of ws)"
proof -
  assume a: "command_ok ws"
  then obtain w ws' where w: "ws = w # ws'" "word_ok w" by (cases ws) (auto simp: command_ok_def)
  obtain d q where d: "line_of ws @ [0] = d # q" "d \<noteq> 32" "d \<noteq> 9" using line_of_first [of w ws' "[]"] w by auto
  have t: "text_of ws @ [10] = line_of ws" using text_of_line w(1) by simp
  have "text_of ws \<noteq> []"
  proof
    assume "text_of ws = []"
    then have "line_of ws = [10]" using t by simp
    then show False using w by (cases ws'; cases w) (auto simp: word_ok_def)
  qed
  moreover have "text_of ws ! 0 = d" using calculation d(1) unfolding t [symmetric] by (cases "text_of ws") auto
  moreover have "length (text_of ws) < 21" using a unfolding command_ok_def t [symmetric] by simp
  moreover have "\<forall>c \<in> set (text_of ws). c \<notin> {0, 10, 124}" using text_of_chars a unfolding command_ok_def by blast
  ultimately show "stage_ok (text_of ws)" using d(2,3) by (simp add: stage_ok_def)
qed

lemma execLine_text:
  "command_ok ws \<Longrightarrow> execLine (text_of ws @ 10 # 0 # r) = Inr (Command (map pad ws))"
  by (rule execLine_command [OF text_of_stage text_of_line]) (auto simp: command_ok_def)

text \<open>The value of \<^verbatim>\<open>PATH\<close> and the prompt, whatever the uninitialised arrays hold.\<close>

definition path_var :: "junk \<Rightarrow> shell \<Rightarrow> u8 list list \<Rightarrow> bool" where
  "path_var j st ds \<longleftrightarrow>
     (\<forall>n. \<exists>v. parsePATH (s_envp st) (j_vars (j n)) = Inr v \<and> terminated (v_path v) \<and> cstr (v_path v) = path_of ds)"

definition prompt_var :: "junk \<Rightarrow> shell \<Rightarrow> u8 list \<Rightarrow> u8 list \<Rightarrow> bool" where
  "prompt_var j st cwd ps \<longleftrightarrow>
     (\<forall>n. \<exists>b. setPS1 (j_vars (j n)) cwd (s_ps1 st) (s_envp st) = Inr b \<and> terminated b \<and> cstr b = ps)"

lemma run_line_program:
  assumes "command_ok (w # ws)" "\<not> builtin w" "path_var j st ds"
  obtains path where "terminated path" "cstr path = path_of ds"
    "\<And>rs. run_line j fuel (text_of (w # ws) @ 10 # 0 # r) st \<lparr>w_replies = rs, w_trace = t\<rparr> =
       sbind (execBin (j_name (j (length t))) (j_path (j (length t))) (pad w) path (arg_at (map pad (w # ws)) 1)) (\<lambda>_. sret st)
         \<lparr>w_replies = rs, w_trace = t\<rparr>"
proof -
  obtain v where v: "parsePATH (s_envp st) (j_vars (j (length t))) = Inr v" "terminated (v_path v)" "cstr (v_path v) = path_of ds"
    using assms(3) unfolding path_var_def by blast
  have "execCmd_action (map pad (w # ws)) = Inr (Run_binary (pad w))"
    using execCmd_program [of w] assms(1,2) by (simp add: command_ok_def)
  then show ?thesis
    using v(1) execLine_text [OF assms(1)]
    by (intro that [OF v(2,3)], subst run_line.simps) (simp add: bind_run run_cmd.simps)
qed

text \<open>What a round of \<^verbatim>\<open>main\<close> does up to the line: the prompt, the input, and the line end behind it.\<close>

lemma main_round_line:
  assumes "prompt_var j st (r_buf cwd) ps" "r_buf l = s @ 0 # x" "0 \<notin> set s" "s \<noteq> []" "length s < 176" "177 \<le> length input"
  obtains r where "\<And>rs t. main_round j fuel input st \<lparr>w_replies = cwd # l # rs, w_trace = t\<rparr> =
    run_line j fuel (s @ 10 # 0 # r) st \<lparr>w_replies = rs, w_trace = t @ [Getcwd, Print (chars ''['' @ ps @ chars '']$ ''), Scan]\<rparr>"
proof -
  let ?b = "replicate 177 0 @ drop 177 input"
  let ?r = "drop (Suc (Suc (length s))) ?b"
  have m: "memset input 0 177 = Inr ?b"
    using assms(6) by (simp add: memset_def memset_loop_ok to_char_def)
  have c: "strcpy ?b (r_buf l) = Inr (s @ 0 # drop (Suc (length s)) ?b)"
    using assms(2,3,5,6) strcpy_spec [of "r_buf l" ?b] by simp
  have d: "drop (Suc (length s)) ?b = ?b ! Suc (length s) # ?r" using assms(5,6) by (intro Cons_nth_drop_Suc [symmetric]) simp
  have n: "strlen (s @ 0 # drop (Suc (length s)) ?b) = Inr (length s)" using assms(3) by (simp add: strlen_spec)
  have wr: "bindr (wr (s @ 0 # drop (Suc (length s)) ?b) (length s) 10) (\<lambda>b. wr b (length s + 1) 0) = Inr (s @ 10 # 0 # ?r)"
    unfolding d by (simp add: wr_def list_update_append)
  have "main_round j fuel input st \<lparr>w_replies = cwd # l # rs, w_trace = t\<rparr> =
    run_line j fuel (s @ 10 # 0 # ?r) st \<lparr>w_replies = rs, w_trace = t @ [Getcwd, Print (chars ''['' @ ps @ chars '']$ ''), Scan]\<rparr>" for rs t
  proof -
    obtain b where b: "setPS1 (j_vars (j (length t + 1))) (r_buf cwd) (s_ps1 st) (s_envp st) = Inr b" "terminated b" "cstr b = ps"
      using assms(1) unfolding prompt_var_def by blast
    show ?thesis
      using b m c n wr assms(4) by (simp add: main_round_def bind_run c_chars_string)
  qed
  then show ?thesis by (rule that)
qed

text \<open>A program typed at the prompt.\<close>

definition prompt_calls :: "u8 list \<Rightarrow> call list" where
  "prompt_calls ps = [Getcwd, Print (chars ''['' @ ps @ chars '']$ ''), Scan]"

lemma main_program:
  assumes "command_ok (w # ws)" "\<not> builtin w" "path_var j st ds"
    and "prompt_var j st (r_buf cwd) ps" "r_buf l = text_of (w # ws) @ 0 # x" "177 \<le> length input"
  obtains path k where "terminated path" "cstr path = path_of ds"
    "\<And>rs. main_round j fuel input st \<lparr>w_replies = cwd # l # rs, w_trace = t\<rparr> =
       sbind (execBin (j_name (j k)) (j_path (j k)) (pad w) path (arg_at (map pad (w # ws)) 1)) (\<lambda>_. sret st)
         \<lparr>w_replies = rs, w_trace = t @ prompt_calls ps\<rparr>"
proof -
  have s: "0 \<notin> set (text_of (w # ws))" "text_of (w # ws) \<noteq> []" "length (text_of (w # ws)) < 176"
    using text_of_stage [OF assms(1)] by (auto simp: stage_ok_def)
  obtain r where r: "\<And>rs t. main_round j fuel input st \<lparr>w_replies = cwd # l # rs, w_trace = t\<rparr> =
      run_line j fuel (text_of (w # ws) @ 10 # 0 # r) st \<lparr>w_replies = rs, w_trace = t @ prompt_calls ps\<rparr>"
    using main_round_line [OF assms(4,5) s assms(6)] unfolding prompt_calls_def by blast
  show ?thesis
    by (rule run_line_program [OF assms(1-3), where t = "t @ prompt_calls ps" and fuel = fuel and r = r]) (rule that, simp_all add: r)
qed

section \<open>Pipelines\<close>

lemma parseCmd_stage: "command_ok ws \<Longrightarrow> parseCmd (stage_buf (text_of ws)) 32 = Inr (map pad ws)"
  using parseCmd_line [of ws] text_of_line [of ws]
  by (auto simp: command_ok_def stage_buf_end [OF text_of_stage] simp del: append_assoc)

text \<open>A stage up to its fork; the first one makes the pipe.\<close>

lemma pipe_cmd_run:
  assumes "command_ok (w # ws)" "path_var j st ds" "\<And>n. length (j_name (j n)) = 30"
    and "if i = 0 then rs = p # rs' \<and> u = t @ [Pipe] \<and> st' = st\<lparr>s_pfd := r_fds p\<rparr> else rs = rs' \<and> u = t \<and> st' = st"
  obtains path r where "terminated path" "cstr path = path_of ds"
    "execute_pipe_cmd j (stage_buf (text_of (w # ws))) i cnt st \<lparr>w_replies = rs, w_trace = t\<rparr> =
       sbind (do_call Fork) (\<lambda>childpid.
         if r_val childpid = 0 then
           sbind (dups (stage_dups i cnt (fst (s_pfd st')) (snd (s_pfd st')))) (\<lambda>_.
             search_loop (exit_sh 0) (exit_sh 0) path (length (path_of ds)) (w @ 0 # r) 0)
         else sbind (do_call (Waitpid (r_val childpid))) (\<lambda>_. sret st')) \<lparr>w_replies = rs', w_trace = u\<rparr>"
proof -
  obtain v where v: "parsePATH (s_envp st) (j_vars (j (length t))) = Inr v" "terminated (v_path v)" "cstr (v_path v) = path_of ds"
    using assms(2) unfolding path_var_def by blast
  have w: "word_ok w" using assms(1) by (simp add: command_ok_def)
  then have "w \<noteq> [32]" "w \<noteq> []" "length w < 22" by (auto simp: word_ok_def)
  then have "streq (pad w) '' '' = Inr False" "strlen (pad w) = Inr (length w)"
      "strcpy (j_name (j (length t))) (pad w) = Inr (w @ 0 # drop (Suc (length w)) (j_name (j (length t))))"
    using pad_string [OF w] assms(3) by (simp_all add: streq_spec strlen_spec strcpy_spec)
  moreover have "strlen (v_path v) = Inr (length (path_of ds))" using v(2,3) by (simp add: strlen_spec)
  ultimately have "execute_pipe_cmd j (stage_buf (text_of (w # ws))) i cnt st \<lparr>w_replies = rs, w_trace = t\<rparr> =
       sbind (do_call Fork) (\<lambda>childpid.
         if r_val childpid = 0 then
           sbind (dups (stage_dups i cnt (fst (s_pfd st')) (snd (s_pfd st')))) (\<lambda>_.
             search_loop (exit_sh 0) (exit_sh 0) (v_path v) (length (path_of ds)) (w @ 0 # drop (Suc (length w)) (j_name (j (length t)))) 0)
         else sbind (do_call (Waitpid (r_val childpid))) (\<lambda>_. sret st')) \<lparr>w_replies = rs', w_trace = u\<rparr>"
    using v(1) parseCmd_stage [OF assms(1)] assms(4) \<open>w \<noteq> []\<close>
    by (cases "i = 0") (simp_all add: execute_pipe_cmd_def bind_run bind_eqs arg_at_def deref_def cong: if_cong)
  then show ?thesis by (rule that [OF v(2,3)])
qed

lemma pipe_cmd_parent:
  assumes "command_ok ws" "path_var j st ds" "\<And>n. length (j_name (j n)) = 30" "r_val f \<noteq> 0"
  shows "execute_pipe_cmd j (stage_buf (text_of ws)) 0 cnt st \<lparr>w_replies = p # f # g # rs, w_trace = t\<rparr> =
           (Inr (st\<lparr>s_pfd := r_fds p\<rparr>), \<lparr>w_replies = rs, w_trace = t @ [Pipe, Fork, Waitpid (r_val f)]\<rparr>)"
    and "i \<noteq> 0 \<Longrightarrow> execute_pipe_cmd j (stage_buf (text_of ws)) i cnt st \<lparr>w_replies = f # g # rs, w_trace = t\<rparr> =
           (Inr st, \<lparr>w_replies = rs, w_trace = t @ [Fork, Waitpid (r_val f)]\<rparr>)"
proof -
  obtain w ws' where ws: "ws = w # ws'" using assms(1) by (cases ws) (simp_all add: command_ok_def)
  show "execute_pipe_cmd j (stage_buf (text_of ws)) 0 cnt st \<lparr>w_replies = p # f # g # rs, w_trace = t\<rparr> =
           (Inr (st\<lparr>s_pfd := r_fds p\<rparr>), \<lparr>w_replies = rs, w_trace = t @ [Pipe, Fork, Waitpid (r_val f)]\<rparr>)"
    unfolding ws
    by (rule pipe_cmd_run [OF assms(1) [unfolded ws] assms(2,3), where i = 0 and cnt = cnt and rs = "p # f # g # rs"
          and p = p and rs' = "f # g # rs" and t = t and u = "t @ [Pipe]" and st' = "st\<lparr>s_pfd := r_fds p\<rparr>"])
      (simp_all add: assms(4) bind_run sret_def)
  show "execute_pipe_cmd j (stage_buf (text_of ws)) i cnt st \<lparr>w_replies = f # g # rs, w_trace = t\<rparr> =
           (Inr st, \<lparr>w_replies = rs, w_trace = t @ [Fork, Waitpid (r_val f)]\<rparr>)" if "i \<noteq> 0"
    unfolding ws
    by (rule pipe_cmd_run [OF assms(1) [unfolded ws] assms(2,3), where i = i and cnt = cnt and rs = "f # g # rs"
          and rs' = "f # g # rs" and t = t and u = t and st' = st])
      (simp_all add: assms(4) that bind_run sret_def)
qed

text \<open>The replies to the shell, and its calls, for the stages that are forked and waited for one by one.\<close>

definition stage_replies :: "(reply \<times> reply) list \<Rightarrow> reply list" where
  "stage_replies fgs = concat (map (\<lambda>(f, g). [f, g]) fgs)"

definition stage_calls :: "(reply \<times> reply) list \<Rightarrow> call list" where
  "stage_calls fgs = concat (map (\<lambda>(f, g). [Fork, Waitpid (r_val f)]) fgs)"

lemma run_stages_rest:
  assumes "\<forall>ws \<in> set wss. command_ok ws" "path_var j st ds" "\<And>n. length (j_name (j n)) = 30"
    and "length fgs = length wss" "\<forall>(f, g) \<in> set fgs. r_val f \<noteq> 0" "i \<noteq> 0"
  shows "run_stages j (map (\<lambda>(k, l). Some (stage_buf l, k, cnt)) (enumerate i (map text_of wss))) st
           \<lparr>w_replies = stage_replies fgs @ rs, w_trace = t\<rparr> = (Inr st, \<lparr>w_replies = rs, w_trace = t @ stage_calls fgs\<rparr>)"
  using assms
proof (induction wss arbitrary: i fgs t)
  case Nil
  then show ?case by (simp add: sret_def stage_replies_def stage_calls_def)
next
  case (Cons ws wss)
  obtain f g fgs' where f: "fgs = (f, g) # fgs'" "r_val f \<noteq> 0" using Cons.prems(4,5) by (cases fgs) auto
  note step = pipe_cmd_parent(2) [of ws j st ds f, OF _ Cons.prems(2,3) f(2) Cons.prems(6)]
  show ?case
    using Cons.prems f step Cons.IH [of fgs' "Suc i"] by (simp add: sbind_Inr stage_replies_def stage_calls_def)
qed

lemma path_var_pfd [simp]: "path_var j (st\<lparr>s_pfd := p\<rparr>) ds = path_var j st ds"
  by (simp add: path_var_def)

lemma dups_run:
  "length es = length ds \<Longrightarrow> dups ds \<lparr>w_replies = es @ rs, w_trace = t\<rparr> =
     (Inr (), \<lparr>w_replies = rs, w_trace = t @ map (\<lambda>(a, b). Dup2 a b) ds\<rparr>)"
proof (induction ds arbitrary: es t rule: dups.induct)
  case (2 a b ds)
  then obtain e es' where "es = e # es'" by (cases es) simp_all
  then show ?case using 2 by (simp add: bind_run)
qed (simp add: sret_def)

lemma dups_bind:
  "length es = length ds \<Longrightarrow> sbind (dups ds) k \<lparr>w_replies = es @ rs, w_trace = t\<rparr> =
     k () \<lparr>w_replies = rs, w_trace = t @ map (\<lambda>(a, b). Dup2 a b) ds\<rparr>"
  by (simp add: sbind_def dups_run)

lemma pipe_cmd_child:
  assumes "command_ok (w # ws)" "255 \<notin> set w" "path_var j st ds" "\<And>n. length (j_name (j n)) = 30"
    and "\<forall>d \<in> set ds. dir_ok d" "ds \<noteq> []" "length (path_of ds) < 230" "\<forall>r \<in> set rs. r_val r \<noteq> 0" "r_val f = 0"
    and "fds = (if i = 0 then r_fds p else s_pfd st)" "dd = stage_dups i cnt (fst fds) (snd fds)" "length es = length dd"
  shows "execute_pipe_cmd j (stage_buf (text_of (w # ws))) i cnt st \<lparr>w_replies = (if i = 0 then [p] else []) @ f # es @ rs, w_trace = t\<rparr> =
           tries (map (in_dir w) ds) rs (t @ (if i = 0 then [Pipe] else []) @ Fork # map (\<lambda>(a, b). Dup2 a b) dd) [] 0"
proof (rule pipe_cmd_run [OF assms(1,3,4), where i = i and cnt = cnt and rs = "(if i = 0 then [p] else []) @ f # es @ rs"
      and p = p and rs' = "f # es @ rs" and t = t and u = "t @ (if i = 0 then [Pipe] else [])" and st' = "st\<lparr>s_pfd := fds\<rparr>"])
  have w: "\<forall>c \<in> set w. c \<notin> {0, 10, 255}" "length w < 22" using assms(1,2) by (auto simp: command_ok_def word_ok_def)
  fix path r
  assume path: "terminated path" "cstr path = path_of ds"
    and run: "execute_pipe_cmd j (stage_buf (text_of (w # ws))) i cnt st \<lparr>w_replies = (if i = 0 then [p] else []) @ f # es @ rs, w_trace = t\<rparr> =
       sbind (do_call Fork) (\<lambda>childpid.
         if r_val childpid = 0 then
           sbind (dups (stage_dups i cnt (fst (s_pfd (st\<lparr>s_pfd := fds\<rparr>))) (snd (s_pfd (st\<lparr>s_pfd := fds\<rparr>))))) (\<lambda>_.
             search_loop (exit_sh 0) (exit_sh 0) path (length (path_of ds)) (w @ 0 # r) 0)
         else sbind (do_call (Waitpid (r_val childpid))) (\<lambda>_. sret (st\<lparr>s_pfd := fds\<rparr>)))
       \<lparr>w_replies = f # es @ rs, w_trace = t @ (if i = 0 then [Pipe] else [])\<rparr>"
  obtain q where q: "path = path_of ds @ 0 # q" using terminated_split [OF path(1)] path(2) by metis
  have "search_loop (exit_sh 0) (exit_sh 0 :: shell sh) path (length (path_of ds)) (w @ 0 # r) 0 \<lparr>w_replies = rs, w_trace = u\<rparr> =
      tries (map (in_dir w) ds) rs u [] 0" for u
    unfolding q using assms(7) w(2) by (intro search_path assms(5,6,8) w(1)) (simp_all add: bind_run)
  then show ?thesis
    unfolding run using assms(9) by (simp add: bind_run assms(11) [symmetric] dups_bind [OF assms(12)])
qed (simp add: assms(10))

lemma execLine_pipeline:
  assumes "\<forall>ws \<in> set wss. command_ok ws" "2 \<le> length wss" "length wss < 8"
  shows "execLine (bar_line (map text_of wss) @ 0 # r) =
           Inr (Pipeline (map (\<lambda>(k, l). Some (stage_buf l, k, length wss)) (enumerate 0 (map text_of wss))))"
proof -
  have "\<forall>l \<in> set (map text_of wss). stage_ok l" using assms(1) text_of_stage by auto
  moreover have "wss \<noteq> []" using assms(2) by auto
  ultimately show ?thesis using execLine_bars [of "map text_of wss" r] stages_all assms(2,3) by (auto simp del: map_map)
qed

section \<open>Scripts\<close>

text \<open>The bytes of a line go into the buffer one by one, each with a call.\<close>

lemma script_chars:
  assumes "10 \<notin> set (map r_byte bs)" "\<forall>b \<in> set bs. r_val b \<noteq> 0" "length p + length bs \<le> 200"
  shows "read_script j (fuel + length bs) fd (p @ replicate (200 - length p) 0) (length p) st \<lparr>w_replies = bs @ rs, w_trace = t\<rparr> =
           read_script j fuel fd (p @ map r_byte bs @ replicate (200 - length p - length bs) 0) (length p + length bs) st
             \<lparr>w_replies = rs, w_trace = t @ replicate (length bs) (Read fd)\<rparr>"
  using assms
proof (induction bs arbitrary: p t)
  case (Cons b bs)
  have "replicate (200 - length p) (0 :: u8) = 0 # replicate (200 - length (p @ [r_byte b])) 0"
    using Cons.prems(3) by (cases "200 - length p") auto
  then have "wr (p @ replicate (200 - length p) 0) (length p) (r_byte b) = Inr ((p @ [r_byte b]) @ replicate (200 - length (p @ [r_byte b])) 0)"
    using Cons.prems(3) by (simp add: wr_def)
  then have "read_script j (fuel + length (b # bs)) fd (p @ replicate (200 - length p) 0) (length p) st \<lparr>w_replies = (b # bs) @ rs, w_trace = t\<rparr> =
      read_script j (fuel + length bs) fd ((p @ [r_byte b]) @ replicate (200 - length (p @ [r_byte b])) 0) (length (p @ [r_byte b])) st
        \<lparr>w_replies = bs @ rs, w_trace = t @ [Read fd]\<rparr>"
    using Cons.prems(1,2) by (subst read_script.simps) (auto simp: bind_run)
  also have "\<dots> = read_script j fuel fd ((p @ [r_byte b]) @ map r_byte bs @ replicate (200 - length (p @ [r_byte b]) - length bs) 0)
      (length (p @ [r_byte b]) + length bs) st \<lparr>w_replies = rs, w_trace = (t @ [Read fd]) @ replicate (length bs) (Read fd)\<rparr>"
    using Cons.prems by (intro Cons.IH) simp_all
  finally show ?case by simp
qed simp

lemma streq_hashbang:
  assumes "0 \<notin> set l" "length l < 199"
  shows "streq (l @ 10 # replicate (199 - length l) 0) ''#!'' = Inr False"
proof -
  have "199 - length l = Suc (198 - length l)" using assms(2) by simp
  then have "terminated (l @ 10 # replicate (199 - length l) 0)" using terminated_append [of "l @ [10]"] by simp
  moreover have "cstr (l @ 10 # replicate (199 - length l) 0) = l @ [10]" using cstr_zeros [of "l @ [10]"] assms(1) by simp
  moreover have "l @ [10] \<noteq> [35, 33]" by (cases l rule: rev_cases) auto
  ultimately show ?thesis by (simp add: streq_spec)
qed

lemma script_line:
  assumes "10 \<notin> set l" "0 \<notin> set l" "length l < 199" "map r_byte bs = l @ [10]" "\<forall>b \<in> set bs. r_val b \<noteq> 0"
  shows "read_script j (fuel + length bs) fd (replicate 200 0) 0 st \<lparr>w_replies = bs @ rs, w_trace = t\<rparr> =
           sbind (run_line j fuel (l @ 10 # replicate (199 - length l) 0) st) (read_script j fuel fd (replicate 200 0) 0)
             \<lparr>w_replies = rs, w_trace = t @ replicate (length bs) (Read fd)\<rparr>"
proof -
  let ?b = "l @ 10 # replicate (199 - length l) 0"
  obtain cs c where bs: "bs = cs @ [c]" "map r_byte cs = l" "r_byte c = 10" using assms(4) by (auto simp: map_eq_append_conv)
  have len: "length cs = length l" using bs(2) by auto
  have n: "200 - length l = Suc (199 - length l)" "199 - length l = Suc (198 - length l)" using assms(3) by simp_all
  have "read_script j (fuel + length bs) fd (replicate 200 0) 0 st \<lparr>w_replies = bs @ rs, w_trace = t\<rparr> =
      read_script j (Suc fuel) fd (l @ replicate (200 - length l) 0) (length l) st
        \<lparr>w_replies = c # rs, w_trace = t @ replicate (length l) (Read fd)\<rparr>"
    using script_chars [of cs "[]" j "Suc fuel" fd st "c # rs" t] assms(1,3,5) bs len by simp
  moreover have "wr (l @ replicate (200 - length l) 0) (length l) 10 = Inr ?b" "wr ?b (length l + 1) 0 = Inr ?b"
    using n by (simp_all add: wr_def list_update_append)
  ultimately show ?thesis
    using bs(1,3) len assms(5) streq_hashbang [OF assms(2,3)]
    by (simp add: read_script.simps [of _ "Suc fuel"] bind_run replicate_append_same)
qed

end
