(* ===== verification/Shell_Claims.thy ===== *)
theory Shell_Claims
  imports Shell_Calls
begin

text \<open>The properties of the shell: words of a line, the lines of a script and what it asks of the kernel.\<close>

section \<open>Splitting a line into words\<close>

text \<open>
  Splitting undoes joining: for up to seven words of up to 21 characters, without blanks, \<^verbatim>\<open>parseCmd\<close> of
  the line that has them one blank apart returns exactly these words.
\<close>

theorem parseCmd_splits:
  assumes "\<forall>w \<in> set ws. word_ok w" "ws \<noteq> []" "length ws < 8"
  shows "\<exists>argv. parseCmd (line_of ws @ [0]) 32 = Inr argv \<and> map cstr argv = ws"
proof -
  have "cstr (pad w) = w" if "w \<in> set ws" for w
    using assms(1) that cstr_zeros [of w "22 - length w"] by (auto simp: word_ok_def pad_def)
  then show ?thesis using parseCmd_line [OF assms(1,2)] assms(3) by (simp add: map_idI)
qed

theorem parseCmd_splits_witness:
  "\<exists>argv. parseCmd [108, 115, 32, 45, 108, 10, 0] 32 = Inr argv \<and> map cstr argv = [[108, 115], [45, 108]]"
  using parseCmd_splits [of "[[108, 115], [45, 108]]"] by (simp add: word_ok_def)

text \<open>
  C39. A line of eight words or more makes \<^verbatim>\<open>parseCmd\<close> write a pointer behind its array of eight.
\<close>

theorem parseCmd_overflow:
  assumes "\<forall>w \<in> set ws. word_ok w" "8 \<le> length ws"
  shows "parseCmd (line_of ws @ [0]) 32 = Inl Out_of_bounds"
  using parseCmd_line [OF assms(1)] assms(2) by (cases ws) simp_all

theorem parseCmd_overflow_witness: "parseCmd (line_of (replicate 8 [97]) @ [0]) 32 = Inl Out_of_bounds"
  using parseCmd_overflow [of "replicate 8 [97]"] by (simp add: word_ok_def)

section \<open>A machine state\<close>

text \<open>The shell as \<^verbatim>\<open>main\<close> sets it up, with cleared memory.\<close>

definition clear_vars :: vars where
  "clear_vars = \<lparr>v_home = replicate 128 0, v_path = replicate 256 0, v_user = replicate 22 0, v_hostname = replicate 22 0\<rparr>"

definition clear_junk :: junk where
  "clear_junk n = \<lparr>j_vars = clear_vars, j_set = clear_vars, j_name = replicate 30 0, j_path = replicate 30 0\<rparr>"

definition first_shell :: shell where
  "first_shell = \<lparr>s_ps1 = lit [CHR 0x5C, CHR ''w''], s_last_path = lit ''/'',
     s_envp = [lit ''HOSTNAME=sbrocks'', lit ''USER=root'', lit ''HOME=bin'', lit ''PATH=rootfs/bin/:bin/:mnt/'', [0], [0], [0], [0]], s_pfd = (0, 0)\<rparr>"

definition first_dirs :: "u8 list list" where
  "first_dirs = [chars ''rootfs/bin/'', chars ''bin/'', chars ''mnt/'']"

definition rep :: "int \<Rightarrow> u8 list \<Rightarrow> reply" where
  "rep v b = \<lparr>r_val = v, r_buf = b, r_byte = 0, r_fds = (3, 4)\<rparr>"

lemma first_vars:
  "parsePATH (s_envp first_shell) clear_vars =
     Inr \<lparr>v_home = chars ''bin'' @ replicate 125 0, v_path = path_of first_dirs @ replicate 235 0,
       v_user = chars ''root'' @ replicate 18 0, v_hostname = chars ''sbrocks'' @ replicate 15 0\<rparr>"
  by code_simp

lemma first_path: "path_var clear_junk first_shell first_dirs"
proof -
  have "terminated (path_of first_dirs @ replicate 235 0)" "cstr (path_of first_dirs @ replicate 235 0) = path_of first_dirs"
    by code_simp+
  then show ?thesis unfolding path_var_def clear_junk_def by (simp add: first_vars)
qed

lemma first_prompt: "prompt_var clear_junk first_shell (lit ''/'') (chars ''/'')"
proof -
  have "setPS1 clear_vars (lit ''/'') (s_ps1 first_shell) (s_envp first_shell) = Inr (chars ''/'' @ replicate 127 0)"
    "terminated (chars ''/'' @ replicate 127 0)" "cstr (chars ''/'' @ replicate 127 0) = chars ''/''"
    by code_simp+
  then show ?thesis unfolding prompt_var_def clear_junk_def by simp
qed

lemma first_dirs_ok: "\<forall>d \<in> set first_dirs. dir_ok d" "first_dirs \<noteq> []" "length (path_of first_dirs) < 30"
  by code_simp+

section \<open>The shell never loops on its own\<close>

lemma live_shell_init: "length (w_replies w) \<le> n \<Longrightarrow> live n (shell_init ps blocks) w"
  unfolding shell_init_def by (auto intro!: live_intros)

text \<open>
  C37. The shell does not loop without asking the kernel for something: on any finite list of replies, \<^verbatim>\<open>main\<close> with its loop,
  its scripts and the scripts these run comes to an end within as many rounds as there are replies. It exits, waits for the
  next reply, or faults.
\<close>

theorem shell_terminates:
  assumes "length (w_replies w) < fuel"
  shows "\<exists>s w'. main_sh j fuel input ps blocks w = (Inl s, w') \<and> s \<noteq> No_fuel"
proof -
  have "live (length (w_replies w)) (shell_init ps blocks) w" by (simp add: live_shell_init)
  then consider s w' where "shell_init ps blocks w = (Inl s, w')" "s \<noteq> No_fuel"
    | st w' where "shell_init ps blocks w = (Inr st, w')" "length (w_replies w') \<le> length (w_replies w)"
    unfolding live_def by (metis fst_conv obj_sumE surj_pair)
  then show ?thesis
  proof cases
    case (2 st w')
    then show ?thesis using main_loop_stops [of w' fuel j input st] assms by (simp add: main_sh_def sbind_def)
  qed (simp add: main_sh_def sbind_def)
qed

theorem shell_terminates_witness:
  "\<exists>s w'. main_sh clear_junk 3 (replicate 177 0) (replicate 128 0) (replicate 8 (replicate 512 0))
     \<lparr>w_replies = [rep 0 (lit ''/''), rep 0 (lit ''/'')], w_trace = []\<rparr> = (Inl s, w') \<and> s \<noteq> No_fuel"
  by (rule shell_terminates) simp

section \<open>Programs\<close>

text \<open>
  C34. Running a program from the prompt: after the prompt and a line whose first word is not a command of the shell's own, the shell
  forks once. The child tries the word as given and then in each directory of \<^verbatim>\<open>PATH\<close>, in order, with a slash between where
  the directory has none, until a call of \<^verbatim>\<open>execve\<close> does not return; when all are refused it reports that the command is not found
  and exits. The parent waits for the child, unless the second word is an ampersand, and keeps its state.
\<close>

theorem main_runs_program:
  assumes "command_ok (w # ws)" "\<not> builtin w" "255 \<notin> set w"
    and "path_var j st ds" "\<forall>d \<in> set ds. dir_ok d" "ds \<noteq> []" "length (path_of ds) < 30"
    and "\<forall>n. length (j_name (j n)) = 30 \<and> length (j_path (j n)) = 30"
    and "prompt_var j st (r_buf cwd) ps" "r_buf l = text_of (w # ws) @ 0 # x" "177 \<le> length input"
  shows "(r_val f = 0 \<and> (\<forall>r \<in> set rs. r_val r \<noteq> 0) \<longrightarrow>
           main_round j fuel input st \<lparr>w_replies = cwd # l # f # rs, w_trace = t\<rparr> =
             tries (w # map (in_dir w) ds) rs (t @ prompt_calls ps @ [Fork]) [Print (w @ chars ('': command not found.'' @ [CHR 0x0A]))] 0) \<and>
         (r_val f \<noteq> 0 \<longrightarrow>
           main_round j fuel input st \<lparr>w_replies = cwd # l # f # g # rs, w_trace = t\<rparr> =
             (if ws \<noteq> [] \<and> ws ! 0 = chars ''&'' then (Inr st, \<lparr>w_replies = g # rs, w_trace = t @ prompt_calls ps @ [Fork]\<rparr>)
              else (Inr st, \<lparr>w_replies = rs, w_trace = t @ prompt_calls ps @ [Fork, Waitpid (r_val f)]\<rparr>)))"
proof -
  obtain path k where path: "terminated path" "cstr path = path_of ds" and run: "\<And>rs. main_round j fuel input st \<lparr>w_replies = cwd # l # rs, w_trace = t\<rparr> =
      sbind (execBin (j_name (j k)) (j_path (j k)) (pad w) path (arg_at (map pad (w # ws)) 1)) (\<lambda>_. sret st)
        \<lparr>w_replies = rs, w_trace = t @ prompt_calls ps\<rparr>"
    using main_program [OF assms(1,2,4,9-11)] by blast
  have w: "word_ok w" using assms(1) by (simp add: command_ok_def)
  then have chars: "\<forall>c \<in> set w. c \<notin> {0, 10, 255}" "length w < 30" using assms(3) by (auto simp: word_ok_def)
  have bg: "(\<exists>c. arg_at (map pad (w # ws)) 1 = Some c \<and> cstr c = chars ''&'') \<longleftrightarrow> ws \<noteq> [] \<and> ws ! 0 = chars ''&''"
    "\<And>c. arg_at (map pad (w # ws)) 1 = Some c \<Longrightarrow> terminated c"
    using assms(1) pad_string by (cases ws; auto simp: arg_at_def command_ok_def)+
  have "main_round j fuel input st \<lparr>w_replies = cwd # l # f # rs, w_trace = t\<rparr> =
      tries (w # map (in_dir w) ds) rs ((t @ prompt_calls ps) @ [Fork]) [Print (w @ chars ('': command not found.'' @ [CHR 0x0A]))] 0"
    if "r_val f = 0" "\<forall>r \<in> set rs. r_val r \<noteq> 0"
    unfolding run using assms(8) pad_string [OF w] path that
    by (intro sbind_tries execBin_child assms(5-7) chars) simp_all
  then show ?thesis
    using run assms(7,8) pad_string [OF w] path chars(2) bg
      execBin_parent [of "pad w" path "j_name (j k)" "j_path (j k)" f "arg_at (map pad (w # ws)) 1" g rs "t @ prompt_calls ps"]
    by (auto simp: sbind_def sret_def)
qed

theorem main_runs_program_witness:
  "main_round clear_junk 9 (replicate 177 0) first_shell
       \<lparr>w_replies = [rep 0 (lit ''/''), rep 0 (lit ''ls''), rep 0 [], rep (-1) [], rep (-1) []], w_trace = []\<rparr> =
     (Inl Waiting, \<lparr>w_replies = [], w_trace = prompt_calls (chars ''/'') @ [Fork, Execve (chars ''ls''),
        Execve (chars ''rootfs/bin/ls''), Execve (chars ''bin/ls'')]\<rparr>)"
proof -
  have "command_ok [chars ''ls'']" "\<not> builtin (chars ''ls'')" "255 \<notin> set (chars ''ls'')"
    "\<forall>n. length (j_name (clear_junk n)) = 30 \<and> length (j_path (clear_junk n)) = 30"
    by (simp_all add: command_ok_def word_ok_def chars_def builtin_def clear_junk_def)
  note prog = main_runs_program [OF this(1-3) first_path first_dirs_ok this(4), where cwd = "rep 0 (lit ''/'')" and l = "rep 0 (lit ''ls'')"
      and x = "[]" and ps = "chars ''/''" and f = "rep 0 []" and input = "replicate 177 0" and fuel = 9
      and rs = "[rep (-1) [], rep (-1) []]" and t = "[]"]
  show ?thesis
    using prog first_prompt by (simp add: rep_def text_of_def lit_def chars_def tries_def in_dir_def first_dirs_def)
qed

section \<open>Pipelines\<close>

text \<open>
  C35. A pipeline of two to seven commands: the shell makes one pipe for all of them, and forks each command and waits for it before it
  forks the next one; its only other change is to remember the descriptors of the pipe.
\<close>

theorem pipeline_stages_in_turn:
  assumes "\<forall>ws \<in> set wss. command_ok ws" "2 \<le> length wss" "length wss < 8"
    and "path_var j st ds" "\<forall>n. length (j_name (j n)) = 30"
    and "length fgs = length wss" "\<forall>(f, g) \<in> set fgs. r_val f \<noteq> 0"
  shows "run_line j fuel (bar_line (map text_of wss) @ 0 # r) st \<lparr>w_replies = p # stage_replies fgs @ rs, w_trace = t\<rparr> =
           (Inr (st\<lparr>s_pfd := r_fds p\<rparr>), \<lparr>w_replies = rs, w_trace = t @ Pipe # stage_calls fgs\<rparr>)"
proof -
  obtain ws wss' where ws: "wss = ws # wss'" using assms(2) by (cases wss) auto
  obtain f g fgs' where f: "fgs = (f, g) # fgs'" "r_val f \<noteq> 0" using assms(6,7) ws by (cases fgs) auto
  have "execute_pipe_cmd j (stage_buf (text_of ws)) 0 (length wss) st \<lparr>w_replies = p # f # g # stage_replies fgs' @ rs, w_trace = t\<rparr> =
      (Inr (st\<lparr>s_pfd := r_fds p\<rparr>), \<lparr>w_replies = stage_replies fgs' @ rs, w_trace = t @ [Pipe, Fork, Waitpid (r_val f)]\<rparr>)"
    using assms(1,4,5) ws f(2) by (intro pipe_cmd_parent) auto
  moreover have "run_stages j (map (\<lambda>(k, l). Some (stage_buf l, k, length wss)) (enumerate 1 (map text_of wss'))) (st\<lparr>s_pfd := r_fds p\<rparr>)
      \<lparr>w_replies = stage_replies fgs' @ rs, w_trace = t @ [Pipe, Fork, Waitpid (r_val f)]\<rparr> =
      (Inr (st\<lparr>s_pfd := r_fds p\<rparr>), \<lparr>w_replies = rs, w_trace = (t @ [Pipe, Fork, Waitpid (r_val f)]) @ stage_calls fgs'\<rparr>)"
    using assms(1,4-7) ws f(1) by (intro run_stages_rest) auto
  ultimately show ?thesis
    using execLine_pipeline [OF assms(1-3)] ws f(1)
    by (simp add: run_line.simps bind_run sbind_Inr stage_replies_def stage_calls_def)
qed

theorem pipeline_stages_in_turn_witness:
  "run_line clear_junk 0 (chars ''ls|wc'' @ [10, 0]) first_shell
       \<lparr>w_replies = [rep 0 [], rep 5 [], rep 0 [], rep 6 [], rep 0 []], w_trace = []\<rparr> =
     (Inr (first_shell\<lparr>s_pfd := (3, 4)\<rparr>), \<lparr>w_replies = [], w_trace = [Pipe, Fork, Waitpid 5, Fork, Waitpid 6]\<rparr>)"
proof -
  have ok: "\<forall>ws \<in> set [[chars ''ls''], [chars ''wc'']]. command_ok ws"
    by (simp add: command_ok_def word_ok_def chars_def)
  have junk: "\<forall>n. length (j_name (clear_junk n)) = 30" by (simp add: clear_junk_def)
  show ?thesis
    using pipeline_stages_in_turn [OF ok _ _ first_path junk, where fgs = "[(rep 5 [], rep 0 []), (rep 6 [], rep 0 [])]"
        and r = "[]" and p = "rep 0 []" and rs = "[]" and t = "[]" and fuel = 0]
    by (simp add: rep_def chars_def text_of_def stage_replies_def stage_calls_def)
qed

text \<open>
  C36. The child of a stage: the first one of a pipeline is redirected to the writing end of the pipe, one in the middle from the
  reading end and to the writing end, and the last one from the reading end; then the name is tried in each directory of \<^verbatim>\<open>PATH\<close>, but, other
  than for a single command, not as given, and when all are refused the child exits without a message.
\<close>

theorem pipeline_stage_runs:
  assumes "command_ok (w # ws)" "255 \<notin> set w" "path_var j st ds" "\<forall>n. length (j_name (j n)) = 30"
    and "\<forall>d \<in> set ds. dir_ok d" "ds \<noteq> []" "length (path_of ds) < 230" "\<forall>r \<in> set rs. r_val r \<noteq> 0" "r_val f = 0"
    and "(rfd, wfd) = (if i = 0 then r_fds p else s_pfd st)"
    and "calls = (if i = 0 then [Dup2 1 wfd] else if i = cnt - 1 then [Dup2 0 rfd, Dup2 wfd 1] else [Dup2 0 rfd, Dup2 1 wfd])"
    and "length es = length calls"
  shows "execute_pipe_cmd j (stage_buf (text_of (w # ws))) i cnt st \<lparr>w_replies = (if i = 0 then [p] else []) @ f # es @ rs, w_trace = t\<rparr> =
           tries (map (in_dir w) ds) rs (t @ (if i = 0 then [Pipe] else []) @ Fork # calls) [] 0"
proof -
  have calls: "calls = map (\<lambda>(a, b). Dup2 a b) (stage_dups i cnt rfd wfd)"
    using assms(11) by (simp add: stage_dups_def)
  show ?thesis unfolding calls
    by (rule pipe_cmd_child [OF assms(1-3) _ assms(5-10)]) (use assms(4,12) calls in simp_all)
qed

theorem pipeline_stage_runs_witness:
  "execute_pipe_cmd clear_junk (stage_buf (chars ''wc'')) 1 2 (first_shell\<lparr>s_pfd := (3, 4)\<rparr>)
       \<lparr>w_replies = [rep 0 [], rep 0 [], rep 0 [], rep (-1) []], w_trace = []\<rparr> =
     (Inl Waiting, \<lparr>w_replies = [], w_trace = [Fork, Dup2 0 3, Dup2 4 1, Execve (chars ''rootfs/bin/wc''), Execve (chars ''bin/wc'')]\<rparr>)"
proof -
  have ok: "command_ok [chars ''wc'']" "255 \<notin> set (chars ''wc'')" "\<forall>n. length (j_name (clear_junk n)) = 30"
    by (simp_all add: command_ok_def word_ok_def chars_def clear_junk_def)
  have path: "path_var clear_junk (first_shell\<lparr>s_pfd := (3, 4)\<rparr>) first_dirs" "length (path_of first_dirs) < 230"
    using first_path first_dirs_ok(3) by simp_all
  show ?thesis
    using pipeline_stage_runs [OF ok(1,2) path(1) ok(3) first_dirs_ok(1,2) path(2), where rs = "[rep (-1) []]" and f = "rep 0 []"
        and i = 1 and cnt = 2 and rfd = 3 and wfd = 4 and es = "[rep 0 [], rep 0 []]" and t = "[]" and calls = "[Dup2 0 3, Dup2 4 1]"]
    by (simp add: rep_def chars_def text_of_def tries_def in_dir_def first_dirs_def)
qed

section \<open>Scripts\<close>

text \<open>
  C38. Scripts: \<^verbatim>\<open>execShell\<close> reads a line of up to 198 characters byte by byte and executes it with its line end before it
  reads on; a line that consists of \<^verbatim>\<open>#!\<close> is executed too, since the test compares it with its line end. At the end of the file it
  returns, and what follows the last line end is dropped.
\<close>

theorem execShell_runs_lines:
  assumes "10 \<notin> set s" "0 \<notin> set s" "length s < 199" "\<forall>b \<in> set bs. r_val b \<noteq> 0"
  shows "(map r_byte bs = s @ [10] \<longrightarrow>
            read_script j (fuel + length bs) fd (replicate 200 0) 0 st \<lparr>w_replies = bs @ rs, w_trace = t\<rparr> =
              sbind (run_line j fuel (s @ 10 # replicate (199 - length s) 0) st) (read_script j fuel fd (replicate 200 0) 0)
                \<lparr>w_replies = rs, w_trace = t @ replicate (length bs) (Read fd)\<rparr>) \<and>
         (map r_byte bs = s \<and> r_val e = 0 \<longrightarrow>
            read_script j (fuel + length bs) fd (replicate 200 0) 0 st \<lparr>w_replies = bs @ e # rs, w_trace = t\<rparr> =
              (Inr st, \<lparr>w_replies = rs, w_trace = t @ replicate (length bs) (Read fd) @ [Read fd]\<rparr>))"
proof (intro conjI impI)
  assume "map r_byte bs = s \<and> r_val e = 0"
  then show "read_script j (fuel + length bs) fd (replicate 200 0) 0 st \<lparr>w_replies = bs @ e # rs, w_trace = t\<rparr> =
      (Inr st, \<lparr>w_replies = rs, w_trace = t @ replicate (length bs) (Read fd) @ [Read fd]\<rparr>)"
    using script_chars [of bs "[]" j fuel fd st "e # rs" t] assms by (auto simp: read_script.simps [of _ fuel] bind_run sret_def)
next
  assume "map r_byte bs = s @ [10]"
  then show "read_script j (fuel + length bs) fd (replicate 200 0) 0 st \<lparr>w_replies = bs @ rs, w_trace = t\<rparr> =
      sbind (run_line j fuel (s @ 10 # replicate (199 - length s) 0) st) (read_script j fuel fd (replicate 200 0) 0)
        \<lparr>w_replies = rs, w_trace = t @ replicate (length bs) (Read fd)\<rparr>"
    using script_line [OF assms(1-3) _ assms(4)] by simp
qed

theorem execShell_runs_lines_witness:
  "read_script clear_junk 7 3 (replicate 200 0) 0 first_shell \<lparr>w_replies = map (\<lambda>c. rep 1 []\<lparr>r_byte := c\<rparr>) (chars ''ls'' @ [10]), w_trace = []\<rparr> =
     sbind (run_line clear_junk 4 (chars ''ls'' @ 10 # replicate 197 0) first_shell) (read_script clear_junk 4 3 (replicate 200 0) 0)
       \<lparr>w_replies = [], w_trace = [Read 3, Read 3, Read 3]\<rparr> \<and>
   read_script clear_junk 6 3 (replicate 200 0) 0 first_shell \<lparr>w_replies = map (\<lambda>c. rep 1 []\<lparr>r_byte := c\<rparr>) (chars ''ls'') @ [rep 0 []], w_trace = []\<rparr> =
     (Inr first_shell, \<lparr>w_replies = [], w_trace = [Read 3, Read 3, Read 3]\<rparr>)"
proof -
  let ?bs = "\<lambda>cs. map (\<lambda>c. rep 1 []\<lparr>r_byte := c\<rparr>) cs"
  have c: "10 \<notin> set (chars ''ls'')" "0 \<notin> set (chars ''ls'')" "length (chars ''ls'') < 199" by (simp_all add: chars_def)
  have b: "\<forall>b \<in> set (?bs cs). r_val b \<noteq> 0" "map r_byte (?bs cs) = cs" for cs by (auto simp: rep_def comp_def)
  have "read_script clear_junk (4 + length (?bs (chars ''ls'' @ [10]))) 3 (replicate 200 0) 0 first_shell \<lparr>w_replies = ?bs (chars ''ls'' @ [10]) @ [], w_trace = []\<rparr> =
      sbind (run_line clear_junk 4 (chars ''ls'' @ 10 # replicate (199 - length (chars ''ls'')) 0) first_shell) (read_script clear_junk 4 3 (replicate 200 0) 0)
        \<lparr>w_replies = [], w_trace = [] @ replicate (length (?bs (chars ''ls'' @ [10]))) (Read 3)\<rparr>"
    using execShell_runs_lines [OF c b(1), where cs1 = "chars ''ls'' @ [10]"] b(2) by blast
  moreover have "read_script clear_junk (4 + length (?bs (chars ''ls''))) 3 (replicate 200 0) 0 first_shell \<lparr>w_replies = ?bs (chars ''ls'') @ rep 0 [] # [], w_trace = []\<rparr> =
      (Inr first_shell, \<lparr>w_replies = [], w_trace = [] @ replicate (length (?bs (chars ''ls''))) (Read 3) @ [Read 3]\<rparr>)"
    using execShell_runs_lines [OF c b(1), where cs1 = "chars ''ls''" and e = "rep 0 []"] b(2) by (simp add: rep_def)
  ultimately show ?thesis by (simp add: chars_def numeral_eq_Suc)
qed

end
