(* ===== verification/Spec2Isabelle.thy ===== *)
theory Spec2Isabelle
  imports Sched_Claims CString_Claims Timer_Claims Interrupts_Claims Process_Claims Exec_Claims Syscall_Claims UserLib_Claims Shell_Claims
begin

text \<open>
  A verification development for sbnix, a small 64-bit kernel with a user library and a shell.

  \<^bold>\<open>The program.\<close>  \<^verbatim>\<open>sys/main.c\<close> indexes the files of a tar archive linked into the kernel, sets up
  physical pages and the kernel's page tables, creates two processes and starts the first.  From then on
  the kernel runs on interrupts: the timer shows a clock and calls the scheduler, the keyboard fills
  a line buffer, a page fault maps or copies a page, and \<^verbatim>\<open>int $128\<close> enters the dispatcher of the
  system calls.  User programs reach it through the stubs of \<^verbatim>\<open>libc\<close>; the shell is one of them.

  \<^bold>\<open>The theories.\<close>  A component \<open>X\<close> has its definitions in the theory \<open>X\<close>, auxiliary facts in \<open>X_Props\<close> and the
  properties in \<open>X_Claims\<close>.

  \<^item> \<open>Prelude\<close>: the C integer types as words, undefined behaviour as an error value, checked array accesses.
  \<^item> \<open>DList\<close>: \<^verbatim>\<open>include/sys/list.h\<close>, intrusive circular lists as two maps from addresses to addresses.
  \<^item> \<open>Task\<close>, \<open>Sched\<close>: \<^verbatim>\<open>include/sys/sched.h\<close> and \<^verbatim>\<open>sys/sched.c\<close>; tasks are records indexed by their
    address, the queues are lists in the list heap, a context switch loads the registers from the kernel
    stack of the task.  \<open>Sched_Spec\<close> has the abstract scheduler on two plain lists.
  \<^item> \<open>PhysMem\<close>, \<open>Paging\<close>, \<open>Paging_Boot\<close>: \<^verbatim>\<open>sys/memory.c\<close>; physical memory is a map from addresses to quadwords, and
    page tables are in it.
  \<^item> \<open>Kernel\<close>: the state of the whole kernel, \<^verbatim>\<open>sys/cow.c\<close> and \<^verbatim>\<open>sys/pagefault.c\<close>; properties in \<open>Cow_Claims\<close>.
  \<^item> \<open>VMem\<close>: byte accesses of the kernel through the page tables of the current process.
  \<^item> \<open>CString\<close>: \<^verbatim>\<open>sys/string.c\<close> and \<^verbatim>\<open>libc/string.c\<close> on buffers with checked \<^verbatim>\<open>int\<close> arithmetic.
  \<^item> \<open>Console\<close>, \<open>Keyboard\<close>, \<open>Timer\<close>: \<^verbatim>\<open>sys/printf.c\<close>, \<^verbatim>\<open>sys/keyb.c\<close>, \<^verbatim>\<open>sys/timer.c\<close>.
  \<^item> \<open>Tarfs\<close>, \<open>Files\<close>: \<^verbatim>\<open>sys/tarfs.c\<close>, \<^verbatim>\<open>sys/pipe.c\<close>, \<^verbatim>\<open>sys/iostream.c\<close>; an entry of the file index is the array of its
    125 bytes, since the code runs from one field into the next.
  \<^item> \<open>UserHeap\<close>, \<open>Process\<close>: \<^verbatim>\<open>sys/malloc.c\<close>, \<^verbatim>\<open>sys/process.c\<close>, \<^verbatim>\<open>sys/elf.c\<close>, \<^verbatim>\<open>sys/fork.c\<close> and the entry of \<^verbatim>\<open>sys/irq.s\<close>.
    \<open>Space_Props\<close> has the address space of a process that shares no page, \<open>Load_Props\<close> the loader on it, and
    \<open>Exec_Props\<close> and \<open>Exec_Claims\<close> the whole of \<^verbatim>\<open>create_process\<close>.
  \<^item> \<open>Interrupts\<close>, \<open>Boot\<close>: the descriptor tables of \<^verbatim>\<open>sys/idt.c\<close>, \<^verbatim>\<open>sys/isrs.c\<close>, \<^verbatim>\<open>sys/irq.c\<close>, \<^verbatim>\<open>sys/gdt.c\<close>, and \<^verbatim>\<open>start\<close>.
  \<^item> \<open>Syscall\<close>: the dispatcher, \<^verbatim>\<open>sys/syscall.c\<close>; \<open>Typing\<close>: the sizes of the kernel's arrays as an invariant.
  \<^item> \<open>UserLib\<close>: \<^verbatim>\<open>libc\<close> as a client of the dispatcher.
  \<^item> \<open>Shell\<close>, \<open>Shell_Run\<close>: \<^verbatim>\<open>bin/sbush/sbush.c\<close>; \<open>Shell\<close> has what it does with lines, words and variables, and \<open>Shell_Run\<close> the
    functions that make system calls, up to \<^verbatim>\<open>main\<close>, as a process that records its calls and goes on with the
    replies of a list.  \<open>Shell_Run_Props\<close> has its steps and its fuel, \<open>Shell_Calls\<close> the calls of commands, pipelines and scripts.

  \<^bold>\<open>Interfaces.\<close>  What one part relies on of another is a locale, interpreted on the definitions of the provider:
  \<open>linked_queues\<close> (\<open>Queue_Intf\<close>, provided by the lists, used by the scheduler), \<open>page_allocator\<close> (\<open>Alloc_Intf\<close>, by
  \<^verbatim>\<open>mem_allocate\<close>), \<open>page_mapper\<close> and \<open>fresh_mapper\<close> (\<open>Map_Intf\<close>, by the page tables, used by the loops that
  map ranges), \<open>byte_mem\<close> (\<open>Mem_Intf\<close>, by virtual memory, used by pipes, strings and the program loader), and \<open>kernel_inv\<close>
  (\<open>Inv_Intf\<close>, a property of the kernel state that loading a program keeps, for the array sizes and for the tasks).

  \<^bold>\<open>What is shown.\<close>  Scheduler: both queues stay well formed under every sequence of calls, each call refines its
  version on plain lists, a switch resumes the saved frame of the next task, and every runnable task gets its turn.  Memory: the allocator is first fit and
  never hands out a page twice; inserting and looking up pages round-trip; booting maps exactly the
  intended windows; ranges are mapped to fresh pages.  Copy on write: a fork shares pages read-only and
  a write fault copies or reclaims the page.  Strings: conversions round-trip and comparison is a
  total order.  Terminal: \<^verbatim>\<open>printk\<close>, and \<^verbatim>\<open>printf\<close> through the system calls, implement an abstract screen;
  the keyboard driver implements a line editor on scan codes, whose Shift lasts for one key and whose Backspace does
  not erase; the timer's interrupt shows the time in ten cells of the screen and preempts, or, with a
  sleeper due among several waiting tasks, does not return.  Files: the index
  holds the archive's members, opening fills a descriptor, a pipe returns what was written up to the first zero byte,
  and redirection leads to it.  Processes:
  the address space of a new process holds the segments of its program and shares the kernel's half,
  a new process starts in user mode at its entry point with cleared registers and on page tables of its own, a forked child is
  queued first and resumes with its parent's registers, descriptors and memory areas, the heap grows by fresh pages that
  cover the request unless it is one of those that come out a page short.  System calls: all of
  them keep the sizes of the kernel's arrays.  Interrupts: every vector leads to its handler.  Shell: which calls a
  typed command, a pipeline and a script make, in which order, and that it never loops without a call.  A few properties state defects, where the code leaves an array or does nothing.

  \<^bold>\<open>Conventions.\<close>  A result \<open>Inl e\<close> is undefined behaviour of the C code or a call that does not come
  back.  A system call that switches to another task has the result \<open>Switch\<close>; for the user library,
  which sees one process, it has none.  Loops over pointers, which need not end, are partial functions with
  result \<open>None\<close>; all others have a termination proof.  Fuel is used for the shell only, whose loop and scripts go on as long
  as the kernel replies: it counts replies, and as much of it as there are replies is shown to be enough.  Uninitialised arrays are
  arguments named \<open>junk\<close>, the scan codes the keyboard sends are an argument \<open>codes\<close>, and the
  archive is an argument, with the address it is linked at.  Tasks, memory areas and list nodes are typed
  heaps beside the quadwords of physical memory: the model assumes that the kernel does not reach them through
  pointers of another type, except that clearing a new task structure clears all of them.  When no page is left,
  \<^verbatim>\<open>kmalloc\<close> and \<^verbatim>\<open>mem_allocate\<close> give frame 0 to the task structure, the page table and the area list at once, which these
  heaps keep apart and the C code does not: the properties of new processes require enough free pages and show that
  those are different ones.  Interrupts arrive between
  calls, as the gates that are installed disable them on entry, and while a line is
  read; of those, the timer's only redraw the clock and are left out.

  \<^bold>\<open>Not modelled.\<close>  The instructions that load the tables (\<^verbatim>\<open>sys/gdt.s\<close>, \<^verbatim>\<open>sys/isr.s\<close>, \<^verbatim>\<open>boot\<close>); \<^verbatim>\<open>irq_handler\<close>, which is
  commented out, so that \<^verbatim>\<open>timer_handler\<close> is never called; the arguments that the shell passes to \<^verbatim>\<open>execve\<close>,
  which ignores them; the demonstration programs under \<^verbatim>\<open>bin\<close>, and \<^verbatim>\<open>newfs\<close>.
\<close>

end
